(* ===== verification/Prelude.thy ===== *)
theory Prelude
  imports Main "HOL-Library.Word" "HOL-Library.Signed_Division"
begin

text \<open>
  Shared vocabulary of the development: the result of a contract call, the machine integers of the
  contracts (\<open>u64\<close> and \<open>u32\<close> as words, \<open>i128\<close> as an integer whose width is checked by every
  operation that can leave it), the vectors of the host as lists, and the generic lemmas on maps,
  sums over maps, words and runs that the component theories use.
\<close>

section \<open>Results of calls\<close>

text \<open>
  A Rust \<^verbatim>\<open>Result<T, E>\<close> is \<open>Ok\<close> or \<open>Err\<close>. \<open>Trap\<close> is a panic or a host error: the call does not
  return at all. In both failing cases the host rolls every storage write of the call back, so a
  failing call carries no state.
\<close>

datatype ('e, 'a) result = Ok 'a | Err 'e | Trap

named_theorems result_simps \<open>inversion of the combinators of \<open>result\<close>\<close>
named_theorems storage_simps \<open>reading a persistent store after writing or extending it\<close>
named_theorems guard_simps \<open>inversion of the guards that open an entrypoint\<close>

fun and_then :: "('e, 'a) result \<Rightarrow> ('a \<Rightarrow> ('e, 'b) result) \<Rightarrow> ('e, 'b) result" where
  "and_then (Ok x) f = f x"
| "and_then (Err e) f = Err e"
| "and_then Trap f = Trap"

fun map_err :: "('e \<Rightarrow> 'f) \<Rightarrow> ('e, 'a) result \<Rightarrow> ('f, 'a) result" where
  "map_err g (Ok x) = Ok x"
| "map_err g (Err e) = Err (g e)"
| "map_err g Trap = Trap"

text \<open>
  \<^verbatim>\<open>try_invoke_contract\<close> turns every failure of the callee into a value: an error the callee returns
  and a panic or host error in it.
\<close>

fun try_invoke :: "('e, 'a) result \<Rightarrow> ('e \<Rightarrow> 'f) \<Rightarrow> 'f \<Rightarrow> ('f, 'a) result" where
  "try_invoke (Ok x) on_err on_trap = Ok x"
| "try_invoke (Err e) on_err on_trap = Err (on_err e)"
| "try_invoke Trap on_err on_trap = Err on_trap"

text \<open>A call through a generated client without \<^verbatim>\<open>try_\<close>: the caller panics on an error of the callee.\<close>

fun call_or_panic :: "('e, 'a) result \<Rightarrow> ('f, 'a) result" where
  "call_or_panic (Ok x) = Ok x"
| "call_or_panic (Err e) = Trap"
| "call_or_panic Trap = Trap"

definition ok_or :: "'a option \<Rightarrow> 'e \<Rightarrow> ('e, 'a) result" where
  "ok_or x e = (case x of None \<Rightarrow> Err e | Some v \<Rightarrow> Ok v)"

definition unwrap_or :: "'a option \<Rightarrow> 'a \<Rightarrow> 'a" where
  "unwrap_or x d = (case x of None \<Rightarrow> d | Some v \<Rightarrow> v)"

definition is_ok :: "('e, 'a) result \<Rightarrow> bool" where
  "is_ok r = (case r of Ok _ \<Rightarrow> True | _ \<Rightarrow> False)"

section \<open>Machine integers\<close>

type_synonym u64 = "64 word"
type_synonym u32 = "32 word"
type_synonym u8 = "8 word"

text \<open>The range of \<open>i128\<close>, and the checked, saturating and wrapping readings of a result.\<close>

definition i128_max :: int where
  "i128_max = 2 ^ 127 - 1"

definition i128_min :: int where
  "i128_min = - (2 ^ 127)"

definition fits_i128 :: "int \<Rightarrow> bool" where
  "fits_i128 x \<longleftrightarrow> i128_min \<le> x \<and> x \<le> i128_max"

definition checked_i128 :: "int \<Rightarrow> int option" where
  "checked_i128 x = (if fits_i128 x then Some x else None)"

definition saturate_i128 :: "int \<Rightarrow> int" where
  "saturate_i128 x = max i128_min (min i128_max x)"

definition wrap_i128 :: "int \<Rightarrow> int" where
  "wrap_i128 x = (x + 2 ^ 127) mod 2 ^ 128 - 2 ^ 127"

definition saturating_sub_u64 :: "u64 \<Rightarrow> u64 \<Rightarrow> u64" where
  "saturating_sub_u64 a b = (if b \<le> a then a - b else 0)"

definition saturating_add_u64 :: "u64 \<Rightarrow> u64 \<Rightarrow> u64" where
  "saturating_add_u64 a b = (if unat a + unat b < 2 ^ 64 then a + b else - 1)"

definition checked_add_u64 :: "u64 \<Rightarrow> u64 \<Rightarrow> u64 option" where
  "checked_add_u64 a b = (if unat a + unat b < 2 ^ 64 then Some (a + b) else None)"

section \<open>Vectors\<close>

text \<open>A host \<^verbatim>\<open>Vec\<close> is a list; its length is a \<open>u32\<close> and reading past the end is \<open>None\<close>.\<close>

definition vec_len :: "'a list \<Rightarrow> u32" where
  "vec_len xs = of_nat (length xs)"

definition vec_get :: "'a list \<Rightarrow> nat \<Rightarrow> 'a option" where
  "vec_get xs i = (if i < length xs then Some (xs ! i) else None)"

text \<open>
  \<^verbatim>\<open>for i in start..end { if let Some(x) = get(i) { result.push_back(x) } }\<close>: the loop all the paged
  getters share.
\<close>

definition collect_range :: "(nat \<Rightarrow> 'a option) \<Rightarrow> nat \<Rightarrow> nat \<Rightarrow> 'a list" where
  "collect_range get lo hi = List.map_filter get [lo..<hi]"

section \<open>Sums over maps and runs of a step relation\<close>

definition map_total :: "('k \<rightharpoonup> int) \<Rightarrow> ('k \<Rightarrow> bool) \<Rightarrow> int" where
  "map_total m P = (\<Sum>k\<in>{k \<in> dom m. P k}. the (m k))"

text \<open>\<open>run step s ls t\<close>: the calls labelled \<open>ls\<close> lead from \<open>s\<close> to \<open>t\<close>, in this order.\<close>

inductive run :: "('s \<Rightarrow> 'l \<Rightarrow> 's \<Rightarrow> bool) \<Rightarrow> 's \<Rightarrow> 'l list \<Rightarrow> 's \<Rightarrow> bool"
  for step :: "'s \<Rightarrow> 'l \<Rightarrow> 's \<Rightarrow> bool" where
  run_refl: "run step s [] s"
| run_snoc: "run step s ls t \<Longrightarrow> step t l u \<Longrightarrow> run step s (ls @ [l]) u"

inductive_cases run_NilE: "run step s [] t"
inductive_cases run_snocE: "run step s (ls @ [l]) u"

section \<open>Lemmas on results\<close>

lemma and_then_Ok [result_simps]: "and_then r f = Ok y \<longleftrightarrow> (\<exists>x. r = Ok x \<and> f x = Ok y)"
  by (cases r) auto

lemma and_then_Err [result_simps]:
  "and_then r f = Err e \<longleftrightarrow> r = Err e \<or> (\<exists>x. r = Ok x \<and> f x = Err e)"
  by (cases r) auto

lemma ok_or_Ok [result_simps]: "ok_or x e = Ok v \<longleftrightarrow> x = Some v"
  by (auto simp: ok_or_def split: option.splits)

lemma ok_or_Err [result_simps]: "ok_or x e = Err e' \<longleftrightarrow> x = None \<and> e' = e"
  by (auto simp: ok_or_def split: option.splits)

lemma map_err_Ok [result_simps]: "map_err g r = Ok x \<longleftrightarrow> r = Ok x"
  by (cases r) auto

lemma try_invoke_Ok [result_simps]: "try_invoke r f e = Ok x \<longleftrightarrow> r = Ok x"
  by (cases r) auto

lemma call_or_panic_Ok [result_simps]: "call_or_panic r = Ok x \<longleftrightarrow> r = Ok x"
  by (cases r) auto

lemma guarded_Ok: "(if p then Err e else r) = Ok y \<longleftrightarrow> \<not> p \<and> r = Ok y"
  by simp

lemma unwrap_or_simps [simp]: "unwrap_or None d = d" "unwrap_or (Some v) d = v"
  by (simp_all add: unwrap_or_def)

lemma is_ok_simps [simp]: "is_ok (Ok x) = True" "is_ok (Err e) = False" "is_ok Trap = False"
  by (simp_all add: is_ok_def)

section \<open>Lemmas on machine integers\<close>

lemma fits_i128_between: "fits_i128 lo \<Longrightarrow> fits_i128 hi \<Longrightarrow> lo \<le> x \<Longrightarrow> x \<le> hi \<Longrightarrow> fits_i128 x"
  by (simp add: fits_i128_def)

lemma fits_nonneg: "0 \<le> x \<Longrightarrow> x \<le> i128_max \<Longrightarrow> fits_i128 x"
  by (simp add: fits_i128_def i128_min_def)

lemma fits_i128_zero [simp]: "fits_i128 0"
  by (simp add: fits_i128_def i128_min_def i128_max_def)

lemma checked_i128_Some [simp]: "checked_i128 x = Some y \<longleftrightarrow> fits_i128 x \<and> y = x"
  by (auto simp: checked_i128_def)

lemma checked_i128_None [simp]: "checked_i128 x = None \<longleftrightarrow> \<not> fits_i128 x"
  by (simp add: checked_i128_def)

lemma fits_saturate_i128 [simp]: "fits_i128 (saturate_i128 x)"
  by (simp add: fits_i128_def saturate_i128_def i128_min_def i128_max_def)

lemma saturate_i128_id: "fits_i128 x \<Longrightarrow> saturate_i128 x = x"
  by (simp add: fits_i128_def saturate_i128_def)

lemma fits_wrap_i128 [simp]: "fits_i128 (wrap_i128 x)"
proof -
  have "0 \<le> (x + 2 ^ 127) mod 2 ^ 128" "(x + 2 ^ 127) mod 2 ^ 128 < (2 ^ 128 :: int)"
    by simp_all
  then show ?thesis
    by (simp add: fits_i128_def wrap_i128_def i128_min_def i128_max_def)
qed

lemma wrap_i128_id: "fits_i128 x \<Longrightarrow> wrap_i128 x = x"
proof -
  assume "fits_i128 x"
  then have "0 \<le> x + 2 ^ 127" "x + 2 ^ 127 < (2 ^ 128 :: int)"
    by (simp_all add: fits_i128_def i128_min_def i128_max_def)
  then show ?thesis by (simp add: wrap_i128_def)
qed

lemma sdiv_nonneg: "0 \<le> a \<Longrightarrow> 0 < b \<Longrightarrow> a sdiv b = a div (b :: int)"
  by (cases "a = 0") (simp_all add: signed_divide_int_def)

lemma word_neq_inc: "(w :: 'l::len word) \<noteq> w + 1"
  by simp

lemma unat_inc: "unat w + 1 < 2 ^ LENGTH('l) \<Longrightarrow> unat (w + 1 :: 'l::len word) = unat w + 1"
  by (simp add: unat_word_ariths)

lemma unat_inc_le: "unat (w + 1 :: 'l::len word) \<le> unat w + 1"
  by (simp add: unat_word_ariths)

lemma of_nat_u64_inj:
  assumes "(of_nat j :: u64) = of_nat k" and "j < 2 ^ 64" and "k < 2 ^ 64"
  shows "j = k"
proof -
  have "unat (of_nat j :: u64) = unat (of_nat k :: u64)" using assms(1) by (rule arg_cong)
  with assms(2,3) show ?thesis by (simp add: unsigned_of_nat take_bit_nat_eq_self)
qed

lemma unat_saturating_add: "unat (saturating_add_u64 a b) = min (unat a + unat b) (2 ^ 64 - 1)"
  using unsigned_less [of a, where 'a = nat] unsigned_less [of b, where 'a = nat]
  by (auto simp: saturating_add_u64_def unat_word_ariths unsigned_minus_1_eq_mask mask_eq_exp_minus_1)

lemma saturating_add_mono: "a \<le> a' \<Longrightarrow> b \<le> b' \<Longrightarrow> saturating_add_u64 a b \<le> saturating_add_u64 a' b'"
  by (simp add: word_le_nat_alt unat_saturating_add min_le_iff_disj)

lemma saturating_sub_u64_le: "saturating_sub_u64 a b \<le> d \<longleftrightarrow> unat a \<le> unat b + unat d"
  by (auto simp: saturating_sub_u64_def word_le_nat_alt unat_sub)

section \<open>Lemmas on vectors\<close>

lemma count_list_distinct: "distinct xs \<Longrightarrow> x \<in> set xs \<Longrightarrow> count_list xs x = 1"
  by (induction xs) auto

lemma vec_len_Nil [simp]: "vec_len [] = 0"
  by (simp add: vec_len_def)

lemma vec_get_map_filter:
  "List.map_filter (vec_get xs) [lo..<hi] = take (hi - lo) (drop lo xs)"
proof (induction hi)
  case 0
  then show ?case by (simp add: map_filter_def)
next
  case (Suc hi)
  show ?case
  proof (cases "lo \<le> hi")
    case True
    then have "Suc hi - lo = Suc (hi - lo)" by simp
    with True Suc.IH show ?thesis
      by (auto simp: map_filter_def vec_get_def take_Suc_conv_app_nth)
  next
    case False
    then show ?thesis by (simp add: map_filter_def)
  qed
qed

lemma collect_range_vec: "collect_range (vec_get xs) lo hi = take (hi - lo) (drop lo xs)"
  by (simp add: collect_range_def vec_get_map_filter)

text \<open>
  The arithmetic of the paged getters: \<open>end\<close> is computed in \<open>u64\<close>, clamped to the length and cast
  back, so no page is cut short by a wrap-around.
\<close>

lemma page_end:
  fixes start count len :: u32
  assumes "start < len"
  shows "unat (ucast (min (ucast start + ucast count :: u64) (ucast len)) :: u32)
           = min (unat start + unat count) (unat len)"
proof -
  have s: "unat start < 2 ^ 32" and c: "unat count < 2 ^ 32" and l: "unat len < 2 ^ 32"
    using unsigned_less [of start, where 'a = nat] unsigned_less [of count, where 'a = nat]
      unsigned_less [of len, where 'a = nat] by simp_all
  have us: "unat (ucast start :: u64) = unat start" and uc: "unat (ucast count :: u64) = unat count"
    and ul: "unat (ucast len :: u64) = unat len"
    using s c l by (simp_all add: unsigned_ucast_eq take_bit_nat_eq_self)
  have sum: "unat (ucast start + ucast count :: u64) = unat start + unat count"
    using s c us uc by (subst unat_add_lem [THEN iffD1]) simp_all
  have "unat (min (ucast start + ucast count :: u64) (ucast len)) = min (unat start + unat count) (unat len)"
    by (simp add: min_def word_le_nat_alt sum ul)
  then show ?thesis
    using l by (simp add: unsigned_ucast_eq take_bit_nat_eq_self min_less_iff_disj)
qed

section \<open>Lemmas on sums over maps\<close>

lemma map_total_empty [simp]: "map_total Map.empty P = 0"
  by (simp add: map_total_def)

lemma map_total_upd:
  assumes "finite (dom m)"
  shows "map_total (m(k \<mapsto> v)) P = map_total m P + (if P k then v - unwrap_or (m k) 0 else 0)"
proof -
  let ?D = "{x \<in> dom m. P x} - {k}"
  have fin: "finite ?D" using assms by simp
  have rest: "(\<Sum>x\<in>?D. the ((m(k \<mapsto> v)) x)) = (\<Sum>x\<in>?D. the (m x))"
    by (rule sum.cong) auto
  have new: "map_total (m(k \<mapsto> v)) P = (\<Sum>x\<in>?D. the (m x)) + (if P k then v else 0)"
  proof (cases "P k")
    case True
    then have dom: "{x \<in> dom (m(k \<mapsto> v)). P x} = insert k ?D" by auto
    show ?thesis
      unfolding map_total_def dom using True fin rest by (subst sum.insert) simp_all
  next
    case False
    then have dom: "{x \<in> dom (m(k \<mapsto> v)). P x} = ?D" by auto
    show ?thesis
      unfolding map_total_def dom using False rest by simp
  qed
  have old: "map_total m P = (\<Sum>x\<in>?D. the (m x)) + (if P k then unwrap_or (m k) 0 else 0)"
  proof (cases "k \<in> dom m \<and> P k")
    case True
    then have dom: "{x \<in> dom m. P x} = insert k ?D" by auto
    show ?thesis
      unfolding map_total_def by (subst dom, subst sum.insert) (use True fin in auto)
  next
    case False
    then have dom: "{x \<in> dom m. P x} = ?D" and none: "P k \<Longrightarrow> m k = None" by auto
    show ?thesis
      unfolding map_total_def by (subst dom) (use none in auto)
  qed
  from new old show ?thesis by simp
qed

lemma map_total_nonneg: "(\<And>k v. m k = Some v \<Longrightarrow> P k \<Longrightarrow> 0 \<le> v) \<Longrightarrow> 0 \<le> map_total m P"
  by (auto simp: map_total_def intro!: sum_nonneg)

lemma map_total_member_le:
  assumes "finite (dom m)" and "\<And>k v. m k = Some v \<Longrightarrow> P k \<Longrightarrow> 0 \<le> v" and "m k = Some v" and "P k"
  shows "v \<le> map_total m P"
proof -
  have "the (m k) \<le> (\<Sum>x\<in>{x \<in> dom m. P x}. the (m x))"
    by (rule member_le_sum) (use assms in auto)
  with assms show ?thesis by (simp add: map_total_def)
qed

lemma map_total_cong: "(\<And>k. P k \<Longrightarrow> m k = m' k) \<Longrightarrow> map_total m P = map_total m' P"
  unfolding map_total_def by (rule sum.cong) (auto simp: dom_def)

lemma map_total_none: "(\<And>k. P k \<Longrightarrow> m k = None) \<Longrightarrow> map_total m P = 0"
proof -
  assume "\<And>k. P k \<Longrightarrow> m k = None"
  then have "{k \<in> dom m. P k} = {}" by auto
  then show ?thesis by (simp only: map_total_def sum.empty)
qed

section \<open>Machines: invariants of runs\<close>

text \<open>
  The contract every component's step relation satisfies: the invariant may mention how many calls
  have been made, because the counters of the contracts are 64 bits wide; it holds in every state
  that fewer than \<open>2 ^ 64\<close> calls can reach.
\<close>

locale machine =
  fixes step :: "'s \<Rightarrow> 'l \<Rightarrow> 's \<Rightarrow> bool"
    and inv :: "nat \<Rightarrow> 's \<Rightarrow> bool"
  assumes inv_step: "inv n s \<Longrightarrow> step s l t \<Longrightarrow> Suc n < 2 ^ 64 \<Longrightarrow> inv (Suc n) t"
begin

lemma inv_run:
  assumes "run step s ls t" and "inv n s" and "n + length ls < 2 ^ 64"
  shows "inv (n + length ls) t"
  using assms
proof (induction rule: run.induct)
  case (run_refl s)
  then show ?case by simp
next
  case (run_snoc s ls t l u)
  then have "inv (n + length ls) t" by simp
  from inv_step [OF this run_snoc.hyps(2)] run_snoc.prems show ?case by simp
qed

end

lemma run_Cons: "step s l t \<Longrightarrow> run step t ls u \<Longrightarrow> run step s (l # ls) u"
proof (induction ls arbitrary: u rule: rev_induct)
  case Nil
  then have "u = t" by (auto elim: run_NilE)
  with Nil.prems(1) run_snoc [OF run_refl [of step s]] show ?case by fastforce
next
  case (snoc x xs)
  from snoc.prems(2) obtain v where "run step t xs v" "step v x u" by (auto elim: run_snocE)
  with snoc.IH snoc.prems(1) run_snoc [of step s "l # xs" v x u] show ?case by simp
qed

lemma run_append: "run step s ls t \<Longrightarrow> run step t ls' u \<Longrightarrow> run step s (ls @ ls') u"
proof (induction ls' arbitrary: u rule: rev_induct)
  case Nil
  then show ?case by (auto elim: run_NilE)
next
  case (snoc x xs)
  from snoc.prems(2) obtain v where "run step t xs v" "step v x u" by (auto elim: run_snocE)
  with snoc.IH snoc.prems(1) run_snoc [of step s "ls @ xs" v x u] show ?case by simp
qed

text \<open>
  A detailed step relation that simulates an abstract one, call by call, refines its runs, and every
  invariant of the abstract machine is an invariant of the detailed one. \<open>wt\<close> says that the numbers
  of a detailed state lie within their machine types; it is kept by every step.
\<close>

locale simulation =
  fixes cstep :: "'s \<Rightarrow> 'l \<Rightarrow> 's \<Rightarrow> bool"
    and astep :: "'a \<Rightarrow> 'l \<Rightarrow> 'a \<Rightarrow> bool"
    and abs :: "'s \<Rightarrow> 'a"
    and wt :: "'s \<Rightarrow> bool"
  assumes sim: "cstep s l t \<Longrightarrow> wt s \<Longrightarrow> astep (abs s) l (abs t)"
    and wt_step: "cstep s l t \<Longrightarrow> wt s \<Longrightarrow> wt t"
begin

lemma wt_run: "run cstep s ls t \<Longrightarrow> wt s \<Longrightarrow> wt t"
  by (induction rule: run.induct) (auto intro: wt_step)

lemma run_guarded: "run cstep s ls t \<Longrightarrow> wt s \<Longrightarrow> run (\<lambda>s l t. wt s \<and> cstep s l t) s ls t"
  by (induction rule: run.induct) (auto intro: run.intros wt_run)

lemma run_refines: "run cstep s ls t \<Longrightarrow> wt s \<Longrightarrow> run astep (abs s) ls (abs t)"
  by (induction rule: run.induct) (auto intro: run.intros sim wt_run)

end

locale simulated_machine = simulation cstep astep abs wt + machine astep inv
  for cstep :: "'s \<Rightarrow> 'l \<Rightarrow> 's \<Rightarrow> bool" and astep :: "'a \<Rightarrow> 'l \<Rightarrow> 'a \<Rightarrow> bool"
    and abs :: "'s \<Rightarrow> 'a" and wt :: "'s \<Rightarrow> bool" and inv :: "nat \<Rightarrow> 'a \<Rightarrow> bool"

sublocale simulated_machine \<subseteq> conc: machine cstep "\<lambda>n s. wt s \<and> inv n (abs s)"
  by unfold_locales (blast intro: sim wt_step inv_step)

end
