(* ===== verification/Host.thy ===== *)
theory Host
  imports Prelude
begin

text \<open>
  What the contracts use of their host: the ledger clock, authorisation of addresses, persistent
  storage entries with a time to live, unchecked arithmetic, and the calling convention between
  contracts. The host itself is not part of the repository; what it decides on its own (who signed,
  what time it is, the life of an entry, whether the build checks overflow) is a field of \<open>env\<close>,
  an argument of every entrypoint.
\<close>

section \<open>Environment of a call\<close>

datatype address = Address nat

type_synonym symbol = string
type_synonym bytes32 = "u8 list"

text \<open>
  \<^item> \<open>timestamp\<close>: \<^verbatim>\<open>env.ledger().timestamp()\<close>, fixed during a call;
  \<^item> \<open>current_contract\<close> and \<open>invoker\<close>: the contract that runs and the contract that called it, if any;
  \<^item> \<open>has_signed a c\<close>: the transaction carries an authorisation of address \<open>a\<close> for contract \<open>c\<close>;
  \<^item> \<open>overflow_checks\<close>: whether the build profile checks the plain operators \<open>+\<close>, \<open>-\<close> and \<open>*\<close>
    (the workspace's \<^verbatim>\<open>Cargo.toml\<close> sets no profile, so debug builds do and release builds wrap);
  \<^item> \<open>ttl_new\<close> and \<open>ttl_extend live threshold extend_to\<close>: the ledger until which the host keeps a new
    entry, and an entry whose life is extended.
\<close>

record env =
  timestamp :: u64
  current_contract :: address
  invoker :: "address option"
  has_signed :: "address \<Rightarrow> address \<Rightarrow> bool"
  overflow_checks :: bool
  ttl_new :: u32
  ttl_extend :: "u32 \<Rightarrow> u32 \<Rightarrow> u32 \<Rightarrow> u32"

text \<open>
  \<^verbatim>\<open>address.require_auth()\<close>: satisfied by a signature for the running contract, or by the address
  being the contract that made the call; otherwise the host aborts the call.
\<close>

definition require_auth :: "env \<Rightarrow> address \<Rightarrow> ('e, unit) result" where
  "require_auth env a =
     (if has_signed env a (current_contract env) \<or> invoker env = Some a then Ok () else Trap)"

text \<open>The environment a callee sees when the running contract invokes it.\<close>

definition call_env :: "env \<Rightarrow> address \<Rightarrow> env" where
  "call_env env callee = env\<lparr>current_contract := callee, invoker := Some (current_contract env)\<rparr>"

text \<open>
  The state of the contract at an address, among the contracts of one kind that the caller can reach;
  invoking an address that is no such contract fails in the host.
\<close>

definition contract_at :: "(address \<rightharpoonup> 's) \<Rightarrow> address \<Rightarrow> ('e, 's) result" where
  "contract_at W a = (case W a of None \<Rightarrow> Trap | Some s \<Rightarrow> Ok s)"

section \<open>Unchecked arithmetic\<close>

text \<open>
  The plain operators of Rust: the exact result where it fits; where it does not, a panic if the
  profile checks overflow and the wrapped result otherwise.
\<close>

definition arith_i128 :: "env \<Rightarrow> int \<Rightarrow> ('e, int) result" where
  "arith_i128 env x =
     (if fits_i128 x then Ok x else if overflow_checks env then Trap else Ok (wrap_i128 x))"

definition add_word :: "env \<Rightarrow> 'l::len word \<Rightarrow> 'l word \<Rightarrow> ('e, 'l word) result" where
  "add_word env a b =
     (if unat a + unat b < 2 ^ LENGTH('l) \<or> \<not> overflow_checks env then Ok (a + b) else Trap)"

section \<open>Persistent storage\<close>

text \<open>
  One family of keys of a contract's persistent storage (all keys \<^verbatim>\<open>DataKey::F(..)\<close> of one variant
  \<open>F\<close>) is a map from the variant's arguments to the entry and the ledger until which it lives.
\<close>

type_synonym ('k, 'v) pstore = "'k \<rightharpoonup> 'v \<times> u32"

definition pget :: "('k, 'v) pstore \<Rightarrow> 'k \<rightharpoonup> 'v" where
  "pget m = (\<lambda>k. map_option fst (m k))"

definition phas :: "('k, 'v) pstore \<Rightarrow> 'k \<Rightarrow> bool" where
  "phas m k \<longleftrightarrow> m k \<noteq> None"

definition pset :: "env \<Rightarrow> ('k, 'v) pstore \<Rightarrow> 'k \<Rightarrow> 'v \<Rightarrow> ('k, 'v) pstore" where
  "pset env m k v = m(k \<mapsto> (v, case m k of None \<Rightarrow> ttl_new env | Some (_, l) \<Rightarrow> l))"

definition premove :: "('k, 'v) pstore \<Rightarrow> 'k \<Rightarrow> ('k, 'v) pstore" where
  "premove m k = m(k := None)"

text \<open>
  \<^verbatim>\<open>extend_ttl(key, threshold, extend_to)\<close> on an entry that is present; on a missing entry the host
  fails, which \<open>pext_or_trap\<close> adds. \<open>pext\<close> is used where the code has just read or written the entry.
\<close>

definition pext :: "env \<Rightarrow> u32 \<Rightarrow> u32 \<Rightarrow> ('k, 'v) pstore \<Rightarrow> 'k \<Rightarrow> ('k, 'v) pstore" where
  "pext env threshold extend_to m k =
     (case m k of None \<Rightarrow> m | Some (v, l) \<Rightarrow> m(k \<mapsto> (v, ttl_extend env l threshold extend_to)))"

definition pext_or_trap ::
    "env \<Rightarrow> u32 \<Rightarrow> u32 \<Rightarrow> ('k, 'v) pstore \<Rightarrow> 'k \<Rightarrow> ('e, ('k, 'v) pstore) result" where
  "pext_or_trap env threshold extend_to m k =
     (if phas m k then Ok (pext env threshold extend_to m k) else Trap)"

text \<open>Writing an entry and extending its life in one step, as every contract does.\<close>

definition pwrite :: "env \<Rightarrow> u32 \<Rightarrow> u32 \<Rightarrow> ('k, 'v) pstore \<Rightarrow> 'k \<Rightarrow> 'v \<Rightarrow> ('k, 'v) pstore" where
  "pwrite env threshold extend_to m k v = pext env threshold extend_to (pset env m k v) k"

section \<open>Labels of calls\<close>

text \<open>
  A nonce-guarded call is labelled with the caller and the nonce it presents; a call without a nonce
  is labelled \<open>None\<close>.
\<close>

type_synonym call_label = "(address \<times> u64) option"

text \<open>Where the time of a call matters to what is stated of a run, it is part of the label.\<close>

type_synonym timed_label = "u64 \<times> call_label"

section \<open>A concrete environment\<close>

text \<open>
  The environment of the examples that witness the theorems: every address has signed, the build
  does not check overflow, and an extension sets the remaining life to \<open>extend_to\<close>.
\<close>

definition sample_env :: "u64 \<Rightarrow> env" where
  "sample_env now =
     \<lparr>timestamp = now, current_contract = Address 100, invoker = None, has_signed = (\<lambda>_ _. True),
      overflow_checks = False, ttl_new = 4096, ttl_extend = (\<lambda>_ _ extend_to. extend_to)\<rparr>"

section \<open>Lemmas on the environment\<close>

lemma timestamp_sample [simp]: "timestamp (sample_env now) = now"
  by (simp add: sample_env_def)

instantiation address :: linorder
begin

definition less_eq_address :: "address \<Rightarrow> address \<Rightarrow> bool" where
  "less_eq_address a b = (case (a, b) of (Address m, Address n) \<Rightarrow> m \<le> n)"

definition less_address :: "address \<Rightarrow> address \<Rightarrow> bool" where
  "less_address a b = (case (a, b) of (Address m, Address n) \<Rightarrow> m < n)"

instance
  by standard (auto simp: less_eq_address_def less_address_def split: address.splits)

end

lemma require_auth_Ok [guard_simps]:
  "require_auth env a = Ok u \<longleftrightarrow>
     has_signed env a (current_contract env) \<or> invoker env = Some a"
  by (simp add: require_auth_def)

lemma require_auth_not_Err [guard_simps]: "require_auth env a \<noteq> Err e"
  by (simp add: require_auth_def)

lemma contract_at_Ok [result_simps]: "contract_at W a = Ok s \<longleftrightarrow> W a = Some s"
  by (auto simp: contract_at_def split: option.splits)

lemma add_word_OkD [guard_simps]: "add_word env a b = Ok c \<Longrightarrow> c = a + b"
  by (auto simp: add_word_def split: if_splits)

lemma add_word_fits:
  "unat a + unat b < 2 ^ LENGTH('l) \<Longrightarrow> add_word env a (b :: 'l::len word) = Ok (a + b)"
  by (simp add: add_word_def)

lemma arith_i128_fits: "fits_i128 x \<Longrightarrow> arith_i128 env x = Ok x"
  by (simp add: arith_i128_def)

lemma arith_i128_OkD:
  "arith_i128 env x = Ok y \<Longrightarrow> y = (if fits_i128 x then x else wrap_i128 x)"
  by (auto simp: arith_i128_def split: if_splits)

lemma arith_i128_not_Err [guard_simps]: "arith_i128 env x \<noteq> Err e" "add_word env a b \<noteq> Err e"
  by (simp_all add: arith_i128_def add_word_def)

section \<open>Lemmas on storage\<close>

lemma pget_empty [storage_simps]: "pget Map.empty = Map.empty"
  by (simp add: pget_def)

lemma pget_pset [storage_simps]: "pget (pset env m k v) = (pget m)(k \<mapsto> v)"
  by (auto simp: pget_def pset_def)

lemma pget_premove [storage_simps]: "pget (premove m k) = (pget m)(k := None)"
  by (auto simp: pget_def premove_def)

lemma pget_pext [storage_simps]: "pget (pext env t e m k) = pget m"
  by (auto simp: pget_def pext_def fun_eq_iff split: option.splits)

lemma pget_pwrite [storage_simps]: "pget (pwrite env t e m k v) = (pget m)(k \<mapsto> v)"
  by (simp add: pwrite_def storage_simps)

lemma phas_pget [storage_simps]: "phas m k \<longleftrightarrow> pget m k \<noteq> None"
  by (simp add: phas_def pget_def)

lemma pext_or_trap_Ok [storage_simps]:
  "pext_or_trap env t e m k = Ok m' \<longleftrightarrow> pget m k \<noteq> None \<and> m' = pext env t e m k"
  by (auto simp: pext_or_trap_def phas_pget)

lemma pext_or_trap_not_Err [storage_simps]: "pext_or_trap env t e m k \<noteq> Err x"
  by (simp add: pext_or_trap_def)

section \<open>Replay protection\<close>

text \<open>No request, that is, no pair of caller and nonce, occurs twice.\<close>

definition unrepeated :: "call_label list \<Rightarrow> bool" where
  "unrepeated rs \<longleftrightarrow> distinct (filter (\<lambda>r. r \<noteq> None) rs)"

text \<open>
  The interface of a contract that guards its calls with nonces: a labelled call is accepted only
  with the caller's current nonce, and raises that nonce, and no other, by one.
\<close>

fun calls_of :: "address \<Rightarrow> call_label list \<Rightarrow> nat" where
  "calls_of a [] = 0"
| "calls_of a (l # ls) =
     (case l of None \<Rightarrow> 0 | Some (b, _) \<Rightarrow> if b = a then 1 else 0) + calls_of a ls"

lemma calls_of_append: "calls_of a (ls @ ls') = calls_of a ls + calls_of a ls'"
  by (induction ls) auto

lemma calls_of_le: "calls_of a ls \<le> length ls"
  by (induction ls) (auto split: option.splits)

locale nonce_machine =
  fixes step :: "'s \<Rightarrow> 'l \<Rightarrow> 's \<Rightarrow> bool"
    and request :: "'l \<Rightarrow> call_label"
    and nonce_of :: "'s \<Rightarrow> address \<Rightarrow> u64"
  assumes consume: "step s l t \<Longrightarrow> request l = Some (a, n) \<Longrightarrow>
      nonce_of s a = n \<and> nonce_of t = (nonce_of s)(a := n + 1)"
    and silent: "step s l t \<Longrightarrow> request l = None \<Longrightarrow> nonce_of t = nonce_of s"
begin

lemma run_nonce:
  assumes "run step s ls t"
  shows "nonce_of t a = nonce_of s a + of_nat (calls_of a (map request ls))"
  using assms
proof (induction rule: run.induct)
  case (run_refl s)
  then show ?case by simp
next
  case (run_snoc s ls t l u)
  then show ?case
    by (cases "request l") (auto simp: calls_of_append dest: consume silent)
qed

lemma run_label:
  assumes "run step s ls t" and "Some (a, n) \<in> request ` set ls"
  shows "\<exists>j < calls_of a (map request ls). n = nonce_of s a + of_nat j"
  using assms
proof (induction rule: run.induct)
  case (run_refl s)
  then show ?case by simp
next
  case (run_snoc s ls t l u)
  show ?case
  proof (cases "request l = Some (a, n)")
    case True
    with run_snoc.hyps have "n = nonce_of s a + of_nat (calls_of a (map request ls))"
      using consume run_nonce by metis
    moreover have "calls_of a (map request ls) < calls_of a (map request (ls @ [l]))"
      by (simp add: calls_of_append True)
    ultimately show ?thesis by blast
  next
    case False
    with run_snoc.prems run_snoc.IH obtain j
      where "j < calls_of a (map request ls)" "n = nonce_of s a + of_nat j" by auto
    moreover have "calls_of a (map request ls) \<le> calls_of a (map request (ls @ [l]))" by (simp add: calls_of_append)
    ultimately show ?thesis by (intro exI [of _ j]) simp
  qed
qed

text \<open>Within \<open>2 ^ 64\<close> calls no signed request, that is, no pair of caller and nonce, is accepted twice.\<close>

lemma no_replay:
  assumes "run step s ls t" and "length ls < 2 ^ 64"
  shows "distinct (filter (\<lambda>r. r \<noteq> None) (map request ls))"
  using assms
proof (induction rule: run.induct)
  case (run_refl s)
  then show ?case by simp
next
  case (run_snoc s ls t l u)
  show ?case
  proof (cases "request l")
    case None
    with run_snoc show ?thesis by simp
  next
    case (Some p)
    obtain a n where p: "p = (a, n)" by (cases p)
    have n: "n = nonce_of s a + of_nat (calls_of a (map request ls))"
      using consume run_nonce run_snoc.hyps Some p by metis
    have "request l \<notin> request ` set ls"
    proof
      assume "request l \<in> request ` set ls"
      then obtain j where j: "j < calls_of a (map request ls)" "n = nonce_of s a + of_nat j"
        using run_label [OF run_snoc.hyps(1), of a n] Some p by auto
      with n have "(of_nat j :: u64) = of_nat (calls_of a (map request ls))" by simp
      moreover have "calls_of a (map request ls) < 2 ^ 64"
        using calls_of_le [of a "map request ls"] run_snoc.prems by simp
      ultimately have "j = calls_of a (map request ls)"
        using j(1) by (intro of_nat_u64_inj) simp_all
      with j(1) show False by simp
    qed
    with run_snoc Some show ?thesis by auto
  qed
qed

end

end
