(* ===== verification/Shared.thy ===== *)
theory Shared
  imports Host
begin

text \<open>
  The types of \<^verbatim>\<open>contracts/shared\<close>: the error enumerations of the seven contracts and the data they
  exchange. Variants keep their Rust names and are written with the name of the enumeration in front
  (\<open>BondError.Overflow\<close> for \<^verbatim>\<open>BondError::Overflow\<close>); a field of a struct carries a short prefix of
  the struct's name, because record fields are global. Two interfaces follow: the rotation of the
  administrator in two steps, which contracts have in common, and the bond tokens as other contracts see them.
\<close>

section \<open>Errors\<close>

datatype BondError =
  NotInitialized | Unauthorized | InvalidNonce | BondNotFound | BondAlreadyMatured
| InsufficientSupply | ZeroAmount | ProjectNotApproved | Overflow | ReportNotVerified
| InvalidReport | PeriodAlreadyDistributed | AlreadyProcessed | NotYetMature
| MaturityDateInPast | InsufficientBalance

datatype OracleError =
  NotInitialized | Unauthorized | InvalidNonce | ProviderNotFound | ProviderAlreadyExists
| ReportNotFound | ReportAlreadyVerified | ChallengeWindowExpired | InsufficientStake
| InvalidSignature | InvalidResolution | SelfChallenge | StakeLocked | InvalidThreshold
| ProjectRegistryNotConfigured | ProjectNotFound | ProjectNotApproved
| ProjectRegistryCallFailed | OverlappingReportPeriod | ChallengeAlreadyExists
| NoPendingAdminChange | TimelockNotElapsed | InsufficientChallengeBond | AlreadyVoted
| ChallengeNotStale | BackdatedReportPeriod

datatype DEXError =
  NotInitialized | Unauthorized | InvalidNonce | OrderNotFound | OrderAlreadyFilled
| InsufficientBalance | SelfBuyNotAllowed | OrderExpired | ZeroAmount | InsufficientFunds
| Overflow | SellerBalanceDepleted | InvalidRange

datatype RegistryError =
  NotInitialized | Unauthorized | ProjectNotFound | ProjectAlreadyExists
| InvalidStatusTransition | InvalidNonce | OracleConsumerNotSet | ProjectNotApproved
| ProjectInactive | CannotSuspend | NoPendingAdminChange | TimelockNotElapsed

datatype CreditError =
  NotInitialized | Unauthorized | InsufficientCredits | AlreadyRetired | InvalidNonce
| NotAHolder | InvalidCertificate | InvalidCreditType | ProjectMismatch | PeriodNotFound
| PeriodNotDistributed | InsufficientCreditsByType | RetirementNotFound | Overflow

datatype CouponEngineError =
  NotInitialized | Unauthorized | InvalidNonce | BondNotFound | PeriodNotFound
| PeriodAlreadyDistributed | AlreadyProcessed | InvalidReport | ReportNotVerified
| Overflow | ZeroAmount | ProjectNotApproved | AccountingMismatch

datatype GovernanceError =
  NotInitialized | Unauthorized | InvalidNonce | NotSigner | ProposalNotFound | AlreadyVoted
| NotPending | TimelockNotElapsed | NotQueued | AlreadyExecuted | ProposalExpired
| UnauthorizedCall | InvalidCallArgs | NonceArchived

section \<open>Data exchanged between contracts\<close>

datatype CreditType = Carbon | Biodiversity | Basket | BlueCarbon

datatype BiodiversityMetrics = Absent | Present "int \<times> int \<times> int"

record BondConfig =
  bc_project_id :: bytes32
  bc_face_value :: int
  bc_coupon_schedule :: "u64 list"
  bc_credit_type :: CreditType
  bc_maturity_date :: u64
  bc_total_supply :: int

datatype BondStatus = Active | Matured | Defaulted

datatype ProjectStatus = Pending | Approved | Rejected | Inactive

record Project =
  pj_id :: u64
  pj_owner :: address
  pj_metadata_ipfs_hash :: bytes32
  pj_name :: symbol
  pj_status :: ProjectStatus
  pj_methodology :: symbol
  pj_country :: symbol

datatype ReportStatus = Pending | Verified | Challenged | Rejected

text \<open>\<^verbatim>\<open>status as u32\<close>: the position of the variant.\<close>

fun ReportStatus_code :: "ReportStatus \<Rightarrow> u32" where
  "ReportStatus_code ReportStatus.Pending = 0"
| "ReportStatus_code Verified = 1"
| "ReportStatus_code Challenged = 2"
| "ReportStatus_code ReportStatus.Rejected = 3"

datatype VoteChoice = Approve | Veto

text \<open>
  A proposed administrator: \<^verbatim>\<open>PendingAdminChange\<close>, declared with the same fields by the project
  registry and by the oracle consumer.
\<close>

record PendingAdminChange =
  pa_candidate :: address
  pa_executable_at :: u64

text \<open>Both contracts delay a transfer of the administrator by 48 hours.\<close>

definition ADMIN_TRANSFER_TIMELOCK_SECONDS :: u64 where
  "ADMIN_TRANSFER_TIMELOCK_SECONDS = 172800"

text \<open>
  The guard \<^verbatim>\<open>hash.to_array().iter().all(|b| *b == 0)\<close> of the entrypoints that take an IPFS hash.
\<close>

definition is_zero_hash :: "bytes32 \<Rightarrow> bool" where
  "is_zero_hash h = list_all (\<lambda>b. b = 0) h"

section \<open>Rotation of the administrator\<close>

text \<open>
  The interface of a contract whose administrator is changed in two steps. \<open>proposes env a c n\<close> and
  \<open>accepts env c n\<close> are its two entrypoints: every call keeps the administrator and the pending change,
  or drops the pending change, or is one of the two; a proposal is made by the administrator \<open>a\<close> and
  records the candidate \<open>c\<close> with a time 48 hours ahead; an acceptance is made by the recorded candidate,
  at or after that time, and makes the candidate the administrator.
\<close>

locale admin_rotation =
  fixes step :: "'s \<Rightarrow> timed_label \<Rightarrow> 's \<Rightarrow> bool"
    and admin_of :: "'s \<Rightarrow> address option"
    and pending_of :: "'s \<Rightarrow> PendingAdminChange option"
    and proposes :: "env \<Rightarrow> address \<Rightarrow> address \<Rightarrow> u64 \<Rightarrow> 's \<Rightarrow> 's \<Rightarrow> bool"
    and accepts :: "env \<Rightarrow> address \<Rightarrow> u64 \<Rightarrow> 's \<Rightarrow> 's \<Rightarrow> bool"
  assumes rotate: "step s l t \<Longrightarrow>
      (admin_of t = admin_of s \<and> (pending_of t = pending_of s \<or> pending_of t = None)) \<or>
      (\<exists>env a c n. l = (timestamp env, Some (a, n)) \<and> proposes env a c n s t) \<or>
      (\<exists>env c n. l = (timestamp env, Some (c, n)) \<and> accepts env c n s t)"
    and proposal: "proposes env a c n s t \<Longrightarrow> admin_of s = Some a \<and> admin_of t = Some a \<and>
      pending_of t = Some \<lparr>pa_candidate = c, pa_executable_at = timestamp env + ADMIN_TRANSFER_TIMELOCK_SECONDS\<rparr>"
    and acceptance: "accepts env c n s t \<Longrightarrow>
      \<exists>p. pending_of s = Some p \<and> pa_candidate p = c \<and> pa_executable_at p \<le> timestamp env \<and>
        admin_of t = Some c \<and> pending_of t = None"
begin

text \<open>A pending change goes back to a proposal by the one who is still the administrator.\<close>

lemma pending_origin:
  assumes "run step s0 ls s" and "pending_of s0 = None" and "pending_of s = Some p"
  shows "\<exists>ls1 env a n ls2 s1 s2. ls = ls1 @ (timestamp env, Some (a, n)) # ls2 \<and> run step s0 ls1 s1 \<and>
    proposes env a (pa_candidate p) n s1 s2 \<and> run step s2 ls2 s \<and> admin_of s = Some a \<and>
    pa_executable_at p = timestamp env + ADMIN_TRANSFER_TIMELOCK_SECONDS"
  using assms
proof (induction arbitrary: p rule: run.induct)
  case (run_refl s)
  then show ?case by simp
next
  case (run_snoc s0 ls t l u)
  from rotate [OF run_snoc.hyps(2)] show ?case
  proof (elim disjE exE conjE)
    assume same: "admin_of u = admin_of t" "pending_of u = pending_of t"
    with run_snoc.IH [OF run_snoc.prems(1)] run_snoc.prems(2) obtain ls1 env a n ls2 s1 s2 where
      o: "ls = ls1 @ (timestamp env, Some (a, n)) # ls2" "run step s0 ls1 s1" "proposes env a (pa_candidate p) n s1 s2"
        "run step s2 ls2 t" "admin_of t = Some a" "pa_executable_at p = timestamp env + ADMIN_TRANSFER_TIMELOCK_SECONDS"
      by metis
    have "ls @ [l] = ls1 @ (timestamp env, Some (a, n)) # (ls2 @ [l])" using o(1) by simp
    moreover have "run step s2 (ls2 @ [l]) u" using run.run_snoc [OF o(4) run_snoc.hyps(2)] .
    ultimately show ?thesis using o(2,3,5,6) same(1) by metis
  next
    fix env a c n
    assume l: "l = (timestamp env, Some (a, n))" and p: "proposes env a c n t u"
    from proposal [OF p] run_snoc.prems(2) have "admin_of u = Some a" "pa_candidate p = c"
      "pa_executable_at p = timestamp env + ADMIN_TRANSFER_TIMELOCK_SECONDS" by auto
    moreover have "ls @ [l] = ls @ (timestamp env, Some (a, n)) # []" by (simp add: l)
    ultimately show ?thesis using run_snoc.hyps(1) p run.run_refl by metis
  qed (use run_snoc.prems(2) acceptance in fastforce)+
qed

text \<open>
  The administrator changes only by the acceptance of a candidate whom the administrator proposed at least
  48 hours before.
\<close>

lemma admin_change:
  assumes "run step s0 ls s" and "pending_of s0 = None" and "step s l t" and "admin_of t \<noteq> admin_of s"
    and "\<forall>l \<in> set ls. unat (fst l) + 172800 < 2 ^ 64"
  shows "\<exists>env c n ls1 env1 a n1 ls2 s1 s2. l = (timestamp env, Some (c, n)) \<and> accepts env c n s t \<and> admin_of t = Some c \<and>
    ls = ls1 @ (timestamp env1, Some (a, n1)) # ls2 \<and> run step s0 ls1 s1 \<and> proposes env1 a c n1 s1 s2 \<and> run step s2 ls2 s \<and>
    admin_of s = Some a \<and> unat (timestamp env1) + 172800 \<le> unat (timestamp env)"
proof -
  from rotate [OF assms(3)] assms(4) proposal obtain env c n where l: "l = (timestamp env, Some (c, n))" and a: "accepts env c n s t"
    by metis
  from acceptance [OF a] obtain p where p: "pending_of s = Some p" "pa_candidate p = c" "pa_executable_at p \<le> timestamp env"
    and t: "admin_of t = Some c" by blast
  from pending_origin [OF assms(1,2) p(1)] obtain ls1 env1 a0 n1 ls2 s1 s2 where
    o: "ls = ls1 @ (timestamp env1, Some (a0, n1)) # ls2" "run step s0 ls1 s1" "proposes env1 a0 c n1 s1 s2" "run step s2 ls2 s"
      "admin_of s = Some a0" "pa_executable_at p = timestamp env1 + ADMIN_TRANSFER_TIMELOCK_SECONDS" unfolding p(2) by blast
  have "unat (timestamp env1) + 172800 < 2 ^ 64" using assms(5) o(1) by simp
  then have "unat (timestamp env1 + 172800) = unat (timestamp env1) + 172800"
    by (subst unat_add_lem [THEN iffD1]) simp_all
  with p(3) o(6) have "unat (timestamp env1) + 172800 \<le> unat (timestamp env)"
    by (simp add: ADMIN_TRANSFER_TIMELOCK_SECONDS_def word_le_nat_alt)
  with l a t o(1-5) show ?thesis by blast
qed

end

section \<open>Bond tokens as other contracts see them\<close>

text \<open>
  The interface of the bond issuer to the contracts that settle in bond tokens: balances, the current
  nonce of an account, and a transfer that moves exactly what it is given, only with the owner's
  authorisation, and never fails for the nonce when it is given the current one.
\<close>

locale token_ledger =
  fixes bal :: "'l \<Rightarrow> u64 \<Rightarrow> address \<Rightarrow> int"
    and nonce :: "'l \<Rightarrow> address \<Rightarrow> u64"
    and xfer :: "env \<Rightarrow> address \<Rightarrow> address \<Rightarrow> u64 \<Rightarrow> int \<Rightarrow> u64 \<Rightarrow> 'l \<Rightarrow> (BondError, 'l) result"
  assumes xfer_moves: "xfer env a a' b x n l = Ok l' \<Longrightarrow>
      a' \<noteq> a \<and> 0 < x \<and> x \<le> bal l b a \<and>
      bal l' b' h = bal l b' h + (if b' = b then (if h = a' then x else if h = a then - x else 0) else 0)"
    and xfer_authorised: "xfer env a a' b x n l = Ok l' \<Longrightarrow>
      has_signed env a (current_contract env) \<or> invoker env = Some a"
    and xfer_current_nonce: "xfer env a a' b x (nonce l a) l \<noteq> Err BondError.InvalidNonce"
begin

lemma xfer_nonneg:
  assumes "xfer env a a' b x n l = Ok l'" and "\<And>b h. 0 \<le> bal l b h"
  shows "0 \<le> bal l' b' h"
  using xfer_moves [OF assms(1), of b' h] assms(2) [of b' h] by auto

lemma xfer_conserves:
  assumes "xfer env a a' b x n l = Ok l'" and "finite H" and "a \<in> H" and "a' \<in> H"
  shows "(\<Sum>h\<in>H. bal l' b' h) = (\<Sum>h\<in>H. bal l b' h)"
proof (cases "b' = b")
  case True
  have ne: "a' \<noteq> a" using xfer_moves [OF assms(1)] by blast
  have "(\<Sum>h\<in>H. bal l' b h) = (\<Sum>h\<in>H. bal l b h + ((if h = a' then x else 0) + (if h = a then - x else 0)))"
    by (rule sum.cong) (use xfer_moves [OF assms(1)] ne in auto)
  also have "\<dots> = (\<Sum>h\<in>H. bal l b h)"
    using assms(2-4) by (simp add: sum.distrib)
  finally show ?thesis using True by simp
next
  case False
  with xfer_moves [OF assms(1)] show ?thesis by (intro sum.cong) auto
qed

text \<open>A contract that is not the owner itself can move the owner's tokens only with the owner's signature.\<close>

lemma xfer_by_contract:
  assumes "xfer (call_env env c) a a' b x n l = Ok l'" and "a \<noteq> current_contract env"
  shows "has_signed env a c"
  using xfer_authorised [OF assms(1)] assms(2) by (simp add: call_env_def)

end

end
