(* ===== verification/Issuer.thy ===== *)
theory Issuer
  imports Shared
begin

text \<open>
  The bond issuer, \<^verbatim>\<open>contracts/bond-issuer/src/lib.rs\<close>: bonds, their subscription, transfer, maturity
  and redemption. The state \<open>issuer\<close> has one field per variant of \<^verbatim>\<open>DataKey\<close>: an option for a key of
  the instance storage, a store for a family of persistent keys. The lemmas show the accounting
  invariant (the balances of a bond add up to its subscription, which its supply bounds), the effect
  of each entrypoint, the life cycle of a bond and the paging of the holder list.
\<close>

section \<open>State\<close>

definition MAX_SUPPLY :: int where
  "MAX_SUPPLY = 1000000000000000000"

definition LEDGER_CLOSE_TIME_SECS :: u64 where
  "LEDGER_CLOSE_TIME_SECS = 5"

definition MAX_PERSISTENT_TTL :: u32 where
  "MAX_PERSISTENT_TTL = 2073600"

record BondState =
  bs_total_subscribed :: int
  bs_status :: BondStatus
  bs_created_at :: u64

datatype IssuerEvent =
  bond_issued u64 bytes32
| subscribed u64 address int
| transferred u64 address address int
| redeemed u64 address int
| bond_matured u64

record issuer =
  iss_admin :: "address option"
  iss_bond_count :: "u64 option"
  iss_configs :: "(u64, BondConfig) pstore"
  iss_states :: "(u64, BondState) pstore"
  iss_balances :: "(u64 \<times> address, int) pstore"
  iss_holder_lists :: "(u64, address list) pstore"
  iss_holder_counts :: "(u64, u64) pstore"
  iss_bond_list :: "(unit, u64 list) pstore"
  iss_nonces :: "(address, u64) pstore"
  iss_events :: "IssuerEvent list"

section \<open>Helpers\<close>

definition issuer_require_admin :: "issuer \<Rightarrow> address \<Rightarrow> (BondError, unit) result" where
  "issuer_require_admin st caller =
     and_then (ok_or (iss_admin st) BondError.NotInitialized) (\<lambda>admin.
     if caller \<noteq> admin then Err BondError.Unauthorized else Ok ())"

definition extend_bond_ttl :: "env \<Rightarrow> u64 \<Rightarrow> u64 \<Rightarrow> issuer \<Rightarrow> (BondError, issuer) result" where
  "extend_bond_ttl env bond_id maturity_date st =
     (let remaining_secs = saturating_sub_u64 maturity_date (timestamp env);
          remaining_ledgers = remaining_secs div LEDGER_CLOSE_TIME_SECS;
          extend_to = ucast (min (saturating_add_u64 remaining_ledgers 17280)
                                 (ucast MAX_PERSISTENT_TTL)) :: u32;
          threshold = max (extend_to div 10) 1728
      in and_then (pext_or_trap env threshold extend_to (iss_configs st) bond_id) (\<lambda>configs.
         and_then (pext_or_trap env threshold extend_to (iss_states st) bond_id) (\<lambda>states.
         Ok (st\<lparr>iss_configs := configs, iss_states := states,
                iss_holder_lists := pext env threshold extend_to (iss_holder_lists st) bond_id,
                iss_holder_counts := pext env threshold extend_to (iss_holder_counts st) bond_id\<rparr>))))"

definition append_holder :: "env \<Rightarrow> u64 \<Rightarrow> u64 \<Rightarrow> address \<Rightarrow> issuer \<Rightarrow> (BondError, issuer) result" where
  "append_holder env bond_id maturity_date holder st =
     (let list = unwrap_or (pget (iss_holder_lists st) bond_id) [] @ [holder];
          st = st\<lparr>iss_holder_lists := pset env (iss_holder_lists st) bond_id list,
                  iss_holder_counts := pset env (iss_holder_counts st) bond_id (ucast (vec_len list))\<rparr>
      in extend_bond_ttl env bond_id maturity_date st)"

definition holder_count_from_persistent :: "issuer \<Rightarrow> u64 \<Rightarrow> u64" where
  "holder_count_from_persistent st bond_id =
     (case pget (iss_holder_counts st) bond_id of
        Some count \<Rightarrow> count
      | None \<Rightarrow> ucast (vec_len (unwrap_or (pget (iss_holder_lists st) bond_id) [])))"

definition extend_bond_list_ttl :: "env \<Rightarrow> issuer \<Rightarrow> issuer" where
  "extend_bond_list_ttl env st =
     (if \<not> phas (iss_bond_list st) () then st
      else st\<lparr>iss_bond_list :=
             pext env (max (MAX_PERSISTENT_TTL div 10) 1728) MAX_PERSISTENT_TTL (iss_bond_list st) ()\<rparr>)"

text \<open>The nonce check that opens every entrypoint of the issuer.\<close>

definition issuer_consume_nonce :: "env \<Rightarrow> address \<Rightarrow> u64 \<Rightarrow> issuer \<Rightarrow> (BondError, issuer) result" where
  "issuer_consume_nonce env caller nonce st =
     (let expected_nonce = unwrap_or (pget (iss_nonces st) caller) 0
      in if nonce \<noteq> expected_nonce then Err BondError.InvalidNonce
         else and_then (add_word env expected_nonce 1) (\<lambda>next.
              Ok (st\<lparr>iss_nonces := pset env (iss_nonces st) caller next\<rparr>)))"

section \<open>Entrypoints\<close>

definition issuer_constructor :: "address \<Rightarrow> issuer" where
  "issuer_constructor admin =
     \<lparr>iss_admin = Some admin, iss_bond_count = None, iss_configs = Map.empty,
      iss_states = Map.empty, iss_balances = Map.empty, iss_holder_lists = Map.empty,
      iss_holder_counts = Map.empty, iss_bond_list = Map.empty, iss_nonces = Map.empty,
      iss_events = []\<rparr>"

definition issue_bond :: "env \<Rightarrow> address \<Rightarrow> BondConfig \<Rightarrow> u64 \<Rightarrow> issuer \<Rightarrow> (BondError, u64 \<times> issuer) result"
  where
  "issue_bond env caller config nonce st =
     and_then (require_auth env caller) (\<lambda>_.
     and_then (issuer_consume_nonce env caller nonce st) (\<lambda>st.
     and_then (issuer_require_admin st caller) (\<lambda>_.
     if bc_face_value config \<le> 0 then Err BondError.ZeroAmount
     else if bc_total_supply config \<le> 0 then Err BondError.ZeroAmount
     else if bc_maturity_date config \<le> timestamp env then Err BondError.MaturityDateInPast
     else if vec_len (bc_coupon_schedule config) = 0 then Err BondError.ZeroAmount
     else if list_ex (\<lambda>coupon_date. coupon_date \<ge> bc_maturity_date config) (bc_coupon_schedule config)
     then Err BondError.ZeroAmount
     else and_then (add_word env (unwrap_or (iss_bond_count st) 0) 1) (\<lambda>bond_id.
     let state = \<lparr>bs_total_subscribed = 0, bs_status = Active, bs_created_at = timestamp env\<rparr>;
         st = st\<lparr>iss_bond_count := Some bond_id,
                 iss_configs := pset env (iss_configs st) bond_id config,
                 iss_states := pset env (iss_states st) bond_id state,
                 iss_holder_lists := pset env (iss_holder_lists st) bond_id [],
                 iss_holder_counts := pset env (iss_holder_counts st) bond_id 0\<rparr>
     in and_then (extend_bond_ttl env bond_id (bc_maturity_date config) st) (\<lambda>st.
        let bond_list = unwrap_or (pget (iss_bond_list st) ()) [] @ [bond_id];
            st = extend_bond_list_ttl env (st\<lparr>iss_bond_list := pset env (iss_bond_list st) () bond_list\<rparr>)
        in Ok (bond_id, st\<lparr>iss_events := iss_events st @ [bond_issued bond_id (bc_project_id config)]\<rparr>))))))"

definition subscribe ::
    "env \<Rightarrow> address \<Rightarrow> u64 \<Rightarrow> int \<Rightarrow> u64 \<Rightarrow> issuer \<Rightarrow> (BondError, issuer) result" where
  "subscribe env investor bond_id amount nonce st =
     and_then (require_auth env investor) (\<lambda>_.
     and_then (issuer_consume_nonce env investor nonce st) (\<lambda>st.
     if amount \<le> 0 then Err BondError.ZeroAmount
     else and_then (ok_or (pget (iss_configs st) bond_id) BondError.BondNotFound) (\<lambda>config.
     and_then (ok_or (pget (iss_states st) bond_id) BondError.BondNotFound) (\<lambda>state.
     and_then (extend_bond_ttl env bond_id (bc_maturity_date config) st) (\<lambda>st.
     if bs_status state \<noteq> Active then Err BondError.BondAlreadyMatured
     else if timestamp env \<ge> bc_maturity_date config then Err BondError.BondAlreadyMatured
     else and_then (ok_or (checked_i128 (bs_total_subscribed state + amount)) BondError.Overflow) (\<lambda>new_total.
     if new_total > bc_total_supply config then Err BondError.InsufficientSupply
     else let current_balance = unwrap_or (pget (iss_balances st) (bond_id, investor)) 0
     in and_then (ok_or (checked_i128 (current_balance + amount)) BondError.Overflow) (\<lambda>new_balance.
        let st = st\<lparr>iss_balances := pset env (iss_balances st) (bond_id, investor) new_balance\<rparr>
        in and_then (if current_balance = 0
                     then append_holder env bond_id (bc_maturity_date config) investor st
                     else Ok st) (\<lambda>st.
           let st = st\<lparr>iss_states := pset env (iss_states st) bond_id
                        (state\<lparr>bs_total_subscribed := new_total\<rparr>)\<rparr>
           in and_then (extend_bond_ttl env bond_id (bc_maturity_date config) st) (\<lambda>st.
              Ok (st\<lparr>iss_events := iss_events st @ [subscribed bond_id investor amount]\<rparr>))))))))))"

definition issuer_get_nonce :: "issuer \<Rightarrow> address \<Rightarrow> u64" where
  "issuer_get_nonce st addr = unwrap_or (pget (iss_nonces st) addr) 0"

definition transfer ::
    "env \<Rightarrow> address \<Rightarrow> address \<Rightarrow> u64 \<Rightarrow> int \<Rightarrow> u64 \<Rightarrow> issuer \<Rightarrow> (BondError, issuer) result" where
  "transfer env from to bond_id amount nonce st =
     and_then (require_auth env from) (\<lambda>_.
     and_then (issuer_consume_nonce env from nonce st) (\<lambda>st.
     if to = from then Err BondError.Unauthorized
     else if amount \<le> 0 then Err BondError.ZeroAmount
     else and_then (ok_or (pget (iss_configs st) bond_id) BondError.BondNotFound) (\<lambda>config.
     and_then (ok_or (pget (iss_states st) bond_id) BondError.BondNotFound) (\<lambda>state.
     and_then (extend_bond_ttl env bond_id (bc_maturity_date config) st) (\<lambda>st.
     if bs_status state \<noteq> Active then Err BondError.BondAlreadyMatured
     else if timestamp env \<ge> bc_maturity_date config then Err BondError.BondAlreadyMatured
     else let from_balance = unwrap_or (pget (iss_balances st) (bond_id, from)) 0
     in if from_balance < amount then Err BondError.InsufficientBalance
     else and_then (ok_or (checked_i128 (from_balance - amount)) BondError.Overflow) (\<lambda>new_from_balance.
     let st = st\<lparr>iss_balances := pset env (iss_balances st) (bond_id, from) new_from_balance\<rparr>;
         to_balance = unwrap_or (pget (iss_balances st) (bond_id, to)) 0
     in and_then (ok_or (checked_i128 (to_balance + amount)) BondError.Overflow) (\<lambda>new_to_balance.
        let st = st\<lparr>iss_balances := pset env (iss_balances st) (bond_id, to) new_to_balance\<rparr>
        in and_then (if to_balance = 0
                     then append_holder env bond_id (bc_maturity_date config) to st
                     else Ok st) (\<lambda>st.
           Ok (st\<lparr>iss_events := iss_events st @ [transferred bond_id from to amount]\<rparr>)))))))))"

definition redeem ::
    "env \<Rightarrow> address \<Rightarrow> u64 \<Rightarrow> int \<Rightarrow> u64 \<Rightarrow> issuer \<Rightarrow> (BondError, issuer) result" where
  "redeem env holder bond_id amount nonce st =
     and_then (require_auth env holder) (\<lambda>_.
     and_then (issuer_consume_nonce env holder nonce st) (\<lambda>st.
     if amount \<le> 0 then Err BondError.ZeroAmount
     else and_then (ok_or (pget (iss_configs st) bond_id) BondError.BondNotFound) (\<lambda>config.
     and_then (ok_or (pget (iss_states st) bond_id) BondError.BondNotFound) (\<lambda>state.
     and_then (extend_bond_ttl env bond_id (bc_maturity_date config) st) (\<lambda>st.
     if bs_status state \<noteq> Matured then Err BondError.BondAlreadyMatured
     else let current_balance = unwrap_or (pget (iss_balances st) (bond_id, holder)) 0
     in if current_balance < amount then Err BondError.InsufficientBalance
     else and_then (ok_or (checked_i128 (current_balance - amount)) BondError.Overflow) (\<lambda>new_balance.
     let st = st\<lparr>iss_balances := pset env (iss_balances st) (bond_id, holder) new_balance\<rparr>
     in and_then (ok_or (checked_i128 (bs_total_subscribed state - amount)) BondError.Overflow) (\<lambda>new_total.
        let st = st\<lparr>iss_states := pset env (iss_states st) bond_id
                     (state\<lparr>bs_total_subscribed := new_total\<rparr>)\<rparr>
        in and_then (extend_bond_ttl env bond_id (bc_maturity_date config) st) (\<lambda>st.
           Ok (st\<lparr>iss_events := iss_events st @ [redeemed bond_id holder amount]\<rparr>)))))))))"

definition get_bond :: "env \<Rightarrow> u64 \<Rightarrow> issuer \<Rightarrow> (BondError, BondConfig \<times> issuer) result" where
  "get_bond env bond_id st =
     and_then (ok_or (pget (iss_configs st) bond_id) BondError.BondNotFound) (\<lambda>config.
     and_then (extend_bond_ttl env bond_id (bc_maturity_date config) st) (\<lambda>st.
     Ok (config, st)))"

definition get_bond_state :: "env \<Rightarrow> u64 \<Rightarrow> issuer \<Rightarrow> (BondError, BondState \<times> issuer) result" where
  "get_bond_state env bond_id st =
     and_then (ok_or (pget (iss_configs st) bond_id) BondError.BondNotFound) (\<lambda>config.
     and_then (ok_or (pget (iss_states st) bond_id) BondError.BondNotFound) (\<lambda>state.
     and_then (extend_bond_ttl env bond_id (bc_maturity_date config) st) (\<lambda>st.
     Ok (state, st))))"

definition get_holder_balance :: "issuer \<Rightarrow> u64 \<Rightarrow> address \<Rightarrow> int" where
  "get_holder_balance st bond_id holder = unwrap_or (pget (iss_balances st) (bond_id, holder)) 0"

definition get_holder_list :: "issuer \<Rightarrow> u64 \<Rightarrow> address list" where
  "get_holder_list st bond_id = unwrap_or (pget (iss_holder_lists st) bond_id) []"

definition get_holder_count :: "issuer \<Rightarrow> u64 \<Rightarrow> u64" where
  "get_holder_count st bond_id = holder_count_from_persistent st bond_id"

definition get_holder_list_range :: "issuer \<Rightarrow> u64 \<Rightarrow> u32 \<Rightarrow> u32 \<Rightarrow> address list" where
  "get_holder_list_range st bond_id start count =
     (let holder_list = unwrap_or (pget (iss_holder_lists st) bond_id) [];
          len = vec_len holder_list
      in if count = 0 \<or> start \<ge> len then []
         else let end_index = ucast (min (ucast start + ucast count :: u64) (ucast len)) :: u32
              in collect_range (vec_get holder_list) (unat start) (unat end_index))"

definition total_supply :: "env \<Rightarrow> u64 \<Rightarrow> issuer \<Rightarrow> (BondError, int \<times> issuer) result" where
  "total_supply env bond_id st =
     and_then (ok_or (pget (iss_configs st) bond_id) BondError.BondNotFound) (\<lambda>config.
     and_then (extend_bond_ttl env bond_id (bc_maturity_date config) st) (\<lambda>st.
     Ok (bc_total_supply config, st)))"

definition total_subscribed :: "env \<Rightarrow> u64 \<Rightarrow> issuer \<Rightarrow> (BondError, int \<times> issuer) result" where
  "total_subscribed env bond_id st =
     and_then (ok_or (pget (iss_configs st) bond_id) BondError.BondNotFound) (\<lambda>config.
     and_then (ok_or (pget (iss_states st) bond_id) BondError.BondNotFound) (\<lambda>state.
     and_then (extend_bond_ttl env bond_id (bc_maturity_date config) st) (\<lambda>st.
     Ok (bs_total_subscribed state, st))))"

definition bond_count :: "issuer \<Rightarrow> u64" where
  "bond_count st = unwrap_or (iss_bond_count st) 0"

definition get_all_bond_ids :: "env \<Rightarrow> issuer \<Rightarrow> u64 list \<times> issuer" where
  "get_all_bond_ids env st =
     (unwrap_or (pget (iss_bond_list st) ()) [], extend_bond_list_ttl env st)"

definition get_bond_ids_range :: "env \<Rightarrow> u32 \<Rightarrow> u32 \<Rightarrow> issuer \<Rightarrow> u64 list \<times> issuer" where
  "get_bond_ids_range env start count st =
     (let bond_list = unwrap_or (pget (iss_bond_list st) ()) [];
          st = extend_bond_list_ttl env st;
          len = vec_len bond_list
      in if count = 0 \<or> start \<ge> len then ([], st)
         else let end_index = ucast (min (ucast start + ucast count :: u64) (ucast len)) :: u32
              in (collect_range (vec_get bond_list) (unat start) (unat end_index), st))"

definition mature_bond ::
    "env \<Rightarrow> address \<Rightarrow> u64 \<Rightarrow> u64 \<Rightarrow> issuer \<Rightarrow> (BondError, issuer) result" where
  "mature_bond env caller bond_id nonce st =
     and_then (require_auth env caller) (\<lambda>_.
     and_then (issuer_consume_nonce env caller nonce st) (\<lambda>st.
     and_then (issuer_require_admin st caller) (\<lambda>_.
     and_then (ok_or (pget (iss_configs st) bond_id) BondError.BondNotFound) (\<lambda>config.
     and_then (ok_or (pget (iss_states st) bond_id) BondError.BondNotFound) (\<lambda>state.
     and_then (extend_bond_ttl env bond_id (bc_maturity_date config) st) (\<lambda>st.
     if bs_status state \<noteq> Active then Err BondError.BondAlreadyMatured
     else if timestamp env < bc_maturity_date config then Err BondError.NotYetMature
     else let st = st\<lparr>iss_states := pset env (iss_states st) bond_id (state\<lparr>bs_status := Matured\<rparr>)\<rparr>
     in and_then (extend_bond_ttl env bond_id (bc_maturity_date config) st) (\<lambda>st.
        Ok (st\<lparr>iss_events := iss_events st @ [bond_matured bond_id]\<rparr>))))))))"

section \<open>Steps\<close>

text \<open>
  One call of the contract that returns \<open>Ok\<close>, in any environment. A call that fails leaves the state
  as it was. The getters that extend the life of the entries they read are steps without a nonce.
\<close>

inductive issuer_step :: "issuer \<Rightarrow> call_label \<Rightarrow> issuer \<Rightarrow> bool" where
  step_issue_bond: "issue_bond env caller config nonce st = Ok (bond_id, st') \<Longrightarrow>
     issuer_step st (Some (caller, nonce)) st'"
| step_subscribe: "subscribe env investor bond_id amount nonce st = Ok st' \<Longrightarrow>
     issuer_step st (Some (investor, nonce)) st'"
| step_transfer: "transfer env from to bond_id amount nonce st = Ok st' \<Longrightarrow>
     issuer_step st (Some (from, nonce)) st'"
| step_redeem: "redeem env holder bond_id amount nonce st = Ok st' \<Longrightarrow>
     issuer_step st (Some (holder, nonce)) st'"
| step_mature_bond: "mature_bond env caller bond_id nonce st = Ok st' \<Longrightarrow>
     issuer_step st (Some (caller, nonce)) st'"
| step_get_bond: "get_bond env bond_id st = Ok (config, st') \<Longrightarrow> issuer_step st None st'"
| step_get_bond_state: "get_bond_state env bond_id st = Ok (state, st') \<Longrightarrow> issuer_step st None st'"
| step_total_supply: "total_supply env bond_id st = Ok (v, st') \<Longrightarrow> issuer_step st None st'"
| step_total_subscribed: "total_subscribed env bond_id st = Ok (v, st') \<Longrightarrow> issuer_step st None st'"
| step_get_all_bond_ids: "get_all_bond_ids env st = (ids, st') \<Longrightarrow> issuer_step st None st'"
| step_get_bond_ids_range: "get_bond_ids_range env start count st = (ids, st') \<Longrightarrow>
     issuer_step st None st'"


section \<open>Abstract ledger\<close>

text \<open>
  What the contract promises, without the life of entries and the events: the ledger of bonds. Every
  rule is one entrypoint that succeeds, with the condition under which it may.
\<close>

record ledger =
  lg_admin :: "address option"
  lg_count :: u64
  lg_configs :: "u64 \<rightharpoonup> BondConfig"
  lg_states :: "u64 \<rightharpoonup> BondState"
  lg_balances :: "u64 \<times> address \<rightharpoonup> int"
  lg_holders :: "u64 \<rightharpoonup> address list"
  lg_holder_counts :: "u64 \<rightharpoonup> u64"
  lg_bonds :: "u64 list"
  lg_nonces :: "address \<rightharpoonup> u64"

definition ledger_of :: "issuer \<Rightarrow> ledger" where
  "ledger_of st =
     \<lparr>lg_admin = iss_admin st, lg_count = unwrap_or (iss_bond_count st) 0,
      lg_configs = pget (iss_configs st), lg_states = pget (iss_states st),
      lg_balances = pget (iss_balances st), lg_holders = pget (iss_holder_lists st),
      lg_holder_counts = pget (iss_holder_counts st),
      lg_bonds = unwrap_or (pget (iss_bond_list st) ()) [], lg_nonces = pget (iss_nonces st)\<rparr>"

definition balance :: "ledger \<Rightarrow> u64 \<Rightarrow> address \<Rightarrow> int" where
  "balance L b a = unwrap_or (lg_balances L (b, a)) 0"

text \<open>A nonce of the ledger is spent, and an amount is credited to an account of a bond.\<close>

definition spend :: "address \<Rightarrow> ledger \<Rightarrow> ledger" where
  "spend a L = L\<lparr>lg_nonces := (lg_nonces L)(a \<mapsto> unwrap_or (lg_nonces L a) 0 + 1)\<rparr>"

definition credit :: "u64 \<Rightarrow> address \<Rightarrow> int \<Rightarrow> ledger \<Rightarrow> ledger" where
  "credit b a x L = L\<lparr>lg_balances := (lg_balances L)((b, a) \<mapsto> balance L b a + x)\<rparr>"

text \<open>An account whose balance is zero is entered into the holder list before it is credited.\<close>

definition enlist :: "u64 \<Rightarrow> address \<Rightarrow> ledger \<Rightarrow> ledger" where
  "enlist b a L =
     (if balance L b a = 0
      then let hs = unwrap_or (lg_holders L b) [] @ [a]
           in L\<lparr>lg_holders := (lg_holders L)(b \<mapsto> hs),
                lg_holder_counts := (lg_holder_counts L)(b \<mapsto> ucast (vec_len hs))\<rparr>
      else L)"

definition open_bond :: "u64 \<Rightarrow> BondConfig \<Rightarrow> u64 \<Rightarrow> ledger \<Rightarrow> ledger" where
  "open_bond b cfg now L =
     L\<lparr>lg_count := b, lg_configs := (lg_configs L)(b \<mapsto> cfg),
       lg_states := (lg_states L)(b \<mapsto>
          \<lparr>bs_total_subscribed = 0, bs_status = Active, bs_created_at = now\<rparr>),
       lg_holders := (lg_holders L)(b \<mapsto> []), lg_holder_counts := (lg_holder_counts L)(b \<mapsto> 0),
       lg_bonds := lg_bonds L @ [b]\<rparr>"

definition set_state :: "u64 \<Rightarrow> BondState \<Rightarrow> ledger \<Rightarrow> ledger" where
  "set_state b bs L = L\<lparr>lg_states := (lg_states L)(b \<mapsto> bs)\<rparr>"

definition valid_config :: "BondConfig \<Rightarrow> u64 \<Rightarrow> bool" where
  "valid_config cfg now \<longleftrightarrow>
     0 < bc_face_value cfg \<and> 0 < bc_total_supply cfg \<and> now < bc_maturity_date cfg \<and>
     bc_coupon_schedule cfg \<noteq> [] \<and> (\<forall>d \<in> set (bc_coupon_schedule cfg). d < bc_maturity_date cfg)"

inductive ledger_step :: "ledger \<Rightarrow> call_label \<Rightarrow> ledger \<Rightarrow> bool" where
  l_issue: "lg_admin L = Some c \<Longrightarrow> n = unwrap_or (lg_nonces L c) 0 \<Longrightarrow> valid_config cfg now \<Longrightarrow>
     ledger_step L (Some (c, n)) (open_bond (lg_count L + 1) cfg now (spend c L))"
| l_subscribe: "n = unwrap_or (lg_nonces L a) 0 \<Longrightarrow> 0 < x \<Longrightarrow>
     lg_configs L b = Some cfg \<Longrightarrow> lg_states L b = Some bs \<Longrightarrow> bs_status bs = Active \<Longrightarrow>
     now < bc_maturity_date cfg \<Longrightarrow> bs_total_subscribed bs + x \<le> bc_total_supply cfg \<Longrightarrow>
     ledger_step L (Some (a, n))
       (set_state b (bs\<lparr>bs_total_subscribed := bs_total_subscribed bs + x\<rparr>)
          (credit b a x (enlist b a (spend a L))))"
| l_transfer: "n = unwrap_or (lg_nonces L a) 0 \<Longrightarrow> a' \<noteq> a \<Longrightarrow> 0 < x \<Longrightarrow>
     lg_configs L b = Some cfg \<Longrightarrow> lg_states L b = Some bs \<Longrightarrow> bs_status bs = Active \<Longrightarrow>
     now < bc_maturity_date cfg \<Longrightarrow> x \<le> balance L b a \<Longrightarrow>
     ledger_step L (Some (a, n)) (credit b a' x (enlist b a' (credit b a (- x) (spend a L))))"
| l_redeem: "n = unwrap_or (lg_nonces L a) 0 \<Longrightarrow> 0 < x \<Longrightarrow>
     lg_configs L b = Some cfg \<Longrightarrow> lg_states L b = Some bs \<Longrightarrow> bs_status bs = Matured \<Longrightarrow>
     x \<le> balance L b a \<Longrightarrow>
     ledger_step L (Some (a, n))
       (set_state b (bs\<lparr>bs_total_subscribed := bs_total_subscribed bs - x\<rparr>)
          (credit b a (- x) (spend a L)))"
| l_mature: "lg_admin L = Some c \<Longrightarrow> n = unwrap_or (lg_nonces L c) 0 \<Longrightarrow>
     lg_configs L b = Some cfg \<Longrightarrow> lg_states L b = Some bs \<Longrightarrow> bs_status bs = Active \<Longrightarrow>
     bc_maturity_date cfg \<le> now \<Longrightarrow>
     ledger_step L (Some (c, n)) (set_state b (bs\<lparr>bs_status := Matured\<rparr>) (spend c L))"
| l_read: "ledger_step L None L"

inductive_cases ledger_stepE: "ledger_step L l L'"


section \<open>Invariant\<close>

text \<open>
  \<open>inv_ids n\<close>: the bonds are numbered \<open>1, 2, \<dots>\<close> without gaps and at most \<open>n\<close> were issued;
  \<open>inv_balances\<close>: no balance is negative or belongs to an unknown bond; \<open>inv_totals\<close>: the balances of
  a bond add up to its subscription, which stays within its supply; \<open>inv_holders\<close>: whoever has a
  balance is listed, and the stored count is the length of the list.
\<close>

definition bond_accounts :: "u64 \<Rightarrow> u64 \<times> address \<Rightarrow> bool" where
  "bond_accounts b k \<longleftrightarrow> fst k = b"

definition inv_ids :: "nat \<Rightarrow> ledger \<Rightarrow> bool" where
  "inv_ids n L \<longleftrightarrow> unat (lg_count L) \<le> n \<and> dom (lg_configs L) = dom (lg_states L) \<and>
     (\<forall>b \<in> dom (lg_states L). 1 \<le> unat b \<and> unat b \<le> unat (lg_count L)) \<and>
     lg_bonds L = map of_nat [1..<Suc (unat (lg_count L))] \<and> set (lg_bonds L) = dom (lg_states L)"

definition inv_balances :: "ledger \<Rightarrow> bool" where
  "inv_balances L \<longleftrightarrow> finite (dom (lg_balances L)) \<and>
     (\<forall>b a v. lg_balances L (b, a) = Some v \<longrightarrow> 0 \<le> v \<and> b \<in> dom (lg_states L))"

definition inv_totals :: "ledger \<Rightarrow> bool" where
  "inv_totals L \<longleftrightarrow> (\<forall>b bs cfg. lg_states L b = Some bs \<longrightarrow> lg_configs L b = Some cfg \<longrightarrow>
     map_total (lg_balances L) (bond_accounts b) = bs_total_subscribed bs \<and>
     bs_total_subscribed bs \<le> bc_total_supply cfg)"

definition inv_holders :: "ledger \<Rightarrow> bool" where
  "inv_holders L \<longleftrightarrow>
     (\<forall>b a. 0 < balance L b a \<longrightarrow> a \<in> set (unwrap_or (lg_holders L b) [])) \<and>
     (\<forall>b \<in> dom (lg_states L). \<exists>hs. lg_holders L b = Some hs \<and>
        lg_holder_counts L b = Some (ucast (vec_len hs)))"

definition ledger_inv :: "nat \<Rightarrow> ledger \<Rightarrow> bool" where
  "ledger_inv n L \<longleftrightarrow> inv_ids n L \<and> inv_balances L \<and> inv_totals L \<and> inv_holders L"

text \<open>A small bond, on which the theorems below are instantiated.\<close>

definition sample_config :: BondConfig where
  "sample_config = \<lparr>bc_project_id = replicate 32 1, bc_face_value = 1000, bc_coupon_schedule = [50],
     bc_credit_type = Carbon, bc_maturity_date = 100, bc_total_supply = 500\<rparr>"

section \<open>Refinement\<close>

lemmas ledger_defs = ledger_of_def spend_def credit_def enlist_def open_bond_def set_state_def balance_def

lemma ledger_of_events [simp]: "ledger_of (st\<lparr>iss_events := es\<rparr>) = ledger_of st"
  by (simp add: ledger_of_def)

lemma extend_bond_ttl_ledger: "extend_bond_ttl env b m st = Ok st' \<Longrightarrow> ledger_of st' = ledger_of st"
  by (auto simp: extend_bond_ttl_def ledger_of_def Let_def result_simps storage_simps)

lemma extend_bond_list_ttl_ledger [simp]: "ledger_of (extend_bond_list_ttl env st) = ledger_of st"
  by (auto simp: extend_bond_list_ttl_def ledger_of_def Let_def storage_simps)

lemma ledger_of_eqD:
  assumes "ledger_of st' = ledger_of st"
  shows "iss_admin st' = iss_admin st" "unwrap_or (iss_bond_count st') 0 = unwrap_or (iss_bond_count st) 0"
    "pget (iss_configs st') = pget (iss_configs st)" "pget (iss_states st') = pget (iss_states st)"
    "pget (iss_balances st') = pget (iss_balances st)"
    "pget (iss_holder_lists st') = pget (iss_holder_lists st)"
    "pget (iss_holder_counts st') = pget (iss_holder_counts st)"
    "unwrap_or (pget (iss_bond_list st') ()) [] = unwrap_or (pget (iss_bond_list st) ()) []"
    "pget (iss_nonces st') = pget (iss_nonces st)"
  using assms by (simp_all add: ledger_of_def)

lemma issuer_consume_nonce_Ok:
  "issuer_consume_nonce env a n st = Ok st' \<Longrightarrow>
     n = unwrap_or (pget (iss_nonces st) a) 0 \<and>
     st' = st\<lparr>iss_nonces := pset env (iss_nonces st) a (n + 1)\<rparr>"
  by (auto simp: issuer_consume_nonce_def Let_def result_simps dest: add_word_OkD split: if_splits)

lemma append_holder_ledger:
  assumes "append_holder env b m a st = Ok st'"
  shows "ledger_of st' = (let hs = unwrap_or (lg_holders (ledger_of st) b) [] @ [a]
           in (ledger_of st)\<lparr>lg_holders := (lg_holders (ledger_of st))(b \<mapsto> hs),
                lg_holder_counts := (lg_holder_counts (ledger_of st))(b \<mapsto> ucast (vec_len hs))\<rparr>)"
proof -
  let ?hs = "unwrap_or (pget (iss_holder_lists st) b) [] @ [a]"
  let ?st = "st\<lparr>iss_holder_lists := pset env (iss_holder_lists st) b ?hs,
                iss_holder_counts := pset env (iss_holder_counts st) b (ucast (vec_len ?hs))\<rparr>"
  have "ledger_of st' = ledger_of ?st"
    using assms by (intro extend_bond_ttl_ledger) (simp add: append_holder_def Let_def)
  then show ?thesis by (simp add: ledger_of_def storage_simps Let_def)
qed

lemma issuer_require_admin_Ok: "issuer_require_admin st c = Ok u \<longleftrightarrow> iss_admin st = Some c"
  by (auto simp: issuer_require_admin_def result_simps)

lemma get_bond_ledger: "get_bond env b st = Ok (cfg, st') \<Longrightarrow>
    ledger_of st' = ledger_of st \<and> lg_configs (ledger_of st) b = Some cfg"
  by (auto simp: get_bond_def result_simps ledger_of_def dest!: extend_bond_ttl_ledger)

lemmas issuer_dests = issuer_consume_nonce_Ok extend_bond_ttl_ledger append_holder_ledger

lemma subscribe_Ok:
  assumes "subscribe env a b x n st = Ok st'"
  shows "\<exists>cfg bs. n = unwrap_or (lg_nonces (ledger_of st) a) 0 \<and> 0 < x \<and>
    lg_configs (ledger_of st) b = Some cfg \<and> lg_states (ledger_of st) b = Some bs \<and>
    bs_status bs = Active \<and> timestamp env < bc_maturity_date cfg \<and>
    bs_total_subscribed bs + x \<le> bc_total_supply cfg \<and>
    fits_i128 (bs_total_subscribed bs + x) \<and> fits_i128 (balance (ledger_of st) b a + x) \<and>
    ledger_of st' = set_state b (bs\<lparr>bs_total_subscribed := bs_total_subscribed bs + x\<rparr>)
          (credit b a x (enlist b a (spend a (ledger_of st))))"
  using assms
  by (clarsimp simp: subscribe_def result_simps Let_def not_le not_less split: if_splits,
      auto simp: storage_simps ledger_defs Let_def
      dest!: issuer_dests)

lemma transfer_Ok:
  assumes "transfer env a a' b x n st = Ok st'"
  shows "\<exists>cfg bs. n = unwrap_or (lg_nonces (ledger_of st) a) 0 \<and> a' \<noteq> a \<and> 0 < x \<and>
    lg_configs (ledger_of st) b = Some cfg \<and> lg_states (ledger_of st) b = Some bs \<and>
    bs_status bs = Active \<and> timestamp env < bc_maturity_date cfg \<and>
    x \<le> balance (ledger_of st) b a \<and>
    ledger_of st' = credit b a' x (enlist b a' (credit b a (- x) (spend a (ledger_of st))))"
  using assms
  by (clarsimp simp: transfer_def result_simps Let_def not_le not_less split: if_splits,
      auto simp: storage_simps ledger_defs Let_def
      dest!: issuer_dests)

lemma redeem_Ok:
  assumes "redeem env a b x n st = Ok st'"
  shows "\<exists>cfg bs. n = unwrap_or (lg_nonces (ledger_of st) a) 0 \<and> 0 < x \<and>
    lg_configs (ledger_of st) b = Some cfg \<and> lg_states (ledger_of st) b = Some bs \<and>
    bs_status bs = Matured \<and> x \<le> balance (ledger_of st) b a \<and>
    ledger_of st' = set_state b (bs\<lparr>bs_total_subscribed := bs_total_subscribed bs - x\<rparr>)
          (credit b a (- x) (spend a (ledger_of st)))"
  using assms
  by (clarsimp simp: redeem_def result_simps Let_def not_le not_less split: if_splits,
      auto simp: storage_simps ledger_defs Let_def
      dest!: issuer_dests)

lemma mature_bond_Ok:
  assumes "mature_bond env c b n st = Ok st'"
  shows "\<exists>cfg bs. lg_admin (ledger_of st) = Some c \<and>
    n = unwrap_or (lg_nonces (ledger_of st) c) 0 \<and>
    lg_configs (ledger_of st) b = Some cfg \<and> lg_states (ledger_of st) b = Some bs \<and>
    bs_status bs = Active \<and> bc_maturity_date cfg \<le> timestamp env \<and>
    ledger_of st' = set_state b (bs\<lparr>bs_status := Matured\<rparr>) (spend c (ledger_of st))"
  using assms
  by (clarsimp simp: mature_bond_def result_simps issuer_require_admin_Ok Let_def not_le not_less split: if_splits,
      auto simp: storage_simps ledger_defs Let_def
      dest!: issuer_dests)

lemma issue_bond_Ok:
  assumes "issue_bond env c cfg n st = Ok (b, st')"
  shows "lg_admin (ledger_of st) = Some c \<and> n = unwrap_or (lg_nonces (ledger_of st) c) 0 \<and>
    valid_config cfg (timestamp env) \<and> b = lg_count (ledger_of st) + 1 \<and>
    ledger_of st' = open_bond b cfg (timestamp env) (spend c (ledger_of st))"
  using assms
  by (clarsimp simp: issue_bond_def result_simps issuer_require_admin_Ok Let_def not_le not_less split: if_splits,
      auto simp: storage_simps ledger_defs Let_def valid_config_def list_ex_iff
        not_le vec_len_def
      dest!: issuer_dests add_word_OkD)

lemma read_ledger:
  "get_bond env b st = Ok (cfg, st') \<Longrightarrow> ledger_of st' = ledger_of st"
  "get_bond_state env b st = Ok (bs, st') \<Longrightarrow> ledger_of st' = ledger_of st"
  "total_supply env b st = Ok (v, st') \<Longrightarrow> ledger_of st' = ledger_of st"
  "total_subscribed env b st = Ok (w, st') \<Longrightarrow> ledger_of st' = ledger_of st"
  "get_all_bond_ids env st = (ids, st') \<Longrightarrow> ledger_of st' = ledger_of st"
  "get_bond_ids_range env i k st = (ids', st') \<Longrightarrow> ledger_of st' = ledger_of st"
  by (auto simp: get_bond_def get_bond_state_def total_supply_def total_subscribed_def
      get_all_bond_ids_def get_bond_ids_range_def Let_def result_simps
      dest!: extend_bond_ttl_ledger split: if_splits)

lemma issuer_step_ledger:
  assumes "issuer_step st l st'"
  shows "ledger_step (ledger_of st) l (ledger_of st')"
  using assms
proof (cases rule: issuer_step.cases)
  case (step_issue_bond env caller config nonce bond_id)
  then show ?thesis by (auto dest!: issue_bond_Ok intro: l_issue)
next
  case (step_subscribe env investor bond_id amount nonce)
  then show ?thesis by (auto dest!: subscribe_Ok intro: l_subscribe)
next
  case (step_transfer env a a' bond_id amount nonce)
  then show ?thesis by (auto dest!: transfer_Ok intro: l_transfer)
next
  case (step_redeem env holder bond_id amount nonce)
  then show ?thesis by (auto dest!: redeem_Ok intro: l_redeem)
next
  case (step_mature_bond env caller bond_id nonce)
  then show ?thesis by (auto dest!: mature_bond_Ok intro: l_mature)
qed (auto dest!: read_ledger intro: l_read)

lemma ledger_fields [simp]:
  "lg_states (spend a L) = lg_states L" "lg_configs (spend a L) = lg_configs L"
  "lg_balances (spend a L) = lg_balances L" "lg_holders (spend a L) = lg_holders L"
  "lg_holder_counts (spend a L) = lg_holder_counts L" "lg_bonds (spend a L) = lg_bonds L"
  "lg_count (spend a L) = lg_count L" "balance (spend a L) b a' = balance L b a'"
  "lg_states (enlist b a L) = lg_states L" "lg_configs (enlist b a L) = lg_configs L"
  "lg_balances (enlist b a L) = lg_balances L" "lg_bonds (enlist b a L) = lg_bonds L"
  "lg_count (enlist b a L) = lg_count L" "balance (enlist b a L) b' a' = balance L b' a'"
  "lg_states (credit b a x L) = lg_states L" "lg_configs (credit b a x L) = lg_configs L"
  "lg_holders (credit b a x L) = lg_holders L"
  "lg_holder_counts (credit b a x L) = lg_holder_counts L" "lg_bonds (credit b a x L) = lg_bonds L"
  "lg_count (credit b a x L) = lg_count L"
  "lg_configs (set_state b bs L) = lg_configs L" "lg_balances (set_state b bs L) = lg_balances L"
  "lg_holders (set_state b bs L) = lg_holders L"
  "lg_holder_counts (set_state b bs L) = lg_holder_counts L" "lg_bonds (set_state b bs L) = lg_bonds L"
  "lg_count (set_state b bs L) = lg_count L" "balance (set_state b bs L) b' a' = balance L b' a'"
  "lg_nonces (set_state b bs L) = lg_nonces L" "lg_nonces (credit b a x L) = lg_nonces L"
  "lg_nonces (enlist b a L) = lg_nonces L" "lg_admin (spend a L) = lg_admin L"
  "lg_admin (set_state b bs L) = lg_admin L" "lg_admin (credit b a x L) = lg_admin L"
  "lg_admin (enlist b a L) = lg_admin L"
  by (simp_all add: ledger_defs Let_def)

lemma balance_credit: "balance (credit b a x L) b' a' = balance L b' a' + (if b' = b \<and> a' = a then x else 0)"
  by (simp add: credit_def balance_def)

lemma credit_total:
  "finite (dom (lg_balances L)) \<Longrightarrow> map_total (lg_balances (credit b a x L)) (bond_accounts b') =
     map_total (lg_balances L) (bond_accounts b') + (if b' = b then x else 0)"
  by (simp add: credit_def balance_def map_total_upd bond_accounts_def)

lemma finite_credit [simp]: "finite (dom (lg_balances (credit b a x L))) = finite (dom (lg_balances L))"
  by (simp add: credit_def)

lemma set_state_states [simp]: "lg_states (set_state b bs L) = (lg_states L)(b \<mapsto> bs)"
  by (simp add: set_state_def)

lemma inv_balances_credit:
  "inv_balances L \<Longrightarrow> 0 \<le> balance L b a + x \<Longrightarrow> lg_states L b = Some bs \<Longrightarrow> inv_balances (credit b a x L)"
  by (auto simp: inv_balances_def credit_def)

lemma inv_balances_frame [simp]:
  "inv_balances (spend a L) = inv_balances L" "inv_balances (enlist b a L) = inv_balances L"
  "lg_states L b = Some bs \<Longrightarrow> inv_balances (set_state b bs' L) = inv_balances L"
  by (auto simp: inv_balances_def)

lemma inv_balances_nonneg: "inv_balances L \<Longrightarrow> 0 \<le> balance L b a"
  by (cases "lg_balances L (b, a)") (auto simp: inv_balances_def balance_def)

lemma fresh_id:
  assumes "inv_ids n L" and "Suc n < 2 ^ 64"
  shows "unat (lg_count L + 1) = Suc (unat (lg_count L))" "lg_count L + 1 \<notin> dom (lg_states L)"
proof -
  show *: "unat (lg_count L + 1) = Suc (unat (lg_count L))"
    using assms by (subst unat_inc) (simp_all add: inv_ids_def)
  show "lg_count L + 1 \<notin> dom (lg_states L)"
  proof
    assume "lg_count L + 1 \<in> dom (lg_states L)"
    with assms(1) have "unat (lg_count L + 1) \<le> unat (lg_count L)"
      unfolding inv_ids_def by blast
    with * show False by simp
  qed
qed

lemma inv_ids_step:
  assumes "ledger_step L l L'" and "inv_ids n L" and "Suc n < 2 ^ 64"
  shows "inv_ids (Suc n) L'"
  using assms
proof (cases rule: ledger_step.cases)
  case (l_issue c k cfg now)
  have u: "unat (lg_count L + 1) = Suc (unat (lg_count L))" using assms fresh_id by blast
  then have "of_nat (Suc (unat (lg_count L))) = lg_count L + 1" by simp
  with u l_issue assms(2) show ?thesis
    by (auto simp: inv_ids_def open_bond_def intro: le_SucI)
qed (auto simp: inv_ids_def)

lemma inv_balances_step:
  assumes "ledger_step L l L'" and "inv_balances L"
  shows "inv_balances L'"
  using assms
proof (cases rule: ledger_step.cases)
  case (l_issue c k cfg now)
  with assms(2) show ?thesis by (auto simp: open_bond_def inv_balances_def)
next
  case (l_subscribe k a x b cfg bs now)
  with assms(2) inv_balances_nonneg [of L b a] show ?thesis
    by (auto intro!: inv_balances_credit)
next
  case (l_transfer k a a' x b cfg bs now)
  with assms(2) inv_balances_nonneg [of L b a'] show ?thesis
    by (auto simp: balance_credit intro!: inv_balances_credit)
qed (use assms(2) in \<open>auto intro!: inv_balances_credit\<close>)

lemma inv_totals_credit:
  "inv_totals L \<Longrightarrow> finite (dom (lg_balances L)) \<Longrightarrow> lg_states L b = Some bs \<Longrightarrow>
     (\<And>cfg. lg_configs L b = Some cfg \<Longrightarrow> bs_total_subscribed bs + x \<le> bc_total_supply cfg) \<Longrightarrow>
     inv_totals (set_state b (bs\<lparr>bs_total_subscribed := bs_total_subscribed bs + x\<rparr>) (credit b a x L))"
  by (auto simp: inv_totals_def credit_total)

lemma inv_totals_frame [simp]:
  "inv_totals (spend a L) = inv_totals L" "inv_totals (enlist b a L) = inv_totals L"
  by (simp_all add: inv_totals_def)

lemma enlist_holders:
  "lg_holders (enlist b a L) = (lg_holders L)(b := if balance L b a = 0
     then Some (unwrap_or (lg_holders L b) [] @ [a]) else lg_holders L b)"
  "lg_holder_counts (enlist b a L) = (lg_holder_counts L)(b := if balance L b a = 0
     then Some (ucast (vec_len (unwrap_or (lg_holders L b) [] @ [a]))) else lg_holder_counts L b)"
  by (simp_all add: enlist_def Let_def)

lemma inv_totals_step:
  assumes "ledger_step L l L'" and "inv_totals L" and "inv_balances L" and "inv_ids n L" and "Suc n < 2 ^ 64"
  shows "inv_totals L'"
  using assms(1)
proof (cases rule: ledger_step.cases)
  case (l_issue c k cfg now)
  have "map_total (lg_balances L) (bond_accounts (lg_count L + 1)) = 0"
    using fresh_id(2) [OF assms(4,5)] assms(3)
    by (intro map_total_none) (fastforce simp: inv_balances_def bond_accounts_def)
  with l_issue assms(2) show ?thesis
    by (auto simp: inv_totals_def open_bond_def valid_config_def)
next
  case (l_redeem k a x b cfg bs)
  then have "bs_total_subscribed bs \<le> bc_total_supply cfg"
    using assms(2) unfolding inv_totals_def by blast
  with l_redeem assms(2,3) inv_totals_credit [of "spend a L" b bs "- x" a] show ?thesis
    by (auto simp: inv_balances_def)
qed (use assms in \<open>auto simp: inv_totals_def inv_balances_def credit_total\<close>)

lemma inv_holders_step:
  assumes "ledger_step L l L'" and "inv_holders L" and "inv_balances L" and "inv_ids n L" and "Suc n < 2 ^ 64"
  shows "inv_holders L'"
  using assms(1)
proof (cases rule: ledger_step.cases)
  case (l_issue c k cfg now)
  have "balance L (lg_count L + 1) a = 0" for a
    using fresh_id(2) [OF assms(4,5)] assms(3)
    by (cases "lg_balances L (lg_count L + 1, a)") (auto simp: inv_balances_def balance_def)
  with l_issue assms(2) show ?thesis
    by (auto simp: inv_holders_def open_bond_def balance_def spend_def)
next
  case (l_subscribe k a x b cfg bs now)
  have "balance L b a = 0 \<or> 0 < balance L b a"
    using inv_balances_nonneg [OF assms(3), of b a] by linarith
  with l_subscribe assms(2) show ?thesis
    by (auto simp: inv_holders_def balance_credit enlist_holders split: if_splits)
next
  case (l_transfer k a a' x b cfg bs now)
  have "balance L b a' = 0 \<or> 0 < balance L b a'"
    using inv_balances_nonneg [OF assms(3), of b a'] by linarith
  with l_transfer assms(2) show ?thesis
    by (auto simp: inv_holders_def balance_credit enlist_holders split: if_splits)
qed (use assms in \<open>auto simp: inv_holders_def balance_credit split: if_splits\<close>)

lemma ledger_inv_step:
  "ledger_inv n L \<Longrightarrow> ledger_step L l L' \<Longrightarrow> Suc n < 2 ^ 64 \<Longrightarrow> ledger_inv (Suc n) L'"
  unfolding ledger_inv_def
  by (blast intro: inv_ids_step inv_balances_step inv_totals_step inv_holders_step)

lemma spend_nonces: "lg_nonces (spend a L) = (lg_nonces L)(a \<mapsto> unwrap_or (lg_nonces L a) 0 + 1)"
  by (simp add: spend_def)

lemma open_bond_nonces [simp]: "lg_nonces (open_bond b cfg now L) = lg_nonces L"
  by (simp add: open_bond_def)

lemma issuer_get_nonce_ledger: "issuer_get_nonce st = (\<lambda>a. unwrap_or (lg_nonces (ledger_of st) a) 0)"
  by (simp add: issuer_get_nonce_def ledger_of_def fun_eq_iff)

interpretation issuer: simulated_machine issuer_step ledger_step ledger_of "\<lambda>_. True" ledger_inv
  by unfold_locales (erule issuer_step_ledger, rule TrueI, fact ledger_inv_step)

interpretation issuer_nonces: nonce_machine issuer_step "\<lambda>l. l" issuer_get_nonce
proof unfold_locales
  fix s l t a n
  assume "issuer_step s l t" and "l = Some (a, n)"
  from issuer_step_ledger [OF this(1)] this(2)
  show "issuer_get_nonce s a = n \<and> issuer_get_nonce t = (issuer_get_nonce s)(a := n + 1)"
    by (cases rule: ledger_step.cases) (auto simp: issuer_get_nonce_ledger spend_nonces)
next
  fix s l t
  assume "issuer_step s l t" and "l = None"
  from issuer_step_ledger [OF this(1)] this(2) show "issuer_get_nonce t = issuer_get_nonce s"
    by (cases rule: ledger_step.cases) (auto simp: issuer_get_nonce_ledger)
qed

lemma ledger_inv_constructor: "ledger_inv 0 (ledger_of (issuer_constructor admin))"
  by (simp add: ledger_inv_def inv_ids_def inv_balances_def inv_totals_def inv_holders_def
      ledger_of_def issuer_constructor_def balance_def storage_simps)

lemma issuer_reachable_inv:
  assumes "run issuer_step (issuer_constructor admin) ls st" and "length ls < 2 ^ 64"
  shows "ledger_inv (length ls) (ledger_of st)"
  using issuer.conc.inv_run [OF assms(1), of 0] ledger_inv_constructor assms(2) by simp

lemma get_holder_balance_ledger: "get_holder_balance st = balance (ledger_of st)"
  by (simp add: fun_eq_iff get_holder_balance_def balance_def ledger_of_def)

lemma transfer_balances:
  assumes "transfer env a a' b x n st = Ok st'"
  shows "a' \<noteq> a \<and> 0 < x \<and> x \<le> get_holder_balance st b a \<and>
    get_holder_balance st' b' h = get_holder_balance st b' h +
      (if b' = b then (if h = a' then x else if h = a then - x else 0) else 0)"
  using transfer_Ok [OF assms] by (auto simp: get_holder_balance_ledger balance_credit)

lemma transfer_authorised:
  "transfer env a a' b x n st = Ok st' \<Longrightarrow> has_signed env a (current_contract env) \<or> invoker env = Some a"
  by (auto simp: transfer_def result_simps require_auth_def split: if_splits)

lemma extend_bond_ttl_not_Err: "extend_bond_ttl env b m st \<noteq> Err e" "append_holder env b m a st \<noteq> Err e"
  by (auto simp: extend_bond_ttl_def append_holder_def Let_def result_simps pext_or_trap_def)

lemma transfer_current_nonce: "transfer env a a' b x (issuer_get_nonce st a) st \<noteq> Err BondError.InvalidNonce"
  by (auto simp: transfer_def result_simps guard_simps issuer_consume_nonce_def issuer_get_nonce_def
      extend_bond_ttl_not_Err Let_def split: if_splits)

interpretation bonds: token_ledger get_holder_balance issuer_get_nonce transfer
  by unfold_locales (fact transfer_balances, fact transfer_authorised, fact transfer_current_nonce)

section \<open>Properties\<close>

lemmas issuer_exec = sample_env_def sample_config_def issuer_constructor_def
  issue_bond_def subscribe_def transfer_def redeem_def mature_bond_def append_holder_def extend_bond_ttl_def
  extend_bond_list_ttl_def issuer_require_admin_def issuer_consume_nonce_def require_auth_def
  pext_or_trap_def Let_def ok_or_def checked_i128_def fits_i128_def i128_min_def i128_max_def
  add_word_def vec_len_def phas_def pset_def pget_def pext_def

lemma ledger_accounts:
  assumes "ledger_inv n (ledger_of st)"
    and "pget (iss_states st) b = Some bs" and "pget (iss_configs st) b = Some cfg"
  shows "map_total (pget (iss_balances st)) (bond_accounts b) = bs_total_subscribed bs"
    and "0 \<le> bs_total_subscribed bs" and "bs_total_subscribed bs \<le> bc_total_supply cfg"
    and "0 \<le> get_holder_balance st b a" and "get_holder_balance st b a \<le> bs_total_subscribed bs"
proof -
  let ?m = "pget (iss_balances st)"
  have inv: "inv_balances (ledger_of st)" "inv_totals (ledger_of st)"
    using assms(1) by (simp_all add: ledger_inv_def)
  show tot: "map_total ?m (bond_accounts b) = bs_total_subscribed bs"
    and "bs_total_subscribed bs \<le> bc_total_supply cfg"
    using inv(2) assms(2,3) by (auto simp: inv_totals_def ledger_of_def)
  have nn: "0 \<le> v" if "?m k = Some v" for k v
    using inv(1) that by (cases k) (auto simp: inv_balances_def ledger_of_def)
  have fin: "finite (dom ?m)" using inv(1) by (simp add: inv_balances_def ledger_of_def)
  show pos: "0 \<le> bs_total_subscribed bs"
    using map_total_nonneg [of ?m "bond_accounts b"] nn tot by simp
  have "0 \<le> get_holder_balance st b a \<and> get_holder_balance st b a \<le> bs_total_subscribed bs"
  proof (cases "?m (b, a)")
    case None
    with pos show ?thesis by (simp add: get_holder_balance_def)
  next
    case (Some v)
    with map_total_member_le [OF fin, of "bond_accounts b" "(b, a)" v] nn tot show ?thesis
      by (simp add: get_holder_balance_def bond_accounts_def)
  qed
  then show "0 \<le> get_holder_balance st b a" "get_holder_balance st b a \<le> bs_total_subscribed bs"
    by blast+
qed

text \<open>
  C2. In every state that fewer than \<open>2 ^ 64\<close> calls can reach, the balances of a bond add up to
  the subscribed total the contract keeps for it, that total is non-negative and never exceeds the
  bond's supply, and every balance lies between zero and the total.
\<close>

theorem issuer_supply_conserved:
  assumes "run issuer_step (issuer_constructor admin) ls st" and "length ls < 2 ^ 64"
    and "pget (iss_states st) b = Some bs" and "pget (iss_configs st) b = Some cfg"
  shows "map_total (pget (iss_balances st)) (bond_accounts b) = bs_total_subscribed bs \<and>
    0 \<le> bs_total_subscribed bs \<and> bs_total_subscribed bs \<le> bc_total_supply cfg \<and>
    (\<forall>a. 0 \<le> get_holder_balance st b a \<and> get_holder_balance st b a \<le> bs_total_subscribed bs)"
  using ledger_accounts [OF issuer_reachable_inv [OF assms(1,2)] assms(3,4)] by blast

lemma sample_subscribed:
  "\<exists>st. run issuer_step (issuer_constructor (Address 0)) [Some (Address 0, 0), Some (Address 1, 0)] st \<and>
     pget (iss_configs st) 1 = Some sample_config \<and>
     pget (iss_states st) 1 = Some \<lparr>bs_total_subscribed = 300, bs_status = Active, bs_created_at = 10\<rparr> \<and>
     get_holder_balance st 1 (Address 1) = 300 \<and> get_holder_list st 1 = [Address 1] \<and>
     issuer_get_nonce st (Address 1) = 1"
proof -
  have "\<exists>st1 st2. issue_bond (sample_env 10) (Address 0) sample_config 0 (issuer_constructor (Address 0)) = Ok (1, st1) \<and>
     subscribe (sample_env 20) (Address 1) 1 300 0 st1 = Ok st2 \<and>
     pget (iss_configs st2) 1 = Some sample_config \<and>
     pget (iss_states st2) 1 = Some \<lparr>bs_total_subscribed = 300, bs_status = Active, bs_created_at = 10\<rparr> \<and>
     get_holder_balance st2 1 (Address 1) = 300 \<and> get_holder_list st2 1 = [Address 1] \<and>
     issuer_get_nonce st2 (Address 1) = 1"
    by (simp add: issuer_exec get_holder_balance_def get_holder_list_def issuer_get_nonce_def)
  then show ?thesis
    by (blast intro: run_Cons run_refl step_issue_bond step_subscribe)
qed

theorem issuer_supply_conserved_witness:
  "\<exists>st. map_total (pget (iss_balances st)) (bond_accounts 1) = 300 \<and> get_holder_balance st 1 (Address 1) = 300"
proof -
  from sample_subscribed obtain st where
    r: "run issuer_step (issuer_constructor (Address 0)) [Some (Address 0, 0), Some (Address 1, 0)] st"
    and c: "pget (iss_configs st) 1 = Some sample_config"
    and s: "pget (iss_states st) 1 = Some \<lparr>bs_total_subscribed = 300, bs_status = Active, bs_created_at = 10\<rparr>"
    and b: "get_holder_balance st 1 (Address 1) = 300" by blast
  from issuer_supply_conserved [OF r _ s c] b show ?thesis by auto
qed


text \<open>
  C27. Every run of the issuer's entrypoints is, call by call, a run of the abstract ledger: storage
  layout, lifetimes and events are implementation detail, and the ledger's steps are all that can
  happen to balances, bonds, holder lists and nonces.
\<close>

theorem issuer_refines_ledger:
  assumes "run issuer_step st ls st'"
  shows "run ledger_step (ledger_of st) ls (ledger_of st')"
  using issuer.run_refines [OF assms] by simp

theorem issuer_refines_ledger_witness:
  "\<exists>st. run ledger_step (ledger_of (issuer_constructor (Address 0)))
     [Some (Address 0, 0), Some (Address 1, 0)] (ledger_of st) \<and> balance (ledger_of st) 1 (Address 1) = 300"
proof -
  from sample_subscribed obtain st where
    r: "run issuer_step (issuer_constructor (Address 0)) [Some (Address 0, 0), Some (Address 1, 0)] st"
    and b: "get_holder_balance st 1 (Address 1) = 300" by blast
  from issuer_refines_ledger [OF r] b show ?thesis
    by (intro exI [of _ st]) (simp add: balance_def ledger_of_def get_holder_balance_def)
qed

text \<open>
  Whoever has a positive balance of a bond is in the bond's holder list, and the stored holder
  count is the length of that list; the coupon engine pays the holders it finds there.
\<close>

theorem holder_list_complete:
  assumes "run issuer_step (issuer_constructor admin) ls st" and "length ls < 2 ^ 64"
    and "0 < get_holder_balance st b a"
  shows "a \<in> set (get_holder_list st b) \<and>
    get_holder_count st b = ucast (vec_len (get_holder_list st b))"
proof -
  have inv: "inv_holders (ledger_of st)" "inv_balances (ledger_of st)"
    using issuer_reachable_inv [OF assms(1,2)] by (simp_all add: ledger_inv_def)
  have "b \<in> dom (lg_states (ledger_of st))"
    using assms(3) inv(2)
    by (cases "pget (iss_balances st) (b, a)")
      (auto simp: inv_balances_def ledger_of_def get_holder_balance_def)
  with inv(1) obtain hs where "pget (iss_holder_lists st) b = Some hs"
    "pget (iss_holder_counts st) b = Some (ucast (vec_len hs))"
    unfolding inv_holders_def by (auto simp: ledger_of_def dest: bspec)
  moreover have "a \<in> set (unwrap_or (lg_holders (ledger_of st) b) [])"
    using inv(1) assms(3) unfolding inv_holders_def
    by (simp add: balance_def get_holder_balance_def ledger_of_def)
  ultimately show ?thesis
    by (simp add: ledger_of_def get_holder_list_def get_holder_count_def holder_count_from_persistent_def)
qed

theorem holder_list_complete_witness:
  "\<exists>st. Address 1 \<in> set (get_holder_list st 1) \<and> get_holder_count st 1 = 1"
proof -
  from sample_subscribed obtain st where
    r: "run issuer_step (issuer_constructor (Address 0)) [Some (Address 0, 0), Some (Address 1, 0)] st"
    and b: "get_holder_balance st 1 (Address 1) = 300" and l: "get_holder_list st 1 = [Address 1]" by blast
  from holder_list_complete [OF r, of 1 "Address 1"] b l show ?thesis
    by (intro exI [of _ st]) (auto simp: vec_len_def)
qed

text \<open>
  A holder who sends the whole balance away and receives some back is listed twice, although the
  comments of the contract promise a list without duplicates.
\<close>

theorem holder_list_can_repeat:
  "\<exists>ls st. run issuer_step (issuer_constructor (Address 0)) ls st \<and>
     get_holder_list st 1 = [Address 1, Address 2, Address 1] \<and> get_holder_count st 1 = 3"
proof -
  have "\<exists>st1 st2 st3 st4.
     issue_bond (sample_env 10) (Address 0) sample_config 0 (issuer_constructor (Address 0)) = Ok (1, st1) \<and>
     subscribe (sample_env 20) (Address 1) 1 300 0 st1 = Ok st2 \<and>
     transfer (sample_env 20) (Address 1) (Address 2) 1 300 1 st2 = Ok st3 \<and>
     transfer (sample_env 20) (Address 2) (Address 1) 1 300 0 st3 = Ok st4 \<and>
     get_holder_list st4 1 = [Address 1, Address 2, Address 1] \<and> get_holder_count st4 1 = 3"
    by (simp add: issuer_exec get_holder_list_def get_holder_count_def holder_count_from_persistent_def)
  then show ?thesis
    by (blast intro: run_Cons run_refl step_issue_bond step_subscribe step_transfer)
qed

text \<open>
  A successful transfer moves exactly the given positive amount from the sender, who had it, to
  the receiver; it changes no other balance of any bond, no bond's state and no nonce but the sender's.
\<close>

theorem transfer_moves_exactly:
  assumes "transfer env from to b x nonce st = Ok st'"
  shows "get_holder_balance st' b' h = get_holder_balance st b' h +
      (if b' = b then (if h = to then x else if h = from then - x else 0) else 0) \<and>
    0 < x \<and> x \<le> get_holder_balance st b from \<and>
    pget (iss_states st') = pget (iss_states st) \<and> pget (iss_configs st') = pget (iss_configs st) \<and>
    issuer_get_nonce st' = (issuer_get_nonce st)(from := nonce + 1)"
proof -
  have bal: "get_holder_balance s = balance (ledger_of s)" for s
    by (simp add: fun_eq_iff get_holder_balance_def balance_def ledger_of_def)
  from transfer_Ok [OF assms] obtain L where
    L: "L = credit b to x (enlist b to (credit b from (- x) (spend from (ledger_of st))))"
    "ledger_of st' = L" and h: "to \<noteq> from" "0 < x" "x \<le> balance (ledger_of st) b from"
    "nonce = unwrap_or (lg_nonces (ledger_of st) from) 0" by auto
  have "pget (iss_states st') = lg_states L" "pget (iss_configs st') = lg_configs L"
    using L(2) by (auto simp: ledger_of_def)
  with L h show ?thesis
    by (auto simp: bal balance_credit issuer_get_nonce_ledger spend_nonces ledger_of_def)
qed

theorem transfer_moves_exactly_witness:
  "\<exists>st st'. get_holder_balance st 1 (Address 1) = 300 \<and>
     transfer (sample_env 20) (Address 1) (Address 2) 1 100 1 st = Ok st' \<and>
     get_holder_balance st' 1 (Address 1) = 200"
proof -
  have "\<exists>st1 st2 st3.
     issue_bond (sample_env 10) (Address 0) sample_config 0 (issuer_constructor (Address 0)) = Ok (1, st1) \<and>
     subscribe (sample_env 20) (Address 1) 1 300 0 st1 = Ok st2 \<and>
     transfer (sample_env 20) (Address 1) (Address 2) 1 100 1 st2 = Ok st3 \<and>
     get_holder_balance st2 1 (Address 1) = 300"
    by (simp add: issuer_exec get_holder_balance_def)
  then obtain st2 st3 where "transfer (sample_env 20) (Address 1) (Address 2) 1 100 1 st2 = Ok st3"
    "get_holder_balance st2 1 (Address 1) = 300" by blast
  with transfer_moves_exactly [OF this(1), of 1 "Address 1"] show ?thesis by auto
qed

lemma matured_step:
  assumes "ledger_step L l L'" and "inv_ids n L" and "Suc n < 2 ^ 64"
    and "lg_states L b = Some bs" and "bs_status bs = Matured"
  shows "\<exists>bs'. lg_states L' b = Some bs' \<and> bs_status bs' = Matured \<and>
    bs_total_subscribed bs' \<le> bs_total_subscribed bs \<and> (\<forall>a. balance L' b a \<le> balance L b a)"
  using assms(1)
proof (cases rule: ledger_step.cases)
  case (l_issue c k cfg now)
  with fresh_id(2) [OF assms(2,3)] assms(4,5) show ?thesis
    by (auto simp: open_bond_def balance_def spend_def)
qed (use assms(4,5) in \<open>auto simp: balance_credit split: if_splits\<close>)

lemma matured_run:
  assumes "run ledger_step L ls L'" and "ledger_inv n L" and "n + length ls < 2 ^ 64"
    and "lg_states L b = Some bs" and "bs_status bs = Matured"
  shows "\<exists>bs'. lg_states L' b = Some bs' \<and> bs_status bs' = Matured \<and>
    bs_total_subscribed bs' \<le> bs_total_subscribed bs \<and> (\<forall>a. balance L' b a \<le> balance L b a)"
  using assms
proof (induction rule: run.induct)
  case (run_refl s)
  then show ?case by auto
next
  case (run_snoc s ls t l u)
  have "inv_ids (n + length ls) t"
    using issuer.inv_run [OF run_snoc.hyps(1) run_snoc.prems(1)] run_snoc.prems(2)
    by (simp add: ledger_inv_def)
  moreover obtain bs1 where b1: "lg_states t b = Some bs1" "bs_status bs1 = Matured"
      "bs_total_subscribed bs1 \<le> bs_total_subscribed bs" "\<forall>a. balance t b a \<le> balance s b a"
    using run_snoc by auto
  ultimately obtain bs2 where "lg_states u b = Some bs2" "bs_status bs2 = Matured"
      "bs_total_subscribed bs2 \<le> bs_total_subscribed bs1" "\<forall>a. balance u b a \<le> balance t b a"
    using matured_step [OF run_snoc.hyps(2)] run_snoc.prems(2) by fastforce
  with b1 show ?case by (meson order_trans)
qed

text \<open>
  Once a bond has matured it stays matured whatever is called afterwards: its total and every
  balance of it can only go down.
\<close>

theorem maturity_is_final:
  assumes "run issuer_step (issuer_constructor admin) ls st" and "run issuer_step st ls' st'"
    and "length ls + length ls' < 2 ^ 64"
    and "pget (iss_states st) b = Some bs" and "bs_status bs = Matured"
  shows "\<exists>bs'. pget (iss_states st') b = Some bs' \<and> bs_status bs' = Matured \<and>
    bs_total_subscribed bs' \<le> bs_total_subscribed bs \<and>
    (\<forall>a. get_holder_balance st' b a \<le> get_holder_balance st b a)"
proof -
  have "ledger_inv (length ls) (ledger_of st)"
    using issuer_reachable_inv [OF assms(1)] assms(3) by simp
  from matured_run [OF issuer.run_refines [OF assms(2) TrueI] this assms(3)] assms(4,5)
  show ?thesis by (simp add: ledger_of_def balance_def get_holder_balance_def)
qed

theorem maturity_is_final_witness:
  "\<exists>st st'. redeem (sample_env 120) (Address 1) 1 100 1 st = Ok st' \<and>
     (\<exists>bs. pget (iss_states st') 1 = Some bs \<and> bs_status bs = Matured) \<and>
     get_holder_balance st' 1 (Address 1) \<le> get_holder_balance st 1 (Address 1)"
proof -
  have "\<exists>st1 st2 st3 st4 bs.
     issue_bond (sample_env 10) (Address 0) sample_config 0 (issuer_constructor (Address 0)) = Ok (1, st1) \<and>
     subscribe (sample_env 20) (Address 1) 1 300 0 st1 = Ok st2 \<and>
     mature_bond (sample_env 110) (Address 0) 1 1 st2 = Ok st3 \<and>
     redeem (sample_env 120) (Address 1) 1 100 1 st3 = Ok st4 \<and>
     pget (iss_states st3) 1 = Some bs \<and> bs_status bs = Matured"
    by (simp add: issuer_exec)
  then obtain st1 st2 st3 st4 bs where
    i: "issue_bond (sample_env 10) (Address 0) sample_config 0 (issuer_constructor (Address 0)) = Ok (1, st1)"
    and s: "subscribe (sample_env 20) (Address 1) 1 300 0 st1 = Ok st2"
    and m: "mature_bond (sample_env 110) (Address 0) 1 1 st2 = Ok st3"
    and r: "redeem (sample_env 120) (Address 1) 1 100 1 st3 = Ok st4"
    and b: "pget (iss_states st3) 1 = Some bs" "bs_status bs = Matured" by blast
  have r1: "run issuer_step (issuer_constructor (Address 0))
      [Some (Address 0, 0), Some (Address 1, 0), Some (Address 0, 1)] st3"
    using i s m by (blast intro: run_Cons run_refl step_issue_bond step_subscribe step_mature_bond)
  have r2: "run issuer_step st3 [Some (Address 1, 1)] st4"
    using r by (blast intro: run_Cons run_refl step_redeem)
  from maturity_is_final [OF r1 r2 _ b] r show ?thesis by auto
qed

text \<open>
  A page of the holder list is the corresponding slice of the list: the \<open>u64\<close> arithmetic of the
  bounds never cuts a page short, whatever the start and the count.
\<close>

theorem holder_pages:
  assumes "length (get_holder_list st b) < 2 ^ 32"
  shows "get_holder_list_range st b start count =
    take (unat count) (drop (unat start) (get_holder_list st b))"
proof -
  let ?hs = "get_holder_list st b"
  have len: "unat (vec_len ?hs) = length ?hs"
    using assms by (simp add: vec_len_def unsigned_of_nat take_bit_nat_eq_self)
  show ?thesis
  proof (cases "count = 0 \<or> vec_len ?hs \<le> start")
    case True
    then have "unat count = 0 \<or> length ?hs \<le> unat start"
      using len by (auto simp: word_le_nat_alt)
    with True show ?thesis
      by (auto simp: get_holder_list_range_def get_holder_list_def Let_def)
  next
    case False
    then show ?thesis
      using page_end [of start "vec_len ?hs" count] len
      by (auto simp: get_holder_list_range_def get_holder_list_def Let_def not_le collect_range_vec min_def)
  qed
qed

theorem holder_pages_witness:
  "\<exists>st. get_holder_list_range st 1 0 5 = [Address 1]"
proof -
  from sample_subscribed obtain st where "get_holder_list st 1 = [Address 1]" by blast
  with holder_pages [of st 1 0 5] show ?thesis by auto
qed

text \<open>
  In a run of fewer than \<open>2 ^ 64\<close> calls no signed request (caller and nonce) is accepted twice.
\<close>

theorem issuer_no_replay:
  assumes "run issuer_step st ls st'" and "length ls < 2 ^ 64"
  shows "distinct (filter (\<lambda>l. l \<noteq> None) ls)"
  using issuer_nonces.no_replay [OF assms] by simp

theorem issuer_no_replay_witness:
  "\<exists>st. run issuer_step (issuer_constructor (Address 0)) [Some (Address 0, 0), Some (Address 1, 0)] st \<and>
     distinct (filter (\<lambda>l. l \<noteq> None) [Some (Address 0, 0 :: u64), Some (Address 1, 0)])"
proof -
  from sample_subscribed obtain st where
    r: "run issuer_step (issuer_constructor (Address 0)) [Some (Address 0, 0), Some (Address 1, 0)] st"
    by blast
  from issuer_no_replay [OF r] r show ?thesis by auto
qed

lemma subscribe_conditions:
  assumes "subscribe env a b x n st = Ok st'"
  shows "(has_signed env a (current_contract env) \<or> invoker env = Some a) \<and>
    (unat n + 1 < 2 ^ 64 \<or> \<not> overflow_checks env)"
  using assms
  by (auto simp: subscribe_def result_simps guard_simps issuer_consume_nonce_def add_word_def Let_def
      split: if_splits)

text \<open>
  The exact condition under which a subscription succeeds: authorised, with the current nonce,
  for a positive amount, on an active bond before its maturity, within the supply and within \<open>i128\<close>.
\<close>

theorem subscribe_succeeds_iff:
  "is_ok (subscribe env a b x nonce st) \<longleftrightarrow>
     (has_signed env a (current_contract env) \<or> invoker env = Some a) \<and>
     nonce = issuer_get_nonce st a \<and> (unat nonce + 1 < 2 ^ 64 \<or> \<not> overflow_checks env) \<and> 0 < x \<and>
     (\<exists>cfg bs. pget (iss_configs st) b = Some cfg \<and> pget (iss_states st) b = Some bs \<and>
        bs_status bs = Active \<and> timestamp env < bc_maturity_date cfg \<and>
        bs_total_subscribed bs + x \<le> bc_total_supply cfg \<and>
        fits_i128 (bs_total_subscribed bs + x) \<and> fits_i128 (get_holder_balance st b a + x))"
    (is "?ok \<longleftrightarrow> ?conds")
proof
  assume ?ok
  then obtain st' where ok: "subscribe env a b x nonce st = Ok st'"
    by (cases "subscribe env a b x nonce st") auto
  from subscribe_Ok [OF ok] subscribe_conditions [OF ok] show ?conds
    by (auto simp: ledger_of_def issuer_get_nonce_def get_holder_balance_def balance_def)
next
  assume ?conds
  then obtain cfg bs where c: "pget (iss_configs st) b = Some cfg" "pget (iss_states st) b = Some bs"
    "bs_status bs = Active" "timestamp env < bc_maturity_date cfg"
    "bs_total_subscribed bs + x \<le> bc_total_supply cfg"
    "fits_i128 (bs_total_subscribed bs + x)" "fits_i128 (get_holder_balance st b a + x)"
    and auth: "(require_auth env a :: (BondError, unit) result) = Ok ()"
    and nonce: "nonce = issuer_get_nonce st a" "0 < x"
    and add: "(add_word env nonce 1 :: (BondError, u64) result) = Ok (nonce + 1)"
    by (auto simp: require_auth_def add_word_def)
  from c auth nonce add show ?ok
    by (simp add: subscribe_def issuer_consume_nonce_def issuer_get_nonce_def get_holder_balance_def
        extend_bond_ttl_def append_holder_def pext_or_trap_def ok_or_def checked_i128_def
        storage_simps Let_def not_le not_less)
qed

theorem subscribe_succeeds_iff_witness:
  "\<exists>st. is_ok (subscribe (sample_env 30) (Address 1) 1 200 1 st) \<and>
     \<not> is_ok (subscribe (sample_env 30) (Address 1) 1 201 1 st)"
proof -
  from sample_subscribed obtain st where h: "pget (iss_configs st) 1 = Some sample_config"
    "pget (iss_states st) 1 = Some \<lparr>bs_total_subscribed = 300, bs_status = Active, bs_created_at = 10\<rparr>"
    "get_holder_balance st 1 (Address 1) = 300" "issuer_get_nonce st (Address 1) = 1" by blast
  have "is_ok (subscribe (sample_env 30) (Address 1) 1 200 1 st)"
    "\<not> is_ok (subscribe (sample_env 30) (Address 1) 1 201 1 st)"
    unfolding subscribe_succeeds_iff
    by (use h in \<open>simp_all add: sample_env_def sample_config_def fits_i128_def i128_min_def i128_max_def\<close>)
  then show ?thesis by blast
qed

text \<open>
  A holder of a matured bond can always redeem any positive part of the balance: no reachable
  state of the accounting makes the call fail.
\<close>

theorem redeem_succeeds:
  assumes "run issuer_step (issuer_constructor admin) ls st" and "length ls < 2 ^ 64"
    and "pget (iss_configs st) b = Some cfg" and "fits_i128 (bc_total_supply cfg)"
    and "pget (iss_states st) b = Some bs" and "bs_status bs = Matured"
    and "0 < x" and "x \<le> get_holder_balance st b a"
    and "has_signed env a (current_contract env)" and "nonce = issuer_get_nonce st a"
    and "\<not> overflow_checks env"
  shows "\<exists>st'. redeem env a b x nonce st = Ok st' \<and>
    get_holder_balance st' b a = get_holder_balance st b a - x"
proof -
  note acc = ledger_accounts [OF issuer_reachable_inv [OF assms(1,2)] assms(5,3)]
  have "fits_i128 (get_holder_balance st b a - x)" "fits_i128 (bs_total_subscribed bs - x)"
    using acc(3) acc(5) [of a] assms(4,7,8) by (simp_all add: fits_i128_def i128_min_def i128_max_def)
  with assms show ?thesis
    by (auto simp: redeem_def require_auth_def issuer_consume_nonce_def issuer_get_nonce_def add_word_def
        get_holder_balance_def extend_bond_ttl_def pext_or_trap_def ok_or_def checked_i128_def
        storage_simps Let_def not_le not_less)
qed

theorem redeem_succeeds_witness:
  "\<exists>st st'. redeem (sample_env 120) (Address 1) 1 300 1 st = Ok st' \<and>
     get_holder_balance st' 1 (Address 1) = get_holder_balance st 1 (Address 1) - 300"
proof -
  have "\<exists>st1 st2 st3.
     issue_bond (sample_env 10) (Address 0) sample_config 0 (issuer_constructor (Address 0)) = Ok (1, st1) \<and>
     subscribe (sample_env 20) (Address 1) 1 300 0 st1 = Ok st2 \<and>
     mature_bond (sample_env 110) (Address 0) 1 1 st2 = Ok st3 \<and>
     pget (iss_configs st3) 1 = Some sample_config \<and>
     pget (iss_states st3) 1 = Some \<lparr>bs_total_subscribed = 300, bs_status = Matured, bs_created_at = 10\<rparr> \<and>
     get_holder_balance st3 1 (Address 1) = 300 \<and> issuer_get_nonce st3 (Address 1) = 1"
    by (simp add: issuer_exec get_holder_balance_def issuer_get_nonce_def)
  then obtain st where
    r: "run issuer_step (issuer_constructor (Address 0))
      [Some (Address 0, 0), Some (Address 1, 0), Some (Address 0, 1)] st"
    and h: "pget (iss_configs st) 1 = Some sample_config"
     "pget (iss_states st) 1 = Some \<lparr>bs_total_subscribed = 300, bs_status = Matured, bs_created_at = 10\<rparr>"
     "get_holder_balance st 1 (Address 1) = 300" "issuer_get_nonce st (Address 1) = 1"
    by (blast intro: run_Cons run_refl step_issue_bond step_subscribe step_mature_bond)
  have "\<exists>st'. redeem (sample_env 120) (Address 1) 1 300 1 st = Ok st' \<and>
     get_holder_balance st' 1 (Address 1) = get_holder_balance st 1 (Address 1) - 300"
    by (rule redeem_succeeds [OF r _ h(1) _ h(2)])
      (use h(3,4) in \<open>simp_all add: sample_config_def sample_env_def fits_i128_def i128_min_def i128_max_def\<close>)
  then show ?thesis by blast
qed

end
