(* ===== verification/Dex.thy ===== *)
theory Dex
  imports Issuer "HOL-Library.Multiset" "HOL-Library.Product_Lexorder"
begin

text \<open>
  The exchange, \<^verbatim>\<open>contracts/dex-router/src/lib.rs\<close>: sell orders on bond tokens, purchases settled
  against balances of quote assets kept by the router and against the bond issuer, quotes of a
  market-sized fill and the sweep of expired orders. A call of another contract goes to the issuer
  found at its address in \<open>issuers\<close>; no contract calls back. The lemmas show exact settlement, that the
  books agree with the event log, the life cycle of orders and that a quote is a best execution.
\<close>

section \<open>State\<close>

definition DEX_TTL_THRESHOLD :: u32 where
  "DEX_TTL_THRESHOLD = 17280"

definition DEX_TTL_EXTEND_TO :: u32 where
  "DEX_TTL_EXTEND_TO = 2073600"

datatype OrderStatus = Open | PartiallyFilled | Filled | Cancelled | Expired

datatype Side = Buy | Sell

record Order =
  od_id :: u64
  od_seller :: address
  od_bond_id :: u64
  od_amount :: int
  od_price_per_token :: int
  od_quote_asset :: symbol
  od_status :: OrderStatus
  od_created_at :: u64
  od_expires_at :: u64

text \<open>
  The events of successful calls; \<^verbatim>\<open>purchase_failed\<close> is published on a path that returns an error, so
  the host discards it with the rest of the call.
\<close>

datatype DexEvent =
  order_listed u64 address u64 int int
| order_cancelled u64 address
| order_filled u64 address address int int int
| quote_deposited address symbol int
| quote_withdrawn address symbol int
| expired_orders_cleaned u32

record dex =
  dx_admin :: "address option"
  dx_bond_issuer_address :: "address option"
  dx_coupon_engine_address :: "address option"
  dx_order_count :: "u64 option"
  dx_orders :: "(u64, Order) pstore"
  dx_seller_orders :: "(address, u64 list) pstore"
  dx_bond_orders :: "(u64, u64 list) pstore"
  dx_balances :: "(symbol \<times> address, int) pstore"
  dx_nonces :: "(address, u64) pstore"
  dx_events :: "DexEvent list"

type_synonym issuers = "address \<rightharpoonup> issuer"

section \<open>Helpers\<close>

definition dex_require_admin :: "dex \<Rightarrow> address \<Rightarrow> (DEXError, unit) result" where
  "dex_require_admin st caller =
     and_then (ok_or (dx_admin st) DEXError.NotInitialized) (\<lambda>admin.
     if caller \<noteq> admin then Err DEXError.Unauthorized else Ok ())"

definition dex_bump :: "env \<Rightarrow> ('k, 'v) pstore \<Rightarrow> 'k \<Rightarrow> ('k, 'v) pstore" where
  "dex_bump env m k = pext env DEX_TTL_THRESHOLD DEX_TTL_EXTEND_TO m k"

definition dex_get_nonce :: "env \<Rightarrow> address \<Rightarrow> dex \<Rightarrow> u64 \<times> dex" where
  "dex_get_nonce env addr st =
     (unwrap_or (pget (dx_nonces st) addr) 0,
      if phas (dx_nonces st) addr then st\<lparr>dx_nonces := dex_bump env (dx_nonces st) addr\<rparr> else st)"

definition dex_set_nonce :: "env \<Rightarrow> address \<Rightarrow> u64 \<Rightarrow> dex \<Rightarrow> dex" where
  "dex_set_nonce env addr nonce st =
     st\<lparr>dx_nonces := dex_bump env (pset env (dx_nonces st) addr nonce) addr\<rparr>"

definition get_balance :: "env \<Rightarrow> address \<Rightarrow> symbol \<Rightarrow> dex \<Rightarrow> int \<times> dex" where
  "get_balance env addr asset st =
     (unwrap_or (pget (dx_balances st) (asset, addr)) 0,
      if phas (dx_balances st) (asset, addr)
      then st\<lparr>dx_balances := dex_bump env (dx_balances st) (asset, addr)\<rparr> else st)"

definition set_balance :: "env \<Rightarrow> address \<Rightarrow> symbol \<Rightarrow> int \<Rightarrow> dex \<Rightarrow> dex" where
  "set_balance env addr asset amount st =
     st\<lparr>dx_balances := dex_bump env (pset env (dx_balances st) (asset, addr) amount) (asset, addr)\<rparr>"

definition is_order_expired :: "env \<Rightarrow> Order \<Rightarrow> bool" where
  "is_order_expired env order \<longleftrightarrow> timestamp env \<ge> od_expires_at order"

definition is_order_live :: "Order \<Rightarrow> bool" where
  "is_order_live order \<longleftrightarrow> od_status order = Open \<or> od_status order = PartiallyFilled"

definition verify_holder_balance ::
    "address \<Rightarrow> u64 \<Rightarrow> int \<Rightarrow> dex \<Rightarrow> issuers \<Rightarrow> (DEXError, unit) result" where
  "verify_holder_balance holder bond_id required st W =
     and_then (ok_or (dx_bond_issuer_address st) DEXError.NotInitialized) (\<lambda>bond_issuer.
     and_then (contract_at W bond_issuer) (\<lambda>iss.
     if get_holder_balance iss bond_id holder < required then Err DEXError.InsufficientBalance
     else Ok ()))"

text \<open>The nonce check that opens every guarded entrypoint.\<close>

definition dex_consume_nonce :: "env \<Rightarrow> address \<Rightarrow> u64 \<Rightarrow> dex \<Rightarrow> (DEXError, dex) result" where
  "dex_consume_nonce env caller nonce st =
     (let (expected_nonce, st) = dex_get_nonce env caller st
      in if nonce \<noteq> expected_nonce then Err DEXError.InvalidNonce
         else and_then (add_word env expected_nonce 1) (\<lambda>next. Ok (dex_set_nonce env caller next st)))"

definition dex_publish :: "DexEvent \<Rightarrow> dex \<Rightarrow> dex" where
  "dex_publish e st = st\<lparr>dx_events := dx_events st @ [e]\<rparr>"

definition write_order :: "env \<Rightarrow> u64 \<Rightarrow> Order \<Rightarrow> dex \<Rightarrow> dex" where
  "write_order env order_id order st =
     st\<lparr>dx_orders := dex_bump env (pset env (dx_orders st) order_id order) order_id\<rparr>"

section \<open>Entrypoints\<close>

definition dex_constructor :: "address \<Rightarrow> address \<Rightarrow> address \<Rightarrow> dex" where
  "dex_constructor admin bond_issuer_address coupon_engine_address =
     \<lparr>dx_admin = Some admin, dx_bond_issuer_address = Some bond_issuer_address,
      dx_coupon_engine_address = Some coupon_engine_address, dx_order_count = None,
      dx_orders = Map.empty, dx_seller_orders = Map.empty, dx_bond_orders = Map.empty,
      dx_balances = Map.empty, dx_nonces = Map.empty, dx_events = []\<rparr>"

definition list_bond_tokens ::
    "env \<Rightarrow> address \<Rightarrow> u64 \<Rightarrow> int \<Rightarrow> int \<Rightarrow> symbol \<Rightarrow> u64 \<Rightarrow> u64 \<Rightarrow> dex \<Rightarrow> issuers \<Rightarrow>
     (DEXError, u64 \<times> dex) result" where
  "list_bond_tokens env seller bond_id amount price_per_token quote_asset expires_after_seconds nonce st W =
     and_then (require_auth env seller) (\<lambda>_.
     and_then (dex_consume_nonce env seller nonce st) (\<lambda>st.
     if amount \<le> 0 \<or> price_per_token \<le> 0 then Err DEXError.ZeroAmount
     else if expires_after_seconds = 0 then Err DEXError.OrderExpired
     else and_then (verify_holder_balance seller bond_id amount st W) (\<lambda>_.
     and_then (add_word env (unwrap_or (dx_order_count st) 0) 1) (\<lambda>order_id.
     let st = st\<lparr>dx_order_count := Some order_id\<rparr>;
         now = timestamp env
     in and_then (ok_or (checked_add_u64 now expires_after_seconds) DEXError.OrderExpired) (\<lambda>expires_at.
     let order = \<lparr>od_id = order_id, od_seller = seller, od_bond_id = bond_id, od_amount = amount,
                  od_price_per_token = price_per_token, od_quote_asset = quote_asset,
                  od_status = Open, od_created_at = now, od_expires_at = expires_at\<rparr>;
         st = write_order env order_id order st;
         seller_orders = unwrap_or (pget (dx_seller_orders st) seller) [] @ [order_id];
         st = st\<lparr>dx_seller_orders :=
                   dex_bump env (pset env (dx_seller_orders st) seller seller_orders) seller\<rparr>;
         bond_orders = unwrap_or (pget (dx_bond_orders st) bond_id) [] @ [order_id];
         st = st\<lparr>dx_bond_orders :=
                   dex_bump env (pset env (dx_bond_orders st) bond_id bond_orders) bond_id\<rparr>
     in Ok (order_id, dex_publish (order_listed order_id seller bond_id amount price_per_token) st))))))"

definition cancel_listing :: "env \<Rightarrow> address \<Rightarrow> u64 \<Rightarrow> u64 \<Rightarrow> dex \<Rightarrow> (DEXError, dex) result" where
  "cancel_listing env caller order_id nonce st =
     and_then (require_auth env caller) (\<lambda>_.
     and_then (dex_consume_nonce env caller nonce st) (\<lambda>st.
     and_then (ok_or (pget (dx_orders st) order_id) DEXError.OrderNotFound) (\<lambda>order.
     if caller \<noteq> od_seller order then Err DEXError.Unauthorized
     else if od_status order \<noteq> Open \<and> od_status order \<noteq> PartiallyFilled then Err DEXError.OrderAlreadyFilled
     else Ok (dex_publish (order_cancelled order_id caller)
            (write_order env order_id (order\<lparr>od_status := Cancelled\<rparr>) st)))))"

definition execute_purchase ::
    "env \<Rightarrow> address \<Rightarrow> u64 \<Rightarrow> int \<Rightarrow> int \<Rightarrow> u64 \<Rightarrow> dex \<Rightarrow> issuers \<Rightarrow> (DEXError, dex \<times> issuers) result" where
  "execute_purchase env buyer order_id max_price amount nonce st W =
     and_then (require_auth env buyer) (\<lambda>_.
     and_then (dex_consume_nonce env buyer nonce st) (\<lambda>st.
     and_then (ok_or (pget (dx_orders st) order_id) DEXError.OrderNotFound) (\<lambda>order.
     let st = st\<lparr>dx_orders := dex_bump env (dx_orders st) order_id\<rparr>
     in if od_status order \<noteq> Open \<and> od_status order \<noteq> PartiallyFilled then Err DEXError.OrderAlreadyFilled
     else if buyer = od_seller order then Err DEXError.SelfBuyNotAllowed
     else if is_order_expired env order then Err DEXError.OrderExpired
     else if amount \<le> 0 then Err DEXError.ZeroAmount
     else if amount > od_amount order then Err DEXError.InsufficientBalance
     else if max_price < od_price_per_token order then Err DEXError.InsufficientBalance
     else and_then (map_err (\<lambda>_. DEXError.SellerBalanceDepleted)
                     (verify_holder_balance (od_seller order) (od_bond_id order) amount st W)) (\<lambda>_.
     and_then (ok_or (checked_i128 (amount * od_price_per_token order)) DEXError.Overflow) (\<lambda>proceeds.
     let (buyer_balance, st) = get_balance env buyer (od_quote_asset order) st
     in if buyer_balance < proceeds then Err DEXError.InsufficientFunds
     else and_then (arith_i128 env (buyer_balance - proceeds)) (\<lambda>new_buyer_balance.
     let st = set_balance env buyer (od_quote_asset order) new_buyer_balance st;
         (seller_balance, st) = get_balance env (od_seller order) (od_quote_asset order) st
     in and_then (ok_or (checked_i128 (seller_balance + proceeds)) DEXError.Overflow) (\<lambda>new_seller_balance.
     let st = set_balance env (od_seller order) (od_quote_asset order) new_seller_balance st
     in and_then (ok_or (dx_bond_issuer_address st) DEXError.NotInitialized) (\<lambda>bond_issuer.
     and_then (contract_at W bond_issuer) (\<lambda>iss.
     let seller_nonce = issuer_get_nonce iss (od_seller order)
     in and_then (try_invoke (transfer (call_env env bond_issuer) (od_seller order) buyer
                                (od_bond_id order) amount seller_nonce iss)
                    (\<lambda>e. if e = BondError.InvalidNonce then DEXError.InvalidNonce
                         else DEXError.InsufficientBalance)
                    DEXError.InsufficientBalance) (\<lambda>iss'.
     and_then (if amount = od_amount order then Ok (order\<lparr>od_status := Filled\<rparr>)
               else and_then (arith_i128 env (od_amount order - amount)) (\<lambda>left.
                    Ok (order\<lparr>od_status := PartiallyFilled, od_amount := left\<rparr>))) (\<lambda>order.
     let st = write_order env order_id order st;
         st = dex_publish (order_filled order_id buyer (od_seller order) amount
                (od_price_per_token order) proceeds) st
     in Ok (st, W(bond_issuer \<mapsto> iss')))))))))))))"

definition deposit_quote :: "env \<Rightarrow> address \<Rightarrow> symbol \<Rightarrow> int \<Rightarrow> u64 \<Rightarrow> dex \<Rightarrow> (DEXError, dex) result" where
  "deposit_quote env caller quote_asset amount nonce st =
     and_then (require_auth env caller) (\<lambda>_.
     and_then (dex_consume_nonce env caller nonce st) (\<lambda>st.
     if amount \<le> 0 then Err DEXError.ZeroAmount
     else let (balance, st) = get_balance env caller quote_asset st
     in and_then (ok_or (checked_i128 (balance + amount)) DEXError.Overflow) (\<lambda>new_balance.
        Ok (dex_publish (quote_deposited caller quote_asset amount)
             (set_balance env caller quote_asset new_balance st)))))"

definition withdraw_quote :: "env \<Rightarrow> address \<Rightarrow> symbol \<Rightarrow> int \<Rightarrow> u64 \<Rightarrow> dex \<Rightarrow> (DEXError, dex) result" where
  "withdraw_quote env caller quote_asset amount nonce st =
     and_then (require_auth env caller) (\<lambda>_.
     and_then (dex_consume_nonce env caller nonce st) (\<lambda>st.
     if amount \<le> 0 then Err DEXError.ZeroAmount
     else let (balance, st) = get_balance env caller quote_asset st
     in if balance < amount then Err DEXError.InsufficientFunds
     else and_then (arith_i128 env (balance - amount)) (\<lambda>new_balance.
        Ok (dex_publish (quote_withdrawn caller quote_asset amount)
             (set_balance env caller quote_asset new_balance st)))))"

definition get_quote_balance :: "env \<Rightarrow> address \<Rightarrow> symbol \<Rightarrow> dex \<Rightarrow> int \<times> dex" where
  "get_quote_balance env addr quote_asset st = get_balance env addr quote_asset st"

definition get_order :: "env \<Rightarrow> u64 \<Rightarrow> dex \<Rightarrow> (DEXError, Order \<times> dex) result" where
  "get_order env order_id st =
     and_then (ok_or (pget (dx_orders st) order_id) DEXError.OrderNotFound) (\<lambda>order.
     Ok (order, st\<lparr>dx_orders := dex_bump env (dx_orders st) order_id\<rparr>))"

definition get_bond_orders :: "env \<Rightarrow> u64 \<Rightarrow> dex \<Rightarrow> u64 list \<times> dex" where
  "get_bond_orders env bond_id st =
     (unwrap_or (pget (dx_bond_orders st) bond_id) [],
      if phas (dx_bond_orders st) bond_id
      then st\<lparr>dx_bond_orders := dex_bump env (dx_bond_orders st) bond_id\<rparr> else st)"

definition get_seller_orders :: "env \<Rightarrow> address \<Rightarrow> dex \<Rightarrow> u64 list \<times> dex" where
  "get_seller_orders env seller st =
     (unwrap_or (pget (dx_seller_orders st) seller) [],
      if phas (dx_seller_orders st) seller
      then st\<lparr>dx_seller_orders := dex_bump env (dx_seller_orders st) seller\<rparr> else st)"

definition order_count :: "dex \<Rightarrow> u64" where
  "order_count st = unwrap_or (dx_order_count st) 0"

section \<open>Quotes\<close>

text \<open>The comparison, the search for the position and the two loops of \<^verbatim>\<open>get_best_price\<close>.\<close>

fun precedes :: "Side \<Rightarrow> Order \<Rightarrow> Order \<Rightarrow> bool" where
  "precedes Buy order current \<longleftrightarrow> od_price_per_token order < od_price_per_token current \<or>
     (od_price_per_token order = od_price_per_token current \<and> od_id order < od_id current)"
| "precedes Sell order current \<longleftrightarrow> od_price_per_token order > od_price_per_token current \<or>
     (od_price_per_token order = od_price_per_token current \<and> od_id order < od_id current)"

fun insert_position :: "Side \<Rightarrow> Order \<Rightarrow> Order list \<Rightarrow> nat" where
  "insert_position side order [] = 0"
| "insert_position side order (current # rest) =
     (if precedes side order current then 0 else Suc (insert_position side order rest))"

definition insert_order :: "Side \<Rightarrow> Order \<Rightarrow> Order list \<Rightarrow> Order list" where
  "insert_order side order book =
     (let position = insert_position side order book
      in take position book @ [order] @ drop position book)"

definition is_quotable :: "env \<Rightarrow> u64 \<Rightarrow> Order \<Rightarrow> bool" where
  "is_quotable env bond_id order \<longleftrightarrow>
     \<not> (od_bond_id order \<noteq> bond_id \<or> od_amount order \<le> 0 \<or>
        (od_status order \<noteq> Open \<and> od_status order \<noteq> PartiallyFilled) \<or> is_order_expired env order)"

fun collect_sorted :: "env \<Rightarrow> u64 \<Rightarrow> Side \<Rightarrow> u64 list \<Rightarrow> Order list \<Rightarrow> dex \<Rightarrow> Order list \<times> dex" where
  "collect_sorted env bond_id side [] book st = (book, st)"
| "collect_sorted env bond_id side (order_id # order_ids) book st =
     (case pget (dx_orders st) order_id of
        None \<Rightarrow> collect_sorted env bond_id side order_ids book st
      | Some order \<Rightarrow>
          let st = st\<lparr>dx_orders := dex_bump env (dx_orders st) order_id\<rparr>
          in if \<not> is_quotable env bond_id order
             then collect_sorted env bond_id side order_ids book st
             else collect_sorted env bond_id side order_ids (insert_order side order book) st)"

fun fill_loop :: "env \<Rightarrow> Order list \<Rightarrow> int \<Rightarrow> int \<Rightarrow> int \<Rightarrow> (DEXError, int \<times> int) result" where
  "fill_loop env [] remaining filled cost_total = Ok (filled, cost_total)"
| "fill_loop env (order # orders) remaining filled cost_total =
     (if remaining = 0 then Ok (filled, cost_total)
      else let qty = min remaining (od_amount order)
      in and_then (ok_or (checked_i128 (qty * od_price_per_token order)) DEXError.Overflow) (\<lambda>cost.
         and_then (ok_or (checked_i128 (cost_total + cost)) DEXError.Overflow) (\<lambda>cost_total.
         and_then (ok_or (checked_i128 (filled + qty)) DEXError.Overflow) (\<lambda>filled.
         and_then (arith_i128 env (remaining - qty)) (\<lambda>remaining.
         fill_loop env orders remaining filled cost_total)))))"

definition get_best_price ::
    "env \<Rightarrow> u64 \<Rightarrow> Side \<Rightarrow> int \<Rightarrow> dex \<Rightarrow> (DEXError, (int \<times> int \<times> int) \<times> dex) result" where
  "get_best_price env bond_id side amount st =
     (if amount \<le> 0 then Err DEXError.ZeroAmount
      else let (order_ids, st) = get_bond_orders env bond_id st;
               (book, st) = collect_sorted env bond_id side order_ids [] st
      in case book of
           [] \<Rightarrow> Ok ((0, 0, 0), st)
         | first # _ \<Rightarrow>
             let best_price = od_price_per_token first
             in and_then (fill_loop env book amount 0 0) (\<lambda>(filled, cost_total).
                if filled = 0 then Ok ((0, 0, 0), st)
                else let average_price = cost_total sdiv filled
                in and_then (ok_or (checked_i128 (filled * best_price)) DEXError.Overflow) (\<lambda>ideal_total.
                   let adverse_delta = (case side of
                         Buy \<Rightarrow> saturate_i128 (cost_total - ideal_total)
                       | Sell \<Rightarrow> saturate_i128 (ideal_total - cost_total))
                   in and_then (if ideal_total > 0
                                then and_then (ok_or (checked_i128 (adverse_delta * 10000)) DEXError.Overflow)
                                       (\<lambda>scaled. Ok (scaled sdiv ideal_total))
                                else Ok 0) (\<lambda>slippage_bps.
                      Ok ((average_price, cost_total, slippage_bps), st)))))"

section \<open>Expired orders\<close>

fun clean_loop :: "env \<Rightarrow> u64 list \<Rightarrow> u32 \<Rightarrow> dex \<Rightarrow> (DEXError, u32 \<times> dex) result" where
  "clean_loop env [] cleaned st = Ok (cleaned, st)"
| "clean_loop env (order_id # ids) cleaned st =
     (case pget (dx_orders st) order_id of
        None \<Rightarrow> clean_loop env ids cleaned st
      | Some order \<Rightarrow>
          if (od_status order = Open \<or> od_status order = PartiallyFilled) \<and> is_order_expired env order
          then let st = write_order env order_id (order\<lparr>od_status := Expired\<rparr>) st
               in and_then (add_word env cleaned 1) (\<lambda>cleaned. clean_loop env ids cleaned st)
          else clean_loop env ids cleaned st)"

definition clean_expired_orders_range_impl ::
    "env \<Rightarrow> u64 \<Rightarrow> u64 \<Rightarrow> dex \<Rightarrow> (DEXError, u32 \<times> dex) result" where
  "clean_expired_orders_range_impl env start_id end_id st =
     and_then (clean_loop env (map of_nat [unat start_id..<Suc (unat end_id)]) 0 st) (\<lambda>(cleaned, st).
     Ok (cleaned, dex_publish (expired_orders_cleaned cleaned) st))"

definition clean_expired_orders :: "env \<Rightarrow> address \<Rightarrow> u64 \<Rightarrow> dex \<Rightarrow> (DEXError, u32 \<times> dex) result" where
  "clean_expired_orders env caller nonce st =
     and_then (require_auth env caller) (\<lambda>_.
     and_then (dex_consume_nonce env caller nonce st) (\<lambda>st.
     and_then (dex_require_admin st caller) (\<lambda>_.
     let count = unwrap_or (dx_order_count st) 0
     in if count = 0 then Ok (0, st)
        else clean_expired_orders_range_impl env 1 count st)))"

definition clean_expired_orders_range ::
    "env \<Rightarrow> address \<Rightarrow> u64 \<Rightarrow> u64 \<Rightarrow> u64 \<Rightarrow> dex \<Rightarrow> (DEXError, u32 \<times> dex) result" where
  "clean_expired_orders_range env caller nonce start_id end_id st =
     and_then (require_auth env caller) (\<lambda>_.
     and_then (dex_consume_nonce env caller nonce st) (\<lambda>st.
     and_then (dex_require_admin st caller) (\<lambda>_.
     let count = unwrap_or (dx_order_count st) 0
     in if start_id < 1 \<or> end_id > count \<or> start_id > end_id then Err DEXError.InvalidRange
        else clean_expired_orders_range_impl env start_id end_id st)))"

section \<open>Steps\<close>

text \<open>
  The exchange together with the issuers it can reach: a successful call of the exchange, or a call
  that somebody else makes to one of the issuers in between. The \<open>i128\<close> arguments that are stored as
  they come lie within their type.
\<close>

inductive dex_step :: "dex \<times> issuers \<Rightarrow> call_label \<Rightarrow> dex \<times> issuers \<Rightarrow> bool" where
  step_list: "fits_i128 amount \<Longrightarrow> fits_i128 price \<Longrightarrow>
     list_bond_tokens env seller bond_id amount price asset secs nonce st W = Ok (order_id, st') \<Longrightarrow>
     dex_step (st, W) (Some (seller, nonce)) (st', W)"
| step_cancel: "cancel_listing env caller order_id nonce st = Ok st' \<Longrightarrow>
     dex_step (st, W) (Some (caller, nonce)) (st', W)"
| step_purchase: "execute_purchase env buyer order_id max_price amount nonce st W = Ok (st', W') \<Longrightarrow>
     dex_step (st, W) (Some (buyer, nonce)) (st', W')"
| step_deposit: "deposit_quote env caller asset amount nonce st = Ok st' \<Longrightarrow>
     dex_step (st, W) (Some (caller, nonce)) (st', W)"
| step_withdraw: "withdraw_quote env caller asset amount nonce st = Ok st' \<Longrightarrow>
     dex_step (st, W) (Some (caller, nonce)) (st', W)"
| step_clean: "clean_expired_orders env caller nonce st = Ok (c, st') \<Longrightarrow>
     dex_step (st, W) (Some (caller, nonce)) (st', W)"
| step_clean_range: "clean_expired_orders_range env caller nonce lo hi st = Ok (c, st') \<Longrightarrow>
     dex_step (st, W) (Some (caller, nonce)) (st', W)"
| step_get_quote_balance: "get_quote_balance env a asset st = (v, st') \<Longrightarrow> dex_step (st, W) None (st', W)"
| step_get_order: "get_order env order_id st = Ok (order, st') \<Longrightarrow> dex_step (st, W) None (st', W)"
| step_get_bond_orders: "get_bond_orders env bond_id st = (ids, st') \<Longrightarrow> dex_step (st, W) None (st', W)"
| step_get_seller_orders: "get_seller_orders env seller st = (ids, st') \<Longrightarrow> dex_step (st, W) None (st', W)"
| step_get_best_price: "get_best_price env bond_id side amount st = Ok (q, st') \<Longrightarrow>
     dex_step (st, W) None (st', W)"
| step_issuer_call: "W a = Some iss \<Longrightarrow> issuer_step iss l iss' \<Longrightarrow>
     dex_step (st, W) None (st, W(a \<mapsto> iss'))"

section \<open>Abstract market\<close>

text \<open>
  What the exchange promises on its own side: numbered orders, balances of quote assets, an
  append-only log of events, and nonces. \<open>m_buy\<close> leaves open what happens at the issuer.
\<close>

record market =
  mk_admin :: "address option"
  mk_count :: u64
  mk_orders :: "u64 \<rightharpoonup> Order"
  mk_by_seller :: "address \<Rightarrow> u64 list"
  mk_by_bond :: "u64 \<Rightarrow> u64 list"
  mk_quote :: "symbol \<times> address \<rightharpoonup> int"
  mk_nonces :: "address \<Rightarrow> u64"
  mk_log :: "DexEvent list"

definition market_of :: "dex \<Rightarrow> market" where
  "market_of st =
     \<lparr>mk_admin = dx_admin st, mk_count = unwrap_or (dx_order_count st) 0, mk_orders = pget (dx_orders st),
      mk_by_seller = (\<lambda>a. unwrap_or (pget (dx_seller_orders st) a) []),
      mk_by_bond = (\<lambda>b. unwrap_or (pget (dx_bond_orders st) b) []),
      mk_quote = pget (dx_balances st), mk_nonces = (\<lambda>a. unwrap_or (pget (dx_nonces st) a) 0),
      mk_log = dx_events st\<rparr>"

text \<open>The stored amounts and prices lie within \<open>i128\<close> and those of orders are positive.\<close>

definition dex_typed :: "dex \<Rightarrow> bool" where
  "dex_typed st \<longleftrightarrow>
     (\<forall>i order. pget (dx_orders st) i = Some order \<longrightarrow>
        fits_i128 (od_amount order) \<and> fits_i128 (od_price_per_token order) \<and>
        0 < od_amount order \<and> 0 < od_price_per_token order) \<and>
     (\<forall>k v. pget (dx_balances st) k = Some v \<longrightarrow> fits_i128 v)"

definition quote :: "market \<Rightarrow> symbol \<Rightarrow> address \<Rightarrow> int" where
  "quote M q a = unwrap_or (mk_quote M (q, a)) 0"

definition mk_spend :: "address \<Rightarrow> market \<Rightarrow> market" where
  "mk_spend a M = M\<lparr>mk_nonces := (mk_nonces M)(a := mk_nonces M a + 1)\<rparr>"

definition mk_credit :: "symbol \<Rightarrow> address \<Rightarrow> int \<Rightarrow> market \<Rightarrow> market" where
  "mk_credit q a x M = M\<lparr>mk_quote := (mk_quote M)((q, a) \<mapsto> quote M q a + x)\<rparr>"

definition mk_note :: "DexEvent \<Rightarrow> market \<Rightarrow> market" where
  "mk_note e M = M\<lparr>mk_log := mk_log M @ [e]\<rparr>"

definition mk_put :: "u64 \<Rightarrow> Order \<Rightarrow> market \<Rightarrow> market" where
  "mk_put i order M = M\<lparr>mk_orders := (mk_orders M)(i \<mapsto> order)\<rparr>"

definition mk_enter :: "Order \<Rightarrow> market \<Rightarrow> market" where
  "mk_enter order M =
     M\<lparr>mk_count := od_id order, mk_orders := (mk_orders M)(od_id order \<mapsto> order),
       mk_by_seller := (mk_by_seller M)(od_seller order := mk_by_seller M (od_seller order) @ [od_id order]),
       mk_by_bond := (mk_by_bond M)(od_bond_id order := mk_by_bond M (od_bond_id order) @ [od_id order])\<rparr>"

text \<open>What remains of an order of which \<open>x\<close> is bought, and an order after a sweep at time \<open>now\<close>.\<close>

definition after_fill :: "int \<Rightarrow> Order \<Rightarrow> Order" where
  "after_fill x order =
     (if x = od_amount order then order\<lparr>od_status := Filled\<rparr>
      else order\<lparr>od_status := PartiallyFilled, od_amount := od_amount order - x\<rparr>)"

definition after_sweep :: "u64 \<Rightarrow> Order \<Rightarrow> Order" where
  "after_sweep now order =
     (if is_order_live order \<and> od_expires_at order \<le> now then order\<lparr>od_status := Expired\<rparr> else order)"

definition mk_sweep :: "u64 \<Rightarrow> u64 set \<Rightarrow> market \<Rightarrow> market" where
  "mk_sweep now I M =
     M\<lparr>mk_orders := (\<lambda>i. if i \<in> I then map_option (after_sweep now) (mk_orders M i) else mk_orders M i)\<rparr>"

inductive market_step :: "market \<Rightarrow> call_label \<Rightarrow> market \<Rightarrow> bool" where
  m_list: "n = mk_nonces M (od_seller order) \<Longrightarrow> od_id order = mk_count M + 1 \<Longrightarrow> 0 < od_amount order \<Longrightarrow>
     0 < od_price_per_token order \<Longrightarrow> od_status order = Open \<Longrightarrow> od_created_at order < od_expires_at order \<Longrightarrow>
     market_step M (Some (od_seller order, n))
       (mk_note (order_listed (od_id order) (od_seller order) (od_bond_id order) (od_amount order)
          (od_price_per_token order)) (mk_enter order (mk_spend (od_seller order) M)))"
| m_cancel: "n = mk_nonces M (od_seller order) \<Longrightarrow> mk_orders M i = Some order \<Longrightarrow> is_order_live order \<Longrightarrow>
     market_step M (Some (od_seller order, n))
       (mk_note (order_cancelled i (od_seller order))
          (mk_put i (order\<lparr>od_status := Cancelled\<rparr>) (mk_spend (od_seller order) M)))"
| m_buy: "n = mk_nonces M buyer \<Longrightarrow> mk_orders M i = Some order \<Longrightarrow> is_order_live order \<Longrightarrow>
     buyer \<noteq> od_seller order \<Longrightarrow> now < od_expires_at order \<Longrightarrow> 0 < x \<Longrightarrow> x \<le> od_amount order \<Longrightarrow>
     c = x * od_price_per_token order \<Longrightarrow> c \<le> quote M (od_quote_asset order) buyer \<Longrightarrow>
     market_step M (Some (buyer, n))
       (mk_note (order_filled i buyer (od_seller order) x (od_price_per_token order) c)
          (mk_put i (after_fill x order)
            (mk_credit (od_quote_asset order) (od_seller order) c
              (mk_credit (od_quote_asset order) buyer (- c) (mk_spend buyer M)))))"
| m_deposit: "n = mk_nonces M a \<Longrightarrow> 0 < x \<Longrightarrow>
     market_step M (Some (a, n)) (mk_note (quote_deposited a q x) (mk_credit q a x (mk_spend a M)))"
| m_withdraw: "n = mk_nonces M a \<Longrightarrow> 0 < x \<Longrightarrow> x \<le> quote M q a \<Longrightarrow>
     market_step M (Some (a, n)) (mk_note (quote_withdrawn a q x) (mk_credit q a (- x) (mk_spend a M)))"
| m_sweep: "n = mk_nonces M a \<Longrightarrow> mk_admin M = Some a \<Longrightarrow>
     market_step M (Some (a, n)) (mk_note (expired_orders_cleaned k) (mk_sweep now I (mk_spend a M)))"
| m_nothing_to_sweep: "n = mk_nonces M a \<Longrightarrow> mk_admin M = Some a \<Longrightarrow> mk_count M = 0 \<Longrightarrow>
     market_step M (Some (a, n)) (mk_spend a M)"
| m_read: "market_step M None M"

section \<open>Invariant\<close>

text \<open>
  The sums the event log records: what was deposited of an asset less what was withdrawn, and how
  much of an order was listed and filled.
\<close>

fun net_deposit :: "symbol \<Rightarrow> DexEvent \<Rightarrow> int" where
  "net_deposit q (quote_deposited _ q' x) = (if q' = q then x else 0)"
| "net_deposit q (quote_withdrawn _ q' x) = (if q' = q then - x else 0)"
| "net_deposit q _ = 0"

fun listed_amount :: "u64 \<Rightarrow> DexEvent \<Rightarrow> int" where
  "listed_amount i (order_listed j _ _ x _) = (if j = i then x else 0)"
| "listed_amount i _ = 0"

fun filled_amount :: "u64 \<Rightarrow> DexEvent \<Rightarrow> int" where
  "filled_amount i (order_filled j _ _ x _ _) = (if j = i then x else 0)"
| "filled_amount i _ = 0"

definition log_sum :: "(DexEvent \<Rightarrow> int) \<Rightarrow> DexEvent list \<Rightarrow> int" where
  "log_sum f es = (\<Sum>e\<leftarrow>es. f e)"

definition of_asset :: "symbol \<Rightarrow> symbol \<times> address \<Rightarrow> bool" where
  "of_asset q k \<longleftrightarrow> fst k = q"

definition open_amount :: "Order \<Rightarrow> int" where
  "open_amount order = (if od_status order = Filled then 0 else od_amount order)"

definition mk_ids :: "nat \<Rightarrow> market \<Rightarrow> bool" where
  "mk_ids n M \<longleftrightarrow> unat (mk_count M) \<le> n \<and>
     (\<forall>i. mk_orders M i \<noteq> None \<longleftrightarrow> 1 \<le> unat i \<and> unat i \<le> unat (mk_count M)) \<and>
     (\<forall>i order. mk_orders M i = Some order \<longrightarrow>
        od_id order = i \<and> 0 < od_amount order \<and> 0 < od_price_per_token order)"

definition mk_funds :: "market \<Rightarrow> bool" where
  "mk_funds M \<longleftrightarrow> finite (dom (mk_quote M)) \<and> (\<forall>k v. mk_quote M k = Some v \<longrightarrow> 0 \<le> v) \<and>
     (\<forall>q. map_total (mk_quote M) (of_asset q) = log_sum (net_deposit q) (mk_log M))"

definition mk_fills :: "market \<Rightarrow> bool" where
  "mk_fills M \<longleftrightarrow>
     (\<forall>i order. mk_orders M i = Some order \<longrightarrow>
        log_sum (filled_amount i) (mk_log M) + open_amount order = log_sum (listed_amount i) (mk_log M)) \<and>
     (\<forall>i. mk_orders M i = None \<longrightarrow>
        log_sum (filled_amount i) (mk_log M) = 0 \<and> log_sum (listed_amount i) (mk_log M) = 0)"

definition mk_index :: "market \<Rightarrow> bool" where
  "mk_index M \<longleftrightarrow> (\<forall>b. mk_by_bond M b =
     filter (\<lambda>i. map_option od_bond_id (mk_orders M i) = Some b) (map of_nat [1..<Suc (unat (mk_count M))]))"

definition market_inv :: "nat \<Rightarrow> market \<Rightarrow> bool" where
  "market_inv n M \<longleftrightarrow> mk_ids n M \<and> mk_funds M \<and> mk_fills M \<and> mk_index M"

definition touch_balance :: "env \<Rightarrow> address \<Rightarrow> symbol \<Rightarrow> dex \<Rightarrow> dex" where
  "touch_balance env a q st = snd (get_balance env a q st)"

definition quotes_fit :: "market \<Rightarrow> bool" where
  "quotes_fit M \<longleftrightarrow> (\<forall>k v. mk_quote M k = Some v \<longrightarrow> fits_i128 v)"

definition order_typed :: "Order \<Rightarrow> bool" where
  "order_typed order \<longleftrightarrow> fits_i128 (od_amount order) \<and> fits_i128 (od_price_per_token order) \<and>
     0 < od_amount order \<and> 0 < od_price_per_token order"

text \<open>Every step but a listing keeps the numbers in use, and the parts of an order that never change.\<close>

definition same_terms :: "Order \<Rightarrow> Order \<Rightarrow> bool" where
  "same_terms o1 o2 \<longleftrightarrow> od_id o2 = od_id o1 \<and> od_seller o2 = od_seller o1 \<and> od_bond_id o2 = od_bond_id o1 \<and>
     od_price_per_token o2 = od_price_per_token o1 \<and> od_quote_asset o2 = od_quote_asset o1 \<and>
     od_created_at o2 = od_created_at o1 \<and> od_expires_at o2 = od_expires_at o1"

definition order_moves :: "Order \<Rightarrow> Order \<Rightarrow> bool" where
  "order_moves o1 o2 \<longleftrightarrow> o2 = o1 \<or>
     (is_order_live o1 \<and> same_terms o1 o2 \<and> od_status o2 \<noteq> Open \<and> 0 < od_amount o2 \<and> od_amount o2 \<le> od_amount o1)"

definition quotes_nonneg :: "market \<Rightarrow> bool" where
  "quotes_nonneg M \<longleftrightarrow> (\<forall>k v. mk_quote M k = Some v \<longrightarrow> 0 \<le> v)"

fun side_price :: "Side \<Rightarrow> Order \<Rightarrow> int" where
  "side_price Buy order = od_price_per_token order"
| "side_price Sell order = - od_price_per_token order"

definition quote_key :: "Side \<Rightarrow> Order \<Rightarrow> int \<times> u64" where
  "quote_key side order = (side_price side order, od_id order)"

definition quotable_orders :: "env \<Rightarrow> u64 \<Rightarrow> dex \<Rightarrow> Order list" where
  "quotable_orders env b st =
     filter (is_quotable env b) (List.map_filter (pget (dx_orders st)) (unwrap_or (pget (dx_bond_orders st) b) []))"

fun greedy :: "int \<Rightarrow> Order list \<Rightarrow> int list" where
  "greedy r [] = []"
| "greedy r (order # orders) =
     min r (od_amount order) # greedy (r - min r (od_amount order)) orders"

definition fill_cost :: "int list \<Rightarrow> Order list \<Rightarrow> int" where
  "fill_cost xs orders = (\<Sum>i<length orders. xs ! i * od_price_per_token (orders ! i))"

definition side_sign :: "Side \<Rightarrow> int" where
  "side_sign side = (case side of Buy \<Rightarrow> 1 | Sell \<Rightarrow> - 1)"

definition order_evolves :: "Order \<Rightarrow> Order \<Rightarrow> bool" where
  "order_evolves o1 o2 \<longleftrightarrow> same_terms o1 o2 \<and> od_amount o2 \<le> od_amount o1 \<and>
     (od_status o2 = Open \<longrightarrow> od_status o1 = Open) \<and> (\<not> is_order_live o1 \<longrightarrow> o2 = o1)"

section \<open>Refinement\<close>


lemma dex_bump_pget [storage_simps]: "pget (dex_bump env m k) = pget m"
  by (simp add: dex_bump_def storage_simps)

lemma dex_bump_absent: "pget m k = None \<Longrightarrow> dex_bump env m k = m"
  by (auto simp: dex_bump_def pext_def pget_def split: option.splits)

lemmas market_defs = mk_spend_def mk_credit_def mk_note_def mk_put_def mk_enter_def quote_def

lemma market_of_orders [simp]:
  "market_of (write_order env i order st) = mk_put i order (market_of st)"
  "market_of (st\<lparr>dx_orders := dex_bump env (dx_orders st) k\<rparr>) = market_of st"
  "market_of (dex_publish e st) = mk_note e (market_of st)"
  by (simp_all add: write_order_def dex_publish_def market_of_def market_defs storage_simps)

lemma get_balance_market:
  "get_balance env a q st = (v, st') \<Longrightarrow> v = quote (market_of st) q a \<and> market_of st' = market_of st"
  by (auto simp: get_balance_def market_of_def quote_def storage_simps)

lemma set_balance_market:
  "v = quote (market_of st) q a + x \<Longrightarrow> market_of (set_balance env a q v st) = mk_credit q a x (market_of st)"
  by (simp add: set_balance_def market_of_def market_defs storage_simps)

lemma dex_consume_nonce_Ok:
  "dex_consume_nonce env a n st = Ok st' \<Longrightarrow>
     n = mk_nonces (market_of st) a \<and> market_of st' = mk_spend a (market_of st)"
  by (auto simp: dex_consume_nonce_def dex_get_nonce_def dex_set_nonce_def result_simps Let_def market_of_def
      mk_spend_def storage_simps fun_eq_iff dest!: add_word_OkD split: if_splits)

lemma dex_consume_nonce_issuer:
  "dex_consume_nonce env a n st = Ok st' \<Longrightarrow> dx_bond_issuer_address st' = dx_bond_issuer_address st"
  by (auto simp: dex_consume_nonce_def dex_get_nonce_def dex_set_nonce_def result_simps Let_def split: if_splits)

lemma dex_require_admin_Ok: "dex_require_admin st a = Ok u \<longleftrightarrow> mk_admin (market_of st) = Some a"
  by (auto simp: dex_require_admin_def result_simps market_of_def)

lemma market_reads: "pget (dx_orders st) = mk_orders (market_of st)" 
  "unwrap_or (dx_order_count st) 0 = mk_count (market_of st)"
  by (simp_all add: market_of_def)

lemma mk_fields [simp]:
  "mk_orders (mk_spend a M) = mk_orders M" "mk_admin (mk_spend a M) = mk_admin M"
  "mk_count (mk_spend a M) = mk_count M" "mk_quote (mk_spend a M) = mk_quote M"
  "mk_log (mk_spend a M) = mk_log M" "mk_by_bond (mk_spend a M) = mk_by_bond M"
  "mk_nonces (mk_spend a M) = (mk_nonces M)(a := mk_nonces M a + 1)"
  "quote (mk_spend a M) = quote M"
  "mk_orders (mk_credit q a x M) = mk_orders M" "mk_admin (mk_credit q a x M) = mk_admin M"
  "mk_count (mk_credit q a x M) = mk_count M" "mk_nonces (mk_credit q a x M) = mk_nonces M"
  "mk_log (mk_credit q a x M) = mk_log M" "mk_by_bond (mk_credit q a x M) = mk_by_bond M"
  "mk_orders (mk_note e M) = mk_orders M" "mk_admin (mk_note e M) = mk_admin M"
  "mk_count (mk_note e M) = mk_count M" "mk_nonces (mk_note e M) = mk_nonces M"
  "mk_log (mk_note e M) = mk_log M @ [e]" "mk_by_bond (mk_note e M) = mk_by_bond M"
  "mk_quote (mk_note e M) = mk_quote M"
  "mk_orders (mk_put i order M) = (mk_orders M)(i \<mapsto> order)" "mk_admin (mk_put i order M) = mk_admin M"
  "mk_count (mk_put i order M) = mk_count M" "mk_nonces (mk_put i order M) = mk_nonces M"
  "mk_log (mk_put i order M) = mk_log M" "mk_by_bond (mk_put i order M) = mk_by_bond M"
  "mk_quote (mk_put i order M) = mk_quote M"
  "mk_log (mk_enter order M) = mk_log M" "mk_quote (mk_enter order M) = mk_quote M"
  "mk_nonces (mk_enter order M) = mk_nonces M"
  "mk_orders (mk_enter order M) = (mk_orders M)(od_id order \<mapsto> order)" "mk_count (mk_enter order M) = od_id order"
  "mk_count (mk_sweep now I M) = mk_count M" "mk_nonces (mk_sweep now I M) = mk_nonces M"
  "mk_log (mk_sweep now I M) = mk_log M" "mk_by_bond (mk_sweep now I M) = mk_by_bond M"
  "mk_quote (mk_sweep now I M) = mk_quote M"
  by (simp_all add: market_defs mk_sweep_def fun_eq_iff)

lemma quote_fits: "dex_typed st \<Longrightarrow> fits_i128 (quote (market_of st) q a)"
  by (cases "pget (dx_balances st) (q, a)") (auto simp: dex_typed_def quote_def market_of_def)

lemma arith_between: "arith_i128 env x = Ok y \<Longrightarrow> fits_i128 hi \<Longrightarrow> 0 \<le> x \<Longrightarrow> x \<le> hi \<Longrightarrow> y = x"
  using fits_i128_between [OF fits_i128_zero] by (auto dest!: arith_i128_OkD)

lemma get_balance_eq: "get_balance env a q st = (quote (market_of st) q a, touch_balance env a q st)"
  by (simp add: touch_balance_def get_balance_def market_of_def quote_def)

lemma touch_balance_market [simp]: "market_of (touch_balance env a q st) = market_of st"
  by (simp add: touch_balance_def get_balance_def market_of_def storage_simps)

lemma deposit_quote_Ok:
  assumes "deposit_quote env a q x n st = Ok st'"
  shows "0 < x \<and> n = mk_nonces (market_of st) a \<and> fits_i128 (quote (market_of st) q a + x) \<and>
    market_of st' = mk_note (quote_deposited a q x) (mk_credit q a x (mk_spend a (market_of st)))"
proof -
  from assms obtain st1 v st2 where 1: "dex_consume_nonce env a n st = Ok st1" "0 < x"
    "get_balance env a q st1 = (v, st2)" "fits_i128 (v + x)"
    "st' = dex_publish (quote_deposited a q x) (set_balance env a q (v + x) st2)"
    by (auto simp: deposit_quote_def result_simps not_le split: if_splits prod.splits)
  from dex_consume_nonce_Ok [OF 1(1)] get_balance_market [OF 1(3)]
  have "n = mk_nonces (market_of st) a" "market_of st2 = mk_spend a (market_of st)" "v = quote (market_of st2) q a"
    by simp_all
  with 1(2,4,5) set_balance_market [of "v + x" st2 q a x] show ?thesis by simp
qed

lemma withdraw_quote_Ok:
  assumes "withdraw_quote env a q x n st = Ok st'" and "dex_typed st"
  shows "0 < x \<and> n = mk_nonces (market_of st) a \<and> x \<le> quote (market_of st) q a \<and>
    market_of st' = mk_note (quote_withdrawn a q x) (mk_credit q a (- x) (mk_spend a (market_of st)))"
proof -
  from assms(1) obtain st1 v st2 w where 1: "dex_consume_nonce env a n st = Ok st1" "0 < x"
    "get_balance env a q st1 = (v, st2)" "x \<le> v" "arith_i128 env (v - x) = (Ok w :: (DEXError, int) result)"
    "st' = dex_publish (quote_withdrawn a q x) (set_balance env a q w st2)"
    by (auto simp: withdraw_quote_def result_simps not_le not_less split: if_splits prod.splits)
  from dex_consume_nonce_Ok [OF 1(1)] get_balance_market [OF 1(3)]
  have m: "n = mk_nonces (market_of st) a" "market_of st2 = mk_spend a (market_of st)" "v = quote (market_of st2) q a"
    by simp_all
  then have "v = quote (market_of st) q a" by simp
  moreover from this arith_between [OF 1(5) quote_fits [OF assms(2), of q a]] 1(2,4) have "w = v - x" by simp
  ultimately show ?thesis using m 1(2,4,6) set_balance_market [of w st2 q a "- x"] by simp
qed

lemma cancel_listing_Ok:
  assumes "cancel_listing env a i n st = Ok st'"
  shows "\<exists>order. mk_orders (market_of st) i = Some order \<and> a = od_seller order \<and> is_order_live order \<and>
    n = mk_nonces (market_of st) a \<and>
    market_of st' = mk_note (order_cancelled i a) (mk_put i (order\<lparr>od_status := Cancelled\<rparr>) (mk_spend a (market_of st)))"
  using assms
  by (auto simp: cancel_listing_def result_simps is_order_live_def market_reads
      dest!: dex_consume_nonce_Ok split: if_splits)

lemma list_bond_tokens_Ok:
  assumes "list_bond_tokens env a b x p q secs n st W = Ok (i, st')"
  shows "\<exists>order. order = \<lparr>od_id = mk_count (market_of st) + 1, od_seller = a, od_bond_id = b, od_amount = x,
      od_price_per_token = p, od_quote_asset = q, od_status = Open, od_created_at = timestamp env,
      od_expires_at = timestamp env + secs\<rparr> \<and> i = od_id order \<and>
    n = mk_nonces (market_of st) a \<and> 0 < x \<and> 0 < p \<and> timestamp env < timestamp env + secs \<and>
    market_of st' = mk_note (order_listed i a b x p) (mk_enter order (mk_spend a (market_of st)))"
proof -
  from assms obtain st1 where 1: "dex_consume_nonce env a n st = Ok st1" "0 < x" "0 < p"
    "unat (timestamp env) + unat secs < 2 ^ 64" "secs \<noteq> 0" and i: "i = mk_count (market_of st1) + 1"
    and fin: "market_of st' = mk_note (order_listed i a b x p) (mk_enter \<lparr>od_id = i, od_seller = a,
      od_bond_id = b, od_amount = x, od_price_per_token = p, od_quote_asset = q, od_status = Open,
      od_created_at = timestamp env, od_expires_at = timestamp env + secs\<rparr> (market_of st1))"
    by (auto simp: list_bond_tokens_def result_simps Let_def checked_add_u64_def not_le write_order_def
        dex_publish_def market_of_def mk_note_def mk_enter_def storage_simps fun_eq_iff
        dest!: add_word_OkD split: if_splits)
  have "timestamp env < timestamp env + secs"
    using 1(4,5) by (simp add: word_less_nat_alt unat_add_lem [THEN iffD1] unat_gt_0)
  with dex_consume_nonce_Ok [OF 1(1)] 1 i fin show ?thesis by simp
qed

lemma clean_loop_Ok:
  "clean_loop env ids k st = Ok (c, st') \<Longrightarrow>
     market_of st' = mk_sweep (timestamp env) (set ids) (market_of st)"
proof (induction ids arbitrary: k st)
  case Nil
  then show ?case by (simp add: mk_sweep_def)
next
  case (Cons i ids)
  have sw: "mk_sweep (timestamp env) (set ids) M' = mk_sweep (timestamp env) (set (i # ids)) M"
    if "M' = (case mk_orders M i of None \<Rightarrow> M | Some order \<Rightarrow> mk_put i (after_sweep (timestamp env) order) M)" for M M'
    using that by (auto simp: mk_sweep_def mk_put_def after_sweep_def is_order_live_def fun_eq_iff split: option.splits)
  show ?case
  proof (cases "mk_orders (market_of st) i")
    case None
    with Cons sw [of _ "market_of st"] show ?thesis by (simp add: market_reads)
  next
    case (Some order)
    show ?thesis
    proof (cases "is_order_live order \<and> is_order_expired env order")
      case True
      with Cons.prems Some obtain k' where
        "clean_loop env ids k' (write_order env i (order\<lparr>od_status := Expired\<rparr>) st) = Ok (c, st')"
        by (auto simp: market_reads is_order_live_def result_simps Let_def)
      from Cons.IH [OF this] True Some sw [of _ "market_of st"] show ?thesis
        by (simp add: after_sweep_def is_order_expired_def)
    next
      case False
      with Cons.prems Some have "clean_loop env ids k st = Ok (c, st')"
        by (auto simp: market_reads is_order_live_def split: if_splits)
      from Cons.IH [OF this] False Some sw [of "market_of st" "market_of st"] show ?thesis
        by (auto simp: after_sweep_def is_order_expired_def mk_put_def fun_upd_idem)
    qed
  qed
qed

lemma range_impl_Ok:
  "clean_expired_orders_range_impl env lo hi st = Ok (c, st') \<Longrightarrow>
     market_of st' = mk_note (expired_orders_cleaned c)
       (mk_sweep (timestamp env) (set (map of_nat [unat lo..<Suc (unat hi)])) (market_of st))"
  by (auto simp: clean_expired_orders_range_impl_def result_simps dest!: clean_loop_Ok)

lemma clean_expired_orders_Ok:
  assumes "clean_expired_orders env a n st = Ok (c, st')"
  shows "mk_admin (market_of st) = Some a \<and> n = mk_nonces (market_of st) a \<and>
    (if mk_count (market_of st) = 0 then c = 0 \<and> market_of st' = mk_spend a (market_of st)
     else market_of st' = mk_note (expired_orders_cleaned c) (mk_sweep (timestamp env)
       (set (map of_nat [1..<Suc (unat (mk_count (market_of st)))])) (mk_spend a (market_of st))))"
proof -
  from assms obtain st1 where 1: "dex_consume_nonce env a n st = Ok st1" "mk_admin (market_of st1) = Some a"
    "if mk_count (market_of st1) = 0 then st' = st1 \<and> c = 0
     else clean_expired_orders_range_impl env 1 (mk_count (market_of st1)) st1 = Ok (c, st')"
    by (auto simp: clean_expired_orders_def result_simps Let_def dex_require_admin_Ok market_reads split: if_splits)
  from dex_consume_nonce_Ok [OF 1(1)] 1(2,3) show ?thesis
    by (auto dest!: range_impl_Ok simp del: upt_Suc split: if_splits)
qed

lemma clean_expired_orders_range_Ok:
  assumes "clean_expired_orders_range env a n lo hi st = Ok (c, st')"
  shows "mk_admin (market_of st) = Some a \<and> n = mk_nonces (market_of st) a \<and> 1 \<le> lo \<and> lo \<le> hi \<and>
    hi \<le> mk_count (market_of st) \<and> market_of st' = mk_note (expired_orders_cleaned c) (mk_sweep (timestamp env)
       (set (map of_nat [unat lo..<Suc (unat hi)])) (mk_spend a (market_of st)))"
proof -
  from assms obtain st1 where 1: "dex_consume_nonce env a n st = Ok st1" "mk_admin (market_of st1) = Some a"
    "1 \<le> lo" "lo \<le> hi" "hi \<le> mk_count (market_of st1)" "clean_expired_orders_range_impl env lo hi st1 = Ok (c, st')"
    by (auto simp: clean_expired_orders_range_def result_simps Let_def dex_require_admin_Ok market_reads not_less
        simp del: word_less_1 split: if_splits)
  from dex_consume_nonce_Ok [OF 1(1)] range_impl_Ok [OF 1(6)] 1(2-5) show ?thesis by (simp del: upt_Suc)
qed

lemma collect_market:
  "market_of (snd (collect_sorted env b side ids book st)) = market_of st"
  by (induction ids arbitrary: book st) (auto simp: Let_def split: option.splits)

lemma dex_read:
  "get_quote_balance env a q st = (v, st') \<Longrightarrow> market_of st' = market_of st"
  "get_order env i st = Ok (order, st') \<Longrightarrow> market_of st' = market_of st"
  "get_bond_orders env b st = (ids, st') \<Longrightarrow> market_of st' = market_of st"
  "get_seller_orders env a st = (ids, st') \<Longrightarrow> market_of st' = market_of st"
  by (auto simp: get_quote_balance_def get_order_def get_bond_orders_def get_seller_orders_def result_simps
      dest: get_balance_market) (auto simp: market_of_def storage_simps)

lemma best_price_read: "get_best_price env b side x st = Ok (r, st') \<Longrightarrow> market_of st' = market_of st"
  using collect_market [of env b side]
  by (auto simp: get_best_price_def result_simps Let_def split: if_splits prod.splits list.splits
      dest!: dex_read(3)) (metis snd_conv)+

lemma dx_issuer_frame [simp]:
  "dx_bond_issuer_address (set_balance env a q v st) = dx_bond_issuer_address st"
  "dx_bond_issuer_address (touch_balance env a q st) = dx_bond_issuer_address st"
  by (simp_all add: set_balance_def get_balance_def touch_balance_def)

lemma execute_purchase_raw:
  assumes "execute_purchase env buyer i max_price x n st W = Ok (st', W')"
  shows "\<exists>order bi iss iss' st1 st2 nb order'. dex_consume_nonce env buyer n st = Ok st1 \<and>
    mk_orders (market_of st1) i = Some order \<and> is_order_live order \<and> buyer \<noteq> od_seller order \<and>
    timestamp env < od_expires_at order \<and> 0 < x \<and> x \<le> od_amount order \<and>
    od_price_per_token order \<le> max_price \<and> fits_i128 (x * od_price_per_token order) \<and>
    x * od_price_per_token order \<le> quote (market_of st1) (od_quote_asset order) buyer \<and>
    arith_i128 env (quote (market_of st1) (od_quote_asset order) buyer - x * od_price_per_token order) =
      (Ok nb :: (DEXError, int) result) \<and>
    st2 = set_balance env buyer (od_quote_asset order) nb
      (touch_balance env buyer (od_quote_asset order) (st1\<lparr>dx_orders := dex_bump env (dx_orders st1) i\<rparr>)) \<and>
    fits_i128 (quote (market_of st2) (od_quote_asset order) (od_seller order) + x * od_price_per_token order) \<and>
    dx_bond_issuer_address st = Some bi \<and> W bi = Some iss \<and>
    transfer (call_env env bi) (od_seller order) buyer (od_bond_id order) x
      (issuer_get_nonce iss (od_seller order)) iss = Ok iss' \<and> W' = W(bi \<mapsto> iss') \<and>
    (if x = od_amount order then order' = order\<lparr>od_status := Filled\<rparr>
     else \<exists>left. arith_i128 env (od_amount order - x) = (Ok left :: (DEXError, int) result) \<and>
       order' = order\<lparr>od_status := PartiallyFilled, od_amount := left\<rparr>) \<and>
    st' = dex_publish (order_filled i buyer (od_seller order) x (od_price_per_token order)
        (x * od_price_per_token order)) (write_order env i order' (set_balance env (od_seller order)
        (od_quote_asset order) (quote (market_of st2) (od_quote_asset order) (od_seller order) +
           x * od_price_per_token order) (touch_balance env (od_seller order) (od_quote_asset order) st2)))"
  using assms
  by (clarsimp simp: execute_purchase_def result_simps get_balance_eq Let_def not_le not_less
      is_order_expired_def market_reads split: if_splits,
      auto simp: is_order_live_def dest: dex_consume_nonce_issuer)

lemma dex_typed_market:
  "dex_typed st \<longleftrightarrow> (\<forall>i order. mk_orders (market_of st) i = Some order \<longrightarrow> order_typed order) \<and>
     quotes_fit (market_of st)"
  by (simp add: dex_typed_def market_of_def quotes_fit_def order_typed_def)

lemma execute_purchase_Ok:
  assumes "execute_purchase env buyer i max_price x n st W = Ok (st', W')" and "dex_typed st"
  shows "\<exists>order bi iss iss' c. mk_orders (market_of st) i = Some order \<and> is_order_live order \<and>
    buyer \<noteq> od_seller order \<and> timestamp env < od_expires_at order \<and> 0 < x \<and> x \<le> od_amount order \<and>
    od_price_per_token order \<le> max_price \<and> c = x * od_price_per_token order \<and>
    c \<le> quote (market_of st) (od_quote_asset order) buyer \<and> n = mk_nonces (market_of st) buyer \<and>
    fits_i128 (quote (market_of st) (od_quote_asset order) (od_seller order) + c) \<and>
    dx_bond_issuer_address st = Some bi \<and> W bi = Some iss \<and>
    transfer (call_env env bi) (od_seller order) buyer (od_bond_id order) x
      (issuer_get_nonce iss (od_seller order)) iss = Ok iss' \<and> W' = W(bi \<mapsto> iss') \<and>
    market_of st' = mk_note (order_filled i buyer (od_seller order) x (od_price_per_token order) c)
      (mk_put i (after_fill x order) (mk_credit (od_quote_asset order) (od_seller order) c
         (mk_credit (od_quote_asset order) buyer (- c) (mk_spend buyer (market_of st)))))"
proof -
  from execute_purchase_raw [OF assms(1)] obtain order bi iss iss' st1 st2 nb order' where
    r: "dex_consume_nonce env buyer n st = Ok st1" "mk_orders (market_of st1) i = Some order"
      "is_order_live order" "buyer \<noteq> od_seller order" "timestamp env < od_expires_at order" "0 < x"
      "x \<le> od_amount order" "od_price_per_token order \<le> max_price"
      "x * od_price_per_token order \<le> quote (market_of st1) (od_quote_asset order) buyer"
    and nb: "arith_i128 env (quote (market_of st1) (od_quote_asset order) buyer - x * od_price_per_token order) =
      (Ok nb :: (DEXError, int) result)"
    and st2: "st2 = set_balance env buyer (od_quote_asset order) nb
      (touch_balance env buyer (od_quote_asset order) (st1\<lparr>dx_orders := dex_bump env (dx_orders st1) i\<rparr>))"
    and sb: "fits_i128 (quote (market_of st2) (od_quote_asset order) (od_seller order) + x * od_price_per_token order)"
    and iss: "dx_bond_issuer_address st = Some bi" "W bi = Some iss"
      "transfer (call_env env bi) (od_seller order) buyer (od_bond_id order) x
        (issuer_get_nonce iss (od_seller order)) iss = Ok iss'" "W' = W(bi \<mapsto> iss')"
    and order': "if x = od_amount order then order' = order\<lparr>od_status := Filled\<rparr>
     else \<exists>left. arith_i128 env (od_amount order - x) = (Ok left :: (DEXError, int) result) \<and>
       order' = order\<lparr>od_status := PartiallyFilled, od_amount := left\<rparr>"
    and st': "st' = dex_publish (order_filled i buyer (od_seller order) x (od_price_per_token order)
        (x * od_price_per_token order)) (write_order env i order' (set_balance env (od_seller order)
        (od_quote_asset order) (quote (market_of st2) (od_quote_asset order) (od_seller order) +
           x * od_price_per_token order) (touch_balance env (od_seller order) (od_quote_asset order) st2)))"
    by blast
  let ?c = "x * od_price_per_token order" and ?q = "od_quote_asset order"
  have m1: "n = mk_nonces (market_of st) buyer" "market_of st1 = mk_spend buyer (market_of st)"
    using dex_consume_nonce_Ok [OF r(1)] by simp_all
  have o: "mk_orders (market_of st) i = Some order" using r(2) m1 by simp
  with assms(2) have t: "0 < od_price_per_token order" "fits_i128 (od_amount order)"
    by (auto simp: dex_typed_market order_typed_def)
  have "nb = quote (market_of st) ?q buyer - ?c"
    using arith_between [OF nb, of "quote (market_of st) ?q buyer"] quote_fits [OF assms(2)] r(6,9) t(1) m1 by simp
  then have m2: "market_of st2 = mk_credit ?q buyer (- ?c) (mk_spend buyer (market_of st))"
    using st2 m1 by (simp add: set_balance_market [where x = "- ?c"])
  then have "quote (market_of st2) ?q (od_seller order) = quote (market_of st) ?q (od_seller order)"
    using r(4) by (simp add: quote_def mk_credit_def)
  moreover have "order' = after_fill x order"
    using order' arith_between [of env "od_amount order - x" _ "od_amount order", OF _ t(2)] r(6,7)
    by (auto simp: after_fill_def split: if_splits)
  ultimately show ?thesis
    using r m1 m2 o iss sb st' by (auto simp: set_balance_market [where x = ?c])
qed

lemma quotes_fit_frame [simp]:
  "quotes_fit (mk_spend a M) = quotes_fit M" "quotes_fit (mk_note e M) = quotes_fit M"
  "quotes_fit (mk_put i order M) = quotes_fit M" "quotes_fit (mk_enter order M) = quotes_fit M"
  "quotes_fit (mk_sweep t I M) = quotes_fit M"
  by (simp_all add: quotes_fit_def)

lemma quotes_fit_credit: "quotes_fit M \<Longrightarrow> fits_i128 (quote M q a + x) \<Longrightarrow> quotes_fit (mk_credit q a x M)"
  by (auto simp: mk_credit_def quotes_fit_def)

lemma quote_credit: "quote (mk_credit q a x M) q' a' = quote M q' a' + (if q' = q \<and> a' = a then x else 0)"
  by (simp add: quote_def mk_credit_def)

lemma after_fill_fields [simp]:
  "od_price_per_token (after_fill x order) = od_price_per_token order" "od_id (after_fill x order) = od_id order"
  "od_seller (after_fill x order) = od_seller order" "od_bond_id (after_fill x order) = od_bond_id order"
  "od_quote_asset (after_fill x order) = od_quote_asset order"
  by (simp_all add: after_fill_def)

lemma after_sweep_fields [simp]:
  "od_price_per_token (after_sweep t order) = od_price_per_token order" "od_id (after_sweep t order) = od_id order"
  "od_amount (after_sweep t order) = od_amount order" "od_bond_id (after_sweep t order) = od_bond_id order"
  "od_seller (after_sweep t order) = od_seller order"
  by (simp_all add: after_sweep_def)

lemma execute_purchase_typed:
  assumes "execute_purchase env buyer i max_price x n st W = Ok (st', W')" and "dex_typed st"
  shows "dex_typed st'"
proof -
  from execute_purchase_Ok [OF assms] obtain order c where
    h: "mk_orders (market_of st) i = Some order" "buyer \<noteq> od_seller order" "0 < x" "x \<le> od_amount order"
      "c = x * od_price_per_token order" "c \<le> quote (market_of st) (od_quote_asset order) buyer"
      "fits_i128 (quote (market_of st) (od_quote_asset order) (od_seller order) + c)"
    and m: "market_of st' = mk_note (order_filled i buyer (od_seller order) x (od_price_per_token order) c)
      (mk_put i (after_fill x order) (mk_credit (od_quote_asset order) (od_seller order) c
         (mk_credit (od_quote_asset order) buyer (- c) (mk_spend buyer (market_of st)))))" by blast
  have t: "0 < od_price_per_token order" "fits_i128 (od_amount order)" "fits_i128 (od_price_per_token order)"
    "quotes_fit (market_of st)" "\<And>j order. mk_orders (market_of st) j = Some order \<Longrightarrow> order_typed order"
    using assms(2) h(1) by (auto simp: dex_typed_market order_typed_def)
  have "0 \<le> c" using h(3,5) t(1) by simp
  with fits_i128_between [OF fits_i128_zero quote_fits [OF assms(2), of "od_quote_asset order" buyer]] h(6)
  have "fits_i128 (quote (market_of st) (od_quote_asset order) buyer - c)" by simp
  with h t(4) have "quotes_fit (market_of st')"
    unfolding m by (auto simp: quote_credit intro!: quotes_fit_credit)
  moreover have "order_typed (after_fill x order)"
    using h(3,4) t fits_i128_between [OF fits_i128_zero t(2)] by (auto simp: after_fill_def order_typed_def)
  ultimately show ?thesis
    using t(5) by (auto simp: dex_typed_market m)
qed

lemma sweep_typed:
  "mk_orders (mk_sweep now I M) i = Some order \<Longrightarrow> (\<forall>i order. mk_orders M i = Some order \<longrightarrow> order_typed order) \<Longrightarrow>
     order_typed order"
  by (auto simp: mk_sweep_def order_typed_def split: if_splits)

lemma dex_step_sim:
  assumes "dex_step s l t" and "dex_typed (fst s)"
  shows "market_step (market_of (fst s)) l (market_of (fst t)) \<and> dex_typed (fst t)"
  using assms
proof (cases rule: dex_step.cases)
  case (step_list amount price env seller bond_id asset secs nonce st W order_id st')
  from list_bond_tokens_Ok [OF this(6)] obtain order where
    o: "order = \<lparr>od_id = mk_count (market_of st) + 1, od_seller = seller, od_bond_id = bond_id, od_amount = amount,
      od_price_per_token = price, od_quote_asset = asset, od_status = Open, od_created_at = timestamp env,
      od_expires_at = timestamp env + secs\<rparr>" "0 < amount" "0 < price" "order_id = od_id order"
      "nonce = mk_nonces (market_of st) seller" "timestamp env < timestamp env + secs"
      "market_of st' = mk_note (order_listed order_id seller bond_id amount price) (mk_enter order (mk_spend seller (market_of st)))"
    by blast
  have "order_typed order" using o(1-3) step_list(4,5) by (simp add: order_typed_def)
  with o step_list assms(2) m_list [of nonce "market_of st" order] show ?thesis
    by (auto simp: dex_typed_market)
next
  case (step_purchase env buyer order_id max_price amount nonce st W st' W')
  from execute_purchase_Ok [OF this(4)] execute_purchase_typed [OF this(4)] step_purchase assms(2)
  show ?thesis by (auto intro: m_buy)
next
  case (step_cancel env caller order_id nonce st st' W)
  from cancel_listing_Ok [OF this(4)] obtain order where
    o: "mk_orders (market_of st) order_id = Some order" "caller = od_seller order" "is_order_live order"
     "nonce = mk_nonces (market_of st) caller" "market_of st' = mk_note (order_cancelled order_id caller)
      (mk_put order_id (order\<lparr>od_status := Cancelled\<rparr>) (mk_spend caller (market_of st)))" by blast
  have "order_typed (order\<lparr>od_status := Cancelled\<rparr>)"
    using assms(2) step_cancel(1) o(1) by (auto simp: dex_typed_market order_typed_def)
  with o step_cancel assms(2) m_cancel [of nonce "market_of st" order] show ?thesis
    by (auto simp: dex_typed_market)
next
  case (step_deposit env caller asset amount nonce st st' W)
  from deposit_quote_Ok [OF this(4)] step_deposit assms(2) show ?thesis
    by (auto simp: dex_typed_market intro!: m_deposit quotes_fit_credit)
next
  case (step_withdraw env caller asset amount nonce st st' W)
  have f: "fits_i128 (quote (market_of st) asset caller)" using assms(2) step_withdraw(1) quote_fits by simp
  have w: "0 < amount" "nonce = mk_nonces (market_of st) caller" "amount \<le> quote (market_of st) asset caller"
    "market_of st' = mk_note (quote_withdrawn caller asset amount) (mk_credit asset caller (- amount) (mk_spend caller (market_of st)))"
    using withdraw_quote_Ok [OF step_withdraw(4)] assms(2) step_withdraw(1) by auto
  have "fits_i128 (quote (market_of st) asset caller - amount)"
    using fits_i128_between [OF fits_i128_zero f] w(1,3) by simp
  with w step_withdraw assms(2) show ?thesis
    by (auto simp: dex_typed_market intro!: m_withdraw quotes_fit_credit)
next
  case (step_clean env caller nonce st c st' W)
  from clean_expired_orders_Ok [OF this(4)] step_clean assms(2) sweep_typed show ?thesis
    by (cases "mk_count (market_of st) = 0")
      (auto simp: dex_typed_market simp del: upt_Suc intro: m_sweep m_nothing_to_sweep)
next
  case (step_clean_range env caller nonce lo hi st c st' W)
  from clean_expired_orders_range_Ok [OF this(4)] step_clean_range assms(2) sweep_typed show ?thesis
    by (auto simp: dex_typed_market simp del: upt_Suc intro: m_sweep)
next
  case (step_get_best_price env bond_id side amount st q st' W)
  from best_price_read [OF this(4)] step_get_best_price assms(2) show ?thesis
    by (auto simp: dex_typed_market intro: m_read)
qed (auto simp: dex_typed_market dest!: dex_read intro: m_read)


section \<open>Preservation of the invariant\<close>

lemma log_sum_note [simp]: "log_sum f (es @ [e]) = log_sum f es + f e" "log_sum f [] = 0"
  by (simp_all add: log_sum_def)

lemma mk_fresh:
  assumes "mk_ids n M" and "Suc n < 2 ^ 64"
  shows "unat (mk_count M + 1) = Suc (unat (mk_count M))" "mk_orders M (mk_count M + 1) = None"
proof -
  show *: "unat (mk_count M + 1) = Suc (unat (mk_count M))"
    using assms by (subst unat_inc) (simp_all add: mk_ids_def)
  with assms(1) have "\<not> (mk_orders M (mk_count M + 1) \<noteq> None)"
    unfolding mk_ids_def by (metis Suc_n_not_le_n)
  then show "mk_orders M (mk_count M + 1) = None" by simp
qed

lemma order_moves_fill: "is_order_live order \<Longrightarrow> 0 < x \<Longrightarrow> x \<le> od_amount order \<Longrightarrow> order_moves order (after_fill x order)"
  by (auto simp: order_moves_def after_fill_def same_terms_def)

lemma order_moves_sweep: "0 < od_amount order \<Longrightarrow> order_moves order (after_sweep now order)"
  by (auto simp: order_moves_def after_sweep_def same_terms_def)

lemma order_moves_cancel: "is_order_live order \<Longrightarrow> 0 < od_amount order \<Longrightarrow> order_moves order (order\<lparr>od_status := Cancelled\<rparr>)"
  by (auto simp: order_moves_def same_terms_def)

lemma market_orders_step:
  assumes "market_step M l M'" and "mk_ids n M" and "Suc n < 2 ^ 64" and "mk_orders M i = Some order"
  shows "\<exists>order'. mk_orders M' i = Some order' \<and> order_moves order order'"
proof -
  have pos: "0 < od_amount order" using assms(2,4) by (auto simp: mk_ids_def)
  have refl: "order_moves order order" by (simp add: order_moves_def)
  from assms(1) show ?thesis
  proof (cases rule: market_step.cases)
    case (m_list k new)
    with mk_fresh(2) [OF assms(2,3)] assms(4) refl show ?thesis by auto
  next
    case (m_sweep k a c now I)
    with assms(4) refl order_moves_sweep [OF pos] show ?thesis by (auto simp: mk_sweep_def)
  qed (use assms(4) refl pos in \<open>auto intro: order_moves_fill order_moves_cancel\<close>)
qed

lemma mk_ids_step:
  assumes "market_step M l M'" and "mk_ids n M" and "Suc n < 2 ^ 64"
  shows "mk_ids (Suc n) M'"
  using assms(1)
proof (cases rule: market_step.cases)
  case (m_list k order)
  note f = mk_fresh [OF assms(2,3)]
  have "mk_orders M' i \<noteq> None \<longleftrightarrow> 1 \<le> unat i \<and> unat i \<le> unat (mk_count M')" for i
  proof -
    have "i = mk_count M + 1 \<longleftrightarrow> unat i = Suc (unat (mk_count M))"
      using f(1) by (simp add: word_unat_eq_iff)
    moreover have "mk_orders M i \<noteq> None \<longleftrightarrow> 1 \<le> unat i \<and> unat i \<le> unat (mk_count M)"
      using assms(2) unfolding mk_ids_def by blast
    moreover have "mk_orders M' i \<noteq> None \<longleftrightarrow> mk_orders M i \<noteq> None \<or> i = mk_count M + 1"
      using m_list by auto
    ultimately show ?thesis using m_list f(1) by auto
  qed
  moreover have "unat (mk_count M') \<le> Suc n" using m_list f(1) assms(2) by (simp add: mk_ids_def)
  moreover have "\<forall>i order. mk_orders M' i = Some order \<longrightarrow>
        od_id order = i \<and> 0 < od_amount order \<and> 0 < od_price_per_token order"
    using m_list assms(2) by (auto simp: mk_ids_def)
  ultimately show ?thesis unfolding mk_ids_def by blast
qed (use assms(2) in \<open>auto simp: mk_ids_def mk_sweep_def after_fill_def\<close>)

lemma finite_credit_quote [simp]: "finite (dom (mk_quote (mk_credit q a x M))) = finite (dom (mk_quote M))"
  by (simp add: mk_credit_def)

lemma credit_quote_total: "finite (dom (mk_quote M)) \<Longrightarrow>
  map_total (mk_quote (mk_credit q a x M)) (of_asset q') = map_total (mk_quote M) (of_asset q') + (if q' = q then x else 0)"
  by (simp add: mk_credit_def quote_def map_total_upd of_asset_def)

lemma quotes_nonneg_credit: "quotes_nonneg M \<Longrightarrow> 0 \<le> quote M q a + x \<Longrightarrow> quotes_nonneg (mk_credit q a x M)"
  by (auto simp: quotes_nonneg_def mk_credit_def)

lemma quotes_nonneg_frame [simp]:
  "quotes_nonneg (mk_spend a M) = quotes_nonneg M" "quotes_nonneg (mk_note e M) = quotes_nonneg M"
  "quotes_nonneg (mk_put i order M) = quotes_nonneg M" "quotes_nonneg (mk_enter order M) = quotes_nonneg M"
  "quotes_nonneg (mk_sweep t I M) = quotes_nonneg M"
  by (simp_all add: quotes_nonneg_def)

lemma quote_nonneg: "quotes_nonneg M \<Longrightarrow> 0 \<le> quote M q a"
  by (cases "mk_quote M (q, a)") (auto simp: quotes_nonneg_def quote_def)

lemma mk_funds_alt: "mk_funds M \<longleftrightarrow> finite (dom (mk_quote M)) \<and> quotes_nonneg M \<and>
     (\<forall>q. map_total (mk_quote M) (of_asset q) = log_sum (net_deposit q) (mk_log M))"
  by (simp add: mk_funds_def quotes_nonneg_def)

lemma mk_funds_step:
  assumes "market_step M l M'" and "mk_funds M" and "mk_ids n M"
  shows "mk_funds M'"
  using assms(1)
proof (cases rule: market_step.cases)
  case (m_buy k buyer i order now x c)
  have "0 < od_price_per_token order" using assms(3) m_buy by (auto simp: mk_ids_def)
  then have "0 < c" using m_buy by simp
  moreover have "0 \<le> quote M (od_quote_asset order) (od_seller order)" using assms(2) by (simp add: mk_funds_alt quote_nonneg)
  ultimately show ?thesis using m_buy assms(2)
    by (auto simp: mk_funds_alt credit_quote_total quote_credit intro!: quotes_nonneg_credit)
next
  case (m_deposit k a x q)
  moreover have "0 \<le> quote M q a" using assms(2) by (simp add: mk_funds_alt quote_nonneg)
  ultimately show ?thesis using assms(2)
    by (auto simp: mk_funds_alt credit_quote_total intro!: quotes_nonneg_credit)
qed (use assms(2) in \<open>auto simp: mk_funds_alt credit_quote_total intro!: quotes_nonneg_credit\<close>)

lemma mk_fills_step:
  assumes "market_step M l M'" and "mk_fills M" and "mk_ids n M" and "Suc n < 2 ^ 64"
  shows "mk_fills M'"
  using assms(1)
proof (cases rule: market_step.cases)
  case (m_list k order)
  with mk_fresh(2) [OF assms(3,4)] assms(2) show ?thesis
    by (auto simp: mk_fills_def open_amount_def)
next
  case (m_sweep k a c now I)
  have "open_amount (after_sweep now order) = open_amount order" for order
    by (auto simp: open_amount_def after_sweep_def is_order_live_def)
  with m_sweep assms(2) show ?thesis by (auto simp: mk_fills_def mk_sweep_def)
next
  case (m_buy k buyer i order now x c)
  have "open_amount (after_fill x order) = open_amount order - x"
    using m_buy by (auto simp: open_amount_def after_fill_def is_order_live_def)
  with m_buy assms(2) show ?thesis by (auto simp: mk_fills_def)
next
  case (m_cancel k order i)
  then have "open_amount (order\<lparr>od_status := Cancelled\<rparr>) = open_amount order"
    by (auto simp: open_amount_def is_order_live_def)
  with m_cancel assms(2) show ?thesis by (auto simp: mk_fills_def)
qed (use assms(2) in \<open>auto simp: mk_fills_def\<close>)

lemma mk_index_step:
  assumes "market_step M l M'" and "mk_index M" and "mk_ids n M" and "Suc n < 2 ^ 64"
  shows "mk_index M'"
proof (cases "\<exists>k order. M' = mk_note k (mk_enter order (mk_spend (od_seller order) M)) \<and> od_id order = mk_count M + 1")
  case True
  then obtain k order where m: "M' = mk_note k (mk_enter order (mk_spend (od_seller order) M))"
    "od_id order = mk_count M + 1" by blast
  note f = mk_fresh [OF assms(3,4)]
  let ?old = "map of_nat [1..<Suc (unat (mk_count M))] :: u64 list"
  have new: "(of_nat (Suc (unat (mk_count M))) :: u64) = mk_count M + 1" by simp
  have "mk_orders M' i = mk_orders M i" if "i \<in> set ?old" for i
  proof -
    from that obtain j where "i = of_nat j" "j \<le> unat (mk_count M)" by auto
    moreover from this have "unat i = j"
      using unsigned_less [of "mk_count M", where 'a = nat] by (simp add: unsigned_of_nat take_bit_nat_eq_self)
    ultimately have "i \<noteq> mk_count M + 1" using f(1) by auto
    with m show ?thesis by simp
  qed
  then have "filter (\<lambda>i. map_option od_bond_id (mk_orders M' i) = Some b) ?old = mk_by_bond M b" for b
    using assms(2) unfolding mk_index_def by (metis (mono_tags, lifting) filter_cong)
  with m f(1) new show ?thesis by (auto simp: mk_index_def mk_enter_def mk_spend_def mk_note_def)
next
  case False
  have "map_option od_bond_id (mk_orders M' i) = map_option od_bond_id (mk_orders M i)" for i
    using assms(1) False
    by (cases rule: market_step.cases) (auto simp: mk_sweep_def option.map_comp o_def)
  moreover have "mk_by_bond M' = mk_by_bond M" "mk_count M' = mk_count M"
    using assms(1) False by (cases rule: market_step.cases; auto)+
  ultimately show ?thesis using assms(2) by (simp add: mk_index_def)
qed

lemma market_inv_step:
  "market_inv n M \<Longrightarrow> market_step M l M' \<Longrightarrow> Suc n < 2 ^ 64 \<Longrightarrow> market_inv (Suc n) M'"
  unfolding market_inv_def
  by (blast intro: mk_ids_step mk_funds_step mk_fills_step mk_index_step)

interpretation dex: simulated_machine dex_step market_step "\<lambda>s. market_of (fst s)" "\<lambda>s. dex_typed (fst s)" market_inv
  by unfold_locales (blast dest: dex_step_sim, blast dest: dex_step_sim, fact market_inv_step)

interpretation dex_nonces: nonce_machine "\<lambda>s l t. dex_typed (fst s) \<and> dex_step s l t" "\<lambda>l. l"
    "\<lambda>s. mk_nonces (market_of (fst s))"
proof unfold_locales
  fix s l t a n
  assume "dex_typed (fst s) \<and> dex_step s l t" and "l = Some (a, n)"
  from dex_step_sim [of s l t] this
  show "mk_nonces (market_of (fst s)) a = n \<and>
      mk_nonces (market_of (fst t)) = (mk_nonces (market_of (fst s)))(a := n + 1)"
    by (auto elim!: market_step.cases)
next
  fix s l t
  assume "dex_typed (fst s) \<and> dex_step s l t" and "l = None"
  from dex_step_sim [of s l t] this
  show "mk_nonces (market_of (fst t)) = mk_nonces (market_of (fst s))"
    by (auto elim!: market_step.cases)
qed

lemma dex_reachable_inv:
  assumes "run dex_step (dex_constructor admin bi ce, W0) ls (st, W)" and "length ls < 2 ^ 64"
  shows "dex_typed st" and "market_inv (length ls) (market_of st)"
proof -
  have "unat i = 0 \<longleftrightarrow> (i :: u64) = 0" for i by (simp add: unat_eq_0)
  then have "market_inv 0 (market_of (dex_constructor admin bi ce))"
    by (auto simp: market_inv_def mk_ids_def mk_funds_def mk_fills_def mk_index_def market_of_def
        dex_constructor_def storage_simps)
  moreover have "dex_typed (dex_constructor admin bi ce)"
    by (simp add: dex_typed_def dex_constructor_def storage_simps)
  ultimately have "dex_typed st \<and> market_inv (length ls) (market_of st)"
    using dex.conc.inv_run [OF assms(1), of 0] assms(2) by simp
  then show "dex_typed st" "market_inv (length ls) (market_of st)" by simp_all
qed


section \<open>Quotes as best execution\<close>

text \<open>
  The order of a quote: by price, the cheapest first for a buyer and the dearest first for a seller,
  then by order number. \<open>side_price\<close> is the price a side minimises.
\<close>

text \<open>The orders a quote may use, and the greedy fill of \<open>r\<close> tokens from a book.\<close>

lemma precedes_key: "precedes side a c \<longleftrightarrow> quote_key side a < quote_key side c"
  by (cases side) (auto simp: quote_key_def less_prod_simp)

lemma insert_order_simps [simp]:
  "insert_order side x [] = [x]"
  "insert_order side x (c # cs) = (if precedes side x c then x # c # cs else c # insert_order side x cs)"
  by (simp_all add: insert_order_def Let_def)

lemma insert_order_mset [simp]: "mset (insert_order side x book) = add_mset x (mset book)"
  by (induction book) auto

lemma insert_order_set [simp]: "set (insert_order side x book) = insert x (set book)"
  by (induction book) auto

lemma insert_order_sorted:
  "sorted (map (quote_key side) book) \<Longrightarrow> sorted (map (quote_key side) (insert_order side x book))"
  by (induction book) (auto simp: precedes_key not_less intro: order_trans less_imp_le)

lemma insert_order_stable:
  "sorted (map (quote_key side) book) \<Longrightarrow> filter (\<lambda>c. k = quote_key side c) (insert_order side x book) =
     filter (\<lambda>c. k = quote_key side c) book @ (if k = quote_key side x then [x] else [])"
proof (induction book)
  case (Cons c cs)
  show ?case
  proof (cases "precedes side x c")
    case True
    then have "\<forall>d \<in> set (c # cs). quote_key side x < quote_key side d"
      using Cons.prems by (auto simp: precedes_key)
    then have "filter (\<lambda>d. quote_key side x = quote_key side d) (c # cs) = []"
      unfolding filter_empty_conv by auto
    with True show ?thesis by auto
  next
    case False
    have "sorted (map (quote_key side) cs)" using Cons.prems by simp
    from Cons.IH [OF this] False show ?thesis by auto
  qed
qed simp

lemma insertion_sort:
  "sort_key (quote_key side) xs = foldl (\<lambda>book x. insert_order side x book) [] xs"
proof -
  let ?ys = "foldl (\<lambda>book x. insert_order side x book) [] xs"
  have "mset ?ys = mset xs \<and> sorted (map (quote_key side) ?ys) \<and>
    (\<forall>k. filter (\<lambda>c. k = quote_key side c) ?ys = filter (\<lambda>c. k = quote_key side c) xs)"
    by (induction xs rule: rev_induct) (auto simp: insert_order_sorted insert_order_stable)
  then show ?thesis by (intro properties_for_sort_key) blast+
qed

lemma collect_sorted_fold:
  "fst (collect_sorted env b side ids book st) = foldl (\<lambda>book x. insert_order side x book) book
     (filter (is_quotable env b) (List.map_filter (pget (dx_orders st)) ids))"
  by (induction ids arbitrary: book st)
    (auto simp: Let_def map_filter_simps storage_simps split: option.splits)

lemma length_greedy [simp]: "length (greedy r os) = length os"
  by (induction os arbitrary: r) auto

lemma greedy_bounds:
  assumes "0 \<le> r" and "\<forall>x \<in> set os. 0 < od_amount x" and "i < length os"
  shows "0 \<le> greedy r os ! i \<and> greedy r os ! i \<le> od_amount (os ! i)"
  using assms
proof (induction os arbitrary: r i)
  case (Cons c cs)
  show ?case
  proof (cases i)
    case 0
    with Cons.prems show ?thesis by auto
  next
    case (Suc j)
    with Cons.IH [of "r - min r (od_amount c)" j] Cons.prems show ?thesis by simp
  qed
qed simp

lemma greedy_sum:
  "0 \<le> r \<Longrightarrow> \<forall>x \<in> set os. 0 < od_amount x \<Longrightarrow> sum_list (greedy r os) = min r (\<Sum>x\<leftarrow>os. od_amount x)"
proof (induction os arbitrary: r)
  case (Cons c cs)
  have "0 \<le> (\<Sum>x\<leftarrow>cs. od_amount x)" using Cons.prems(2) by (intro sum_list_nonneg) auto
  with Cons.IH [of "r - min r (od_amount c)"] Cons.prems show ?case by auto
qed simp

lemma greedy_zero: "\<forall>x \<in> set os. 0 < od_amount x \<Longrightarrow> i < length os \<Longrightarrow> greedy 0 os ! i = 0"
proof (induction os arbitrary: i)
  case (Cons c cs)
  then show ?case by (cases i) (auto simp: min_def)
qed simp

lemma fill_cost_Cons: "fill_cost (x # xs) (c # cs) = x * od_price_per_token c + fill_cost xs cs"
  unfolding fill_cost_def by (simp add: sum.lessThan_Suc_shift del: sum.lessThan_Suc)

lemma fill_loop_greedy:
  assumes "fill_loop env os r f t = Ok (f', t')" and "0 \<le> r" and "fits_i128 r" and "\<forall>x \<in> set os. 0 < od_amount x"
  shows "f' = f + sum_list (greedy r os) \<and> t' = t + fill_cost (greedy r os) os"
  using assms
proof (induction os arbitrary: r f t)
  case Nil
  then show ?case by (simp add: fill_cost_def)
next
  case (Cons c cs)
  show ?case
  proof (cases "r = 0")
    case True
    moreover have "fill_cost (greedy 0 (c # cs)) (c # cs) = 0"
      unfolding fill_cost_def using greedy_zero [OF Cons.prems(4)] by (intro sum.neutral) auto
    moreover have "sum_list (greedy 0 (c # cs)) = 0"
      using greedy_sum [of 0 "c # cs"] Cons.prems(4) sum_list_nonneg [of "map od_amount (c # cs)"] by fastforce
    ultimately show ?thesis using Cons.prems(1) by simp
  next
    case False
    let ?q = "min r (od_amount c)"
    from False Cons.prems(1) obtain r' where r': "arith_i128 env (r - ?q) = (Ok r' :: (DEXError, int) result)"
      "fill_loop env cs r' (f + ?q) (t + ?q * od_price_per_token c) = Ok (f', t')"
      by (auto simp: result_simps Let_def)
    have "r' = r - ?q" using arith_between [OF r'(1) Cons.prems(3)] Cons.prems(2,4) by auto
    moreover have "fits_i128 (r - ?q)"
      using fits_i128_between [OF fits_i128_zero Cons.prems(3)] Cons.prems(2,4) by auto
    ultimately show ?thesis
      using Cons.IH [of r' "f + ?q" "t + ?q * od_price_per_token c"] r'(2) Cons.prems by (simp add: fill_cost_Cons)
  qed
qed

text \<open>
  The marginal price of a greedy fill of a sorted book: whatever is cheaper is taken whole, whatever
  is dearer is not touched. Hence no other fill of the same size is cheaper.
\<close>

lemma greedy_threshold:
  assumes "sorted (map (side_price side) os)" and "0 \<le> r" and "\<forall>x \<in> set os. 0 < od_amount x"
  shows "\<exists>m. \<forall>i < length os. (side_price side (os ! i) < m \<longrightarrow> greedy r os ! i = od_amount (os ! i)) \<and>
    (m < side_price side (os ! i) \<longrightarrow> greedy r os ! i = 0)"
  using assms
proof (induction os arbitrary: r)
  case (Cons c cs)
  let ?p = "side_price side"
  have le: "?p c \<le> ?p (cs ! j)" if "j < length cs" for j using Cons.prems(1) that by simp
  show ?case
  proof (cases "r \<le> od_amount c")
    case True
    have z: "greedy 0 cs ! j = 0" if "j < length cs" for j using greedy_zero Cons.prems(3) that by auto
    have "(?p ((c # cs) ! i) < ?p c \<longrightarrow> greedy r (c # cs) ! i = od_amount ((c # cs) ! i)) \<and>
      (?p c < ?p ((c # cs) ! i) \<longrightarrow> greedy r (c # cs) ! i = 0)" if "i < length (c # cs)" for i
      using that True z le by (cases i) (auto simp: min_def dest: le)
    then show ?thesis by blast
  next
    case False
    with Cons.IH [of "r - od_amount c"] Cons.prems obtain m where
      m: "\<forall>i < length cs. (?p (cs ! i) < m \<longrightarrow> greedy (r - od_amount c) cs ! i = od_amount (cs ! i)) \<and>
        (m < ?p (cs ! i) \<longrightarrow> greedy (r - od_amount c) cs ! i = 0)" by auto
    have "(?p ((c # cs) ! i) < max m (?p c) \<longrightarrow> greedy r (c # cs) ! i = od_amount ((c # cs) ! i)) \<and>
      (max m (?p c) < ?p ((c # cs) ! i) \<longrightarrow> greedy r (c # cs) ! i = 0)" if "i < length (c # cs)" for i
      using that False m le by (cases i) (force simp: min_def less_max_iff_disj)+
    then show ?thesis by blast
  qed
qed simp

lemma side_price_sign: "side_price side c = side_sign side * od_price_per_token c"
  by (cases side) (simp_all add: side_sign_def)

lemma greedy_optimal:
  assumes "sorted (map (side_price side) os)" and "0 \<le> r" and "\<forall>x \<in> set os. 0 < od_amount x"
    and "\<forall>x \<in> set os. 0 \<le> alloc x \<and> alloc x \<le> od_amount x"
    and "(\<Sum>x\<leftarrow>os. alloc x) = sum_list (greedy r os)"
  shows "side_sign side * fill_cost (greedy r os) os \<le> side_sign side * (\<Sum>x\<leftarrow>os. alloc x * od_price_per_token x)"
proof -
  let ?g = "greedy r os" and ?p = "side_price side" and ?n = "length os"
  from greedy_threshold [OF assms(1-3)] obtain m where
    m: "\<forall>i < ?n. (?p (os ! i) < m \<longrightarrow> ?g ! i = od_amount (os ! i)) \<and> (m < ?p (os ! i) \<longrightarrow> ?g ! i = 0)" ..
  have nonneg: "0 \<le> (?p (os ! i) - m) * (alloc (os ! i) - ?g ! i)" if "i < ?n" for i
  proof -
    have "0 \<le> alloc (os ! i)" "alloc (os ! i) \<le> od_amount (os ! i)" using assms(4) that by auto
    with m that consider "?p (os ! i) = m" | "?p (os ! i) < m" "alloc (os ! i) \<le> ?g ! i"
      | "m < ?p (os ! i)" "?g ! i \<le> alloc (os ! i)" by (metis linorder_neqE)
    then show ?thesis by cases (auto simp: mult_nonpos_nonpos)
  qed
  have "(\<Sum>i<?n. alloc (os ! i)) = (\<Sum>i<?n. ?g ! i)"
    using assms(5) by (simp add: sum_list_sum_nth atLeast0LessThan)
  then have "(\<Sum>i<?n. (?p (os ! i) - m) * (alloc (os ! i) - ?g ! i)) =
      (\<Sum>i<?n. ?p (os ! i) * alloc (os ! i)) - (\<Sum>i<?n. ?p (os ! i) * ?g ! i)"
    by (simp add: algebra_simps sum.distrib sum_subtractf sum_distrib_left [symmetric])
  moreover have "0 \<le> (\<Sum>i<?n. (?p (os ! i) - m) * (alloc (os ! i) - ?g ! i))"
    using nonneg by (intro sum_nonneg) auto
  moreover have "side_sign side * fill_cost ?g os = (\<Sum>i<?n. ?p (os ! i) * ?g ! i)"
    by (simp add: fill_cost_def side_price_sign sum_distrib_left mult.commute mult.left_commute)
  moreover have "side_sign side * (\<Sum>x\<leftarrow>os. alloc x * od_price_per_token x) = (\<Sum>i<?n. ?p (os ! i) * alloc (os ! i))"
    by (simp add: sum_list_sum_nth atLeast0LessThan side_price_sign sum_distrib_left mult.commute mult.left_commute)
  ultimately show ?thesis by simp
qed

lemma sum_sort_key: "(\<Sum>x\<leftarrow>sort_key k xs. (f x :: int)) = (\<Sum>x\<leftarrow>xs. f x)"
  by (metis mset_map mset_sort sum_mset_sum_list)


section \<open>Properties\<close>

lemmas dex_exec = sample_env_def dex_constructor_def list_bond_tokens_def deposit_quote_def execute_purchase_def
  clean_expired_orders_range_def clean_expired_orders_range_impl_def
  dex_consume_nonce_def dex_get_nonce_def dex_set_nonce_def dex_require_admin_def get_balance_def set_balance_def
  write_order_def dex_publish_def verify_holder_balance_def contract_at_def is_order_expired_def dex_bump_def
  require_auth_def Let_def ok_or_def add_word_def checked_add_u64_def checked_i128_def fits_i128_def i128_min_def
  i128_max_def arith_i128_def phas_def pset_def pget_def pext_def

text \<open>A market with one order of 200 tokens of bond 1 at price 3, half of which is bought.\<close>

lemma sample_trade:
  "\<exists>W0 st W st' W'.
     run dex_step (dex_constructor (Address 0) (Address 7) (Address 8), W0)
       [Some (Address 1, 0), Some (Address 2, 0)] (st, W) \<and>
     execute_purchase (sample_env 30) (Address 2) 1 3 100 1 st W = Ok (st', W') \<and>
     run dex_step (st, W) [Some (Address 2, 1)] (st', W') \<and>
     dx_events st = [order_listed 1 (Address 1) 1 200 3, quote_deposited (Address 2) ''USDC'' 1000] \<and>
     quotable_orders (sample_env 30) 1 st = [\<lparr>od_id = 1, od_seller = Address 1, od_bond_id = 1, od_amount = 200,
       od_price_per_token = 3, od_quote_asset = ''USDC'', od_status = Open, od_created_at = 20, od_expires_at = 1020\<rparr>] \<and>
     is_ok (get_best_price (sample_env 30) 1 Buy 150 st) \<and>
     (\<exists>order. pget (dx_orders st) 1 = Some order) \<and>
     is_ok (clean_expired_orders_range (sample_env 2000) (Address 0) 0 1 1 st)"
proof -
  have "\<exists>iss1 iss2 iss3.
     issue_bond (sample_env 10) (Address 0) sample_config 0 (issuer_constructor (Address 0)) = Ok (1, iss1) \<and>
     subscribe (sample_env 20) (Address 1) 1 300 0 iss1 = Ok iss2 \<and>
     get_holder_balance iss2 1 (Address 1) = 300 \<and> issuer_get_nonce iss2 (Address 1) = 1 \<and>
     transfer (call_env (sample_env 30) (Address 7)) (Address 1) (Address 2) 1 100 1 iss2 = Ok iss3"
    by (simp add: issuer_exec call_env_def get_holder_balance_def issuer_get_nonce_def)
  then obtain iss iss' where b: "get_holder_balance iss 1 (Address 1) = 300" "issuer_get_nonce iss (Address 1) = 1"
    "transfer (call_env (sample_env 30) (Address 7)) (Address 1) (Address 2) 1 100 1 iss = Ok iss'" by blast
  let ?W = "[Address 7 \<mapsto> iss]"
  have "\<exists>st1 st2 st3. list_bond_tokens (sample_env 20) (Address 1) 1 200 3 ''USDC'' 1000 0
       (dex_constructor (Address 0) (Address 7) (Address 8)) ?W = Ok (1, st1) \<and>
     deposit_quote (sample_env 20) (Address 2) ''USDC'' 1000 0 st1 = Ok st2 \<and>
     execute_purchase (sample_env 30) (Address 2) 1 3 100 1 st2 ?W = Ok (st3, ?W(Address 7 \<mapsto> iss')) \<and>
     dx_events st2 = [order_listed 1 (Address 1) 1 200 3, quote_deposited (Address 2) ''USDC'' 1000] \<and>
     quotable_orders (sample_env 30) 1 st2 = [\<lparr>od_id = 1, od_seller = Address 1, od_bond_id = 1, od_amount = 200,
       od_price_per_token = 3, od_quote_asset = ''USDC'', od_status = Open, od_created_at = 20, od_expires_at = 1020\<rparr>] \<and>
     is_ok (get_best_price (sample_env 30) 1 Buy 150 st2) \<and> (\<exists>order. pget (dx_orders st2) 1 = Some order) \<and>
     is_ok (clean_expired_orders_range (sample_env 2000) (Address 0) 0 1 1 st2)"
    
    using b
    by (simp add: dex_exec quotable_orders_def get_best_price_def get_bond_orders_def map_filter_def is_quotable_def
        insert_order_def order_count_def saturate_i128_def)
  then obtain st1 st2 st3 where
    s: "list_bond_tokens (sample_env 20) (Address 1) 1 200 3 ''USDC'' 1000 0
       (dex_constructor (Address 0) (Address 7) (Address 8)) ?W = Ok (1, st1)"
      "deposit_quote (sample_env 20) (Address 2) ''USDC'' 1000 0 st1 = Ok st2"
      "execute_purchase (sample_env 30) (Address 2) 1 3 100 1 st2 ?W = Ok (st3, ?W(Address 7 \<mapsto> iss'))"
    and h: "dx_events st2 = [order_listed 1 (Address 1) 1 200 3, quote_deposited (Address 2) ''USDC'' 1000]"
     "quotable_orders (sample_env 30) 1 st2 = [\<lparr>od_id = 1, od_seller = Address 1, od_bond_id = 1, od_amount = 200,
       od_price_per_token = 3, od_quote_asset = ''USDC'', od_status = Open, od_created_at = 20, od_expires_at = 1020\<rparr>]"
     "is_ok (get_best_price (sample_env 30) 1 Buy 150 st2)" "\<exists>order. pget (dx_orders st2) 1 = Some order"
     "is_ok (clean_expired_orders_range (sample_env 2000) (Address 0) 0 1 1 st2)" by blast
  have "fits_i128 200" "fits_i128 3" by (simp_all add: fits_i128_def i128_min_def i128_max_def)
  with s have "run dex_step (dex_constructor (Address 0) (Address 7) (Address 8), ?W)
       [Some (Address 1, 0), Some (Address 2, 0)] (st2, ?W)"
    by (blast intro: run_Cons run_refl step_list step_deposit)
  moreover have "run dex_step (st2, ?W) [Some (Address 2, 1)] (st3, ?W(Address 7 \<mapsto> iss'))"
    using s(3) by (blast intro: run_Cons run_refl step_purchase)
  ultimately show ?thesis using s(3) h by blast
qed


lemma quotable_pos: "\<forall>x \<in> set (quotable_orders env b st). 0 < od_amount x"
  by (auto simp: quotable_orders_def is_quotable_def)

lemma quotable_typed: "dex_typed st \<Longrightarrow> \<forall>x \<in> set (quotable_orders env b st). 0 < od_price_per_token x"
  by (auto simp: quotable_orders_def map_filter_def dex_typed_def)

lemma book_amount_pos:
  assumes "\<forall>x \<in> set os. 0 < od_amount x" and "os \<noteq> []"
  shows "0 < (\<Sum>x\<leftarrow>os. od_amount x)"
proof -
  have "0 \<le> (\<Sum>x\<leftarrow>tl os. od_amount x)"
    using assms by (intro sum_list_nonneg) (cases os; auto intro: less_imp_le)
  moreover have "(\<Sum>x\<leftarrow>os. od_amount x) = od_amount (hd os) + (\<Sum>x\<leftarrow>tl os. od_amount x)"
    using assms(2) by (cases os) simp_all
  moreover have "0 < od_amount (hd os)" using assms by simp
  ultimately show ?thesis by simp
qed

lemma get_best_price_Ok:
  assumes "get_best_price env b side amount st = Ok ((avg, cost, slip), st')" and "fits_i128 amount"
    and "book = sort_key (quote_key side) (quotable_orders env b st)" and "book \<noteq> []"
  shows "0 < amount" and "cost = fill_cost (greedy amount book) book"
    and "avg = cost sdiv sum_list (greedy amount book)"
proof -
  have pos: "\<forall>x \<in> set book. 0 < od_amount x" using assms(3) quotable_pos by simp
  obtain ids st1 where g: "get_bond_orders env b st = (ids, st1)" by force
  then have ids: "ids = unwrap_or (pget (dx_bond_orders st) b) []" "pget (dx_orders st1) = pget (dx_orders st)"
    by (auto simp: get_bond_orders_def split: if_splits)
  have "fst (collect_sorted env b side ids [] st1) = book"
    using assms(3) ids by (simp add: collect_sorted_fold insertion_sort quotable_orders_def)
  then obtain st2 where c: "collect_sorted env b side ids [] st1 = (book, st2)"
    by (cases "collect_sorted env b side ids [] st1") simp
  from assms(1) g c assms(4) show "0 < amount" by (auto simp: get_best_price_def split: if_splits)
  from assms(1) g c assms(4) obtain filled ct where
    f: "fill_loop env book amount 0 0 = Ok (filled, ct)"
      "if filled = 0 then (avg, cost) = (0, 0) else (avg, cost) = (ct sdiv filled, ct)"
    by (auto simp: get_best_price_def Let_def result_simps split: if_splits list.splits)
  note fl = fill_loop_greedy [OF f(1) less_imp_le [OF \<open>0 < amount\<close>] assms(2) pos]
  have "0 < sum_list (greedy amount book)"
    using greedy_sum [OF less_imp_le [OF \<open>0 < amount\<close>] pos] \<open>0 < amount\<close>
      book_amount_pos [OF pos assms(4)] by simp
  with fl f(2) show "cost = fill_cost (greedy amount book) book" "avg = cost sdiv sum_list (greedy amount book)"
    by auto
qed

text \<open>
  C10. The quote of a market-sized fill is a best execution: the total it reports is the cost of filling
  greedily the open, unexpired orders of the bond sorted by price and then by order number; the average
  is that total divided by the tokens filled, which are the amount asked for or all there are; and no
  other way of taking as many tokens from these orders is cheaper for a buyer (dearer for a seller).
\<close>

theorem best_price_is_best_execution:
  assumes "run dex_step (dex_constructor admin bi ce, W0) ls (st, W)" and "length ls < 2 ^ 64"
    and "fits_i128 amount" and "quotable_orders env b st \<noteq> []"
    and "get_best_price env b side amount st = Ok ((avg, cost, slip), st')"
    and "filled = min amount (\<Sum>x\<leftarrow>quotable_orders env b st. od_amount x)"
    and "book = sort_key (quote_key side) (quotable_orders env b st)"
  shows "0 < filled \<and> cost = fill_cost (greedy amount book) book \<and> avg = cost div filled \<and>
    (\<forall>alloc. (\<forall>x \<in> set (quotable_orders env b st). 0 \<le> alloc x \<and> alloc x \<le> od_amount x) \<longrightarrow>
       (\<Sum>x\<leftarrow>quotable_orders env b st. alloc x) = filled \<longrightarrow>
       side_sign side * cost \<le> side_sign side * (\<Sum>x\<leftarrow>quotable_orders env b st. alloc x * od_price_per_token x))"
proof -
  let ?Q = "quotable_orders env b st"
  have set: "set book = set ?Q" using assms(7) by simp
  with assms(4) have ne: "book \<noteq> []" by (metis set_empty)
  note o = get_best_price_Ok [OF assms(5,3,7) ne]
  have pos: "\<forall>x \<in> set book. 0 < od_amount x" using quotable_pos set by blast
  have sum: "(\<Sum>x\<leftarrow>book. f x) = (\<Sum>x\<leftarrow>?Q. f x)" for f :: "Order \<Rightarrow> int"
    by (simp add: assms(7) sum_sort_key)
  have g: "sum_list (greedy amount book) = filled"
    using greedy_sum [OF less_imp_le [OF o(1)] pos] sum assms(6) by simp
  have "0 < (\<Sum>x\<leftarrow>book. od_amount x)"
    using book_amount_pos [OF pos ne] .
  then have f: "0 < filled" using o(1) sum assms(6) by simp
  have "0 \<le> od_price_per_token (book ! i)" if "i < length book" for i
    using quotable_typed [OF dex_reachable_inv(1) [OF assms(1,2)], of env b] set nth_mem [OF that] by force
  then have "0 \<le> fill_cost (greedy amount book) book"
    using greedy_bounds [OF less_imp_le [OF o(1)] pos]
    unfolding fill_cost_def by (intro sum_nonneg mult_nonneg_nonneg) auto
  with o(2,3) f g have avg: "avg = cost div filled" by (simp add: sdiv_nonneg)
  have "sorted (map (quote_key side) book)" using assms(7) by simp
  then have "sorted (map (side_price side) book)"
    unfolding sorted_map quote_key_def by (rule sorted_wrt_mono_rel [rotated]) (auto simp: less_eq_prod_simp)
  from greedy_optimal [OF this less_imp_le [OF o(1)] pos] have
    "side_sign side * cost \<le> side_sign side * (\<Sum>x\<leftarrow>?Q. alloc x * od_price_per_token x)"
    if "\<forall>x \<in> set ?Q. 0 \<le> alloc x \<and> alloc x \<le> od_amount x" "(\<Sum>x\<leftarrow>?Q. alloc x) = filled" for alloc
    using that o(2) g set sum by simp
  with o(2) f avg show ?thesis by blast
qed

theorem best_price_is_best_execution_witness:
  "\<exists>st avg slip st'. get_best_price (sample_env 30) 1 Buy 150 st = Ok ((avg, 450, slip), st') \<and> avg = 3"
proof -
  from sample_trade obtain W0 st W where
    r: "run dex_step (dex_constructor (Address 0) (Address 7) (Address 8), W0)
       [Some (Address 1, 0), Some (Address 2, 0)] (st, W)"
    and q: "quotable_orders (sample_env 30) 1 st = [\<lparr>od_id = 1, od_seller = Address 1, od_bond_id = 1, od_amount = 200,
       od_price_per_token = 3, od_quote_asset = ''USDC'', od_status = Open, od_created_at = 20, od_expires_at = 1020\<rparr>]"
    and ok: "is_ok (get_best_price (sample_env 30) 1 Buy 150 st)" by blast
  then obtain avg cost slip st' where p: "get_best_price (sample_env 30) 1 Buy 150 st = Ok ((avg, cost, slip), st')"
    by (cases "get_best_price (sample_env 30) 1 Buy 150 st") auto
  have "fits_i128 150" by (simp add: fits_i128_def i128_min_def i128_max_def)
  from best_price_is_best_execution [OF r _ this _ p refl refl] have
    "cost = fill_cost (greedy 150 (quotable_orders (sample_env 30) 1 st)) (quotable_orders (sample_env 30) 1 st)"
    "avg = cost div min 150 (\<Sum>x\<leftarrow>quotable_orders (sample_env 30) 1 st. od_amount x)"
    by (simp_all add: q)
  then have "cost = 450" "avg = 3" by (simp_all add: q fill_cost_def)
  with p show ?thesis by blast
qed

text \<open>
  C30. A purchase that succeeds settles exactly: the order was live and unexpired and its price within
  the buyer's limit; the buyer pays amount times price in the order's asset to the seller and no other
  quote balance changes; exactly the amount of bond tokens moves from the seller to the buyer, and no
  other bond balance changes; the order is filled or reduced by the amount; and the seller has signed
  for the transfer at the issuer (unless the exchange itself is the seller).
\<close>

theorem purchase_settles_exactly:
  assumes "run dex_step (dex_constructor admin bi0 ce, W0) ls (st, W)" and "length ls < 2 ^ 64"
    and "execute_purchase env buyer i max_price x nonce st W = Ok (st', W')"
  shows "\<exists>order bi iss iss' c. pget (dx_orders st) i = Some order \<and> is_order_live order \<and>
    timestamp env < od_expires_at order \<and> od_price_per_token order \<le> max_price \<and>
    0 < x \<and> x \<le> od_amount order \<and> c = x * od_price_per_token order \<and>
    (\<forall>q a. fst (get_quote_balance env a q st') = fst (get_quote_balance env a q st) +
       (if q = od_quote_asset order then (if a = od_seller order then c else if a = buyer then - c else 0) else 0)) \<and>
    W bi = Some iss \<and> W' = W(bi \<mapsto> iss') \<and>
    (\<forall>b h. get_holder_balance iss' b h = get_holder_balance iss b h +
       (if b = od_bond_id order then (if h = buyer then x else if h = od_seller order then - x else 0) else 0)) \<and>
    pget (dx_orders st') = (pget (dx_orders st))(i \<mapsto> after_fill x order) \<and>
    (od_seller order \<noteq> current_contract env \<longrightarrow> has_signed env (od_seller order) bi)"
proof -
  have q: "fst (get_quote_balance env a q s) = quote (market_of s) q a" for a q s
    by (simp add: get_quote_balance_def get_balance_eq)
  from execute_purchase_Ok [OF assms(3) dex_reachable_inv(1) [OF assms(1,2)]] obtain order bi iss iss' c where
    h: "mk_orders (market_of st) i = Some order" "is_order_live order" "buyer \<noteq> od_seller order"
      "timestamp env < od_expires_at order" "0 < x" "x \<le> od_amount order" "od_price_per_token order \<le> max_price"
      "c = x * od_price_per_token order" "W bi = Some iss" "W' = W(bi \<mapsto> iss')"
    and t: "transfer (call_env env bi) (od_seller order) buyer (od_bond_id order) x
      (issuer_get_nonce iss (od_seller order)) iss = Ok iss'"
    and m: "market_of st' = mk_note (order_filled i buyer (od_seller order) x (od_price_per_token order) c)
      (mk_put i (after_fill x order) (mk_credit (od_quote_asset order) (od_seller order) c
         (mk_credit (od_quote_asset order) buyer (- c) (mk_spend buyer (market_of st)))))" by blast
  have "quote (market_of st') q' a = quote (market_of st) q' a +
      (if q' = od_quote_asset order then (if a = od_seller order then c else if a = buyer then - c else 0) else 0)" for q' a
    using h(3) unfolding m by (simp add: mk_note_def mk_put_def quote_def mk_credit_def)
  moreover have "pget (dx_orders st') = (pget (dx_orders st))(i \<mapsto> after_fill x order)"
    unfolding market_reads m by simp
  ultimately show ?thesis
    using h bonds.xfer_moves [OF t] bonds.xfer_by_contract [OF t]
    by (intro exI [of _ order] exI [of _ bi] exI [of _ iss] exI [of _ iss'] exI [of _ c]) (simp add: q market_reads)
qed

theorem purchase_settles_exactly_witness:
  "\<exists>st W st' W' order. execute_purchase (sample_env 30) (Address 2) 1 3 100 1 st W = Ok (st', W') \<and>
     pget (dx_orders st) 1 = Some order \<and> pget (dx_orders st') 1 = Some (after_fill 100 order)"
proof -
  from sample_trade obtain W0 st W st' W' where
    r: "run dex_step (dex_constructor (Address 0) (Address 7) (Address 8), W0)
       [Some (Address 1, 0), Some (Address 2, 0)] (st, W)"
    and e: "execute_purchase (sample_env 30) (Address 2) 1 3 100 1 st W = Ok (st', W')" by blast
  from purchase_settles_exactly [OF r _ e] obtain order where
    "pget (dx_orders st) 1 = Some order" "pget (dx_orders st') = (pget (dx_orders st))(1 \<mapsto> after_fill 100 order)"
    by auto
  with e show ?thesis by (intro exI [of _ st] exI [of _ W] exI [of _ st'] exI [of _ W']) auto
qed

text \<open>
  C7. In every reachable state the quote balances are non-negative and, asset by asset, add up to what
  the event log says was deposited less what was withdrawn: trading neither creates nor loses funds.
\<close>

theorem quote_books_balance:
  assumes "run dex_step (dex_constructor admin bi ce, W0) ls (st, W)" and "length ls < 2 ^ 64"
  shows "map_total (pget (dx_balances st)) (of_asset q) = log_sum (net_deposit q) (dx_events st) \<and>
    (\<forall>a. 0 \<le> fst (get_quote_balance env a q st))"
proof -
  have f: "mk_funds (market_of st)" using dex_reachable_inv(2) [OF assms] by (simp add: market_inv_def)
  then have "0 \<le> fst (get_quote_balance env a q st)" for a
    by (simp add: get_quote_balance_def get_balance_eq mk_funds_alt quote_nonneg)
  with f show ?thesis by (simp add: mk_funds_def market_of_def)
qed

theorem quote_books_balance_witness:
  "\<exists>st :: dex. map_total (pget (dx_balances st)) (of_asset ''USDC'') = 1000"
proof -
  from sample_trade obtain W0 st W where
    r: "run dex_step (dex_constructor (Address 0) (Address 7) (Address 8), W0)
       [Some (Address 1, 0), Some (Address 2, 0)] (st, W)"
    and e: "dx_events st = [order_listed 1 (Address 1) 1 200 3, quote_deposited (Address 2) ''USDC'' 1000]" by blast
  from quote_books_balance [OF r, of "''USDC''"] e
  have "map_total (pget (dx_balances st)) (of_asset ''USDC'') = 1000" by (simp add: log_sum_def)
  then show ?thesis by blast
qed

text \<open>
  No order is ever filled beyond what was listed: in every reachable state what the log says was
  filled of an order and what is still open add up to the amount it was listed with.
\<close>

theorem fills_match_listing:
  assumes "run dex_step (dex_constructor admin bi ce, W0) ls (st, W)" and "length ls < 2 ^ 64"
    and "pget (dx_orders st) i = Some order"
  shows "log_sum (filled_amount i) (dx_events st) + open_amount order = log_sum (listed_amount i) (dx_events st) \<and>
    0 \<le> open_amount order"
proof -
  have "mk_fills (market_of st)" "mk_ids (length ls) (market_of st)"
    using dex_reachable_inv(2) [OF assms(1,2)] by (simp_all add: market_inv_def)
  moreover have "mk_orders (market_of st) i = Some order" using assms(3) by (simp add: market_of_def)
  ultimately have "log_sum (filled_amount i) (mk_log (market_of st)) + open_amount order =
      log_sum (listed_amount i) (mk_log (market_of st))" "0 < od_amount order"
    unfolding mk_fills_def mk_ids_def by blast+
  then show ?thesis by (simp add: market_of_def open_amount_def)
qed

theorem fills_match_listing_witness:
  "\<exists>(st :: dex) order. pget (dx_orders st) 1 = Some order \<and> open_amount order = 200"
proof -
  from sample_trade obtain W0 st W order where
    r: "run dex_step (dex_constructor (Address 0) (Address 7) (Address 8), W0)
       [Some (Address 1, 0), Some (Address 2, 0)] (st, W)"
    and e: "dx_events st = [order_listed 1 (Address 1) 1 200 3, quote_deposited (Address 2) ''USDC'' 1000]"
    and o: "pget (dx_orders st) 1 = Some order" by blast
  from fills_match_listing [OF r _ o] e have "open_amount order = 200" by (simp add: log_sum_def)
  with o show ?thesis by blast
qed

lemma order_evolves_refl [simp]: "order_evolves order order"
  by (simp add: order_evolves_def same_terms_def)

lemma order_evolves_moves: "order_evolves o1 o2 \<Longrightarrow> order_moves o2 o3 \<Longrightarrow> order_evolves o1 o3"
  by (auto simp: order_evolves_def order_moves_def same_terms_def)

lemma order_run:
  assumes "run market_step M ls M'" and "market_inv n M" and "n + length ls < 2 ^ 64" and "mk_orders M i = Some order"
  shows "\<exists>order'. mk_orders M' i = Some order' \<and> order_evolves order order'"
  using assms
proof (induction rule: run.induct)
  case (run_refl M)
  then show ?case by simp
next
  case (run_snoc M ls T l U)
  then obtain o1 where "mk_orders T i = Some o1" "order_evolves order o1" by auto
  moreover have "mk_ids (n + length ls) T"
    using dex.inv_run [OF run_snoc.hyps(1) run_snoc.prems(1)] run_snoc.prems(2) by (simp add: market_inv_def)
  ultimately show ?case
    using market_orders_step [OF run_snoc.hyps(2), of "n + length ls" i o1] run_snoc.prems(2) order_evolves_moves by auto
qed

text \<open>
  The life cycle of an order: its seller, bond, price, asset and times never change, its amount
  only shrinks, it never becomes open again, and a filled, cancelled or expired order never changes.
\<close>

theorem order_life_cycle:
  assumes "run dex_step (dex_constructor admin bi ce, W0) ls (st, W)" and "run dex_step (st, W) ls' (st', W')"
    and "length ls + length ls' < 2 ^ 64" and "pget (dx_orders st) i = Some order"
  shows "\<exists>order'. pget (dx_orders st') i = Some order' \<and> same_terms order order' \<and>
    od_amount order' \<le> od_amount order \<and> (od_status order' = Open \<longrightarrow> od_status order = Open) \<and>
    (\<not> is_order_live order \<longrightarrow> order' = order)"
proof -
  have inv: "dex_typed st" "market_inv (length ls) (market_of st)"
    using dex_reachable_inv [OF assms(1)] assms(3) by simp_all
  have "run market_step (market_of st) ls' (market_of st')"
    using dex.run_refines [OF assms(2)] inv(1) by simp
  from order_run [OF this inv(2) assms(3)] assms(4) show ?thesis
    unfolding market_reads order_evolves_def by blast
qed

theorem order_life_cycle_witness:
  "\<exists>(st :: dex) (st' :: dex) order order'. pget (dx_orders st) 1 = Some order \<and> pget (dx_orders st') 1 = Some order' \<and>
     same_terms order order' \<and> od_amount order' \<le> od_amount order"
proof -
  from sample_trade obtain W0 st W st' W' order where
    r: "run dex_step (dex_constructor (Address 0) (Address 7) (Address 8), W0)
       [Some (Address 1, 0), Some (Address 2, 0)] (st, W)"
    and r': "run dex_step (st, W) [Some (Address 2, 1)] (st', W')" and o: "pget (dx_orders st) 1 = Some order" by blast
  have "length [Some (Address 1, 0 :: u64), Some (Address 2, 0)] + length [Some (Address 2, 1 :: u64)] < 2 ^ 64" by simp
  from order_life_cycle [OF r r' this o] o show ?thesis by blast
qed

text \<open>
  Sweeping a range marks as expired exactly the live orders in the range whose time has passed,
  and changes no other order and no balance.
\<close>

theorem sweep_is_exact:
  assumes "clean_expired_orders_range env caller nonce lo hi st = Ok (k, st')"
  shows "pget (dx_orders st') i =
      (if lo \<le> i \<and> i \<le> hi
       then map_option (\<lambda>order. if is_order_live order \<and> is_order_expired env order
              then order\<lparr>od_status := Expired\<rparr> else order) (pget (dx_orders st) i)
       else pget (dx_orders st) i) \<and>
    pget (dx_balances st') = pget (dx_balances st)"
proof -
  from clean_expired_orders_range_Ok [OF assms] have
    m: "market_of st' = mk_note (expired_orders_cleaned k) (mk_sweep (timestamp env)
       (set (map of_nat [unat lo..<Suc (unat hi)])) (mk_spend caller (market_of st)))" by blast
  have mem: "i \<in> set (map of_nat [unat lo..<Suc (unat hi)]) \<longleftrightarrow> lo \<le> i \<and> i \<le> hi"
  proof
    assume "i \<in> set (map of_nat [unat lo..<Suc (unat hi)])"
    then obtain j where j: "i = of_nat j" "unat lo \<le> j" "j \<le> unat hi" by auto
    then have "unat i = j"
      using unsigned_less [of hi, where 'a = nat] by (simp add: unsigned_of_nat take_bit_nat_eq_self)
    with j show "lo \<le> i \<and> i \<le> hi" by (simp add: word_le_nat_alt)
  next
    assume "lo \<le> i \<and> i \<le> hi"
    then have "unat i \<in> set [unat lo..<Suc (unat hi)]" by (auto simp: word_le_nat_alt)
    then show "i \<in> set (map of_nat [unat lo..<Suc (unat hi)])"
      unfolding set_map by (rule rev_image_eqI) simp
  qed
  have "pget (dx_balances st') = mk_quote (market_of st')" "pget (dx_balances st) = mk_quote (market_of st)"
    by (simp_all add: market_of_def)
  moreover have "after_sweep (timestamp env) = (\<lambda>order. if is_order_live order \<and> is_order_expired env order
      then order\<lparr>od_status := Expired\<rparr> else order)"
    by (simp add: fun_eq_iff after_sweep_def is_order_expired_def)
  ultimately show ?thesis
    unfolding market_reads using m mem by (simp add: mk_sweep_def del: upt_Suc set_map)
qed

theorem sweep_is_exact_witness:
  "\<exists>st k st'. clean_expired_orders_range (sample_env 2000) (Address 0) 0 1 1 st = Ok (k, st') \<and>
     pget (dx_balances st') = pget (dx_balances st)"
proof -
  from sample_trade obtain st where "is_ok (clean_expired_orders_range (sample_env 2000) (Address 0) 0 1 1 st)" by blast
  then obtain k st' where c: "clean_expired_orders_range (sample_env 2000) (Address 0) 0 1 1 st = Ok (k, st')"
    by (cases "clean_expired_orders_range (sample_env 2000) (Address 0) 0 1 1 st") auto
  from sweep_is_exact [OF c] c show ?thesis by blast
qed

lemma get_order_Ok: "get_order env i st = Ok (order, s) \<longleftrightarrow>
    mk_orders (market_of st) i = Some order \<and> s = st\<lparr>dx_orders := dex_bump env (dx_orders st) i\<rparr>"
  by (auto simp: get_order_def ok_or_def market_of_def result_simps split: option.splits)

lemma bond_orders_once:
  assumes "mk_ids n M" and "mk_index M" and "mk_orders M i = Some order"
  shows "count_list (mk_by_bond M (od_bond_id order)) i = 1"
proof -
  let ?ids = "map of_nat [1..<Suc (unat (mk_count M))] :: u64 list"
  have i: "1 \<le> unat i" "unat i \<le> unat (mk_count M)" using assms(1,3) unfolding mk_ids_def by (metis option.distinct(1))+
  have "inj_on (of_nat :: nat \<Rightarrow> u64) {1..<Suc (unat (mk_count M))}"
    using of_nat_u64_inj unsigned_less [of "mk_count M", where 'a = nat] by (fastforce simp: inj_on_def)
  then have "distinct ?ids" by (simp add: distinct_map del: upt_Suc)
  moreover have "i \<in> set ?ids" using i by (auto simp del: upt_Suc intro!: image_eqI [of _ _ "unat i"])
  ultimately have "count_list (filter (\<lambda>j. map_option od_bond_id (mk_orders M j) = Some (od_bond_id order)) ?ids) i = 1"
    using assms(3) by (intro count_list_distinct) (simp_all del: upt_Suc)
  with assms(2) show ?thesis by (simp add: mk_index_def del: upt_Suc)
qed

text \<open>
  C20. The stored data are well-formed in every reachable state. The orders are numbered from 1 to the
  order count without gaps and carry their number, with a positive amount and a positive price within
  \<open>i128\<close>; the list of a bond holds the number of each of its orders exactly once; and every quote balance
  lies between 0 and the largest \<open>i128\<close>.
\<close>

theorem dex_state_typed:
  assumes "run dex_step (dex_constructor admin bi ce, W0) ls (st, W)" and "length ls < 2 ^ 64"
  shows "(\<forall>i. (\<exists>order s. get_order env i st = Ok (order, s)) \<longleftrightarrow> 1 \<le> i \<and> i \<le> order_count st) \<and>
    (\<forall>i order s. get_order env i st = Ok (order, s) \<longrightarrow> od_id order = i \<and>
       0 < od_amount order \<and> od_amount order \<le> i128_max \<and>
       0 < od_price_per_token order \<and> od_price_per_token order \<le> i128_max \<and>
       count_list (fst (get_bond_orders env (od_bond_id order) st)) i = 1) \<and>
    (\<forall>q a. 0 \<le> fst (get_quote_balance env a q st) \<and> fst (get_quote_balance env a q st) \<le> i128_max)"
proof (intro conjI allI impI)
  let ?M = "market_of st"
  have typed: "dex_typed st" and inv: "mk_ids (length ls) ?M" "mk_funds ?M" "mk_index ?M"
    using dex_reachable_inv [OF assms] by (simp_all add: market_inv_def)
  show "(\<exists>order s. get_order env i st = Ok (order, s)) \<longleftrightarrow> 1 \<le> i \<and> i \<le> order_count st" for i
    using inv(1) unfolding mk_ids_def get_order_Ok
    by (simp add: word_le_nat_alt order_count_def market_of_def not_None_eq del: One_nat_def)
  show "0 \<le> fst (get_quote_balance env a q st)" "fst (get_quote_balance env a q st) \<le> i128_max" for q a
    using inv(2) quote_fits [OF typed]
    by (simp_all add: get_quote_balance_def get_balance_eq mk_funds_alt quote_nonneg fits_i128_def)
  fix i order s
  assume "get_order env i st = Ok (order, s)"
  then have o: "mk_orders ?M i = Some order" by (simp add: get_order_Ok)
  with inv(1) show "od_id order = i" "0 < od_amount order" "0 < od_price_per_token order" by (auto simp: mk_ids_def)
  from o typed show "od_amount order \<le> i128_max" "od_price_per_token order \<le> i128_max"
    by (auto simp: dex_typed_market order_typed_def fits_i128_def)
  show "count_list (fst (get_bond_orders env (od_bond_id order) st)) i = 1"
    using bond_orders_once [OF inv(1,3) o] by (simp add: get_bond_orders_def market_of_def)
qed

theorem dex_state_typed_witness:
  "\<exists>(st :: dex) (order :: Order) s. get_order (sample_env 30) 1 st = Ok (order, s) \<and> od_id order = 1 \<and>
     count_list (fst (get_bond_orders (sample_env 30) (od_bond_id order) st)) 1 = 1"
proof -
  from sample_trade obtain W0 st W order where
    r: "run dex_step (dex_constructor (Address 0) (Address 7) (Address 8), W0)
       [Some (Address 1, 0), Some (Address 2, 0)] (st, W)"
    and "pget (dx_orders st) 1 = Some order" by blast
  then obtain s where o: "get_order (sample_env 30) 1 st = Ok (order, s)" by (auto simp: get_order_Ok market_of_def)
  with dex_state_typed [OF r, of "sample_env 30"] show ?thesis by (intro exI [of _ st] exI [of _ order] exI [of _ s]) simp
qed

end
