(* ===== verification/Registry.thy ===== *)
theory Registry
  imports Shared
begin

text \<open>
  The project registry, \<^verbatim>\<open>contracts/project-registry/src/lib.rs\<close>: registration of projects, their
  approval, rejection, suspension and revocation, the lookups other contracts use, and the two-step
  rotation of the administrator. The lemmas show that a metadata hash backs at most one active
  project, the life cycle of a project, the numbering and listing of projects, and that a rotation
  takes a signed proposal and 48 hours.
\<close>

section \<open>State\<close>

definition LEDGERS_PER_DAY :: u32 where
  "LEDGERS_PER_DAY = 17280"

definition PERSISTENT_TTL_THRESHOLD :: u32 where
  "PERSISTENT_TTL_THRESHOLD = LEDGERS_PER_DAY * 30"

definition PERSISTENT_TTL_EXTEND_TO :: u32 where
  "PERSISTENT_TTL_EXTEND_TO = LEDGERS_PER_DAY * 120"

record ProjectSummary =
  ps_id :: u64
  ps_name :: symbol
  ps_status :: ProjectStatus
  ps_country :: symbol

record ProjectLinkage =
  pl_id :: u64
  pl_metadata_ipfs_hash :: bytes32
  pl_status :: ProjectStatus

datatype RegistryEvent =
  P_SUSPEND u64 address string
| P_REVOKE u64 address string
| ORA_SET address address
| admin_transfer_proposed address address u64
| admin_transfer_cancelled address
| admin_changed address address

record registry =
  reg_instance_ttl :: u32
  reg_admin :: "address option"
  reg_oracle_consumer_id :: "address option"
  reg_projects :: "(bytes32, Project) pstore"
  reg_project_count :: "(unit, u64) pstore"
  reg_project_by_hash :: "(bytes32, u64) pstore"
  reg_nonces :: "(address, u64) pstore"
  reg_owner_projects :: "(address, u64 list) pstore"
  reg_pending_admin :: "(unit, PendingAdminChange) pstore"
  reg_events :: "RegistryEvent list"

section \<open>Helpers\<close>

text \<open>\<^verbatim>\<open>id.to_be_bytes()\<close>: the eight bytes of a \<open>u64\<close>, the most significant first.\<close>

definition to_be_bytes :: "u64 \<Rightarrow> u8 list" where
  "to_be_bytes w = map (\<lambda>i. ucast (drop_bit (8 * (7 - i)) w)) [0..<8]"

definition project_id_to_bytes :: "u64 \<Rightarrow> bytes32" where
  "project_id_to_bytes project_id = to_be_bytes project_id @ replicate 24 0"

definition registry_bump_instance :: "env \<Rightarrow> registry \<Rightarrow> registry" where
  "registry_bump_instance env st =
     st\<lparr>reg_instance_ttl :=
          ttl_extend env (reg_instance_ttl st) PERSISTENT_TTL_THRESHOLD PERSISTENT_TTL_EXTEND_TO\<rparr>"

definition bump_persistent :: "env \<Rightarrow> ('k, 'v) pstore \<Rightarrow> 'k \<Rightarrow> ('k, 'v) pstore" where
  "bump_persistent env m k = pext env PERSISTENT_TTL_THRESHOLD PERSISTENT_TTL_EXTEND_TO m k"

definition read_persistent :: "env \<Rightarrow> ('k, 'v) pstore \<Rightarrow> 'k \<Rightarrow> 'v option \<times> ('k, 'v) pstore" where
  "read_persistent env m k =
     (case pget m k of
        Some v \<Rightarrow> (Some v, bump_persistent env m k)
      | None \<Rightarrow> (None, m))"

definition write_persistent :: "env \<Rightarrow> ('k, 'v) pstore \<Rightarrow> 'k \<Rightarrow> 'v \<Rightarrow> ('k, 'v) pstore" where
  "write_persistent env m k v = bump_persistent env (pset env m k v) k"

text \<open>Reading and writing the family \<^verbatim>\<open>DataKey::Project(project_id_to_bytes(id))\<close>.\<close>

definition read_project :: "env \<Rightarrow> u64 \<Rightarrow> registry \<Rightarrow> Project option \<times> registry" where
  "read_project env project_id st =
     (let (p, m) = read_persistent env (reg_projects st) (project_id_to_bytes project_id)
      in (p, st\<lparr>reg_projects := m\<rparr>))"

definition write_project :: "env \<Rightarrow> u64 \<Rightarrow> Project \<Rightarrow> registry \<Rightarrow> registry" where
  "write_project env project_id p st =
     st\<lparr>reg_projects := write_persistent env (reg_projects st) (project_id_to_bytes project_id) p\<rparr>"

definition registry_require_admin :: "registry \<Rightarrow> address \<Rightarrow> (RegistryError, unit) result" where
  "registry_require_admin st caller =
     and_then (ok_or (reg_admin st) RegistryError.NotInitialized) (\<lambda>admin.
     if caller \<noteq> admin then Err RegistryError.Unauthorized else Ok ())"

definition require_admin_or_oracle :: "registry \<Rightarrow> address \<Rightarrow> (RegistryError, unit) result" where
  "require_admin_or_oracle st caller =
     (if is_ok (registry_require_admin st caller) then Ok ()
      else and_then (ok_or (reg_oracle_consumer_id st) RegistryError.OracleConsumerNotSet) (\<lambda>oracle_consumer.
        if caller \<noteq> oracle_consumer then Err RegistryError.Unauthorized else Ok ()))"

definition ensure_metadata_hash_available ::
    "env \<Rightarrow> bytes32 \<Rightarrow> registry \<Rightarrow> (RegistryError, registry) result" where
  "ensure_metadata_hash_available env metadata_ipfs_hash st =
     (let (project_id, m) = read_persistent env (reg_project_by_hash st) metadata_ipfs_hash;
          st = st\<lparr>reg_project_by_hash := m\<rparr>
      in case project_id of
           None \<Rightarrow> Ok st
         | Some project_id \<Rightarrow>
             (let (project, st) = read_project env project_id st
              in case project of
                   None \<Rightarrow> Ok st
                 | Some project \<Rightarrow>
                     (if pj_status project \<in> {ProjectStatus.Pending, ProjectStatus.Approved}
                      then Err RegistryError.ProjectAlreadyExists else Ok st)))"

text \<open>The nonce check that opens every guarded entrypoint, and the write that completes it.\<close>

definition registry_check_nonce ::
    "env \<Rightarrow> address \<Rightarrow> u64 \<Rightarrow> registry \<Rightarrow> (RegistryError, u64 \<times> registry) result" where
  "registry_check_nonce env caller nonce st =
     (let (stored, m) = read_persistent env (reg_nonces st) caller;
          expected_nonce = unwrap_or stored 0
      in if nonce \<noteq> expected_nonce then Err RegistryError.InvalidNonce
         else Ok (expected_nonce, st\<lparr>reg_nonces := m\<rparr>))"

definition registry_write_nonce ::
    "env \<Rightarrow> address \<Rightarrow> u64 \<Rightarrow> registry \<Rightarrow> (RegistryError, registry) result" where
  "registry_write_nonce env caller expected_nonce st =
     and_then (add_word env expected_nonce 1) (\<lambda>next.
     Ok (st\<lparr>reg_nonces := write_persistent env (reg_nonces st) caller next\<rparr>))"

definition registry_consume_nonce ::
    "env \<Rightarrow> address \<Rightarrow> u64 \<Rightarrow> registry \<Rightarrow> (RegistryError, registry) result" where
  "registry_consume_nonce env caller nonce st =
     and_then (registry_check_nonce env caller nonce st) (\<lambda>(expected_nonce, st).
     registry_write_nonce env caller expected_nonce st)"

definition registry_publish :: "RegistryEvent \<Rightarrow> registry \<Rightarrow> registry" where
  "registry_publish e st = st\<lparr>reg_events := reg_events st @ [e]\<rparr>"

section \<open>Entrypoints\<close>

definition registry_constructor :: "env \<Rightarrow> address \<Rightarrow> registry" where
  "registry_constructor env admin =
     registry_bump_instance env
       \<lparr>reg_instance_ttl = ttl_new env, reg_admin = Some admin, reg_oracle_consumer_id = None,
        reg_projects = Map.empty, reg_project_count = Map.empty, reg_project_by_hash = Map.empty,
        reg_nonces = Map.empty, reg_owner_projects = Map.empty, reg_pending_admin = Map.empty,
        reg_events = []\<rparr>"

definition register_project ::
    "env \<Rightarrow> address \<Rightarrow> bytes32 \<Rightarrow> symbol \<Rightarrow> symbol \<Rightarrow> symbol \<Rightarrow> u64 \<Rightarrow> registry \<Rightarrow>
     (RegistryError, u64 \<times> registry) result" where
  "register_project env caller metadata_ipfs_hash name methodology country nonce st =
     (let st = registry_bump_instance env st
      in and_then (require_auth env caller) (\<lambda>_.
         and_then (registry_check_nonce env caller nonce st) (\<lambda>(expected_nonce, st).
         if is_zero_hash metadata_ipfs_hash then Err RegistryError.ProjectNotFound
         else and_then (ensure_metadata_hash_available env metadata_ipfs_hash st) (\<lambda>st.
         and_then (registry_write_nonce env caller expected_nonce st) (\<lambda>st.
         let (stored, m) = read_persistent env (reg_project_count st) ();
             st = st\<lparr>reg_project_count := m\<rparr>
         in and_then (add_word env (unwrap_or stored 0) 1) (\<lambda>new_id.
         let st = st\<lparr>reg_project_count := write_persistent env (reg_project_count st) () new_id\<rparr>;
             project = \<lparr>pj_id = new_id, pj_owner = caller, pj_metadata_ipfs_hash = metadata_ipfs_hash,
                        pj_name = name, pj_status = ProjectStatus.Pending, pj_methodology = methodology,
                        pj_country = country\<rparr>;
             st = write_project env new_id project st;
             st = st\<lparr>reg_project_by_hash :=
                       write_persistent env (reg_project_by_hash st) metadata_ipfs_hash new_id\<rparr>;
             (stored, m) = read_persistent env (reg_owner_projects st) caller;
             owner_projects = unwrap_or stored [] @ [new_id]
         in Ok (new_id, st\<lparr>reg_owner_projects := write_persistent env m caller owner_projects\<rparr>)))))))"

definition suspend_project ::
    "env \<Rightarrow> address \<Rightarrow> u64 \<Rightarrow> string \<Rightarrow> u64 \<Rightarrow> registry \<Rightarrow> (RegistryError, registry) result" where
  "suspend_project env caller project_id reason nonce st =
     (let st = registry_bump_instance env st
      in and_then (require_auth env caller) (\<lambda>_.
         and_then (registry_consume_nonce env caller nonce st) (\<lambda>st.
         and_then (registry_require_admin st caller) (\<lambda>_.
         let (found, st) = read_project env project_id st
         in and_then (ok_or found RegistryError.ProjectNotFound) (\<lambda>project.
         if pj_status project \<noteq> ProjectStatus.Approved then Err RegistryError.InvalidStatusTransition
         else let st = write_project env project_id (project\<lparr>pj_status := ProjectStatus.Inactive\<rparr>) st
         in Ok (registry_publish (P_SUSPEND project_id caller reason) st))))))"

definition revoke_project ::
    "env \<Rightarrow> address \<Rightarrow> u64 \<Rightarrow> string \<Rightarrow> u64 \<Rightarrow> registry \<Rightarrow> (RegistryError, registry) result" where
  "revoke_project env caller project_id reason nonce st =
     (let st = registry_bump_instance env st
      in and_then (require_auth env caller) (\<lambda>_.
         and_then (registry_consume_nonce env caller nonce st) (\<lambda>st.
         and_then (require_admin_or_oracle st caller) (\<lambda>_.
         let (found, st) = read_project env project_id st
         in and_then (ok_or found RegistryError.ProjectNotFound) (\<lambda>project.
         if pj_status project \<noteq> ProjectStatus.Approved then Err RegistryError.InvalidStatusTransition
         else let st = write_project env project_id (project\<lparr>pj_status := ProjectStatus.Rejected\<rparr>) st
         in Ok (registry_publish (P_REVOKE project_id caller reason) st))))))"

definition is_project_active :: "env \<Rightarrow> u64 \<Rightarrow> registry \<Rightarrow> bool \<times> registry" where
  "is_project_active env project_id st =
     (let (found, st) = read_project env project_id (registry_bump_instance env st)
      in (case found of Some project \<Rightarrow> pj_status project = ProjectStatus.Approved | None \<Rightarrow> False, st))"

definition get_project_status ::
    "env \<Rightarrow> u64 \<Rightarrow> registry \<Rightarrow> (RegistryError, ProjectStatus \<times> registry) result" where
  "get_project_status env project_id st =
     (let (found, st) = read_project env project_id (registry_bump_instance env st)
      in and_then (ok_or (map_option pj_status found) RegistryError.ProjectNotFound) (\<lambda>status.
         Ok (status, st)))"

definition get_project_linkage ::
    "env \<Rightarrow> u64 \<Rightarrow> registry \<Rightarrow> (RegistryError, ProjectLinkage \<times> registry) result" where
  "get_project_linkage env project_id st =
     (let (found, st) = read_project env project_id (registry_bump_instance env st)
      in and_then (ok_or (map_option (\<lambda>project.
           \<lparr>pl_id = pj_id project, pl_metadata_ipfs_hash = pj_metadata_ipfs_hash project,
            pl_status = pj_status project\<rparr>) found) RegistryError.ProjectNotFound) (\<lambda>linkage.
         Ok (linkage, st)))"

definition set_oracle_consumer ::
    "env \<Rightarrow> address \<Rightarrow> address \<Rightarrow> u64 \<Rightarrow> registry \<Rightarrow> (RegistryError, registry) result" where
  "set_oracle_consumer env caller oracle_consumer_id nonce st =
     (let st = registry_bump_instance env st
      in and_then (require_auth env caller) (\<lambda>_.
         and_then (registry_consume_nonce env caller nonce st) (\<lambda>st.
         and_then (registry_require_admin st caller) (\<lambda>_.
         Ok (registry_publish (ORA_SET caller oracle_consumer_id)
              (st\<lparr>reg_oracle_consumer_id := Some oracle_consumer_id\<rparr>))))))"

definition approve_project ::
    "env \<Rightarrow> address \<Rightarrow> u64 \<Rightarrow> u64 \<Rightarrow> registry \<Rightarrow> (RegistryError, registry) result" where
  "approve_project env caller project_id nonce st =
     (let st = registry_bump_instance env st
      in and_then (require_auth env caller) (\<lambda>_.
         and_then (registry_consume_nonce env caller nonce st) (\<lambda>st.
         and_then (registry_require_admin st caller) (\<lambda>_.
         let (found, st) = read_project env project_id st
         in and_then (ok_or found RegistryError.ProjectNotFound) (\<lambda>project.
         if pj_status project \<noteq> ProjectStatus.Pending then Err RegistryError.InvalidStatusTransition
         else Ok (write_project env project_id (project\<lparr>pj_status := ProjectStatus.Approved\<rparr>) st))))))"

definition reject_project ::
    "env \<Rightarrow> address \<Rightarrow> u64 \<Rightarrow> u64 \<Rightarrow> registry \<Rightarrow> (RegistryError, registry) result" where
  "reject_project env caller project_id nonce st =
     (let st = registry_bump_instance env st
      in and_then (require_auth env caller) (\<lambda>_.
         and_then (registry_consume_nonce env caller nonce st) (\<lambda>st.
         and_then (registry_require_admin st caller) (\<lambda>_.
         let (found, st) = read_project env project_id st
         in and_then (ok_or found RegistryError.ProjectNotFound) (\<lambda>project.
         if pj_status project \<noteq> ProjectStatus.Pending then Err RegistryError.InvalidStatusTransition
         else Ok (write_project env project_id (project\<lparr>pj_status := ProjectStatus.Rejected\<rparr>) st))))))"

definition get_project :: "env \<Rightarrow> u64 \<Rightarrow> registry \<Rightarrow> (RegistryError, Project \<times> registry) result" where
  "get_project env project_id st =
     (let (found, st) = read_project env project_id (registry_bump_instance env st)
      in and_then (ok_or found RegistryError.ProjectNotFound) (\<lambda>project. Ok (project, st)))"

definition get_project_by_hash ::
    "env \<Rightarrow> bytes32 \<Rightarrow> registry \<Rightarrow> (RegistryError, Project \<times> registry) result" where
  "get_project_by_hash env metadata_ipfs_hash st =
     (let st = registry_bump_instance env st;
          (stored, m) = read_persistent env (reg_project_by_hash st) metadata_ipfs_hash;
          st = st\<lparr>reg_project_by_hash := m\<rparr>
      in and_then (ok_or stored RegistryError.ProjectNotFound) (\<lambda>project_id.
         let (found, st) = read_project env project_id st
         in and_then (ok_or found RegistryError.ProjectNotFound) (\<lambda>project. Ok (project, st))))"

definition get_project_status_by_hash ::
    "env \<Rightarrow> bytes32 \<Rightarrow> registry \<Rightarrow> (RegistryError, ProjectStatus \<times> registry) result" where
  "get_project_status_by_hash env hash st =
     (let st = registry_bump_instance env st;
          (stored, m) = read_persistent env (reg_project_by_hash st) hash;
          st = st\<lparr>reg_project_by_hash := m\<rparr>
      in and_then (ok_or stored RegistryError.ProjectNotFound) (\<lambda>project_id.
         let (found, st) = read_project env project_id st
         in and_then (ok_or found RegistryError.ProjectNotFound) (\<lambda>project.
         Ok (pj_status project, st))))"

definition summary_of :: "Project \<Rightarrow> ProjectSummary" where
  "summary_of project =
     \<lparr>ps_id = pj_id project, ps_name = pj_name project, ps_status = pj_status project,
      ps_country = pj_country project\<rparr>"

text \<open>The loop \<^verbatim>\<open>for i in (start + 1)..=end\<close> of \<^verbatim>\<open>list_projects\<close>.\<close>

fun list_projects_loop ::
    "env \<Rightarrow> u64 list \<Rightarrow> ProjectSummary list \<Rightarrow> registry \<Rightarrow> ProjectSummary list \<times> registry" where
  "list_projects_loop env [] acc st = (acc, st)"
| "list_projects_loop env (i # is) acc st =
     (let (found, st) = read_project env i st
      in case found of
           Some project \<Rightarrow> list_projects_loop env is (acc @ [summary_of project]) st
         | None \<Rightarrow> list_projects_loop env is acc st)"

definition list_projects :: "env \<Rightarrow> u32 \<Rightarrow> u32 \<Rightarrow> registry \<Rightarrow> ProjectSummary list \<times> registry" where
  "list_projects env page page_size st =
     (let st = registry_bump_instance env st;
          (stored, m) = read_persistent env (reg_project_count st) ();
          st = st\<lparr>reg_project_count := m\<rparr>;
          count = unwrap_or stored 0;
          page_size = min page_size 50;
          start = (ucast page :: u64) * ucast page_size
      in if start \<ge> count then ([], st)
         else let end_id = min (start + ucast page_size) count
              in list_projects_loop env (map of_nat [unat (start + 1)..<Suc (unat end_id)]) [] st)"

definition project_count :: "env \<Rightarrow> registry \<Rightarrow> u64 \<times> registry" where
  "project_count env st =
     (let st = registry_bump_instance env st;
          (stored, m) = read_persistent env (reg_project_count st) ()
      in (unwrap_or stored 0, st\<lparr>reg_project_count := m\<rparr>))"

definition get_owner_projects :: "env \<Rightarrow> address \<Rightarrow> registry \<Rightarrow> u64 list \<times> registry" where
  "get_owner_projects env owner st =
     (let st = registry_bump_instance env st;
          (stored, m) = read_persistent env (reg_owner_projects st) owner
      in (unwrap_or stored [], st\<lparr>reg_owner_projects := m\<rparr>))"

definition registry_propose_admin_transfer ::
    "env \<Rightarrow> address \<Rightarrow> address \<Rightarrow> u64 \<Rightarrow> registry \<Rightarrow> (RegistryError, registry) result" where
  "registry_propose_admin_transfer env caller candidate nonce st =
     (let st = registry_bump_instance env st
      in and_then (require_auth env caller) (\<lambda>_.
         and_then (registry_consume_nonce env caller nonce st) (\<lambda>st.
         and_then (registry_require_admin st caller) (\<lambda>_.
         and_then (add_word env (timestamp env) ADMIN_TRANSFER_TIMELOCK_SECONDS) (\<lambda>executable_at.
         let st = st\<lparr>reg_pending_admin := write_persistent env (reg_pending_admin st) ()
                      \<lparr>pa_candidate = candidate, pa_executable_at = executable_at\<rparr>\<rparr>
         in Ok (registry_publish (admin_transfer_proposed caller candidate executable_at) st))))))"

definition registry_cancel_admin_transfer ::
    "env \<Rightarrow> address \<Rightarrow> u64 \<Rightarrow> registry \<Rightarrow> (RegistryError, registry) result" where
  "registry_cancel_admin_transfer env caller nonce st =
     (let st = registry_bump_instance env st
      in and_then (require_auth env caller) (\<lambda>_.
         and_then (registry_consume_nonce env caller nonce st) (\<lambda>st.
         and_then (registry_require_admin st caller) (\<lambda>_.
         if \<not> phas (reg_pending_admin st) () then Err RegistryError.NoPendingAdminChange
         else let st = st\<lparr>reg_pending_admin := premove (reg_pending_admin st) ()\<rparr>
         in Ok (registry_publish (admin_transfer_cancelled caller) st)))))"

definition registry_accept_admin_transfer ::
    "env \<Rightarrow> address \<Rightarrow> u64 \<Rightarrow> registry \<Rightarrow> (RegistryError, registry) result" where
  "registry_accept_admin_transfer env caller nonce st =
     (let st = registry_bump_instance env st
      in and_then (require_auth env caller) (\<lambda>_.
         and_then (registry_consume_nonce env caller nonce st) (\<lambda>st.
         let (stored, m) = read_persistent env (reg_pending_admin st) ();
             st = st\<lparr>reg_pending_admin := m\<rparr>
         in and_then (ok_or stored RegistryError.NoPendingAdminChange) (\<lambda>pending.
         if caller \<noteq> pa_candidate pending then Err RegistryError.Unauthorized
         else if timestamp env < pa_executable_at pending then Err RegistryError.TimelockNotElapsed
         else and_then (ok_or (reg_admin st) RegistryError.NotInitialized) (\<lambda>old_admin.
         let st = st\<lparr>reg_admin := Some caller, reg_pending_admin := premove (reg_pending_admin st) ()\<rparr>
         in Ok (registry_publish (admin_changed old_admin caller) st))))))"

definition registry_get_admin :: "registry \<Rightarrow> address option" where
  "registry_get_admin st = reg_admin st"

definition registry_get_pending_admin :: "env \<Rightarrow> registry \<Rightarrow> PendingAdminChange option \<times> registry" where
  "registry_get_pending_admin env st =
     (let st = registry_bump_instance env st;
          (stored, m) = read_persistent env (reg_pending_admin st) ()
      in (stored, st\<lparr>reg_pending_admin := m\<rparr>))"

section \<open>Steps\<close>

text \<open>A successful call, labelled with its time and, where it presents one, its nonce.\<close>

inductive registry_step :: "registry \<Rightarrow> timed_label \<Rightarrow> registry \<Rightarrow> bool" where
  step_register_project:
    "register_project env caller h name methodology country nonce st = Ok (new_id, st') \<Longrightarrow>
     registry_step st (timestamp env, Some (caller, nonce)) st'"
| step_suspend_project: "suspend_project env caller project_id reason nonce st = Ok st' \<Longrightarrow>
     registry_step st (timestamp env, Some (caller, nonce)) st'"
| step_revoke_project: "revoke_project env caller project_id reason nonce st = Ok st' \<Longrightarrow>
     registry_step st (timestamp env, Some (caller, nonce)) st'"
| step_approve_project: "approve_project env caller project_id nonce st = Ok st' \<Longrightarrow>
     registry_step st (timestamp env, Some (caller, nonce)) st'"
| step_reject_project: "reject_project env caller project_id nonce st = Ok st' \<Longrightarrow>
     registry_step st (timestamp env, Some (caller, nonce)) st'"
| step_set_oracle_consumer: "set_oracle_consumer env caller oracle_consumer_id nonce st = Ok st' \<Longrightarrow>
     registry_step st (timestamp env, Some (caller, nonce)) st'"
| step_registry_propose: "registry_propose_admin_transfer env caller candidate nonce st = Ok st' \<Longrightarrow>
     registry_step st (timestamp env, Some (caller, nonce)) st'"
| step_registry_cancel: "registry_cancel_admin_transfer env caller nonce st = Ok st' \<Longrightarrow>
     registry_step st (timestamp env, Some (caller, nonce)) st'"
| step_registry_accept: "registry_accept_admin_transfer env caller nonce st = Ok st' \<Longrightarrow>
     registry_step st (timestamp env, Some (caller, nonce)) st'"
| step_is_project_active: "is_project_active env project_id st = (b, st') \<Longrightarrow>
     registry_step st (timestamp env, None) st'"
| step_get_project_status: "get_project_status env project_id st = Ok (status, st') \<Longrightarrow>
     registry_step st (timestamp env, None) st'"
| step_get_project_linkage: "get_project_linkage env project_id st = Ok (linkage, st') \<Longrightarrow>
     registry_step st (timestamp env, None) st'"
| step_get_project: "get_project env project_id st = Ok (p, st') \<Longrightarrow>
     registry_step st (timestamp env, None) st'"
| step_get_project_by_hash: "get_project_by_hash env h st = Ok (p, st') \<Longrightarrow>
     registry_step st (timestamp env, None) st'"
| step_get_project_status_by_hash: "get_project_status_by_hash env h st = Ok (status, st') \<Longrightarrow>
     registry_step st (timestamp env, None) st'"
| step_list_projects: "list_projects env page page_size st = (ps, st') \<Longrightarrow>
     registry_step st (timestamp env, None) st'"
| step_project_count: "project_count env st = (c, st') \<Longrightarrow> registry_step st (timestamp env, None) st'"
| step_get_owner_projects: "get_owner_projects env owner st = (ids, st') \<Longrightarrow>
     registry_step st (timestamp env, None) st'"
| step_registry_get_pending_admin: "registry_get_pending_admin env st = (pa, st') \<Longrightarrow>
     registry_step st (timestamp env, None) st'"

section \<open>Abstract register of projects\<close>

text \<open>
  What the registry promises: numbered projects, an index from metadata hashes, the projects of each
  owner, an administrator with a pending change, and nonces. A change of status follows
  \<open>may_become\<close>, the life cycle of a project.
\<close>

record register =
  rg_admin :: "address option"
  rg_oracle :: "address option"
  rg_pending :: "PendingAdminChange option"
  rg_count :: u64
  rg_projects :: "u64 \<rightharpoonup> Project"
  rg_by_hash :: "bytes32 \<rightharpoonup> u64"
  rg_owned :: "address \<Rightarrow> u64 list"
  rg_nonces :: "address \<Rightarrow> u64"

definition register_of :: "registry \<Rightarrow> register" where
  "register_of st =
     \<lparr>rg_admin = reg_admin st, rg_oracle = reg_oracle_consumer_id st,
      rg_pending = pget (reg_pending_admin st) (),
      rg_count = unwrap_or (pget (reg_project_count st) ()) 0,
      rg_projects = (\<lambda>i. pget (reg_projects st) (project_id_to_bytes i)),
      rg_by_hash = pget (reg_project_by_hash st),
      rg_owned = (\<lambda>a. unwrap_or (pget (reg_owner_projects st) a) []),
      rg_nonces = (\<lambda>a. unwrap_or (pget (reg_nonces st) a) 0)\<rparr>"

definition may_become :: "ProjectStatus \<Rightarrow> ProjectStatus \<Rightarrow> bool" where
  "may_become s t \<longleftrightarrow>
     (s, t) \<in> {(ProjectStatus.Pending, ProjectStatus.Approved), (ProjectStatus.Pending, ProjectStatus.Rejected),
               (ProjectStatus.Approved, ProjectStatus.Inactive), (ProjectStatus.Approved, ProjectStatus.Rejected)}"

definition is_live :: "Project \<Rightarrow> bool" where
  "is_live p \<longleftrightarrow> pj_status p \<in> {ProjectStatus.Pending, ProjectStatus.Approved}"

definition rg_spend :: "address \<Rightarrow> register \<Rightarrow> register" where
  "rg_spend a R = R\<lparr>rg_nonces := (rg_nonces R)(a := rg_nonces R a + 1)\<rparr>"

definition enter_project :: "Project \<Rightarrow> register \<Rightarrow> register" where
  "enter_project p R =
     R\<lparr>rg_count := pj_id p, rg_projects := (rg_projects R)(pj_id p \<mapsto> p),
       rg_by_hash := (rg_by_hash R)(pj_metadata_ipfs_hash p \<mapsto> pj_id p),
       rg_owned := (rg_owned R)(pj_owner p := rg_owned R (pj_owner p) @ [pj_id p])\<rparr>"

inductive register_step :: "register \<Rightarrow> timed_label \<Rightarrow> register \<Rightarrow> bool" where
  r_register: "n = rg_nonces R (pj_owner p) \<Longrightarrow> pj_id p = rg_count R + 1 \<Longrightarrow>
     pj_status p = ProjectStatus.Pending \<Longrightarrow> \<not> is_zero_hash (pj_metadata_ipfs_hash p) \<Longrightarrow>
     (\<And>i q. rg_by_hash R (pj_metadata_ipfs_hash p) = Some i \<Longrightarrow> rg_projects R i = Some q \<Longrightarrow> \<not> is_live q) \<Longrightarrow>
     register_step R (now, Some (pj_owner p, n)) (enter_project p (rg_spend (pj_owner p) R))"
| r_status: "n = rg_nonces R a \<Longrightarrow> rg_projects R i = Some p \<Longrightarrow> may_become (pj_status p) s \<Longrightarrow>
     rg_admin R = Some a \<or> (rg_oracle R = Some a \<and> pj_status p = ProjectStatus.Approved \<and>
       s = ProjectStatus.Rejected) \<Longrightarrow>
     register_step R (now, Some (a, n))
       ((rg_spend a R)\<lparr>rg_projects := (rg_projects R)(i \<mapsto> p\<lparr>pj_status := s\<rparr>)\<rparr>)"
| r_oracle: "n = rg_nonces R a \<Longrightarrow> rg_admin R = Some a \<Longrightarrow>
     register_step R (now, Some (a, n)) ((rg_spend a R)\<lparr>rg_oracle := Some c\<rparr>)"
| r_propose: "n = rg_nonces R a \<Longrightarrow> rg_admin R = Some a \<Longrightarrow>
     register_step R (now, Some (a, n)) ((rg_spend a R)\<lparr>rg_pending :=
       Some \<lparr>pa_candidate = c, pa_executable_at = now + ADMIN_TRANSFER_TIMELOCK_SECONDS\<rparr>\<rparr>)"
| r_cancel: "n = rg_nonces R a \<Longrightarrow> rg_admin R = Some a \<Longrightarrow> rg_pending R = Some p \<Longrightarrow>
     register_step R (now, Some (a, n)) ((rg_spend a R)\<lparr>rg_pending := None\<rparr>)"
| r_accept: "n = rg_nonces R (pa_candidate p) \<Longrightarrow> rg_pending R = Some p \<Longrightarrow> pa_executable_at p \<le> now \<Longrightarrow>
     register_step R (now, Some (pa_candidate p, n))
       ((rg_spend (pa_candidate p) R)\<lparr>rg_admin := Some (pa_candidate p), rg_pending := None\<rparr>)"
| r_read: "register_step R (now, None) R"

section \<open>Invariant\<close>

text \<open>
  Projects are numbered from 1 without gaps and carry their number; the owner's list is the numbers
  of the owner's projects in the order of registration; and the hash index points at every live
  project, so that two live projects never share a hash.
\<close>

definition reg_ids :: "nat \<Rightarrow> register \<Rightarrow> bool" where
  "reg_ids n R \<longleftrightarrow> unat (rg_count R) \<le> n \<and>
     (\<forall>i. rg_projects R i \<noteq> None \<longleftrightarrow> 1 \<le> unat i \<and> unat i \<le> unat (rg_count R)) \<and>
     (\<forall>i p. rg_projects R i = Some p \<longrightarrow> pj_id p = i)"

definition reg_index :: "register \<Rightarrow> bool" where
  "reg_index R \<longleftrightarrow>
     (\<forall>i p. rg_projects R i = Some p \<longrightarrow> is_live p \<longrightarrow> rg_by_hash R (pj_metadata_ipfs_hash p) = Some i)"

definition reg_owned :: "register \<Rightarrow> bool" where
  "reg_owned R \<longleftrightarrow> (\<forall>a. rg_owned R a =
     filter (\<lambda>i. map_option pj_owner (rg_projects R i) = Some a)
       (map of_nat [1..<Suc (unat (rg_count R))]))"

definition register_inv :: "nat \<Rightarrow> register \<Rightarrow> bool" where
  "register_inv n R \<longleftrightarrow> reg_ids n R \<and> reg_index R \<and> reg_owned R"

definition all_summaries :: "registry \<Rightarrow> ProjectSummary list" where
  "all_summaries st =
     map (\<lambda>i. summary_of (the (pget (reg_projects st) (project_id_to_bytes (of_nat i)))))
       [1..<Suc (unat (unwrap_or (pget (reg_project_count st) ()) 0))]"

section \<open>Refinement and preservation\<close>

lemma bit_byte: "bit (ucast (drop_bit k w :: u64) :: u8) r \<longleftrightarrow> r < 8 \<and> bit w (k + r)"
  by (auto simp: bit_ucast_iff bit_drop_bit_eq dest: bit_imp_le_length)

lemma to_be_bytes_nth: "i < 8 \<Longrightarrow> to_be_bytes w ! i = ucast (drop_bit (8 * (7 - i)) w)"
  by (simp add: to_be_bytes_def)

lemma length_to_be_bytes [simp]: "length (to_be_bytes w) = 8"
  by (simp add: to_be_bytes_def)

lemma to_be_bytes_inj: "to_be_bytes v = to_be_bytes w \<longleftrightarrow> v = w"
proof
  assume eq: "to_be_bytes v = to_be_bytes w"
  show "v = w"
  proof (rule bit_word_eqI)
    fix n assume "n < LENGTH(64)"
    then have n: "n div 8 < 8" "8 * (n div 8) + n mod 8 = n" by simp_all
    have "(ucast (drop_bit (8 * (7 - (7 - n div 8))) v) :: u8) = ucast (drop_bit (8 * (7 - (7 - n div 8))) w)"
      using to_be_bytes_nth [of "7 - n div 8" v] to_be_bytes_nth [of "7 - n div 8" w] eq by simp
    then have "(ucast (drop_bit (8 * (n div 8)) v) :: u8) = ucast (drop_bit (8 * (n div 8)) w)"
      using n(1) by simp
    then have "bit v (8 * (n div 8) + n mod 8) = bit w (8 * (n div 8) + n mod 8)"
      using bit_byte [of "8 * (n div 8)" v "n mod 8"] bit_byte [of "8 * (n div 8)" w "n mod 8"] by simp
    then show "bit v n = bit w n" using n(2) by simp
  qed
qed simp

lemma project_id_to_bytes_inj [simp]: "project_id_to_bytes v = project_id_to_bytes w \<longleftrightarrow> v = w"
  by (simp add: project_id_to_bytes_def to_be_bytes_inj)

lemma pget_bump [storage_simps]: "pget (bump_persistent env m k) = pget m"
  by (simp add: bump_persistent_def storage_simps)

lemma read_persistent_eq [storage_simps]: "read_persistent env m k = (pget m k, bump_persistent env m k)"
  by (auto simp: read_persistent_def bump_persistent_def pext_def pget_def split: option.splits)

lemma pget_write_persistent [storage_simps]: "pget (write_persistent env m k v) = (pget m)(k \<mapsto> v)"
  by (simp add: write_persistent_def storage_simps)

lemma read_project_eq [storage_simps]:
  "read_project env i st = (rg_projects (register_of st) i,
     st\<lparr>reg_projects := bump_persistent env (reg_projects st) (project_id_to_bytes i)\<rparr>)"
  by (simp add: read_project_def storage_simps register_of_def)

lemma register_of_frame [simp]:
  "register_of (registry_bump_instance env st) = register_of st"
  "register_of (registry_publish e st) = register_of st"
  "register_of (st\<lparr>reg_projects := bump_persistent env (reg_projects st) k\<rparr>) = register_of st"
  "register_of (st\<lparr>reg_project_by_hash := bump_persistent env (reg_project_by_hash st) h\<rparr>) = register_of st"
  "register_of (st\<lparr>reg_project_count := bump_persistent env (reg_project_count st) u\<rparr>) = register_of st"
  "register_of (st\<lparr>reg_pending_admin := bump_persistent env (reg_pending_admin st) u\<rparr>) = register_of st"
  "register_of (st\<lparr>reg_owner_projects := bump_persistent env (reg_owner_projects st) a\<rparr>) = register_of st"
  "register_of (st\<lparr>reg_nonces := bump_persistent env (reg_nonces st) a\<rparr>) = register_of st"
  by (simp_all add: register_of_def registry_bump_instance_def registry_publish_def storage_simps)

lemma register_of_write_project [simp]:
  "register_of (write_project env i p st) =
     (register_of st)\<lparr>rg_projects := (rg_projects (register_of st))(i \<mapsto> p)\<rparr>"
  by (auto simp: write_project_def register_of_def storage_simps)

lemma registry_check_nonce_Ok:
  "registry_check_nonce env a n st = Ok (k, st') \<Longrightarrow>
     k = n \<and> n = rg_nonces (register_of st) a \<and> register_of st' = register_of st"
  by (auto simp: registry_check_nonce_def storage_simps Let_def register_of_def split: if_splits)

lemma registry_write_nonce_Ok:
  "registry_write_nonce env a n st = Ok st' \<Longrightarrow> n = rg_nonces (register_of st) a \<Longrightarrow>
     register_of st' = rg_spend a (register_of st)"
  by (auto simp: registry_write_nonce_def storage_simps result_simps rg_spend_def register_of_def fun_eq_iff
      dest!: add_word_OkD)

lemma registry_consume_nonce_Ok:
  "registry_consume_nonce env a n st = Ok st' \<Longrightarrow>
     n = rg_nonces (register_of st) a \<and> register_of st' = rg_spend a (register_of st)"
  by (auto simp: registry_consume_nonce_def result_simps dest!: registry_check_nonce_Ok registry_write_nonce_Ok)

lemma registry_require_admin_Ok: "registry_require_admin st a = Ok u \<longleftrightarrow> rg_admin (register_of st) = Some a"
  by (auto simp: registry_require_admin_def result_simps register_of_def)

lemma require_admin_or_oracle_Ok: "require_admin_or_oracle st a = Ok u \<longleftrightarrow>
     rg_admin (register_of st) = Some a \<or> rg_oracle (register_of st) = Some a"
  by (cases "registry_require_admin st a")
    (auto simp: require_admin_or_oracle_def result_simps registry_require_admin_def ok_or_def register_of_def
      split: option.splits if_splits)

lemma ensure_available_Ok:
  "ensure_metadata_hash_available env h st = Ok st' \<Longrightarrow> register_of st' = register_of st \<and>
     (\<forall>i q. rg_by_hash (register_of st) h = Some i \<longrightarrow> rg_projects (register_of st) i = Some q \<longrightarrow> \<not> is_live q)"
  by (auto simp: ensure_metadata_hash_available_def storage_simps Let_def is_live_def register_of_def
      split: option.splits if_splits)

lemmas registry_guards = registry_require_admin_Ok require_admin_or_oracle_Ok
lemmas registry_dests = registry_check_nonce_Ok registry_write_nonce_Ok registry_consume_nonce_Ok ensure_available_Ok

lemma rg_spend_fields [simp]:
  "rg_admin (rg_spend a R) = rg_admin R" "rg_oracle (rg_spend a R) = rg_oracle R"
  "rg_pending (rg_spend a R) = rg_pending R" "rg_count (rg_spend a R) = rg_count R"
  "rg_projects (rg_spend a R) = rg_projects R" "rg_by_hash (rg_spend a R) = rg_by_hash R"
  "rg_owned (rg_spend a R) = rg_owned R"
  "rg_nonces (rg_spend a R) = (rg_nonces R)(a := rg_nonces R a + 1)"
  by (simp_all add: rg_spend_def)

lemma registry_status_Ok:
  "suspend_project env a i reason n st = Ok st' \<Longrightarrow> register_step (register_of st) (timestamp env, Some (a, n)) (register_of st')"
  "revoke_project env a i reason n st = Ok st' \<Longrightarrow> register_step (register_of st) (timestamp env, Some (a, n)) (register_of st')"
  "approve_project env a i n st = Ok st' \<Longrightarrow> register_step (register_of st) (timestamp env, Some (a, n)) (register_of st')"
  "reject_project env a i n st = Ok st' \<Longrightarrow> register_step (register_of st) (timestamp env, Some (a, n)) (register_of st')"
  by (auto simp: suspend_project_def revoke_project_def approve_project_def reject_project_def
      result_simps Let_def storage_simps registry_guards may_become_def
      dest!: registry_dests split: if_splits intro!: r_status)

lemma register_project_Ok:
  assumes "register_project env a h name methodology country n st = Ok (k, st')"
  shows "\<exists>p. p = \<lparr>pj_id = rg_count (register_of st) + 1, pj_owner = a, pj_metadata_ipfs_hash = h,
       pj_name = name, pj_status = ProjectStatus.Pending, pj_methodology = methodology, pj_country = country\<rparr> \<and>
     k = pj_id p \<and> n = rg_nonces (register_of st) a \<and> \<not> is_zero_hash h \<and>
     (\<forall>i q. rg_by_hash (register_of st) h = Some i \<longrightarrow> rg_projects (register_of st) i = Some q \<longrightarrow> \<not> is_live q) \<and>
     register_of st' = enter_project p (rg_spend a (register_of st))"
proof -
  let ?st0 = "registry_bump_instance env st"
  from assms obtain e st1 st2 st3 where
    1: "registry_check_nonce env a n ?st0 = Ok (e, st1)" "\<not> is_zero_hash h"
    and 2: "ensure_metadata_hash_available env h st1 = Ok st2"
    and 3: "registry_write_nonce env a e st2 = Ok st3"
    and k: "k = unwrap_or (pget (reg_project_count st3) ()) 0 + 1"
    and fin: "register_of st' = enter_project \<lparr>pj_id = k, pj_owner = a, pj_metadata_ipfs_hash = h,
       pj_name = name, pj_status = ProjectStatus.Pending, pj_methodology = methodology, pj_country = country\<rparr>
       (register_of st3)"
    by (auto simp: register_project_def result_simps Let_def storage_simps write_project_def register_of_def
        enter_project_def fun_eq_iff dest!: add_word_OkD split: if_splits)
  from registry_check_nonce_Ok [OF 1(1)] have c: "e = n" "n = rg_nonces (register_of st) a" "register_of st1 = register_of st"
    by simp_all
  from ensure_available_Ok [OF 2] c have d: "register_of st2 = register_of st"
     "\<forall>i q. rg_by_hash (register_of st) h = Some i \<longrightarrow> rg_projects (register_of st) i = Some q \<longrightarrow> \<not> is_live q" by simp_all
  from registry_write_nonce_Ok [OF 3] c d have e: "register_of st3 = rg_spend a (register_of st)" by simp
  then have "rg_count (register_of st3) = rg_count (register_of st)" by simp
  then have "k = rg_count (register_of st) + 1" using k by (simp add: register_of_def)
  with c d e fin 1(2) show ?thesis by simp
qed

lemma register_of_upd [simp]:
  "register_of (st\<lparr>reg_oracle_consumer_id := x\<rparr>) = (register_of st)\<lparr>rg_oracle := x\<rparr>"
  "register_of (st\<lparr>reg_pending_admin := write_persistent env m () pa\<rparr>) = (register_of st)\<lparr>rg_pending := Some pa\<rparr>"
  "register_of (st\<lparr>reg_pending_admin := premove m ()\<rparr>) = (register_of st)\<lparr>rg_pending := None\<rparr>"
  "register_of (st\<lparr>reg_admin := y\<rparr>) = (register_of st)\<lparr>rg_admin := y\<rparr>"
  by (simp_all add: register_of_def storage_simps)

lemma register_reads:
  "pget (reg_pending_admin st) () = rg_pending (register_of st)" "reg_admin st = rg_admin (register_of st)"
  by (simp_all add: register_of_def)

lemma registry_admin_Ok:
  "set_oracle_consumer env a c n st = Ok st' \<Longrightarrow> register_step (register_of st) (timestamp env, Some (a, n)) (register_of st')"
  "registry_propose_admin_transfer env a c n st = Ok st' \<Longrightarrow> register_step (register_of st) (timestamp env, Some (a, n)) (register_of st')"
  "registry_cancel_admin_transfer env a n st = Ok st' \<Longrightarrow> register_step (register_of st) (timestamp env, Some (a, n)) (register_of st')"
  by (auto simp: set_oracle_consumer_def registry_propose_admin_transfer_def registry_cancel_admin_transfer_def
      result_simps Let_def registry_guards phas_pget register_reads
      dest!: registry_dests add_word_OkD split: if_splits intro: r_oracle r_propose r_cancel)

lemma registry_accept_Ok:
  assumes "registry_accept_admin_transfer env a n st = Ok st'"
  shows "\<exists>p. a = pa_candidate p \<and> n = rg_nonces (register_of st) a \<and> rg_pending (register_of st) = Some p \<and>
     pa_executable_at p \<le> timestamp env \<and>
     register_of st' = (rg_spend a (register_of st))\<lparr>rg_admin := Some a, rg_pending := None\<rparr>"
  using assms
  by (auto simp: registry_accept_admin_transfer_def result_simps Let_def read_persistent_eq register_reads not_less
      dest!: registry_dests split: if_splits)

lemma list_projects_loop_eq:
  "register_of (snd (list_projects_loop env is acc st)) = register_of st \<and>
   fst (list_projects_loop env is acc st) =
     acc @ map summary_of (List.map_filter (rg_projects (register_of st)) is)"
  by (induction "is" arbitrary: acc st)
    (auto simp: read_project_eq Let_def map_filter_simps split: option.splits)

lemmas list_projects_loop_simps =
  list_projects_loop_eq [THEN conjunct1] list_projects_loop_eq [THEN conjunct2]

lemma list_projects_register: "list_projects env page page_size st = (ps, st') \<Longrightarrow> register_of st' = register_of st"
  by (auto simp: list_projects_def Let_def read_persistent_eq prod_eq_iff list_projects_loop_simps split: if_splits)

lemma registry_read:
  "is_project_active env i st = (b, st') \<Longrightarrow> register_of st' = register_of st"
  "get_project_status env i st = Ok (s, st') \<Longrightarrow> register_of st' = register_of st"
  "get_project_linkage env i st = Ok (l, st') \<Longrightarrow> register_of st' = register_of st"
  "get_project env i st = Ok (p, st') \<Longrightarrow> register_of st' = register_of st"
  "project_count env st = (c, st') \<Longrightarrow> register_of st' = register_of st"
  "get_owner_projects env a st = (ids, st') \<Longrightarrow> register_of st' = register_of st"
  "registry_get_pending_admin env st = (pa, st') \<Longrightarrow> register_of st' = register_of st"
  by (auto simp: is_project_active_def get_project_status_def get_project_linkage_def get_project_def
      project_count_def get_owner_projects_def registry_get_pending_admin_def Let_def read_persistent_eq
      read_project_eq result_simps)

lemma registry_read_by_hash:
  "get_project_by_hash env h st = Ok (p, st') \<Longrightarrow> register_of st' = register_of st"
  "get_project_status_by_hash env h st = Ok (s, st') \<Longrightarrow> register_of st' = register_of st"
  by (auto simp: get_project_by_hash_def get_project_status_by_hash_def Let_def read_project_def
      register_of_def registry_bump_instance_def result_simps storage_simps)

lemma registry_step_register:
  assumes "registry_step st l st'"
  shows "register_step (register_of st) l (register_of st')"
  using assms
proof (cases rule: registry_step.cases)
  case (step_register_project env caller h name methodology country nonce new_id)
  define p where "p = \<lparr>pj_id = rg_count (register_of st) + 1, pj_owner = caller, pj_metadata_ipfs_hash = h,
    pj_name = name, pj_status = ProjectStatus.Pending, pj_methodology = methodology, pj_country = country\<rparr>"
  then have "pj_owner p = caller" "pj_metadata_ipfs_hash p = h" "pj_status p = ProjectStatus.Pending"
    "pj_id p = rg_count (register_of st) + 1" by simp_all
  with register_project_Ok [OF step_register_project(2), folded p_def] step_register_project(1)
    r_register [of nonce "register_of st" p] show ?thesis by auto
next
  case (step_registry_accept env caller nonce)
  from registry_accept_Ok [OF this(2)] step_registry_accept(1) show ?thesis by (auto intro: r_accept)
qed (auto dest: registry_status_Ok registry_admin_Ok
    dest!: registry_read registry_read_by_hash list_projects_register intro: r_read)

lemma reg_fresh:
  assumes "reg_ids n R" and "Suc n < 2 ^ 64"
  shows "unat (rg_count R + 1) = Suc (unat (rg_count R))" "rg_projects R (rg_count R + 1) = None"
proof -
  show *: "unat (rg_count R + 1) = Suc (unat (rg_count R))"
    using assms by (subst unat_inc) (simp_all add: reg_ids_def)
  with assms(1) have "\<not> (rg_projects R (rg_count R + 1) \<noteq> None)"
    unfolding reg_ids_def by (metis Suc_n_not_le_n)
  then show "rg_projects R (rg_count R + 1) = None" by simp
qed

lemma reg_ids_step:
  assumes "register_step R l R'" and "reg_ids n R" and "Suc n < 2 ^ 64"
  shows "reg_ids (Suc n) R'"
  using assms(1)
proof (cases rule: register_step.cases)
  case (r_register k p now)
  note f = reg_fresh [OF assms(2,3)]
  have "(rg_projects R i \<noteq> None \<or> i = rg_count R + 1) \<longleftrightarrow> 1 \<le> unat i \<and> unat i \<le> Suc (unat (rg_count R))" for i
  proof -
    have "i = rg_count R + 1 \<longleftrightarrow> unat i = Suc (unat (rg_count R))"
      using f(1) by (simp add: word_unat_eq_iff)
    moreover have "rg_projects R i \<noteq> None \<longleftrightarrow> 1 \<le> unat i \<and> unat i \<le> unat (rg_count R)"
      using assms(2) unfolding reg_ids_def by blast
    ultimately show ?thesis by auto
  qed
  moreover have "rg_projects R' i \<noteq> None \<longleftrightarrow> rg_projects R i \<noteq> None \<or> i = rg_count R + 1" for i
    using r_register by (auto simp: enter_project_def)
  moreover have "unat (rg_count R') = Suc (unat (rg_count R))"
    using r_register f(1) by (simp add: enter_project_def)
  ultimately have "\<forall>i. rg_projects R' i \<noteq> None \<longleftrightarrow> 1 \<le> unat i \<and> unat i \<le> unat (rg_count R')"
    by metis
  moreover have "\<forall>i q. rg_projects R' i = Some q \<longrightarrow> pj_id q = i"
    using r_register assms(2) by (auto simp: enter_project_def reg_ids_def)
  moreover have "unat (rg_count R') \<le> Suc n"
    using r_register f(1) assms(2) by (simp add: enter_project_def reg_ids_def)
  ultimately show ?thesis unfolding reg_ids_def by blast
next
  case (r_status k a i p s now)
  with assms(2) show ?thesis unfolding reg_ids_def by auto
qed (use assms(2) in \<open>auto simp: reg_ids_def\<close>)


lemma reg_index_step:
  assumes "register_step R l R'" and "reg_index R" and "reg_ids n R" and "Suc n < 2 ^ 64"
  shows "reg_index R'"
  using assms(1)
proof (cases rule: register_step.cases)
  case (r_register k p now)
  have "rg_by_hash R' (pj_metadata_ipfs_hash q) = Some i"
    if q: "rg_projects R' i = Some q" "is_live q" for i q
  proof (cases "i = rg_count R + 1")
    case True
    with q r_register show ?thesis by (auto simp: enter_project_def)
  next
    case False
    with q(1) r_register have R: "rg_projects R i = Some q" by (simp add: enter_project_def)
    with assms(2) q(2) have h: "rg_by_hash R (pj_metadata_ipfs_hash q) = Some i"
      unfolding reg_index_def by blast
    then have "pj_metadata_ipfs_hash q \<noteq> pj_metadata_ipfs_hash p" using r_register(7) R q(2) by auto
    with h r_register show ?thesis by (simp add: enter_project_def)
  qed
  then show ?thesis unfolding reg_index_def by blast
next
  case (r_status k a i p s now)
  then have "is_live p" by (auto simp: may_become_def is_live_def)
  with r_status assms(2) show ?thesis unfolding reg_index_def by auto
qed (use assms(2) in \<open>auto simp: reg_index_def\<close>)

lemma reg_owned_step:
  assumes "register_step R l R'" and "reg_owned R" and "reg_ids n R" and "Suc n < 2 ^ 64"
  shows "reg_owned R'"
  using assms(1)
proof (cases rule: register_step.cases)
  case (r_register k p now)
  note f = reg_fresh [OF assms(3,4)]
  let ?old = "map of_nat [1..<Suc (unat (rg_count R))] :: u64 list"
  have new: "(of_nat (Suc (unat (rg_count R))) :: u64) = rg_count R + 1" by simp
  have "rg_projects R' i = rg_projects R i" if "i \<in> set ?old" for i
  proof -
    from that assms(3) obtain j where "i = of_nat j" "1 \<le> j" "j \<le> unat (rg_count R)" by auto
    moreover from this have "unat i = j"
      using unsigned_less [of "rg_count R", where 'a = nat] by (simp add: unsigned_of_nat take_bit_nat_eq_self)
    ultimately have "i \<noteq> rg_count R + 1" using f(1) by auto
    with r_register show ?thesis by (simp add: enter_project_def)
  qed
  then have "filter (\<lambda>i. map_option pj_owner (rg_projects R' i) = Some a) ?old = rg_owned R a" for a
    using assms(2) unfolding reg_owned_def by (metis (mono_tags, lifting) filter_cong)
  with r_register f(1) new show ?thesis
    by (auto simp: reg_owned_def enter_project_def)
next
  case (r_status k a i p s now)
  then have "map_option pj_owner (rg_projects R' j) = map_option pj_owner (rg_projects R j)" for j by simp
  with r_status assms(2) show ?thesis unfolding reg_owned_def by simp
qed (use assms(2) in \<open>auto simp: reg_owned_def\<close>)

lemma register_inv_step:
  "register_inv n R \<Longrightarrow> register_step R l R' \<Longrightarrow> Suc n < 2 ^ 64 \<Longrightarrow> register_inv (Suc n) R'"
  unfolding register_inv_def by (blast intro: reg_ids_step reg_index_step reg_owned_step)

interpretation registry: simulated_machine registry_step register_step register_of "\<lambda>_. True" register_inv
  by unfold_locales (erule registry_step_register, rule TrueI, fact register_inv_step)

interpretation registry_nonces: nonce_machine registry_step snd "\<lambda>st. rg_nonces (register_of st)"
proof unfold_locales
  fix s l t a n
  assume "registry_step s l t" and "snd l = Some (a, n)"
  from registry_step_register [OF this(1)] this(2)
  show "rg_nonces (register_of s) a = n \<and>
      rg_nonces (register_of t) = (rg_nonces (register_of s))(a := n + 1)"
    by (cases rule: register_step.cases) (auto simp: enter_project_def)
next
  fix s l t
  assume "registry_step s l t" and "snd l = None"
  from registry_step_register [OF this(1)] this(2)
  show "rg_nonces (register_of t) = rg_nonces (register_of s)"
    by (cases rule: register_step.cases) auto
qed

lemma registry_calls_office:
  "suspend_project env a i reason n st = Ok st' \<Longrightarrow> rg_admin (register_of st') = rg_admin (register_of st) \<and> rg_pending (register_of st') = rg_pending (register_of st)"
  "revoke_project env a i reason n st = Ok st' \<Longrightarrow> rg_admin (register_of st') = rg_admin (register_of st) \<and> rg_pending (register_of st') = rg_pending (register_of st)"
  "approve_project env a i n st = Ok st' \<Longrightarrow> rg_admin (register_of st') = rg_admin (register_of st) \<and> rg_pending (register_of st') = rg_pending (register_of st)"
  "reject_project env a i n st = Ok st' \<Longrightarrow> rg_admin (register_of st') = rg_admin (register_of st) \<and> rg_pending (register_of st') = rg_pending (register_of st)"
  "set_oracle_consumer env a c n st = Ok st' \<Longrightarrow> rg_admin (register_of st') = rg_admin (register_of st) \<and> rg_pending (register_of st') = rg_pending (register_of st)"
  "registry_cancel_admin_transfer env a n st = Ok st' \<Longrightarrow> rg_admin (register_of st') = rg_admin (register_of st) \<and> rg_pending (register_of st') = None"
  "register_project env a h nm me co n st = Ok (k, st') \<Longrightarrow> rg_admin (register_of st') = rg_admin (register_of st) \<and> rg_pending (register_of st') = rg_pending (register_of st)"
  by (auto simp: suspend_project_def revoke_project_def reject_project_def approve_project_def set_oracle_consumer_def
      registry_cancel_admin_transfer_def enter_project_def result_simps Let_def storage_simps
      dest!: registry_dests register_project_Ok split: if_splits)

lemma registry_propose_Ok:
  "registry_propose_admin_transfer env a c n st = Ok st' \<Longrightarrow> rg_admin (register_of st) = Some a \<and> rg_admin (register_of st') = Some a \<and>
     rg_pending (register_of st') = Some \<lparr>pa_candidate = c, pa_executable_at = timestamp env + ADMIN_TRANSFER_TIMELOCK_SECONDS\<rparr>"
  by (auto simp: registry_propose_admin_transfer_def result_simps Let_def registry_guards register_reads storage_simps
      dest!: registry_dests add_word_OkD)

interpretation registry_rotation: admin_rotation registry_step "\<lambda>st. rg_admin (register_of st)" "\<lambda>st. rg_pending (register_of st)"
  "\<lambda>env a c n st st'. registry_propose_admin_transfer env a c n st = Ok st'"
  "\<lambda>env c n st st'. registry_accept_admin_transfer env c n st = Ok st'"
proof unfold_locales
  fix s l t
  assume "registry_step s l t"
  then show "(rg_admin (register_of t) = rg_admin (register_of s) \<and>
        (rg_pending (register_of t) = rg_pending (register_of s) \<or> rg_pending (register_of t) = None)) \<or>
      (\<exists>env a c n. l = (timestamp env, Some (a, n)) \<and> registry_propose_admin_transfer env a c n s = Ok t) \<or>
      (\<exists>env c n. l = (timestamp env, Some (c, n)) \<and> registry_accept_admin_transfer env c n s = Ok t)"
  proof (cases rule: registry_step.cases)
    case step_registry_propose
    then show ?thesis by blast
  next
    case step_registry_accept
    then show ?thesis by blast
  qed (rule disjI1, (auto dest: registry_calls_office dest!: registry_read registry_read_by_hash list_projects_register) [1])+
qed (auto dest: registry_propose_Ok registry_accept_Ok)

lemma registry_reachable_inv:
  assumes "run registry_step (registry_constructor env admin) ls st" and "length ls < 2 ^ 64"
  shows "register_inv (length ls) (register_of st)"
proof -
  have "unat i = 0 \<longleftrightarrow> (i :: u64) = 0" for i by (simp add: unat_eq_0)
  then have "register_inv 0 (register_of (registry_constructor env admin))"
    by (auto simp: register_inv_def reg_ids_def reg_index_def reg_owned_def register_of_def
        registry_constructor_def registry_bump_instance_def storage_simps)
  with registry.conc.inv_run [OF assms(1), of 0] assms(2) show ?thesis by simp
qed

section \<open>Properties\<close>

lemmas registry_exec = sample_env_def registry_constructor_def registry_bump_instance_def
  register_project_def approve_project_def suspend_project_def registry_propose_admin_transfer_def
  registry_accept_admin_transfer_def
  registry_check_nonce_def registry_write_nonce_def registry_consume_nonce_def registry_require_admin_def
  ensure_metadata_hash_available_def read_project_def write_project_def registry_publish_def
  read_persistent_def write_persistent_def bump_persistent_def require_auth_def
  Let_def ok_or_def add_word_def phas_def pset_def pget_def pext_def premove_def is_zero_hash_def
  ADMIN_TRANSFER_TIMELOCK_SECONDS_def

lemma sample_registered:
  "\<exists>st p. run registry_step (registry_constructor (sample_env 5) (Address 0))
     [(10, Some (Address 1, 0)), (20, Some (Address 0, 0))] st \<and>
     rg_projects (register_of st) 1 = Some p \<and> pj_status p = ProjectStatus.Approved \<and> pj_id p = 1 \<and>
     pj_owner p = Address 1 \<and> pj_metadata_ipfs_hash p = [1] \<and> rg_count (register_of st) = 1"
proof -
  have "\<exists>st1 st2 p. register_project (sample_env 10) (Address 1) [1] ''n'' ''m'' ''c'' 0
       (registry_constructor (sample_env 5) (Address 0)) = Ok (1, st1) \<and>
     approve_project (sample_env 20) (Address 0) 1 0 st1 = Ok st2 \<and>
     pget (reg_projects st2) (project_id_to_bytes 1) = Some p \<and> pj_status p = ProjectStatus.Approved \<and> pj_id p = 1 \<and>
     pj_owner p = Address 1 \<and> pj_metadata_ipfs_hash p = [1] \<and> unwrap_or (pget (reg_project_count st2) ()) 0 = 1"
    by (simp add: registry_exec)
  then obtain st1 st2 p where r: "register_project (sample_env 10) (Address 1) [1] ''n'' ''m'' ''c'' 0
       (registry_constructor (sample_env 5) (Address 0)) = Ok (1, st1)"
    "approve_project (sample_env 20) (Address 0) 1 0 st1 = Ok st2"
    and p: "rg_projects (register_of st2) 1 = Some p" "pj_status p = ProjectStatus.Approved" "pj_id p = 1"
    "pj_owner p = Address 1" "pj_metadata_ipfs_hash p = [1]" "rg_count (register_of st2) = 1"
    by (auto simp: register_of_def)
  have "run registry_step (registry_constructor (sample_env 5) (Address 0))
     [(10, Some (Address 1, 0)), (20, Some (Address 0, 0))] st2"
    using run_Cons [where step = registry_step, OF step_register_project [OF r(1)] run_Cons [where step = registry_step, OF step_approve_project [OF r(2)] run_refl [where step = registry_step]]]
    by simp
  with p show ?thesis by blast
qed

text \<open>
  C6. In every reachable state a metadata hash backs at most one live project (pending or approved),
  and looking the hash up finds that project.
\<close>

theorem one_live_project_per_hash:
  assumes "run registry_step (registry_constructor env0 admin) ls st" and "length ls < 2 ^ 64"
    and "pget (reg_projects st) (project_id_to_bytes i) = Some p" and "is_live p"
  shows "(\<exists>st'. get_project_by_hash env (pj_metadata_ipfs_hash p) st = Ok (p, st')) \<and>
    (\<forall>j q. pget (reg_projects st) (project_id_to_bytes j) = Some q \<longrightarrow> is_live q \<longrightarrow>
       pj_metadata_ipfs_hash q = pj_metadata_ipfs_hash p \<longrightarrow> j = i)"
proof -
  have idx: "pget (reg_project_by_hash st) (pj_metadata_ipfs_hash q) = Some j"
    if "pget (reg_projects st) (project_id_to_bytes j) = Some q" "is_live q" for j q
    using registry_reachable_inv [OF assms(1,2)] that
    by (auto simp: register_inv_def reg_index_def register_of_def)
  then have "\<exists>st'. get_project_by_hash env (pj_metadata_ipfs_hash p) st = Ok (p, st')"
    using assms(3,4)
    by (simp add: get_project_by_hash_def registry_bump_instance_def read_project_def Let_def ok_or_def
        storage_simps)
  moreover have "j = i" if "pget (reg_projects st) (project_id_to_bytes j) = Some q" "is_live q"
      "pj_metadata_ipfs_hash q = pj_metadata_ipfs_hash p" for j q
    using idx [OF that(1,2)] idx [OF assms(3,4)] that(3) by simp
  ultimately show ?thesis by blast
qed

theorem one_live_project_per_hash_witness:
  "\<exists>st st' p. get_project_by_hash (sample_env 30) [1] st = Ok (p, st') \<and> is_live p \<and> pj_id p = 1"
proof -
  from sample_registered obtain st p where
    r: "run registry_step (registry_constructor (sample_env 5) (Address 0))
     [(10, Some (Address 1, 0)), (20, Some (Address 0, 0))] st"
    and p: "rg_projects (register_of st) 1 = Some p" "pj_status p = ProjectStatus.Approved" "pj_id p = 1"
      "pj_metadata_ipfs_hash p = [1]" by blast
  have "is_live p" using p(2) by (simp add: is_live_def)
  moreover have "pget (reg_projects st) (project_id_to_bytes 1) = Some p"
    using p(1) by (simp add: register_of_def)
  ultimately show ?thesis
    using one_live_project_per_hash [OF r, of 1 p "sample_env 30"] p(3,4) by auto
qed

lemma status_step:
  assumes "register_step R l R'" and "reg_ids n R" and "Suc n < 2 ^ 64" and "rg_projects R i = Some p"
  shows "\<exists>s. rg_projects R' i = Some (p\<lparr>pj_status := s\<rparr>) \<and> (s = pj_status p \<or> may_become (pj_status p) s)"
  using assms(1)
proof (cases rule: register_step.cases)
  case (r_register k q now)
  with reg_fresh(2) [OF assms(2,3)] assms(4) show ?thesis
    by (intro exI [of _ "pj_status p"]) (auto simp: enter_project_def)
next
  case (r_status k a j q s now)
  show ?thesis
  proof (cases "j = i")
    case True
    with r_status assms(4) show ?thesis by auto
  next
    case False
    with r_status assms(4) show ?thesis by (intro exI [of _ "pj_status p"]) simp
  qed
qed (use assms(4) in \<open>auto intro!: exI [of _ "pj_status p"]\<close>)

lemma status_run:
  assumes "run register_step R ls R'" and "register_inv n R" and "n + length ls < 2 ^ 64"
    and "rg_projects R i = Some p"
  shows "\<exists>s. rg_projects R' i = Some (p\<lparr>pj_status := s\<rparr>) \<and> may_become\<^sup>*\<^sup>* (pj_status p) s"
  using assms
proof (induction rule: run.induct)
  case (run_refl R)
  then show ?case by (intro exI [of _ "pj_status p"]) simp
next
  case (run_snoc R ls T l U)
  then obtain s where s: "rg_projects T i = Some (p\<lparr>pj_status := s\<rparr>)" "may_become\<^sup>*\<^sup>* (pj_status p) s" by auto
  have "reg_ids (n + length ls) T"
    using registry.inv_run [OF run_snoc.hyps(1) run_snoc.prems(1)] run_snoc.prems(2)
    by (simp add: register_inv_def)
  with status_step [OF run_snoc.hyps(2) _ _ s(1)] run_snoc.prems(2) obtain s' where
    "rg_projects U i = Some (p\<lparr>pj_status := s'\<rparr>)" "s' = s \<or> may_become s s'" by auto
  with s(2) show ?case by (metis rtranclp.rtrancl_into_rtrancl)
qed

lemma may_become_final: "may_become\<^sup>*\<^sup>* s t \<Longrightarrow> s \<in> {ProjectStatus.Rejected, ProjectStatus.Inactive} \<Longrightarrow> t = s"
  by (induction rule: rtranclp_induct) (auto simp: may_become_def)

text \<open>
  C28. The life cycle of a project: whatever is called, a registered project keeps its number, owner,
  hash and descriptions, and its status only moves along pending, then approved or rejected, then
  (from approved) inactive or rejected; a rejected or suspended project stays as it is for ever.
\<close>

theorem project_life_cycle:
  assumes "run registry_step (registry_constructor env admin) ls st" and "run registry_step st ls' st'"
    and "length ls + length ls' < 2 ^ 64"
    and "pget (reg_projects st) (project_id_to_bytes i) = Some p"
  shows "\<exists>s. pget (reg_projects st') (project_id_to_bytes i) = Some (p\<lparr>pj_status := s\<rparr>) \<and>
    may_become\<^sup>*\<^sup>* (pj_status p) s \<and>
    (pj_status p \<in> {ProjectStatus.Rejected, ProjectStatus.Inactive} \<longrightarrow> s = pj_status p)"
proof -
  have "register_inv (length ls) (register_of st)"
    using registry_reachable_inv [OF assms(1)] assms(3) by simp
  moreover have "rg_projects (register_of st) i = Some p" using assms(4) by (simp add: register_of_def)
  ultimately obtain s where "rg_projects (register_of st') i = Some (p\<lparr>pj_status := s\<rparr>)"
    "may_become\<^sup>*\<^sup>* (pj_status p) s"
    using status_run [OF registry.run_refines [OF assms(2) TrueI] _ assms(3)] by blast
  with may_become_final show ?thesis by (auto simp: register_of_def)
qed

theorem project_life_cycle_witness:
  "\<exists>st st' p. suspend_project (sample_env 30) (Address 0) 1 ''why'' 1 st = Ok st' \<and>
     (\<exists>s. pget (reg_projects st') (project_id_to_bytes 1) = Some (p\<lparr>pj_status := s\<rparr>) \<and>
        may_become\<^sup>*\<^sup>* ProjectStatus.Approved s)"
proof -
  let ?st0 = "registry_constructor (sample_env 5) (Address 0)"
  have "\<exists>st1 st2 st3 p. register_project (sample_env 10) (Address 1) [1] ''n'' ''m'' ''c'' 0 ?st0 = Ok (1, st1) \<and>
     approve_project (sample_env 20) (Address 0) 1 0 st1 = Ok st2 \<and>
     suspend_project (sample_env 30) (Address 0) 1 ''why'' 1 st2 = Ok st3 \<and>
     pget (reg_projects st2) (project_id_to_bytes 1) = Some p \<and> pj_status p = ProjectStatus.Approved"
    by (simp add: registry_exec)
  then obtain st1 st2 st3 p where
    s: "register_project (sample_env 10) (Address 1) [1] ''n'' ''m'' ''c'' 0 ?st0 = Ok (1, st1)"
      "approve_project (sample_env 20) (Address 0) 1 0 st1 = Ok st2"
      "suspend_project (sample_env 30) (Address 0) 1 ''why'' 1 st2 = Ok st3"
    and p: "pget (reg_projects st2) (project_id_to_bytes 1) = Some p" "pj_status p = ProjectStatus.Approved"
    by blast
  note r1 = run_Cons [where step = registry_step, OF step_register_project [OF s(1)]
      run_Cons [where step = registry_step, OF step_approve_project [OF s(2)] run_refl [where step = registry_step]]]
  note r2 = run_Cons [where step = registry_step, OF step_suspend_project [OF s(3)] run_refl [where step = registry_step]]
  from project_life_cycle [OF r1 r2 _ p(1)] p(2) s(3) show ?thesis by auto
qed

text \<open>
  C29. From the constructor on, the only call that changes the administrator of the registry is a
  successful \<open>accept_admin_transfer\<close>, by the very address \<open>c\<close> that becomes the administrator; and an
  earlier call of the run is a successful \<open>propose_admin_transfer\<close> of this \<open>c\<close> by the address \<open>a\<close> that is
  the administrator until the acceptance, made at least 48 hours before it.
\<close>

theorem registry_admin_needs_timelock:
  assumes "run registry_step (registry_constructor env0 admin0) ls st" and "registry_step st l st'"
    and "registry_get_admin st' \<noteq> registry_get_admin st" and "\<forall>l \<in> set ls. unat (fst l) + 172800 < 2 ^ 64"
  shows "\<exists>env c n ls1 env1 a n1 ls2 st1 st2.
    l = (timestamp env, Some (c, n)) \<and> registry_accept_admin_transfer env c n st = Ok st' \<and>
    registry_get_admin st' = Some c \<and>
    ls = ls1 @ (timestamp env1, Some (a, n1)) # ls2 \<and> run registry_step (registry_constructor env0 admin0) ls1 st1 \<and>
    registry_propose_admin_transfer env1 a c n1 st1 = Ok st2 \<and> run registry_step st2 ls2 st \<and>
    registry_get_admin st = Some a \<and> unat (timestamp env1) + 172800 \<le> unat (timestamp env)"
proof -
  have "rg_pending (register_of (registry_constructor env0 admin0)) = None"
    by (simp add: register_of_def registry_constructor_def registry_bump_instance_def storage_simps)
  moreover have "rg_admin (register_of st') \<noteq> rg_admin (register_of st)"
    using assms(3) by (simp add: registry_get_admin_def register_reads)
  ultimately show ?thesis
    using registry_rotation.admin_change [OF assms(1) _ assms(2) _ assms(4)] by (simp add: registry_get_admin_def register_reads)
qed

theorem registry_admin_needs_timelock_witness:
  "\<exists>st st' env c n env1 a n1 st1 st2.
     run registry_step (registry_constructor (sample_env 5) (Address 0)) [(10, Some (Address 0, 0))] st \<and>
     registry_get_admin st = Some (Address 0) \<and> registry_get_admin st' = Some (Address 1) \<and>
     timestamp env = 172810 \<and> c = Address 1 \<and> registry_accept_admin_transfer env c n st = Ok st' \<and>
     timestamp env1 = 10 \<and> a = Address 0 \<and> registry_propose_admin_transfer env1 a c n1 st1 = Ok st2"
proof -
  let ?st0 = "registry_constructor (sample_env 5) (Address 0)"
  have "\<exists>st1 st2. registry_propose_admin_transfer (sample_env 10) (Address 0) (Address 1) 0 ?st0 = Ok st1 \<and>
     registry_accept_admin_transfer (sample_env 172810) (Address 1) 0 st1 = Ok st2 \<and>
     registry_get_admin st1 = Some (Address 0) \<and> registry_get_admin st2 = Some (Address 1)"
    by (simp add: registry_exec registry_get_admin_def)
  then obtain st1 st2 where
    s: "registry_propose_admin_transfer (sample_env 10) (Address 0) (Address 1) 0 ?st0 = Ok st1"
      "registry_accept_admin_transfer (sample_env 172810) (Address 1) 0 st1 = Ok st2"
    and a: "registry_get_admin st1 = Some (Address 0)" "registry_get_admin st2 = Some (Address 1)" by blast
  have r: "run registry_step ?st0 [(10, Some (Address 0, 0))] st1"
    using run_Cons [where step = registry_step, OF step_registry_propose [OF s(1)] run_refl [where step = registry_step]]
    by simp
  have t: "registry_step st1 (172810, Some (Address 1, 0)) st2" using step_registry_accept [OF s(2)] by simp
  from registry_admin_needs_timelock [OF r t] a r show ?thesis
    by (auto simp: Cons_eq_append_conv) blast
qed

lemma page_start:
  fixes page size :: u32
  assumes "size \<le> 50"
  shows "unat ((ucast page :: u64) * ucast size) = unat page * unat size"
    and "unat ((ucast page :: u64) * ucast size + ucast size) = unat page * unat size + unat size"
proof -
  have p: "unat page < 2 ^ 32" using unsigned_less [of page, where 'a = nat] by simp
  have s: "unat size \<le> 50" using assms by (simp add: word_le_nat_alt)
  have u: "unat (ucast page :: u64) = unat page" "unat (ucast size :: u64) = unat size"
    using p s by (simp_all add: unsigned_ucast_eq take_bit_nat_eq_self)
  have "unat page * unat size \<le> 2 ^ 32 * 50" using mult_le_mono [OF less_imp_le [OF p] s] .
  then have "unat page * unat size < 2 ^ 64" "unat page * unat size + unat size < 2 ^ 64" using s by simp_all
  then show "unat ((ucast page :: u64) * ucast size) = unat page * unat size"
    and "unat ((ucast page :: u64) * ucast size + ucast size) = unat page * unat size + unat size"
    by (simp_all add: unat_word_ariths u)
qed

lemma map_filter_all:
  "(\<And>x. x \<in> set xs \<Longrightarrow> f x \<noteq> None) \<Longrightarrow> List.map_filter f xs = map (\<lambda>x. the (f x)) xs"
  by (induction xs) (fastforce simp: map_filter_simps)+

text \<open>
  \<open>list_projects\<close> pages through all registered projects in the order of their numbers: page \<open>k\<close>
  is the \<open>k\<close>-th slice of at most 50 summaries, with nothing skipped or repeated.
\<close>

theorem list_projects_pages:
  assumes "run registry_step (registry_constructor env0 admin) ls st" and "length ls < 2 ^ 64"
    and "k = unat (min page_size 50)"
  shows "fst (list_projects env page page_size st) = take k (drop (unat page * k) (all_summaries st))"
proof -
  let ?size = "min page_size 50" and ?P = "rg_projects (register_of st)"
  let ?c = "rg_count (register_of st)"
  let ?start = "(ucast page :: u64) * ucast ?size"
  let ?g = "\<lambda>i. summary_of (the (?P (of_nat i)))"
  note u = page_start [of ?size page, OF min.cobounded2]
  have all: "all_summaries st = map ?g [1..<Suc (unat ?c)]"
    by (simp add: all_summaries_def register_of_def)
  have ids: "reg_ids (length ls) (register_of st)"
    using registry_reachable_inv [OF assms(1,2)] by (simp add: register_inv_def)
  have some: "?P (of_nat j) \<noteq> None" if "1 \<le> j" "j \<le> unat ?c" for j
  proof -
    have "unat (of_nat j :: u64) = j"
      using that unsigned_less [of ?c, where 'a = nat] by (simp add: unsigned_of_nat take_bit_nat_eq_self)
    with ids that show ?thesis unfolding reg_ids_def by metis
  qed
  show ?thesis
  proof (cases "?c \<le> ?start")
    case True
    then have "unat ?c \<le> unat page * k" using u assms(3) by (simp add: word_le_nat_alt)
    then have "drop (unat page * k) (all_summaries st) = []" by (simp add: all)
    moreover have "fst (list_projects env page page_size st) = []"
      using True by (simp add: list_projects_def Let_def read_persistent_eq register_of_def registry_bump_instance_def)
    ultimately show ?thesis by simp
  next
    case False
    let ?stop = "min (?start + ucast ?size) ?c"
    have e: "unat ?stop = min (unat page * k + k) (unat ?c)"
      using u assms(3) by (simp add: min_def word_le_nat_alt)
    have s: "unat (?start + 1) = unat page * k + 1"
      using False u assms(3) unsigned_less [of ?c, where 'a = nat]
      by (subst unat_inc) (simp_all add: word_le_nat_alt)
    have "fst (list_projects env page page_size st) =
        map summary_of (List.map_filter ?P (map of_nat [unat (?start + 1)..<Suc (unat ?stop)]))"
      using False
      by (simp add: list_projects_def Let_def read_persistent_eq list_projects_loop_simps
          register_of_def registry_bump_instance_def storage_simps)
    also have "\<dots> = map ?g [unat page * k + 1..<Suc (min (unat page * k + k) (unat ?c))]"
      unfolding e s by (subst map_filter_all) (use some in \<open>auto simp: o_def\<close>)
    also have "\<dots> = take k (drop (unat page * k) (all_summaries st))"
      by (auto simp: all drop_map take_map drop_upt take_upt min_def simp del: upt_Suc)
    finally show ?thesis .
  qed
qed

theorem list_projects_pages_witness:
  "\<exists>st. map ps_id (fst (list_projects (sample_env 30) 0 10 st)) = [1]"
proof -
  from sample_registered obtain st p where
    r: "run registry_step (registry_constructor (sample_env 5) (Address 0))
     [(10, Some (Address 1, 0)), (20, Some (Address 0, 0))] st"
    and p: "rg_projects (register_of st) 1 = Some p" "pj_id p = 1" "rg_count (register_of st) = 1" by blast
  have "all_summaries st = [summary_of p]"
    using p by (simp add: all_summaries_def register_of_def)
  with list_projects_pages [OF r _ refl, of "sample_env 30" 0 10] p(2) show ?thesis
    by (intro exI [of _ st]) (simp add: summary_of_def)
qed

text \<open>
  The list of an owner's projects is exact in every reachable state: the numbers of the projects
  registered by that address, each once, in the order of registration.
\<close>

theorem owner_projects_exact:
  assumes "run registry_step (registry_constructor env0 admin) ls st" and "length ls < 2 ^ 64"
  shows "fst (get_owner_projects env a st) =
    filter (\<lambda>i. map_option pj_owner (pget (reg_projects st) (project_id_to_bytes i)) = Some a)
      (map of_nat [1..<Suc (unat (fst (project_count env st)))])"
proof -
  have "reg_owned (register_of st)"
    using registry_reachable_inv [OF assms] by (simp add: register_inv_def)
  then show ?thesis
    by (simp add: reg_owned_def register_of_def get_owner_projects_def project_count_def Let_def
        read_persistent_eq registry_bump_instance_def)
qed

theorem owner_projects_exact_witness:
  "\<exists>st. fst (get_owner_projects (sample_env 30) (Address 1) st) = [1] \<and>
     fst (get_owner_projects (sample_env 30) (Address 0) st) = []"
proof -
  from sample_registered obtain st p where
    r: "run registry_step (registry_constructor (sample_env 5) (Address 0))
     [(10, Some (Address 1, 0)), (20, Some (Address 0, 0))] st"
    and p: "rg_projects (register_of st) 1 = Some p" "pj_owner p = Address 1" "rg_count (register_of st) = 1" by blast
  have "fst (project_count (sample_env 30) st) = 1"
    using p(3) by (simp add: project_count_def Let_def read_persistent_eq registry_bump_instance_def register_of_def)
  with owner_projects_exact [OF r, of "sample_env 30"] p show ?thesis
    by (intro exI [of _ st]) (simp add: register_of_def)
qed

text \<open>The getters answer from the abstract register.\<close>

lemma registry_getters:
  "get_project env i st = Ok (p, st') \<Longrightarrow> rg_projects (register_of st) i = Some p"
  "rg_projects (register_of st) i = Some p \<Longrightarrow> \<exists>st'. get_project env i st = Ok (p, st')"
  "rg_by_hash (register_of st) h = Some i \<Longrightarrow> rg_projects (register_of st) i = Some p \<Longrightarrow>
     \<exists>st'. get_project_by_hash env h st = Ok (p, st')"
  "fst (get_owner_projects env a st) = rg_owned (register_of st) a"
  "fst (project_count env st) = rg_count (register_of st)"
  by (auto simp: get_project_def get_project_by_hash_def get_owner_projects_def project_count_def Let_def
      register_of_def registry_bump_instance_def read_project_def result_simps storage_simps ok_or_def split: option.splits)

text \<open>
  C19. What is registered is what is read back. After a successful registration in any reachable state,
  the lookup by the returned number and the lookup by the metadata hash both return exactly the record that
  was entered, pending; the number was not in use before, ends the owner's list and is the project count;
  every other project, also one rejected before with the same hash, reads as before, and so do the lists of
  the other owners.
\<close>

theorem register_then_get:
  assumes "run registry_step (registry_constructor env0 admin) ls st" and "Suc (length ls) < 2 ^ 64"
    and "register_project env a h name methodology country n st = Ok (k, st')"
  shows "(\<exists>s1 s2. get_project env' k st' = Ok (\<lparr>pj_id = k, pj_owner = a, pj_metadata_ipfs_hash = h, pj_name = name,
        pj_status = ProjectStatus.Pending, pj_methodology = methodology, pj_country = country\<rparr>, s1) \<and>
      get_project_by_hash env' h st' = Ok (\<lparr>pj_id = k, pj_owner = a, pj_metadata_ipfs_hash = h, pj_name = name,
        pj_status = ProjectStatus.Pending, pj_methodology = methodology, pj_country = country\<rparr>, s2)) \<and>
    (\<forall>p s. get_project env' k st \<noteq> Ok (p, s)) \<and>
    unat k = Suc (unat (fst (project_count env' st))) \<and> fst (project_count env' st') = k \<and>
    fst (get_owner_projects env' a st') = fst (get_owner_projects env' a st) @ [k] \<and>
    (\<forall>i p s. get_project env' i st = Ok (p, s) \<longrightarrow> (\<exists>s'. get_project env' i st' = Ok (p, s'))) \<and>
    (\<forall>b. b \<noteq> a \<longrightarrow> fst (get_owner_projects env' b st') = fst (get_owner_projects env' b st))"
proof -
  let ?R = "register_of st" and ?R' = "register_of st'"
  define p where "p = \<lparr>pj_id = k, pj_owner = a, pj_metadata_ipfs_hash = h, pj_name = name,
    pj_status = ProjectStatus.Pending, pj_methodology = methodology, pj_country = country\<rparr>"
  from register_project_Ok [OF assms(3)] have k: "k = rg_count ?R + 1" and R': "?R' = enter_project p (rg_spend a ?R)"
    by (auto simp: p_def)
  have "reg_ids (length ls) ?R"
    using registry_reachable_inv [OF assms(1)] assms(2) by (simp add: register_inv_def)
  note fresh = reg_fresh [OF this assms(2), folded k]
  have new: "rg_projects ?R' k = Some p" "rg_by_hash ?R' h = Some k" "rg_count ?R' = k"
    "rg_owned ?R' a = rg_owned ?R a @ [k]"
    by (simp_all add: R' enter_project_def p_def)
  have kept: "rg_projects ?R' i = Some q" if "rg_projects ?R i = Some q" for i q
    using that fresh(2) by (auto simp: R' enter_project_def p_def)
  have others: "rg_owned ?R' b = rg_owned ?R b" if "b \<noteq> a" for b
    using that by (simp add: R' enter_project_def p_def)
  have "\<exists>s1 s2. get_project env' k st' = Ok (p, s1) \<and> get_project_by_hash env' h st' = Ok (p, s2)"
    using registry_getters(2) [OF new(1)] registry_getters(3) [OF new(2,1)] by blast
  moreover have "\<forall>q s. get_project env' k st \<noteq> Ok (q, s)"
    using registry_getters(1) fresh(2) by fastforce
  moreover have "\<forall>i q s. get_project env' i st = Ok (q, s) \<longrightarrow> (\<exists>s'. get_project env' i st' = Ok (q, s'))"
    using registry_getters(1,2) kept by blast
  ultimately show ?thesis
    using fresh(1) new(3,4) others unfolding p_def [symmetric] registry_getters(4,5) by blast
qed

theorem register_then_get_witness:
  "\<exists>(st :: registry) (st' :: registry) (p :: Project) s.
     register_project (sample_env 10) (Address 1) [1] ''n'' ''m'' ''c'' 0
       (registry_constructor (sample_env 5) (Address 0)) = Ok (1, st) \<and>
     get_project (sample_env 30) 1 st = Ok (p, s) \<and> pj_name p = ''n'' \<and> pj_owner p = Address 1 \<and>
     pj_status p = ProjectStatus.Pending"
proof -
  have "\<exists>st. register_project (sample_env 10) (Address 1) [1] ''n'' ''m'' ''c'' 0
       (registry_constructor (sample_env 5) (Address 0)) = Ok (1, st)"
    by (simp add: registry_exec)
  then obtain st where r: "register_project (sample_env 10) (Address 1) [1] ''n'' ''m'' ''c'' 0
       (registry_constructor (sample_env 5) (Address 0)) = Ok (1, st)" by blast
  from register_then_get [OF run_refl [where step = registry_step] _ r, of "sample_env 30"] r show ?thesis by fastforce
qed

end
