(* ===== verification/Oracle.thy ===== *)
theory Oracle
  imports Registry
begin

text \<open>
  The oracle consumer, \<^verbatim>\<open>contracts/oracle-consumer/src/lib.rs\<close>: providers and their stake, reports on
  projects of the registry, verification by a threshold of providers, challenges with a bond, their
  resolution by the administrator or by a supermajority of providers, slashing, and the rotation of
  the administrator. Calls to the project registry go to the registry found at its address in
  \<open>registries\<close>. The theories \<open>Report_Desk\<close> and \<open>Challenges\<close> show what it promises.
\<close>

section \<open>State\<close>

definition CHALLENGE_WINDOW_SECONDS :: u64 where
  "CHALLENGE_WINDOW_SECONDS = 259200"

definition SLASH_PENALTY_PPM :: int where
  "SLASH_PENALTY_PPM = 100000"

definition CHALLENGE_BOND :: int where
  "CHALLENGE_BOND = 1000000"

definition CHALLENGE_TIMEOUT_SECONDS :: u64 where
  "CHALLENGE_TIMEOUT_SECONDS = 2592000"

definition ORACLE_TTL_THRESHOLD :: u32 where
  "ORACLE_TTL_THRESHOLD = 17280"

definition ORACLE_TTL_EXTEND_TO :: u32 where
  "ORACLE_TTL_EXTEND_TO = 2073600"

definition MAX_PERIOD_HISTORY :: u32 where
  "MAX_PERIOD_HISTORY = 200"

record OracleProvider =
  op_address :: address
  op_methodology :: symbol
  op_stake :: int
  op_active :: bool
  op_registered_at :: u64

record Report =
  rp_id :: u64
  rp_provider :: address
  rp_project_id :: u64
  rp_project_metadata_hash :: bytes32
  rp_period_start :: u64
  rp_period_end :: u64
  rp_carbon_sequestered :: int
  rp_biodiversity :: BiodiversityMetrics
  rp_methodology :: symbol
  rp_ipfs_evidence_hash :: bytes32
  rp_status :: ReportStatus
  rp_submitted_at :: u64
  rp_verified_at :: u64

record Challenge =
  ch_report_id :: u64
  ch_challenger :: address
  ch_counter_evidence_hash :: bytes32
  ch_submitted_at :: u64
  ch_resolved :: bool
  ch_resolution :: u32
  ch_bond :: int

record SlashRecord =
  sr_report_id :: u64
  sr_penalty :: int
  sr_remaining_stake :: int
  sr_timestamp :: u64
  sr_active_after :: bool

record ProviderStats =
  pst_reports_submitted :: u64
  pst_challenges_faced :: u64
  pst_slashes :: u64
  pst_total_penalty :: int
  pst_stake :: int
  pst_active :: bool

datatype OracleEvent =
  signature_threshold_adjusted u32
| provider_registered address
| provider_removed address
| report_submitted u64 address u64
| report_verified u64
| report_admin_override u64 u32
| report_challenged u64 address
| challenge_vote u64 address bool
| challenge_expired u64
| challenge_resolved u64 u32
| stake_added address int
| stake_withdrawn address int
| challenge_bond_deposited address int
| challenge_bond_withdrawn address int
| challenge_bond_locked address int
| challenge_bond_refunded address int
| challenge_bond_forfeited address int
| provider_slashed address int int bool
| registry_set address address
| oracle_admin_transfer_proposed address address u64
| oracle_admin_transfer_cancelled address
| oracle_admin_changed address address

record oracle_consumer =
  orc_admin :: "address option"
  orc_report_count :: "u64 option"
  orc_signature_threshold :: "u32 option"
  orc_challenge_window :: "u64 option"
  orc_project_registry :: "address option"
  orc_project_registry_nonce :: "u64 option"
  orc_pending_admin :: "PendingAdminChange option"
  orc_providers :: "(address, OracleProvider) pstore"
  orc_provider_list :: "(unit, address list) pstore"
  orc_reports :: "(u64, Report) pstore"
  orc_project_reports :: "(u64, u64 list) pstore"
  orc_challenges :: "(u64, Challenge) pstore"
  orc_report_verifiers :: "(u64, address list) pstore"
  orc_verification_counts :: "(u64, u32) pstore"
  orc_nonces :: "(address, u64) pstore"
  orc_provider_report_counts :: "(address, u64) pstore"
  orc_provider_challenges :: "(address, u64 list) pstore"
  orc_slash_history :: "(address, SlashRecord list) pstore"
  orc_locked_stake :: "(address, int) pstore"
  orc_report_locks :: "(u64, int) pstore"
  orc_bond_balances :: "(address, int) pstore"
  orc_bond_locks :: "(address, int) pstore"
  orc_uphold_votes :: "(u64, address list) pstore"
  orc_reject_votes :: "(u64, address list) pstore"
  orc_report_periods :: "(u64, (u64 \<times> u64) list) pstore"
  orc_events :: "OracleEvent list"

type_synonym registries = "address \<rightharpoonup> registry"

section \<open>Helpers\<close>

definition oracle_require_admin :: "oracle_consumer \<Rightarrow> address \<Rightarrow> (OracleError, unit) result" where
  "oracle_require_admin st caller =
     and_then (ok_or (orc_admin st) OracleError.NotInitialized) (\<lambda>admin.
     if caller \<noteq> admin then Err OracleError.Unauthorized else Ok ())"

definition orc_bump :: "env \<Rightarrow> ('k, 'v) pstore \<Rightarrow> 'k \<Rightarrow> ('k, 'v) pstore" where
  "orc_bump env m k = pext env ORACLE_TTL_THRESHOLD ORACLE_TTL_EXTEND_TO m k"

text \<open>\<^verbatim>\<open>set(key, value)\<close> followed by \<^verbatim>\<open>bump_persistent(key)\<close>.\<close>

definition orc_write :: "env \<Rightarrow> ('k, 'v) pstore \<Rightarrow> 'k \<Rightarrow> 'v \<Rightarrow> ('k, 'v) pstore" where
  "orc_write env m k v = orc_bump env (pset env m k v) k"

text \<open>\<^verbatim>\<open>if has(key) { bump_persistent(key) }\<close>, after a read.\<close>

definition orc_touch :: "env \<Rightarrow> ('k, 'v) pstore \<Rightarrow> 'k \<Rightarrow> ('k, 'v) pstore" where
  "orc_touch env m k = (if phas m k then orc_bump env m k else m)"

definition oracle_get_nonce :: "env \<Rightarrow> address \<Rightarrow> oracle_consumer \<Rightarrow> u64 \<times> oracle_consumer" where
  "oracle_get_nonce env addr st =
     (unwrap_or (pget (orc_nonces st) addr) 0, st\<lparr>orc_nonces := orc_touch env (orc_nonces st) addr\<rparr>)"

definition oracle_set_nonce :: "env \<Rightarrow> address \<Rightarrow> u64 \<Rightarrow> oracle_consumer \<Rightarrow> oracle_consumer" where
  "oracle_set_nonce env addr nonce st = st\<lparr>orc_nonces := orc_write env (orc_nonces st) addr nonce\<rparr>"

definition oracle_consume_nonce :: "env \<Rightarrow> address \<Rightarrow> u64 \<Rightarrow> oracle_consumer \<Rightarrow> (OracleError, oracle_consumer) result" where
  "oracle_consume_nonce env caller nonce st =
     (let (expected_nonce, st) = oracle_get_nonce env caller st
      in if nonce \<noteq> expected_nonce then Err OracleError.InvalidNonce
         else and_then (add_word env expected_nonce 1) (\<lambda>next. Ok (oracle_set_nonce env caller next st)))"

definition oracle_publish :: "OracleEvent \<Rightarrow> oracle_consumer \<Rightarrow> oracle_consumer" where
  "oracle_publish e st = st\<lparr>orc_events := orc_events st @ [e]\<rparr>"

text \<open>
  The loop counts in \<open>u32\<close>; a host vector has fewer than \<open>2 ^ 32\<close> elements, so the count cannot
  overflow whatever the profile.
\<close>

definition active_provider_count :: "oracle_consumer \<Rightarrow> u32" where
  "active_provider_count st =
     foldl (\<lambda>count addr. case pget (orc_providers st) addr of
              Some p \<Rightarrow> if op_active p then count + 1 else count
            | None \<Rightarrow> count)
       0 (unwrap_or (pget (orc_provider_list st) ()) [])"

definition reconcile_signature_threshold :: "oracle_consumer \<Rightarrow> oracle_consumer" where
  "reconcile_signature_threshold st =
     (let current = unwrap_or (orc_signature_threshold st) 1;
          adjusted = min current (max (active_provider_count st) 1)
      in if adjusted \<noteq> current
         then oracle_publish (signature_threshold_adjusted adjusted) (st\<lparr>orc_signature_threshold := Some adjusted\<rparr>)
         else st)"

definition slashable_amount :: "env \<Rightarrow> int \<Rightarrow> (OracleError, int) result" where
  "slashable_amount env stake =
     and_then (arith_i128 env (stake * SLASH_PENALTY_PPM)) (\<lambda>product.
     let penalty = product sdiv 1000000;
         penalty = (if penalty \<le> 0 then stake else penalty);
         penalty = (if penalty > stake then stake else penalty)
     in Ok penalty)"

definition lock_stake_for_report ::
    "env \<Rightarrow> address \<Rightarrow> u64 \<Rightarrow> int \<Rightarrow> oracle_consumer \<Rightarrow> (OracleError, oracle_consumer) result" where
  "lock_stake_for_report env provider report_id stake st =
     and_then (slashable_amount env stake) (\<lambda>lock_amount.
     let st = st\<lparr>orc_report_locks := orc_write env (orc_report_locks st) report_id lock_amount\<rparr>;
         locked = unwrap_or (pget (orc_locked_stake st) provider) 0
     in and_then (arith_i128 env (locked + lock_amount)) (\<lambda>new_locked.
        Ok (st\<lparr>orc_locked_stake := orc_write env (orc_locked_stake st) provider new_locked\<rparr>)))"

definition release_report_lock ::
    "env \<Rightarrow> address \<Rightarrow> u64 \<Rightarrow> oracle_consumer \<Rightarrow> (OracleError, oracle_consumer) result" where
  "release_report_lock env provider report_id st =
     (let lock_amount = unwrap_or (pget (orc_report_locks st) report_id) 0
      in if lock_amount = 0 then Ok st
         else let st = st\<lparr>orc_report_locks := premove (orc_report_locks st) report_id\<rparr>;
                  locked = unwrap_or (pget (orc_locked_stake st) provider) 0
         in and_then (if lock_amount > locked then Ok 0 else arith_i128 env (locked - lock_amount)) (\<lambda>new_locked.
            Ok (st\<lparr>orc_locked_stake := orc_write env (orc_locked_stake st) provider new_locked\<rparr>)))"

definition charge_challenge_bond :: "env \<Rightarrow> address \<Rightarrow> oracle_consumer \<Rightarrow> (OracleError, int \<times> oracle_consumer) result" where
  "charge_challenge_bond env challenger st =
     (let balance = unwrap_or (pget (orc_bond_balances st) challenger) 0
      in if balance < CHALLENGE_BOND then Err OracleError.InsufficientChallengeBond
         else and_then (arith_i128 env (balance - CHALLENGE_BOND)) (\<lambda>new_balance.
         let st = st\<lparr>orc_bond_balances := orc_write env (orc_bond_balances st) challenger new_balance\<rparr>;
             locked = unwrap_or (pget (orc_bond_locks st) challenger) 0
         in and_then (arith_i128 env (locked + CHALLENGE_BOND)) (\<lambda>new_locked.
            let st = st\<lparr>orc_bond_locks := orc_write env (orc_bond_locks st) challenger new_locked\<rparr>
            in Ok (CHALLENGE_BOND, oracle_publish (challenge_bond_locked challenger CHALLENGE_BOND) st))))"

definition settle_challenge_bond ::
    "env \<Rightarrow> address \<Rightarrow> int \<Rightarrow> bool \<Rightarrow> oracle_consumer \<Rightarrow> (OracleError, oracle_consumer) result" where
  "settle_challenge_bond env challenger bond refund st =
     (if bond \<le> 0 then Ok st
      else let locked = unwrap_or (pget (orc_bond_locks st) challenger) 0;
               released = min bond locked
      in and_then (arith_i128 env (locked - released)) (\<lambda>new_locked.
         let st = (if new_locked = 0 then st\<lparr>orc_bond_locks := premove (orc_bond_locks st) challenger\<rparr>
                   else st\<lparr>orc_bond_locks := orc_write env (orc_bond_locks st) challenger new_locked\<rparr>)
         in if refund
            then let balance = unwrap_or (pget (orc_bond_balances st) challenger) 0
                 in and_then (arith_i128 env (balance + released)) (\<lambda>new_balance.
                    Ok (oracle_publish (challenge_bond_refunded challenger released)
                      (st\<lparr>orc_bond_balances := orc_write env (orc_bond_balances st) challenger new_balance\<rparr>)))
            else Ok (oracle_publish (challenge_bond_forfeited challenger released) st)))"

text \<open>\<^verbatim>\<open>div_ceil\<close> on \<open>u64\<close>, and the vote count that resolves a challenge.\<close>

definition div_ceil :: "u64 \<Rightarrow> u64 \<Rightarrow> u64" where
  "div_ceil a b = (if a mod b = 0 then a div b else a div b + 1)"

definition supermajority_threshold :: "u32 \<Rightarrow> u32" where
  "supermajority_threshold active = ucast (max (div_ceil (2 * ucast active) 3) 1)"

definition slash_provider :: "env \<Rightarrow> address \<Rightarrow> u64 \<Rightarrow> oracle_consumer \<Rightarrow> (OracleError, oracle_consumer) result" where
  "slash_provider env provider report_id st =
     (case pget (orc_providers st) provider of
        None \<Rightarrow> Trap
      | Some p \<Rightarrow>
          and_then (slashable_amount env (op_stake p)) (\<lambda>penalty.
          and_then (arith_i128 env (op_stake p - penalty)) (\<lambda>stake.
          let p = p\<lparr>op_stake := stake, op_active := (if stake = 0 then False else op_active p)\<rparr>;
              st = st\<lparr>orc_providers := orc_write env (orc_providers st) provider p\<rparr>;
              st = reconcile_signature_threshold st;
              history = unwrap_or (pget (orc_slash_history st) provider) [] @
                [\<lparr>sr_report_id = report_id, sr_penalty = penalty, sr_remaining_stake = op_stake p,
                  sr_timestamp = timestamp env, sr_active_after = op_active p\<rparr>];
              st = st\<lparr>orc_slash_history := orc_write env (orc_slash_history st) provider history\<rparr>
          in Ok (oracle_publish (provider_slashed provider penalty (op_stake p) (op_active p)) st))))"

definition revoke_reported_project ::
    "env \<Rightarrow> u64 \<Rightarrow> oracle_consumer \<Rightarrow> registries \<Rightarrow> (OracleError, oracle_consumer \<times> registries) result" where
  "revoke_reported_project env project_id st R =
     (case orc_project_registry st of
        None \<Rightarrow> Ok (st, R)
      | Some registry_id \<Rightarrow>
          let registry_nonce = unwrap_or (orc_project_registry_nonce st) 0
          in and_then (contract_at R registry_id) (\<lambda>reg.
             and_then (call_or_panic (revoke_project (call_env env registry_id) (current_contract env) project_id
                         ''Project revoked due to rejected oracle report'' registry_nonce reg)) (\<lambda>reg.
             and_then (add_word env registry_nonce 1) (\<lambda>next.
             Ok (st\<lparr>orc_project_registry_nonce := Some next\<rparr>, R(registry_id \<mapsto> reg))))))"

definition finalize_challenge ::
    "env \<Rightarrow> u64 \<Rightarrow> ReportStatus \<Rightarrow> oracle_consumer \<Rightarrow> registries \<Rightarrow> (OracleError, oracle_consumer \<times> registries) result" where
  "finalize_challenge env report_id resolution st R =
     and_then (ok_or (pget (orc_challenges st) report_id) OracleError.ReportNotFound) (\<lambda>challenge.
     if ch_resolved challenge then Ok (st, R)
     else let challenge = challenge\<lparr>ch_resolved := True, ch_resolution := ReportStatus_code resolution\<rparr>;
              st = st\<lparr>orc_challenges := orc_write env (orc_challenges st) report_id challenge\<rparr>
     in and_then (ok_or (pget (orc_reports st) report_id) OracleError.ReportNotFound) (\<lambda>report.
        let report = report\<lparr>rp_status := resolution,
              rp_verified_at := (if resolution = Verified then timestamp env else rp_verified_at report)\<rparr>;
            st = st\<lparr>orc_reports := orc_write env (orc_reports st) report_id report\<rparr>
        in and_then (release_report_lock env (rp_provider report) report_id st) (\<lambda>st.
           and_then (if resolution = ReportStatus.Rejected
                     then and_then (slash_provider env (rp_provider report) report_id st) (\<lambda>st.
                          revoke_reported_project env (rp_project_id report) st R)
                     else Ok (st, R)) (\<lambda>(st, R).
           and_then (settle_challenge_bond env (ch_challenger challenge) (ch_bond challenge)
                       (resolution = ReportStatus.Rejected) st) (\<lambda>st.
           Ok (oracle_publish (challenge_resolved report_id (ReportStatus_code resolution)) st, R))))))"

section \<open>Entrypoints: providers and stake\<close>

definition oracle_constructor :: "address \<Rightarrow> oracle_consumer" where
  "oracle_constructor admin =
     \<lparr>orc_admin = Some admin, orc_report_count = None, orc_signature_threshold = Some 1,
      orc_challenge_window = Some CHALLENGE_WINDOW_SECONDS, orc_project_registry = None,
      orc_project_registry_nonce = None, orc_pending_admin = None, orc_providers = Map.empty,
      orc_provider_list = Map.empty, orc_reports = Map.empty, orc_project_reports = Map.empty,
      orc_challenges = Map.empty, orc_report_verifiers = Map.empty, orc_verification_counts = Map.empty,
      orc_nonces = Map.empty, orc_provider_report_counts = Map.empty, orc_provider_challenges = Map.empty,
      orc_slash_history = Map.empty, orc_locked_stake = Map.empty, orc_report_locks = Map.empty,
      orc_bond_balances = Map.empty, orc_bond_locks = Map.empty, orc_uphold_votes = Map.empty,
      orc_reject_votes = Map.empty, orc_report_periods = Map.empty, orc_events = []\<rparr>"

definition register_provider ::
    "env \<Rightarrow> address \<Rightarrow> address \<Rightarrow> symbol \<Rightarrow> u64 \<Rightarrow> oracle_consumer \<Rightarrow> (OracleError, oracle_consumer) result" where
  "register_provider env caller provider methodology nonce st =
     and_then (require_auth env caller) (\<lambda>_.
     and_then (oracle_consume_nonce env caller nonce st) (\<lambda>st.
     and_then (oracle_require_admin st caller) (\<lambda>_.
     if phas (orc_providers st) provider then Err OracleError.ProviderAlreadyExists
     else let p = \<lparr>op_address = provider, op_methodology = methodology, op_stake = 0, op_active = True,
                   op_registered_at = timestamp env\<rparr>;
              st = st\<lparr>orc_providers := orc_write env (orc_providers st) provider p\<rparr>;
              providers = unwrap_or (pget (orc_provider_list st) ()) [] @ [provider];
              st = st\<lparr>orc_provider_list := orc_write env (orc_provider_list st) () providers\<rparr>
     in Ok (oracle_publish (provider_registered provider) st))))"

definition remove_provider ::
    "env \<Rightarrow> address \<Rightarrow> address \<Rightarrow> u64 \<Rightarrow> oracle_consumer \<Rightarrow> (OracleError, oracle_consumer) result" where
  "remove_provider env caller provider nonce st =
     and_then (require_auth env caller) (\<lambda>_.
     and_then (oracle_consume_nonce env caller nonce st) (\<lambda>st.
     and_then (oracle_require_admin st caller) (\<lambda>_.
     and_then (ok_or (pget (orc_providers st) provider) OracleError.ProviderNotFound) (\<lambda>p.
     let st = st\<lparr>orc_providers := orc_write env (orc_providers st) provider (p\<lparr>op_active := False\<rparr>)\<rparr>;
         st = reconcile_signature_threshold st
     in Ok (oracle_publish (provider_removed provider) st)))))"

definition set_signature_threshold ::
    "env \<Rightarrow> address \<Rightarrow> u32 \<Rightarrow> u64 \<Rightarrow> oracle_consumer \<Rightarrow> (OracleError, oracle_consumer) result" where
  "set_signature_threshold env caller threshold nonce st =
     and_then (require_auth env caller) (\<lambda>_.
     and_then (oracle_consume_nonce env caller nonce st) (\<lambda>st.
     and_then (oracle_require_admin st caller) (\<lambda>_.
     let active = active_provider_count st
     in if threshold = 0 \<or> threshold > active then Err OracleError.InvalidThreshold
        else Ok (st\<lparr>orc_signature_threshold := Some threshold\<rparr>))))"

definition get_signature_threshold :: "oracle_consumer \<Rightarrow> u32" where
  "get_signature_threshold st = unwrap_or (orc_signature_threshold st) 1"

definition add_stake ::
    "env \<Rightarrow> address \<Rightarrow> int \<Rightarrow> u64 \<Rightarrow> oracle_consumer \<Rightarrow> (OracleError, oracle_consumer) result" where
  "add_stake env provider amount nonce st =
     and_then (require_auth env provider) (\<lambda>_.
     and_then (oracle_consume_nonce env provider nonce st) (\<lambda>st.
     if amount \<le> 0 then Err OracleError.InsufficientStake
     else and_then (ok_or (pget (orc_providers st) provider) OracleError.ProviderNotFound) (\<lambda>p.
     and_then (ok_or (checked_i128 (op_stake p + amount)) OracleError.InsufficientStake) (\<lambda>stake.
     Ok (oracle_publish (stake_added provider amount)
          (st\<lparr>orc_providers := orc_write env (orc_providers st) provider (p\<lparr>op_stake := stake\<rparr>)\<rparr>))))))"

definition withdraw_stake ::
    "env \<Rightarrow> address \<Rightarrow> int \<Rightarrow> u64 \<Rightarrow> oracle_consumer \<Rightarrow> (OracleError, oracle_consumer) result" where
  "withdraw_stake env provider amount nonce st =
     and_then (require_auth env provider) (\<lambda>_.
     and_then (oracle_consume_nonce env provider nonce st) (\<lambda>st.
     if amount \<le> 0 then Err OracleError.InsufficientStake
     else and_then (ok_or (pget (orc_providers st) provider) OracleError.ProviderNotFound) (\<lambda>p.
     if op_stake p < amount then Err OracleError.InsufficientStake
     else let locked = unwrap_or (pget (orc_locked_stake st) provider) 0
     in and_then (arith_i128 env (op_stake p - amount)) (\<lambda>left.
        if left < locked then Err OracleError.StakeLocked
        else Ok (oracle_publish (stake_withdrawn provider amount)
          (st\<lparr>orc_providers := orc_write env (orc_providers st) provider (p\<lparr>op_stake := left\<rparr>)\<rparr>))))))"

section \<open>Entrypoints: reports\<close>

definition overlaps :: "u64 \<Rightarrow> u64 \<Rightarrow> u64 \<times> u64 \<Rightarrow> bool" where
  "overlaps period_start period_end pair \<longleftrightarrow> period_start < snd pair \<and> fst pair < period_end"

fun negative_metric :: "BiodiversityMetrics \<Rightarrow> bool" where
  "negative_metric Absent = False"
| "negative_metric (Present (habitat, species, units)) \<longleftrightarrow> habitat < 0 \<or> species < 0 \<or> units < 0"

definition linked_project ::
    "env \<Rightarrow> address \<Rightarrow> u64 \<Rightarrow> registries \<Rightarrow> (OracleError, ProjectLinkage \<times> registries) result" where
  "linked_project env registry_id project_id R =
     try_invoke
       (and_then (contract_at R registry_id) (\<lambda>reg.
        and_then (get_project_linkage (call_env env registry_id) project_id reg) (\<lambda>(project, reg).
        Ok (project, R(registry_id \<mapsto> reg)))))
       (\<lambda>e. if e = RegistryError.ProjectNotFound then OracleError.ProjectNotFound
            else OracleError.ProjectRegistryCallFailed)
       OracleError.ProjectRegistryCallFailed"

text \<open>The oldest window is evicted when the history is full, then the new one is appended.\<close>

definition push_period :: "(u64 \<times> u64) list \<Rightarrow> u64 \<times> u64 \<Rightarrow> (u64 \<times> u64) list" where
  "push_period periods window =
     (if vec_len periods \<ge> MAX_PERIOD_HISTORY then tl periods else periods) @ [window]"

definition submit_report ::
    "env \<Rightarrow> address \<Rightarrow> u64 \<Rightarrow> u64 \<Rightarrow> u64 \<Rightarrow> int \<Rightarrow> BiodiversityMetrics \<Rightarrow> symbol \<Rightarrow> bytes32 \<Rightarrow> u64 \<Rightarrow>
     oracle_consumer \<Rightarrow> registries \<Rightarrow> (OracleError, u64 \<times> oracle_consumer \<times> registries) result" where
  "submit_report env provider project_id period_start period_end carbon_sequestered biodiversity methodology
       ipfs_evidence_hash nonce st R =
     and_then (require_auth env provider) (\<lambda>_.
     and_then (oracle_consume_nonce env provider nonce st) (\<lambda>st.
     and_then (ok_or (pget (orc_providers st) provider) OracleError.ProviderNotFound) (\<lambda>p.
     let st = st\<lparr>orc_providers := orc_bump env (orc_providers st) provider\<rparr>
     in if \<not> op_active p then Err OracleError.Unauthorized
     else if period_end \<le> period_start \<or> carbon_sequestered < 0 then Err OracleError.InvalidSignature
     else if negative_metric biodiversity then Err OracleError.InvalidSignature
     else and_then (ok_or (orc_project_registry st) OracleError.ProjectRegistryNotConfigured) (\<lambda>registry_id.
     and_then (linked_project env registry_id project_id R) (\<lambda>(project, R).
     if pl_status project \<noteq> ProjectStatus.Approved then Err OracleError.ProjectNotApproved
     else let claimed = unwrap_or (pget (orc_report_periods st) project_id) []
     in if list_ex (overlaps period_start period_end) claimed then Err OracleError.OverlappingReportPeriod
     else if claimed \<noteq> [] \<and> period_start < snd (last claimed) then Err OracleError.BackdatedReportPeriod
     else and_then (add_word env (unwrap_or (orc_report_count st) 0) 1) (\<lambda>report_id.
     let st = st\<lparr>orc_report_count := Some report_id\<rparr>;
         report = \<lparr>rp_id = report_id, rp_provider = provider, rp_project_id = project_id,
           rp_project_metadata_hash = pl_metadata_ipfs_hash project, rp_period_start = period_start,
           rp_period_end = period_end, rp_carbon_sequestered = carbon_sequestered,
           rp_biodiversity = biodiversity, rp_methodology = methodology,
           rp_ipfs_evidence_hash = ipfs_evidence_hash, rp_status = ReportStatus.Pending,
           rp_submitted_at = timestamp env, rp_verified_at = 0\<rparr>;
         st = st\<lparr>orc_reports := orc_write env (orc_reports st) report_id report\<rparr>
     in and_then (lock_stake_for_report env provider report_id (op_stake p) st) (\<lambda>st.
     let project_reports = unwrap_or (pget (orc_project_reports st) project_id) [] @ [report_id];
         st = st\<lparr>orc_project_reports := orc_write env (orc_project_reports st) project_id project_reports\<rparr>;
         periods = push_period (unwrap_or (pget (orc_report_periods st) project_id) []) (period_start, period_end);
         st = st\<lparr>orc_report_periods := orc_write env (orc_report_periods st) project_id periods\<rparr>
     in and_then (add_word env (unwrap_or (pget (orc_provider_report_counts st) provider) 0) 1) (\<lambda>report_count.
     let st = st\<lparr>orc_provider_report_counts :=
                   orc_write env (orc_provider_report_counts st) provider report_count\<rparr>
     in Ok (report_id, oracle_publish (report_submitted report_id provider project_id) st, R)))))))))"

definition add_verifier :: "env \<Rightarrow> u64 \<Rightarrow> address \<Rightarrow> oracle_consumer \<Rightarrow> address list \<times> oracle_consumer" where
  "add_verifier env report_id caller st =
     (let verifiers = unwrap_or (pget (orc_report_verifiers st) report_id) []
      in if caller \<in> set verifiers then (verifiers, st)
         else let verifiers = verifiers @ [caller]
         in (verifiers,
             st\<lparr>orc_report_verifiers := orc_write env (orc_report_verifiers st) report_id verifiers,
                orc_verification_counts :=
                  orc_write env (orc_verification_counts st) report_id (vec_len verifiers)\<rparr>))"

definition verify_report ::
    "env \<Rightarrow> address \<Rightarrow> u64 \<Rightarrow> u64 \<Rightarrow> oracle_consumer \<Rightarrow> (OracleError, oracle_consumer) result" where
  "verify_report env caller report_id nonce st =
     and_then (require_auth env caller) (\<lambda>_.
     and_then (ok_or (pget (orc_providers st) caller) OracleError.Unauthorized) (\<lambda>p.
     let st = st\<lparr>orc_providers := orc_bump env (orc_providers st) caller\<rparr>
     in if \<not> op_active p then Err OracleError.Unauthorized
     else and_then (oracle_consume_nonce env caller nonce st) (\<lambda>st.
     and_then (ok_or (pget (orc_reports st) report_id) OracleError.ReportNotFound) (\<lambda>report.
     if rp_status report \<noteq> ReportStatus.Pending then Err OracleError.ReportAlreadyVerified
     else if (case pget (orc_challenges st) report_id of Some c \<Rightarrow> \<not> ch_resolved c | None \<Rightarrow> False)
     then Err OracleError.ReportAlreadyVerified
     else if caller = rp_provider report then Err OracleError.InvalidSignature
     else let (verifiers, st) = add_verifier env report_id caller st;
              threshold = unwrap_or (orc_signature_threshold st) 1
     in if vec_len verifiers \<ge> threshold
        then let report = report\<lparr>rp_status := Verified, rp_verified_at := timestamp env\<rparr>;
                 st = st\<lparr>orc_reports := orc_write env (orc_reports st) report_id report\<rparr>
             in and_then (release_report_lock env (rp_provider report) report_id st) (\<lambda>st.
                Ok (oracle_publish (report_verified report_id) st))
        else Ok st))))"

definition admin_override_report ::
    "env \<Rightarrow> address \<Rightarrow> u64 \<Rightarrow> ReportStatus \<Rightarrow> u64 \<Rightarrow> oracle_consumer \<Rightarrow> (OracleError, oracle_consumer) result"
  where
  "admin_override_report env caller report_id status nonce st =
     and_then (require_auth env caller) (\<lambda>_.
     and_then (oracle_consume_nonce env caller nonce st) (\<lambda>st.
     and_then (oracle_require_admin st caller) (\<lambda>_.
     if status \<noteq> Verified \<and> status \<noteq> ReportStatus.Rejected then Err OracleError.InvalidResolution
     else and_then (ok_or (pget (orc_reports st) report_id) OracleError.ReportNotFound) (\<lambda>report.
     if rp_status report \<noteq> ReportStatus.Pending then Err OracleError.ReportAlreadyVerified
     else let report = report\<lparr>rp_status := status, rp_verified_at := timestamp env\<rparr>;
              st = st\<lparr>orc_reports := orc_write env (orc_reports st) report_id report\<rparr>
     in Ok (oracle_publish (report_admin_override report_id (ReportStatus_code status)) st)))))"

section \<open>Entrypoints: challenges\<close>

definition challenge_report ::
    "env \<Rightarrow> address \<Rightarrow> u64 \<Rightarrow> bytes32 \<Rightarrow> u64 \<Rightarrow> oracle_consumer \<Rightarrow> (OracleError, oracle_consumer) result" where
  "challenge_report env challenger report_id counter_evidence_hash nonce st =
     and_then (require_auth env challenger) (\<lambda>_.
     and_then (oracle_consume_nonce env challenger nonce st) (\<lambda>st.
     if phas (orc_challenges st) report_id then Err OracleError.ChallengeAlreadyExists
     else and_then (ok_or (pget (orc_reports st) report_id) OracleError.ReportNotFound) (\<lambda>report.
     let st = st\<lparr>orc_reports := orc_bump env (orc_reports st) report_id\<rparr>
     in if rp_status report \<noteq> ReportStatus.Pending then Err OracleError.ReportAlreadyVerified
     else if challenger = rp_provider report then Err OracleError.SelfChallenge
     else let now = timestamp env;
              window = unwrap_or (orc_challenge_window st) CHALLENGE_WINDOW_SECONDS
     in if saturating_sub_u64 now (rp_submitted_at report) > window then Err OracleError.ChallengeWindowExpired
     else and_then (charge_challenge_bond env challenger st) (\<lambda>(bond, st).
     let challenge = \<lparr>ch_report_id = report_id, ch_challenger = challenger,
                      ch_counter_evidence_hash = counter_evidence_hash, ch_submitted_at = now,
                      ch_resolved = False, ch_resolution = 0, ch_bond = bond\<rparr>;
         st = st\<lparr>orc_challenges := orc_write env (orc_challenges st) report_id challenge\<rparr>
     in case pget (orc_reports st) report_id of
          None \<Rightarrow> Trap
        | Some report_mut \<Rightarrow>
            let st = st\<lparr>orc_reports := orc_write env (orc_reports st) report_id
                         (report_mut\<lparr>rp_status := Challenged\<rparr>)\<rparr>;
                provider_challenges =
                  unwrap_or (pget (orc_provider_challenges st) (rp_provider report)) [] @ [report_id];
                st = st\<lparr>orc_provider_challenges :=
                          orc_write env (orc_provider_challenges st) (rp_provider report) provider_challenges\<rparr>
            in Ok (oracle_publish (report_challenged report_id challenger) st)))))"

definition resolve_challenge ::
    "env \<Rightarrow> address \<Rightarrow> u64 \<Rightarrow> ReportStatus \<Rightarrow> u64 \<Rightarrow> oracle_consumer \<Rightarrow> registries \<Rightarrow>
     (OracleError, oracle_consumer \<times> registries) result" where
  "resolve_challenge env caller report_id resolution nonce st R =
     and_then (require_auth env caller) (\<lambda>_.
     and_then (oracle_consume_nonce env caller nonce st) (\<lambda>st.
     and_then (oracle_require_admin st caller) (\<lambda>_.
     if resolution \<noteq> Verified \<and> resolution \<noteq> ReportStatus.Rejected then Err OracleError.InvalidResolution
     else finalize_challenge env report_id resolution st R)))"

definition resolve_challenge_by_verifier ::
    "env \<Rightarrow> address \<Rightarrow> u64 \<Rightarrow> bool \<Rightarrow> u64 \<Rightarrow> oracle_consumer \<Rightarrow> registries \<Rightarrow>
     (OracleError, oracle_consumer \<times> registries) result" where
  "resolve_challenge_by_verifier env caller report_id uphold nonce st R =
     and_then (require_auth env caller) (\<lambda>_.
     and_then (oracle_consume_nonce env caller nonce st) (\<lambda>st.
     and_then (ok_or (pget (orc_providers st) caller) OracleError.Unauthorized) (\<lambda>p.
     let st = st\<lparr>orc_providers := orc_bump env (orc_providers st) caller\<rparr>
     in if \<not> op_active p then Err OracleError.Unauthorized
     else and_then (ok_or (pget (orc_challenges st) report_id) OracleError.ReportNotFound) (\<lambda>challenge.
     if ch_resolved challenge then Err OracleError.InvalidResolution
     else and_then (ok_or (pget (orc_reports st) report_id) OracleError.ReportNotFound) (\<lambda>report.
     if rp_status report \<noteq> Challenged then Err OracleError.ReportAlreadyVerified
     else if caller = rp_provider report then Err OracleError.InvalidSignature
     else let uphold_votes = unwrap_or (pget (orc_uphold_votes st) report_id) [];
              reject_votes = unwrap_or (pget (orc_reject_votes st) report_id) []
     in if caller \<in> set uphold_votes then Err OracleError.AlreadyVoted
     else if caller \<in> set reject_votes then Err OracleError.AlreadyVoted
     else let (votes, st) =
            (if uphold
             then (uphold_votes @ [caller],
                   st\<lparr>orc_uphold_votes := orc_write env (orc_uphold_votes st) report_id (uphold_votes @ [caller])\<rparr>)
             else (reject_votes @ [caller],
                   st\<lparr>orc_reject_votes := orc_write env (orc_reject_votes st) report_id (reject_votes @ [caller])\<rparr>));
          st = oracle_publish (challenge_vote report_id caller uphold) st;
          threshold = supermajority_threshold (active_provider_count st)
     in if vec_len votes \<ge> threshold
        then finalize_challenge env report_id (if uphold then Verified else ReportStatus.Rejected) st R
        else Ok (st, R))))))"

definition expire_stale_challenge ::
    "env \<Rightarrow> u64 \<Rightarrow> oracle_consumer \<Rightarrow> (OracleError, oracle_consumer) result" where
  "expire_stale_challenge env report_id st =
     and_then (ok_or (pget (orc_challenges st) report_id) OracleError.ReportNotFound) (\<lambda>challenge.
     if ch_resolved challenge then Ok st
     else let now = timestamp env
     in if saturating_sub_u64 now (ch_submitted_at challenge) \<le> CHALLENGE_TIMEOUT_SECONDS
     then Err OracleError.ChallengeNotStale
     else and_then (ok_or (pget (orc_reports st) report_id) OracleError.ReportNotFound) (\<lambda>report.
     if rp_status report \<noteq> Challenged then Err OracleError.InvalidResolution
     else let challenge = challenge\<lparr>ch_resolved := True\<rparr>;
              st = st\<lparr>orc_challenges := orc_write env (orc_challenges st) report_id challenge\<rparr>;
              st = st\<lparr>orc_reports := orc_write env (orc_reports st) report_id
                       (report\<lparr>rp_status := ReportStatus.Pending\<rparr>)\<rparr>
     in and_then (settle_challenge_bond env (ch_challenger challenge) (ch_bond challenge) True st) (\<lambda>st.
        Ok (oracle_publish (challenge_expired report_id) st))))"

definition deposit_challenge_bond ::
    "env \<Rightarrow> address \<Rightarrow> int \<Rightarrow> u64 \<Rightarrow> oracle_consumer \<Rightarrow> (OracleError, oracle_consumer) result" where
  "deposit_challenge_bond env caller amount nonce st =
     and_then (require_auth env caller) (\<lambda>_.
     and_then (oracle_consume_nonce env caller nonce st) (\<lambda>st.
     if amount \<le> 0 then Err OracleError.InsufficientChallengeBond
     else let balance = unwrap_or (pget (orc_bond_balances st) caller) 0
     in and_then (ok_or (checked_i128 (balance + amount)) OracleError.InsufficientStake) (\<lambda>new_balance.
        Ok (oracle_publish (challenge_bond_deposited caller amount)
          (st\<lparr>orc_bond_balances := orc_write env (orc_bond_balances st) caller new_balance\<rparr>)))))"

definition withdraw_challenge_bond ::
    "env \<Rightarrow> address \<Rightarrow> int \<Rightarrow> u64 \<Rightarrow> oracle_consumer \<Rightarrow> (OracleError, oracle_consumer) result" where
  "withdraw_challenge_bond env caller amount nonce st =
     and_then (require_auth env caller) (\<lambda>_.
     and_then (oracle_consume_nonce env caller nonce st) (\<lambda>st.
     if amount \<le> 0 then Err OracleError.InsufficientChallengeBond
     else let balance = unwrap_or (pget (orc_bond_balances st) caller) 0
     in if balance < amount then Err OracleError.InsufficientChallengeBond
     else and_then (arith_i128 env (balance - amount)) (\<lambda>new_balance.
        Ok (oracle_publish (challenge_bond_withdrawn caller amount)
          (st\<lparr>orc_bond_balances := orc_write env (orc_bond_balances st) caller new_balance\<rparr>)))))"

section \<open>Entrypoints: administration\<close>

definition set_project_registry ::
    "env \<Rightarrow> address \<Rightarrow> address \<Rightarrow> u64 \<Rightarrow> oracle_consumer \<Rightarrow> (OracleError, oracle_consumer) result" where
  "set_project_registry env caller registry_id nonce st =
     and_then (require_auth env caller) (\<lambda>_.
     and_then (oracle_consume_nonce env caller nonce st) (\<lambda>st.
     and_then (oracle_require_admin st caller) (\<lambda>_.
     Ok (oracle_publish (registry_set caller registry_id)
          (st\<lparr>orc_project_registry := Some registry_id, orc_project_registry_nonce := Some 0\<rparr>)))))"

definition oracle_propose_admin_transfer ::
    "env \<Rightarrow> address \<Rightarrow> address \<Rightarrow> u64 \<Rightarrow> oracle_consumer \<Rightarrow> (OracleError, oracle_consumer) result" where
  "oracle_propose_admin_transfer env caller candidate nonce st =
     and_then (require_auth env caller) (\<lambda>_.
     and_then (oracle_consume_nonce env caller nonce st) (\<lambda>st.
     and_then (oracle_require_admin st caller) (\<lambda>_.
     and_then (add_word env (timestamp env) ADMIN_TRANSFER_TIMELOCK_SECONDS) (\<lambda>executable_at.
     Ok (oracle_publish (oracle_admin_transfer_proposed caller candidate executable_at)
          (st\<lparr>orc_pending_admin := Some \<lparr>pa_candidate = candidate, pa_executable_at = executable_at\<rparr>\<rparr>))))))"

definition oracle_cancel_admin_transfer ::
    "env \<Rightarrow> address \<Rightarrow> u64 \<Rightarrow> oracle_consumer \<Rightarrow> (OracleError, oracle_consumer) result" where
  "oracle_cancel_admin_transfer env caller nonce st =
     and_then (require_auth env caller) (\<lambda>_.
     and_then (oracle_consume_nonce env caller nonce st) (\<lambda>st.
     and_then (oracle_require_admin st caller) (\<lambda>_.
     if orc_pending_admin st = None then Err OracleError.NoPendingAdminChange
     else Ok (oracle_publish (oracle_admin_transfer_cancelled caller) (st\<lparr>orc_pending_admin := None\<rparr>)))))"

definition oracle_accept_admin_transfer ::
    "env \<Rightarrow> address \<Rightarrow> u64 \<Rightarrow> oracle_consumer \<Rightarrow> (OracleError, oracle_consumer) result" where
  "oracle_accept_admin_transfer env caller nonce st =
     and_then (require_auth env caller) (\<lambda>_.
     and_then (oracle_consume_nonce env caller nonce st) (\<lambda>st.
     and_then (ok_or (orc_pending_admin st) OracleError.NoPendingAdminChange) (\<lambda>pending.
     if caller \<noteq> pa_candidate pending then Err OracleError.Unauthorized
     else if timestamp env < pa_executable_at pending then Err OracleError.TimelockNotElapsed
     else and_then (ok_or (orc_admin st) OracleError.NotInitialized) (\<lambda>old_admin.
     Ok (oracle_publish (oracle_admin_changed old_admin caller)
          (st\<lparr>orc_admin := Some caller, orc_pending_admin := None\<rparr>))))))"

definition oracle_get_admin :: "oracle_consumer \<Rightarrow> address option" where
  "oracle_get_admin st = orc_admin st"

definition oracle_get_pending_admin :: "oracle_consumer \<Rightarrow> PendingAdminChange option" where
  "oracle_get_pending_admin st = orc_pending_admin st"

section \<open>Getters\<close>

definition get_provider :: "env \<Rightarrow> address \<Rightarrow> oracle_consumer \<Rightarrow> (OracleError, OracleProvider \<times> oracle_consumer) result"
  where
  "get_provider env provider st =
     and_then (ok_or (pget (orc_providers st) provider) OracleError.ProviderNotFound) (\<lambda>p.
     Ok (p, st\<lparr>orc_providers := orc_bump env (orc_providers st) provider\<rparr>))"

definition get_report :: "env \<Rightarrow> u64 \<Rightarrow> oracle_consumer \<Rightarrow> (OracleError, Report \<times> oracle_consumer) result" where
  "get_report env report_id st =
     and_then (ok_or (pget (orc_reports st) report_id) OracleError.ReportNotFound) (\<lambda>report.
     Ok (report, st\<lparr>orc_reports := orc_bump env (orc_reports st) report_id\<rparr>))"

definition list_providers :: "env \<Rightarrow> oracle_consumer \<Rightarrow> address list \<times> oracle_consumer" where
  "list_providers env st =
     (unwrap_or (pget (orc_provider_list st) ()) [],
      st\<lparr>orc_provider_list := orc_touch env (orc_provider_list st) ()\<rparr>)"

definition get_project_reports :: "env \<Rightarrow> u64 \<Rightarrow> oracle_consumer \<Rightarrow> u64 list \<times> oracle_consumer" where
  "get_project_reports env project_id st =
     (unwrap_or (pget (orc_project_reports st) project_id) [],
      st\<lparr>orc_project_reports := orc_touch env (orc_project_reports st) project_id\<rparr>)"

definition get_challenge :: "env \<Rightarrow> u64 \<Rightarrow> oracle_consumer \<Rightarrow> (OracleError, Challenge \<times> oracle_consumer) result" where
  "get_challenge env report_id st =
     and_then (ok_or (pget (orc_challenges st) report_id) OracleError.ReportNotFound) (\<lambda>challenge.
     Ok (challenge, st\<lparr>orc_challenges := orc_bump env (orc_challenges st) report_id\<rparr>))"

definition get_verification_count :: "env \<Rightarrow> u64 \<Rightarrow> oracle_consumer \<Rightarrow> u32 \<times> oracle_consumer" where
  "get_verification_count env report_id st =
     (unwrap_or (pget (orc_verification_counts st) report_id) 0,
      st\<lparr>orc_verification_counts := orc_touch env (orc_verification_counts st) report_id\<rparr>)"

definition get_report_verifiers :: "env \<Rightarrow> u64 \<Rightarrow> oracle_consumer \<Rightarrow> address list \<times> oracle_consumer" where
  "get_report_verifiers env report_id st =
     (unwrap_or (pget (orc_report_verifiers st) report_id) [],
      st\<lparr>orc_report_verifiers := orc_touch env (orc_report_verifiers st) report_id\<rparr>)"

fun sum_penalties :: "env \<Rightarrow> SlashRecord list \<Rightarrow> int \<Rightarrow> (OracleError, int) result" where
  "sum_penalties env [] total_penalty = Ok total_penalty"
| "sum_penalties env (r # rs) total_penalty =
     and_then (arith_i128 env (total_penalty + sr_penalty r)) (\<lambda>t. sum_penalties env rs t)"

definition get_provider_stats ::
    "env \<Rightarrow> address \<Rightarrow> oracle_consumer \<Rightarrow> (OracleError, ProviderStats \<times> oracle_consumer) result" where
  "get_provider_stats env provider st =
     and_then (ok_or (pget (orc_providers st) provider) OracleError.ProviderNotFound) (\<lambda>p.
     let st = st\<lparr>orc_providers := orc_bump env (orc_providers st) provider\<rparr>;
         reports_submitted = unwrap_or (pget (orc_provider_report_counts st) provider) 0;
         st = st\<lparr>orc_provider_report_counts := orc_touch env (orc_provider_report_counts st) provider\<rparr>;
         challenges = unwrap_or (pget (orc_provider_challenges st) provider) [];
         st = st\<lparr>orc_provider_challenges := orc_touch env (orc_provider_challenges st) provider\<rparr>;
         history = unwrap_or (pget (orc_slash_history st) provider) [];
         st = st\<lparr>orc_slash_history := orc_touch env (orc_slash_history st) provider\<rparr>
     in and_then (sum_penalties env history 0) (\<lambda>total_penalty.
        Ok (\<lparr>pst_reports_submitted = reports_submitted,
             pst_challenges_faced = ucast (vec_len challenges), pst_slashes = ucast (vec_len history),
             pst_total_penalty = total_penalty, pst_stake = op_stake p, pst_active = op_active p\<rparr>, st)))"

definition get_locked_stake :: "env \<Rightarrow> address \<Rightarrow> oracle_consumer \<Rightarrow> int \<times> oracle_consumer" where
  "get_locked_stake env provider st =
     (unwrap_or (pget (orc_locked_stake st) provider) 0,
      st\<lparr>orc_locked_stake := orc_touch env (orc_locked_stake st) provider\<rparr>)"

definition get_slash_history :: "env \<Rightarrow> address \<Rightarrow> oracle_consumer \<Rightarrow> SlashRecord list \<times> oracle_consumer" where
  "get_slash_history env provider st =
     (unwrap_or (pget (orc_slash_history st) provider) [],
      st\<lparr>orc_slash_history := orc_touch env (orc_slash_history st) provider\<rparr>)"

fun collect_challenges ::
    "env \<Rightarrow> u64 list \<Rightarrow> Challenge list \<Rightarrow> oracle_consumer \<Rightarrow> Challenge list \<times> oracle_consumer" where
  "collect_challenges env [] acc st = (acc, st)"
| "collect_challenges env (i # is) acc st =
     (case pget (orc_challenges st) i of
        Some challenge \<Rightarrow> collect_challenges env is (acc @ [challenge])
          (st\<lparr>orc_challenges := orc_bump env (orc_challenges st) i\<rparr>)
      | None \<Rightarrow> collect_challenges env is acc st)"

definition get_challenge_history :: "env \<Rightarrow> address \<Rightarrow> oracle_consumer \<Rightarrow> Challenge list \<times> oracle_consumer" where
  "get_challenge_history env provider st =
     (let ids = unwrap_or (pget (orc_provider_challenges st) provider) [];
          st = st\<lparr>orc_provider_challenges := orc_touch env (orc_provider_challenges st) provider\<rparr>
      in collect_challenges env ids [] st)"

definition get_challenge_bond_balance :: "env \<Rightarrow> address \<Rightarrow> oracle_consumer \<Rightarrow> int \<times> oracle_consumer" where
  "get_challenge_bond_balance env challenger st =
     (unwrap_or (pget (orc_bond_balances st) challenger) 0,
      st\<lparr>orc_bond_balances := orc_touch env (orc_bond_balances st) challenger\<rparr>)"

definition get_locked_challenge_bond :: "env \<Rightarrow> address \<Rightarrow> oracle_consumer \<Rightarrow> int \<times> oracle_consumer" where
  "get_locked_challenge_bond env challenger st =
     (unwrap_or (pget (orc_bond_locks st) challenger) 0,
      st\<lparr>orc_bond_locks := orc_touch env (orc_bond_locks st) challenger\<rparr>)"

definition get_challenge_votes ::
    "env \<Rightarrow> u64 \<Rightarrow> oracle_consumer \<Rightarrow> (address list \<times> address list) \<times> oracle_consumer" where
  "get_challenge_votes env report_id st =
     ((unwrap_or (pget (orc_uphold_votes st) report_id) [], unwrap_or (pget (orc_reject_votes st) report_id) []),
      st\<lparr>orc_uphold_votes := orc_touch env (orc_uphold_votes st) report_id,
         orc_reject_votes := orc_touch env (orc_reject_votes st) report_id\<rparr>)"

section \<open>Steps\<close>

text \<open>
  A successful call of the oracle consumer together with the registries it can reach, made in an
  environment that satisfies \<open>E\<close>, or a call somebody else makes to a registry in between. \<open>E\<close> is
  \<open>\<lambda>_. True\<close> unless what is stated depends on the build profile.
\<close>

inductive oracle_step ::
    "(env \<Rightarrow> bool) \<Rightarrow> oracle_consumer \<times> registries \<Rightarrow> timed_label \<Rightarrow> oracle_consumer \<times> registries \<Rightarrow> bool"
  for E :: "env \<Rightarrow> bool" where
  step_register_provider: "E env \<Longrightarrow> register_provider env caller provider methodology nonce st = Ok st' \<Longrightarrow>
     oracle_step E (st, R) (timestamp env, Some (caller, nonce)) (st', R)"
| step_remove_provider: "E env \<Longrightarrow> remove_provider env caller provider nonce st = Ok st' \<Longrightarrow>
     oracle_step E (st, R) (timestamp env, Some (caller, nonce)) (st', R)"
| step_set_signature_threshold: "E env \<Longrightarrow> set_signature_threshold env caller threshold nonce st = Ok st' \<Longrightarrow>
     oracle_step E (st, R) (timestamp env, Some (caller, nonce)) (st', R)"
| step_add_stake: "E env \<Longrightarrow> add_stake env provider amount nonce st = Ok st' \<Longrightarrow>
     oracle_step E (st, R) (timestamp env, Some (provider, nonce)) (st', R)"
| step_withdraw_stake: "E env \<Longrightarrow> withdraw_stake env provider amount nonce st = Ok st' \<Longrightarrow>
     oracle_step E (st, R) (timestamp env, Some (provider, nonce)) (st', R)"
| step_submit_report: "E env \<Longrightarrow>
     submit_report env provider project_id period_start period_end carbon bio methodology evidence nonce st R =
       Ok (report_id, st', R') \<Longrightarrow>
     oracle_step E (st, R) (timestamp env, Some (provider, nonce)) (st', R')"
| step_verify_report: "E env \<Longrightarrow> verify_report env caller report_id nonce st = Ok st' \<Longrightarrow>
     oracle_step E (st, R) (timestamp env, Some (caller, nonce)) (st', R)"
| step_admin_override: "E env \<Longrightarrow> admin_override_report env caller report_id status nonce st = Ok st' \<Longrightarrow>
     oracle_step E (st, R) (timestamp env, Some (caller, nonce)) (st', R)"
| step_challenge_report: "E env \<Longrightarrow> challenge_report env challenger report_id evidence nonce st = Ok st' \<Longrightarrow>
     oracle_step E (st, R) (timestamp env, Some (challenger, nonce)) (st', R)"
| step_resolve_challenge: "E env \<Longrightarrow>
     resolve_challenge env caller report_id resolution nonce st R = Ok (st', R') \<Longrightarrow>
     oracle_step E (st, R) (timestamp env, Some (caller, nonce)) (st', R')"
| step_resolve_by_verifier: "E env \<Longrightarrow>
     resolve_challenge_by_verifier env caller report_id uphold nonce st R = Ok (st', R') \<Longrightarrow>
     oracle_step E (st, R) (timestamp env, Some (caller, nonce)) (st', R')"
| step_expire: "E env \<Longrightarrow> expire_stale_challenge env report_id st = Ok st' \<Longrightarrow>
     oracle_step E (st, R) (timestamp env, None) (st', R)"
| step_deposit_bond: "E env \<Longrightarrow> deposit_challenge_bond env caller amount nonce st = Ok st' \<Longrightarrow>
     oracle_step E (st, R) (timestamp env, Some (caller, nonce)) (st', R)"
| step_withdraw_bond: "E env \<Longrightarrow> withdraw_challenge_bond env caller amount nonce st = Ok st' \<Longrightarrow>
     oracle_step E (st, R) (timestamp env, Some (caller, nonce)) (st', R)"
| step_set_project_registry: "E env \<Longrightarrow> set_project_registry env caller registry_id nonce st = Ok st' \<Longrightarrow>
     oracle_step E (st, R) (timestamp env, Some (caller, nonce)) (st', R)"
| step_oracle_propose: "E env \<Longrightarrow> oracle_propose_admin_transfer env caller candidate nonce st = Ok st' \<Longrightarrow>
     oracle_step E (st, R) (timestamp env, Some (caller, nonce)) (st', R)"
| step_oracle_cancel: "E env \<Longrightarrow> oracle_cancel_admin_transfer env caller nonce st = Ok st' \<Longrightarrow>
     oracle_step E (st, R) (timestamp env, Some (caller, nonce)) (st', R)"
| step_oracle_accept: "E env \<Longrightarrow> oracle_accept_admin_transfer env caller nonce st = Ok st' \<Longrightarrow>
     oracle_step E (st, R) (timestamp env, Some (caller, nonce)) (st', R)"
| step_get_provider: "get_provider env a st = Ok (p, st') \<Longrightarrow> oracle_step E (st, R) (timestamp env, None) (st', R)"
| step_get_report: "get_report env i st = Ok (r, st') \<Longrightarrow> oracle_step E (st, R) (timestamp env, None) (st', R)"
| step_get_challenge: "get_challenge env i st = Ok (c, st') \<Longrightarrow> oracle_step E (st, R) (timestamp env, None) (st', R)"
| step_get_provider_stats: "get_provider_stats env a st = Ok (p, st') \<Longrightarrow>
     oracle_step E (st, R) (timestamp env, None) (st', R)"
| step_oracle_read: "(st' = snd (list_providers env st) \<or> st' = snd (get_project_reports env i st) \<or>
     st' = snd (get_verification_count env i st) \<or> st' = snd (get_report_verifiers env i st) \<or>
     st' = snd (get_locked_stake env a st) \<or> st' = snd (get_slash_history env a st) \<or>
     st' = snd (get_challenge_history env a st) \<or> st' = snd (get_challenge_bond_balance env a st) \<or>
     st' = snd (get_locked_challenge_bond env a st) \<or> st' = snd (get_challenge_votes env i st)) \<Longrightarrow>
     oracle_step E (st, R) (timestamp env, None) (st', R)"
| step_registry_call: "R a = Some reg \<Longrightarrow> registry_step reg (now, l) reg' \<Longrightarrow>
     oracle_step E (st, R) (now, None) (st, R(a \<mapsto> reg'))"

end
