(* ===== verification/Coupon.thy ===== *)
theory Coupon
  imports Oracle Issuer
begin

text \<open>
  The coupon engine, \<^verbatim>\<open>contracts/coupon-engine/src/lib.rs\<close>: it turns a verified oracle report into
  credits, distributes them over the holders of a bond in proportion to their balances, in one batch
  or in several, keeps the credits each holder has accrued, and lets holders claim them and the
  retirement contract deduct them. It reads the bond issuer, the oracle consumer and the project
  registry, which are found among its \<open>peers\<close>. The lemmas show that no more is distributed than a
  report earned, that nobody is paid twice for a period, that the books of credits balance against the
  published events, and that a claim pays out exactly what was accrued.
\<close>

section \<open>State\<close>

definition FIXED_POINT :: int where
  "FIXED_POINT = 10000000"

definition CREDIT_DIVISOR :: int where
  "CREDIT_DIVISOR = 1000"

definition HABITAT_CREDIT_RATE :: int where
  "HABITAT_CREDIT_RATE = 1000000"

definition SPECIES_CREDIT_RATE :: int where
  "SPECIES_CREDIT_RATE = 100000"

definition UNIT_CREDIT_RATE :: int where
  "UNIT_CREDIT_RATE = 1000000"

definition COUPON_TTL_THRESHOLD :: u32 where
  "COUPON_TTL_THRESHOLD = 17280 * 30"

definition COUPON_TTL_EXTEND_TO :: u32 where
  "COUPON_TTL_EXTEND_TO = 17280 * 120"

record PeriodInfo =
  pi_period_index :: u32
  pi_start_time :: u64
  pi_end_time :: u64
  pi_total_credits_earned :: int
  pi_distributed :: bool
  pi_report_id :: u64
  pi_undistributed :: int

record BatchState =
  ba_report_id :: u64
  ba_distributed_so_far :: int
  ba_carbon_distributed_so_far :: int
  ba_bio_distributed_so_far :: int
  ba_holder_count_so_far :: u32
  ba_total_credits :: int
  ba_carbon_total :: int
  ba_biodiversity_total :: int
  ba_credits_per_token :: int
  ba_carbon_per_token :: int
  ba_biodiversity_per_token :: int

record CouponResult =
  cr_bond_id :: u64
  cr_period_index :: u32
  cr_total_credits :: int
  cr_holder_count :: u32
  cr_credits_per_token :: int

record SweepReceipt =
  sw_bond_id :: u64
  sw_destination :: address
  sw_amount :: int
  sw_carbon_amount :: int
  sw_biodiversity_amount :: int

datatype CouponEvent =
  bond_registered u64 bytes32
| coupon_distributed u64 u32 int u32
| credits_claimed u64 address int
| credits_claimed_by_type u64 address int int
| undistributed_swept u64 address int int int
| credits_deducted u64 address int CreditType

text \<open>
  The keys \<^verbatim>\<open>BondProject\<close> and \<^verbatim>\<open>BondCreditType\<close> live in instance storage, one entry per bond; the
  others with an argument in persistent storage.
\<close>

record coupon_engine =
  cpn_admin :: "address option"
  cpn_bond_issuer :: "address option"
  cpn_oracle_consumer :: "address option"
  cpn_project_registry :: "address option"
  cpn_precision :: "int option"
  cpn_deduct_caller :: "address option"
  cpn_bond_project :: "u64 \<rightharpoonup> bytes32"
  cpn_bond_credit_type :: "u64 \<rightharpoonup> CreditType"
  cpn_period_info :: "(u64 \<times> u32, PeriodInfo) pstore"
  cpn_period_count :: "(u64, u32) pstore"
  cpn_accrued :: "(u64 \<times> address, int) pstore"
  cpn_accrued_by_type :: "(u64 \<times> address \<times> CreditType, int) pstore"
  cpn_undistributed_total :: "(u64, int) pstore"
  cpn_undistributed_by_type :: "(u64 \<times> CreditType, int) pstore"
  cpn_nonces :: "(address, u64) pstore"
  cpn_batch_state :: "(u64 \<times> u32, BatchState) pstore"
  cpn_distribution_balance :: "(u64 \<times> u32, int \<times> int) pstore"
  cpn_holder_distributed :: "(u64 \<times> u32 \<times> address, bool) pstore"
  cpn_events :: "CouponEvent list"

text \<open>The contracts the engine reads.\<close>

record peers =
  issuers_at :: "address \<rightharpoonup> issuer"
  oracles_at :: "address \<rightharpoonup> oracle_consumer"
  registries_at :: "address \<rightharpoonup> registry"

section \<open>Helpers\<close>

definition coupon_require_admin :: "coupon_engine \<Rightarrow> address \<Rightarrow> (CouponEngineError, unit) result" where
  "coupon_require_admin st caller =
     and_then (ok_or (cpn_admin st) CouponEngineError.NotInitialized) (\<lambda>admin.
     if caller \<noteq> admin then Err CouponEngineError.Unauthorized else Ok ())"

definition coupon_extend_ttl :: "env \<Rightarrow> ('k, 'v) pstore \<Rightarrow> 'k \<Rightarrow> ('k, 'v) pstore" where
  "coupon_extend_ttl env m k = pext env COUPON_TTL_THRESHOLD COUPON_TTL_EXTEND_TO m k"

definition coupon_write :: "env \<Rightarrow> ('k, 'v) pstore \<Rightarrow> 'k \<Rightarrow> 'v \<Rightarrow> ('k, 'v) pstore" where
  "coupon_write env m k v = coupon_extend_ttl env (pset env m k v) k"

definition read_refresh_ttl :: "env \<Rightarrow> ('k, 'v) pstore \<Rightarrow> 'k \<Rightarrow> 'v option \<times> ('k, 'v) pstore" where
  "read_refresh_ttl env m k =
     (case pget m k of None \<Rightarrow> (None, m) | Some v \<Rightarrow> (Some v, coupon_extend_ttl env m k))"

definition coupon_get_nonce :: "coupon_engine \<Rightarrow> address \<Rightarrow> u64" where
  "coupon_get_nonce st addr = unwrap_or (pget (cpn_nonces st) addr) 0"

definition coupon_set_nonce :: "env \<Rightarrow> address \<Rightarrow> u64 \<Rightarrow> coupon_engine \<Rightarrow> coupon_engine" where
  "coupon_set_nonce env addr nonce st = st\<lparr>cpn_nonces := pset env (cpn_nonces st) addr nonce\<rparr>"

definition coupon_consume_nonce ::
    "env \<Rightarrow> address \<Rightarrow> u64 \<Rightarrow> coupon_engine \<Rightarrow> (CouponEngineError, coupon_engine) result" where
  "coupon_consume_nonce env caller nonce st =
     (let expected_nonce = coupon_get_nonce st caller
      in if nonce \<noteq> expected_nonce then Err CouponEngineError.InvalidNonce
         else and_then (add_word env expected_nonce 1) (\<lambda>next. Ok (coupon_set_nonce env caller next st)))"

definition coupon_publish :: "CouponEvent \<Rightarrow> coupon_engine \<Rightarrow> coupon_engine" where
  "coupon_publish e st = st\<lparr>cpn_events := cpn_events st @ [e]\<rparr>"

fun compute_biodiversity_credits :: "BiodiversityMetrics \<Rightarrow> int" where
  "compute_biodiversity_credits Absent = 0"
| "compute_biodiversity_credits (Present (habitat, species, units)) =
     saturate_i128 (saturate_i128 (saturate_i128 (habitat * HABITAT_CREDIT_RATE) +
       saturate_i128 (species * SPECIES_CREDIT_RATE)) + saturate_i128 (units * UNIT_CREDIT_RATE)) sdiv HABITAT_CREDIT_RATE"

definition accrue_credits ::
    "env \<Rightarrow> u64 \<Rightarrow> address \<Rightarrow> CreditType \<Rightarrow> int \<Rightarrow> coupon_engine \<Rightarrow> (CouponEngineError, coupon_engine) result" where
  "accrue_credits env bond_id holder credit_type amount st =
     (let by_type = unwrap_or (pget (cpn_accrued_by_type st) (bond_id, holder, credit_type)) 0
      in and_then (ok_or (checked_i128 (by_type + amount)) CouponEngineError.Overflow) (\<lambda>new_by_type.
         let st = st\<lparr>cpn_accrued_by_type :=
               coupon_write env (cpn_accrued_by_type st) (bond_id, holder, credit_type) new_by_type\<rparr>;
             combined = unwrap_or (pget (cpn_accrued st) (bond_id, holder)) 0
         in and_then (ok_or (checked_i128 (combined + amount)) CouponEngineError.Overflow) (\<lambda>new_combined.
            Ok (st\<lparr>cpn_accrued := coupon_write env (cpn_accrued st) (bond_id, holder) new_combined\<rparr>))))"

definition clear_accrued :: "env \<Rightarrow> u64 \<Rightarrow> address \<Rightarrow> CreditType \<Rightarrow> coupon_engine \<Rightarrow> coupon_engine" where
  "clear_accrued env bond_id holder credit_type st =
     st\<lparr>cpn_accrued_by_type := coupon_write env (cpn_accrued_by_type st) (bond_id, holder, credit_type) 0\<rparr>"

text \<open>BlueCarbon credits are kept in the Carbon bucket.\<close>

definition storage_type :: "CreditType \<Rightarrow> CreditType" where
  "storage_type credit_type = (if credit_type = BlueCarbon then Carbon else credit_type)"

text \<open>The calls to the peers: \<^verbatim>\<open>invoke_contract\<close>, which panics when the callee fails.\<close>

definition invoke_get_bond ::
    "env \<Rightarrow> address \<Rightarrow> u64 \<Rightarrow> peers \<Rightarrow> (CouponEngineError, BondConfig \<times> peers) result" where
  "invoke_get_bond env a bond_id P =
     and_then (contract_at (issuers_at P) a) (\<lambda>iss.
     and_then (call_or_panic (get_bond (call_env env a) bond_id iss)) (\<lambda>(config, iss).
     Ok (config, P\<lparr>issuers_at := (issuers_at P)(a \<mapsto> iss)\<rparr>)))"

definition invoke_total_subscribed ::
    "env \<Rightarrow> address \<Rightarrow> u64 \<Rightarrow> peers \<Rightarrow> (CouponEngineError, int \<times> peers) result" where
  "invoke_total_subscribed env a bond_id P =
     and_then (contract_at (issuers_at P) a) (\<lambda>iss.
     and_then (call_or_panic (total_subscribed (call_env env a) bond_id iss)) (\<lambda>(subs, iss).
     Ok (subs, P\<lparr>issuers_at := (issuers_at P)(a \<mapsto> iss)\<rparr>)))"

definition invoke_get_report ::
    "env \<Rightarrow> address \<Rightarrow> u64 \<Rightarrow> peers \<Rightarrow> (CouponEngineError, Report \<times> peers) result" where
  "invoke_get_report env a report_id P =
     and_then (contract_at (oracles_at P) a) (\<lambda>orc.
     and_then (call_or_panic (get_report (call_env env a) report_id orc)) (\<lambda>(report, orc).
     Ok (report, P\<lparr>oracles_at := (oracles_at P)(a \<mapsto> orc)\<rparr>)))"

definition invoke_status_by_hash ::
    "env \<Rightarrow> address \<Rightarrow> bytes32 \<Rightarrow> peers \<Rightarrow> (CouponEngineError, ProjectStatus \<times> peers) result" where
  "invoke_status_by_hash env a hash P =
     and_then (contract_at (registries_at P) a) (\<lambda>reg.
     and_then (call_or_panic (get_project_status_by_hash (call_env env a) hash reg)) (\<lambda>(status, reg).
     Ok (status, P\<lparr>registries_at := (registries_at P)(a \<mapsto> reg)\<rparr>)))"

section \<open>Entrypoints: registration\<close>

definition coupon_constructor :: "address \<Rightarrow> address \<Rightarrow> address \<Rightarrow> address \<Rightarrow> coupon_engine" where
  "coupon_constructor admin bond_issuer_address oracle_consumer_address project_registry_address =
     \<lparr>cpn_admin = Some admin, cpn_bond_issuer = Some bond_issuer_address,
      cpn_oracle_consumer = Some oracle_consumer_address, cpn_project_registry = Some project_registry_address,
      cpn_precision = Some FIXED_POINT, cpn_deduct_caller = None, cpn_bond_project = Map.empty,
      cpn_bond_credit_type = Map.empty, cpn_period_info = Map.empty, cpn_period_count = Map.empty,
      cpn_accrued = Map.empty, cpn_accrued_by_type = Map.empty, cpn_undistributed_total = Map.empty,
      cpn_undistributed_by_type = Map.empty, cpn_nonces = Map.empty, cpn_batch_state = Map.empty,
      cpn_distribution_balance = Map.empty, cpn_holder_distributed = Map.empty, cpn_events = []\<rparr>"

definition register_bond ::
    "env \<Rightarrow> address \<Rightarrow> u64 \<Rightarrow> bytes32 \<Rightarrow> u64 \<Rightarrow> coupon_engine \<Rightarrow> peers \<Rightarrow>
     (CouponEngineError, coupon_engine \<times> peers) result" where
  "register_bond env caller bond_id project_id nonce st P =
     and_then (require_auth env caller) (\<lambda>_.
     and_then (coupon_consume_nonce env caller nonce st) (\<lambda>st.
     and_then (coupon_require_admin st caller) (\<lambda>_.
     let st = st\<lparr>cpn_bond_project := (cpn_bond_project st)(bond_id \<mapsto> project_id)\<rparr>
     in and_then (ok_or (cpn_bond_issuer st) CouponEngineError.NotInitialized) (\<lambda>bond_issuer.
     and_then (invoke_get_bond env bond_issuer bond_id P) (\<lambda>(config, P).
     if bc_project_id config \<noteq> project_id then Err CouponEngineError.BondNotFound
     else and_then (ok_or (cpn_project_registry st) CouponEngineError.NotInitialized) (\<lambda>project_registry.
     and_then (invoke_status_by_hash env project_registry project_id P) (\<lambda>(status, P).
     if status \<noteq> ProjectStatus.Approved then Err CouponEngineError.ProjectNotApproved
     else let st = st\<lparr>cpn_bond_credit_type := (cpn_bond_credit_type st)(bond_id \<mapsto> bc_credit_type config)\<rparr>
     in Ok (coupon_publish (bond_registered bond_id project_id) st, P))))))))"

section \<open>Entrypoints: distribution\<close>

text \<open>The carbon and the biodiversity credits a report is worth to a bond of a credit type.\<close>

definition report_totals :: "CreditType \<Rightarrow> Report \<Rightarrow> (CouponEngineError, int \<times> int) result" where
  "report_totals credit_type report =
     (let carbon_total = rp_carbon_sequestered report sdiv CREDIT_DIVISOR
      in case credit_type of
           Carbon \<Rightarrow> Ok (carbon_total, 0)
         | BlueCarbon \<Rightarrow> Ok (carbon_total, 0)
         | Biodiversity \<Rightarrow> if rp_biodiversity report = Absent then Err CouponEngineError.InvalidReport
             else Ok (0, compute_biodiversity_credits (rp_biodiversity report))
         | Basket \<Rightarrow> if rp_biodiversity report = Absent then Err CouponEngineError.InvalidReport
             else Ok (carbon_total, compute_biodiversity_credits (rp_biodiversity report)))"

text \<open>The fixed-point rate per token: \<^verbatim>\<open>total * FIXED_POINT / total_subscribed\<close> where both are positive.\<close>

definition per_token :: "env \<Rightarrow> int \<Rightarrow> int \<Rightarrow> (CouponEngineError, int) result" where
  "per_token env credits subs =
     (if subs > 0 \<and> credits > 0
      then and_then (arith_i128 env (credits * FIXED_POINT)) (\<lambda>product. Ok (product sdiv subs))
      else Ok 0)"

text \<open>The first batch of a period: the report is validated and the rates are fixed.\<close>

definition open_batch ::
    "env \<Rightarrow> u64 \<Rightarrow> u32 \<Rightarrow> u64 \<Rightarrow> bytes32 \<Rightarrow> CreditType \<Rightarrow> coupon_engine \<Rightarrow> peers \<Rightarrow>
     (CouponEngineError, BatchState \<times> int \<times> int \<times> coupon_engine \<times> peers) result" where
  "open_batch env bond_id period_index report_id project_id credit_type st P =
     and_then (ok_or (cpn_oracle_consumer st) CouponEngineError.NotInitialized) (\<lambda>oracle_addr.
     and_then (invoke_get_report env oracle_addr report_id P) (\<lambda>(report, P).
     if rp_status report \<noteq> Verified then Err CouponEngineError.ReportNotVerified
     else if rp_project_metadata_hash report \<noteq> project_id then Err CouponEngineError.BondNotFound
     else case cpn_bond_issuer st of
       None \<Rightarrow> Trap
     | Some bond_issuer \<Rightarrow>
         and_then (invoke_total_subscribed env bond_issuer bond_id P) (\<lambda>(subs, P).
         and_then (report_totals credit_type report) (\<lambda>(carbon_total, biodiversity_total).
         and_then (ok_or (checked_i128 (carbon_total + biodiversity_total)) CouponEngineError.Overflow) (\<lambda>total_credits.
         and_then (per_token env total_credits subs) (\<lambda>credits_per_token.
         and_then (per_token env carbon_total subs) (\<lambda>carbon_per_token.
         and_then (per_token env biodiversity_total subs) (\<lambda>biodiversity_per_token.
         let s = \<lparr>ba_report_id = report_id, ba_distributed_so_far = 0, ba_carbon_distributed_so_far = 0,
                  ba_bio_distributed_so_far = 0, ba_holder_count_so_far = 0, ba_total_credits = total_credits,
                  ba_carbon_total = carbon_total, ba_biodiversity_total = biodiversity_total,
                  ba_credits_per_token = credits_per_token, ba_carbon_per_token = carbon_per_token,
                  ba_biodiversity_per_token = biodiversity_per_token\<rparr>;
             st = st\<lparr>cpn_batch_state := coupon_write env (cpn_batch_state st) (bond_id, period_index) s,
                     cpn_distribution_balance :=
                       coupon_write env (cpn_distribution_balance st) (bond_id, period_index) (subs, 0)\<rparr>
         in Ok (s, subs, 0, st, P)))))))))"

text \<open>A later batch resumes from the stored state, with the same report only.\<close>

definition resume_batch ::
    "env \<Rightarrow> u64 \<Rightarrow> u32 \<Rightarrow> u64 \<Rightarrow> BatchState \<Rightarrow> coupon_engine \<Rightarrow>
     (CouponEngineError, BatchState \<times> int \<times> int \<times> coupon_engine) result" where
  "resume_batch env bond_id period_index report_id s st =
     (if ba_report_id s \<noteq> report_id then Err CouponEngineError.InvalidReport
      else and_then (ok_or (pget (cpn_distribution_balance st) (bond_id, period_index))
                       CouponEngineError.AccountingMismatch) (\<lambda>(subs, processed).
      Ok (s, subs, processed,
          st\<lparr>cpn_batch_state := coupon_extend_ttl env (cpn_batch_state st) (bond_id, period_index),
             cpn_distribution_balance :=
               coupon_extend_ttl env (cpn_distribution_balance st) (bond_id, period_index)\<rparr>)))"

text \<open>The running sums of the loop over the holders of a batch.\<close>

record tally =
  ty_total :: int
  ty_carbon :: int
  ty_bio :: int
  ty_count :: u32
  ty_processed :: int

text \<open>\<^verbatim>\<open>rate * balance / FIXED_POINT\<close>.\<close>

definition holder_share :: "env \<Rightarrow> int \<Rightarrow> int \<Rightarrow> (CouponEngineError, int) result" where
  "holder_share env rate holder_bal =
     and_then (arith_i128 env (rate * holder_bal)) (\<lambda>product. Ok (product sdiv FIXED_POINT))"

text \<open>The arm of a bond with a single kind of credits; \<open>bucket\<close> is Carbon or Biodiversity.\<close>

definition pay_single ::
    "env \<Rightarrow> u64 \<Rightarrow> CreditType \<Rightarrow> BatchState \<Rightarrow> address \<Rightarrow> int \<Rightarrow> tally \<Rightarrow> coupon_engine \<Rightarrow>
     (CouponEngineError, tally \<times> coupon_engine) result" where
  "pay_single env bond_id bucket s holder holder_bal t st =
     and_then (holder_share env (ba_credits_per_token s) holder_bal) (\<lambda>holder_credits.
     if holder_credits > 0
     then and_then (ok_or (checked_i128 (ty_total t + holder_credits)) CouponEngineError.Overflow) (\<lambda>total.
          and_then (ok_or (checked_i128 ((if bucket = Carbon then ty_carbon t else ty_bio t) + holder_credits))
                      CouponEngineError.Overflow) (\<lambda>by_type.
          and_then (accrue_credits env bond_id holder bucket holder_credits st) (\<lambda>st.
          and_then (add_word env (ty_count t) 1) (\<lambda>count.
          Ok (if bucket = Carbon then t\<lparr>ty_total := total, ty_carbon := by_type, ty_count := count\<rparr>
              else t\<lparr>ty_total := total, ty_bio := by_type, ty_count := count\<rparr>, st)))))
     else Ok (t, st))"

definition pay_basket ::
    "env \<Rightarrow> u64 \<Rightarrow> BatchState \<Rightarrow> address \<Rightarrow> int \<Rightarrow> tally \<Rightarrow> coupon_engine \<Rightarrow>
     (CouponEngineError, tally \<times> coupon_engine) result" where
  "pay_basket env bond_id s holder holder_bal t st =
     and_then (holder_share env (ba_carbon_per_token s) holder_bal) (\<lambda>carbon_holder.
     and_then (holder_share env (ba_biodiversity_per_token s) holder_bal) (\<lambda>biodiversity_holder.
     and_then (ok_or (checked_i128 (carbon_holder + biodiversity_holder)) CouponEngineError.Overflow) (\<lambda>holder_credits.
     if holder_credits > 0
     then and_then (ok_or (checked_i128 (ty_total t + holder_credits)) CouponEngineError.Overflow) (\<lambda>total.
          let t = t\<lparr>ty_total := total\<rparr>
          in and_then (if carbon_holder > 0
               then and_then (ok_or (checked_i128 (ty_carbon t + carbon_holder)) CouponEngineError.Overflow) (\<lambda>c.
                    and_then (accrue_credits env bond_id holder Carbon carbon_holder st) (\<lambda>st.
                    Ok (t\<lparr>ty_carbon := c\<rparr>, st)))
               else Ok (t, st)) (\<lambda>(t, st).
          and_then (if biodiversity_holder > 0
               then and_then (ok_or (checked_i128 (ty_bio t + biodiversity_holder)) CouponEngineError.Overflow) (\<lambda>b.
                    and_then (accrue_credits env bond_id holder Biodiversity biodiversity_holder st) (\<lambda>st.
                    Ok (t\<lparr>ty_bio := b\<rparr>, st)))
               else Ok (t, st)) (\<lambda>(t, st).
          and_then (add_word env (ty_count t) 1) (\<lambda>count. Ok (t\<lparr>ty_count := count\<rparr>, st)))))
     else Ok (t, st))))"

definition pay_holder ::
    "env \<Rightarrow> u64 \<Rightarrow> CreditType \<Rightarrow> BatchState \<Rightarrow> address \<Rightarrow> int \<Rightarrow> tally \<Rightarrow> coupon_engine \<Rightarrow>
     (CouponEngineError, tally \<times> coupon_engine) result" where
  "pay_holder env bond_id credit_type s holder holder_bal t st =
     (case credit_type of
        Carbon \<Rightarrow> pay_single env bond_id Carbon s holder holder_bal t st
      | BlueCarbon \<Rightarrow> pay_single env bond_id Carbon s holder holder_bal t st
      | Biodiversity \<Rightarrow> pay_single env bond_id Biodiversity s holder holder_bal t st
      | Basket \<Rightarrow> pay_basket env bond_id s holder holder_bal t st)"

fun distribute_loop ::
    "env \<Rightarrow> u64 \<Rightarrow> u32 \<Rightarrow> CreditType \<Rightarrow> BatchState \<Rightarrow> int \<Rightarrow> (address \<times> int) list \<Rightarrow> tally \<Rightarrow> coupon_engine \<Rightarrow>
     (CouponEngineError, tally \<times> coupon_engine) result" where
  "distribute_loop env bond_id period_index credit_type s subs [] t st = Ok (t, st)"
| "distribute_loop env bond_id period_index credit_type s subs ((holder, holder_bal) # holders) t st =
     (if phas (cpn_holder_distributed st) (bond_id, period_index, holder)
      then distribute_loop env bond_id period_index credit_type s subs holders t
             (st\<lparr>cpn_holder_distributed :=
                   coupon_extend_ttl env (cpn_holder_distributed st) (bond_id, period_index, holder)\<rparr>)
      else if holder_bal > 0
      then and_then (ok_or (checked_i128 (ty_processed t + holder_bal)) CouponEngineError.Overflow) (\<lambda>processed.
           if processed > subs then Err CouponEngineError.AccountingMismatch
           else and_then (pay_holder env bond_id credit_type s holder holder_bal (t\<lparr>ty_processed := processed\<rparr>) st) (\<lambda>(t, st).
           distribute_loop env bond_id period_index credit_type s subs holders t
             (st\<lparr>cpn_holder_distributed :=
                   coupon_write env (cpn_holder_distributed st) (bond_id, period_index, holder) True\<rparr>)))
      else distribute_loop env bond_id period_index credit_type s subs holders t st)"

text \<open>Adding to a counter of undistributed credits, which is left alone when nothing positive is left.\<close>

definition add_undistributed :: "env \<Rightarrow> ('k, int) pstore \<Rightarrow> 'k \<Rightarrow> int \<Rightarrow> (CouponEngineError, ('k, int) pstore) result" where
  "add_undistributed env m k amount =
     (if amount > 0
      then and_then (ok_or (checked_i128 (unwrap_or (pget m k) 0 + amount)) CouponEngineError.Overflow) (\<lambda>new_total.
           Ok (coupon_write env m k new_total))
      else Ok m)"

text \<open>The last batch settles the period.\<close>

definition close_period ::
    "env \<Rightarrow> u64 \<Rightarrow> u32 \<Rightarrow> u64 \<Rightarrow> BatchState \<Rightarrow> int \<Rightarrow> int \<Rightarrow> coupon_engine \<Rightarrow> peers \<Rightarrow>
     (CouponEngineError, CouponResult \<times> coupon_engine \<times> peers) result" where
  "close_period env bond_id period_index report_id s processed subs st P =
     (if processed \<noteq> subs then Err CouponEngineError.AccountingMismatch
      else and_then (ok_or (cpn_oracle_consumer st) CouponEngineError.NotInitialized) (\<lambda>oracle_addr.
      and_then (invoke_get_report env oracle_addr report_id P) (\<lambda>(report, P).
      let total_distributed = ba_distributed_so_far s
      in and_then (ok_or (checked_i128 (ba_total_credits s - total_distributed))
                     CouponEngineError.AccountingMismatch) (\<lambda>undistributed.
      and_then (ok_or (checked_i128 (ba_carbon_total s - ba_carbon_distributed_so_far s))
                  CouponEngineError.AccountingMismatch) (\<lambda>carbon_undistributed.
      and_then (ok_or (checked_i128 (ba_biodiversity_total s - ba_bio_distributed_so_far s))
                  CouponEngineError.AccountingMismatch) (\<lambda>biodiversity_undistributed.
      let period_info = \<lparr>pi_period_index = period_index, pi_start_time = rp_period_start report,
             pi_end_time = rp_period_end report, pi_total_credits_earned = total_distributed,
             pi_distributed = True, pi_report_id = report_id, pi_undistributed = undistributed\<rparr>;
          st = st\<lparr>cpn_period_info := coupon_write env (cpn_period_info st) (bond_id, period_index) period_info\<rparr>
      in and_then (add_undistributed env (cpn_undistributed_total st) bond_id undistributed) (\<lambda>m.
         let st = st\<lparr>cpn_undistributed_total := m\<rparr>
         in and_then (add_undistributed env (cpn_undistributed_by_type st) (bond_id, Carbon) carbon_undistributed) (\<lambda>m.
         let st = st\<lparr>cpn_undistributed_by_type := m\<rparr>
         in and_then (add_undistributed env (cpn_undistributed_by_type st) (bond_id, Biodiversity)
                        biodiversity_undistributed) (\<lambda>m.
         let st = st\<lparr>cpn_undistributed_by_type := m\<rparr>
         in and_then (add_word env (unwrap_or (pget (cpn_period_count st) bond_id) 0) 1) (\<lambda>count.
         let st = st\<lparr>cpn_period_count := coupon_write env (cpn_period_count st) bond_id count,
                    cpn_batch_state := premove (cpn_batch_state st) (bond_id, period_index),
                    cpn_distribution_balance := premove (cpn_distribution_balance st) (bond_id, period_index)\<rparr>;
             st = coupon_publish (coupon_distributed bond_id period_index total_distributed
                    (ba_holder_count_so_far s)) st
         in Ok (\<lparr>cr_bond_id = bond_id, cr_period_index = period_index, cr_total_credits = total_distributed,
                 cr_holder_count = ba_holder_count_so_far s,
                 cr_credits_per_token = ba_credits_per_token s\<rparr>, st, P)))))))))))"

definition distribute_coupon ::
    "env \<Rightarrow> address \<Rightarrow> u64 \<Rightarrow> u32 \<Rightarrow> (address \<times> int) list \<Rightarrow> u64 \<Rightarrow> u64 \<Rightarrow> bool \<Rightarrow> coupon_engine \<Rightarrow> peers \<Rightarrow>
     (CouponEngineError, CouponResult \<times> coupon_engine \<times> peers) result" where
  "distribute_coupon env caller bond_id period_index holders report_id nonce is_final_batch st P =
     and_then (require_auth env caller) (\<lambda>_.
     and_then (coupon_consume_nonce env caller nonce st) (\<lambda>st.
     and_then (coupon_require_admin st caller) (\<lambda>_.
     if (case pget (cpn_period_info st) (bond_id, period_index) of
           Some info \<Rightarrow> pi_distributed info | None \<Rightarrow> False)
     then Err CouponEngineError.PeriodAlreadyDistributed
     else and_then (ok_or (cpn_bond_project st bond_id) CouponEngineError.BondNotFound) (\<lambda>project_id.
     and_then (ok_or (cpn_bond_credit_type st bond_id) CouponEngineError.BondNotFound) (\<lambda>credit_type.
     and_then (case pget (cpn_batch_state st) (bond_id, period_index) of
                 Some s \<Rightarrow> and_then (resume_batch env bond_id period_index report_id s st)
                            (\<lambda>(s, subs, processed, st). Ok (s, subs, processed, st, P))
               | None \<Rightarrow> open_batch env bond_id period_index report_id project_id credit_type st P)
       (\<lambda>(s, subs, processed, st, P).
     and_then (distribute_loop env bond_id period_index credit_type s subs holders
                 \<lparr>ty_total = 0, ty_carbon = 0, ty_bio = 0, ty_count = 0, ty_processed = processed\<rparr> st) (\<lambda>(t, st).
     and_then (ok_or (checked_i128 (ba_distributed_so_far s + ty_total t)) CouponEngineError.Overflow) (\<lambda>d.
     and_then (ok_or (checked_i128 (ba_carbon_distributed_so_far s + ty_carbon t)) CouponEngineError.Overflow) (\<lambda>c.
     and_then (ok_or (checked_i128 (ba_bio_distributed_so_far s + ty_bio t)) CouponEngineError.Overflow) (\<lambda>b.
     and_then (add_word env (ba_holder_count_so_far s) (ty_count t)) (\<lambda>k.
     let s = s\<lparr>ba_distributed_so_far := d, ba_carbon_distributed_so_far := c, ba_bio_distributed_so_far := b,
               ba_holder_count_so_far := k\<rparr>;
         st = st\<lparr>cpn_batch_state := coupon_write env (cpn_batch_state st) (bond_id, period_index) s,
                 cpn_distribution_balance := coupon_write env (cpn_distribution_balance st)
                   (bond_id, period_index) (subs, ty_processed t)\<rparr>
     in if is_final_batch then close_period env bond_id period_index report_id s (ty_processed t) subs st P
        else Ok (\<lparr>cr_bond_id = bond_id, cr_period_index = period_index, cr_total_credits = ba_distributed_so_far s,
                 cr_holder_count = ba_holder_count_so_far s,
                 cr_credits_per_token = ba_credits_per_token s\<rparr>, st, P))))))))))))"

section \<open>Entrypoints: claims, sweeps and deductions\<close>

definition accrued_credits :: "env \<Rightarrow> u64 \<Rightarrow> address \<Rightarrow> coupon_engine \<Rightarrow> int \<times> coupon_engine" where
  "accrued_credits env bond_id holder st =
     (let (v, m) = read_refresh_ttl env (cpn_accrued st) (bond_id, holder)
      in (unwrap_or v 0, st\<lparr>cpn_accrued := m\<rparr>))"

definition accrued_credits_by_type ::
    "env \<Rightarrow> u64 \<Rightarrow> address \<Rightarrow> CreditType \<Rightarrow> coupon_engine \<Rightarrow> int \<times> coupon_engine" where
  "accrued_credits_by_type env bond_id holder credit_type st =
     (let (v, m) = read_refresh_ttl env (cpn_accrued_by_type st) (bond_id, holder, storage_type credit_type)
      in (unwrap_or v 0, st\<lparr>cpn_accrued_by_type := m\<rparr>))"

definition get_bond_credit_type :: "u64 \<Rightarrow> coupon_engine \<Rightarrow> (CouponEngineError, CreditType) result" where
  "get_bond_credit_type bond_id st = ok_or (cpn_bond_credit_type st bond_id) CouponEngineError.BondNotFound"

text \<open>The per-type balances of a claim, validated against the combined balance.\<close>

definition claim_breakdown ::
    "env \<Rightarrow> u64 \<Rightarrow> address \<Rightarrow> CreditType option \<Rightarrow> int \<Rightarrow> coupon_engine \<Rightarrow>
     (CouponEngineError, int \<times> int \<times> coupon_engine) result" where
  "claim_breakdown env bond_id caller credit_type accrued st =
     (case credit_type of
        None \<Rightarrow> Err CouponEngineError.AccountingMismatch
      | Some Basket \<Rightarrow>
          let (carbon_amt, st) = accrued_credits_by_type env bond_id caller Carbon st;
              (bio_amt, st) = accrued_credits_by_type env bond_id caller Biodiversity st
          in and_then (ok_or (checked_i128 (carbon_amt + bio_amt)) CouponEngineError.Overflow) (\<lambda>s.
             if s \<noteq> accrued then Err CouponEngineError.AccountingMismatch else Ok (carbon_amt, bio_amt, st))
      | Some Biodiversity \<Rightarrow>
          let (bio_amt, st) = accrued_credits_by_type env bond_id caller Biodiversity st
          in if bio_amt \<noteq> accrued then Err CouponEngineError.AccountingMismatch else Ok (0, bio_amt, st)
      | Some _ \<Rightarrow>
          let (carbon_amt, st) = accrued_credits_by_type env bond_id caller Carbon st
          in if carbon_amt \<noteq> accrued then Err CouponEngineError.AccountingMismatch else Ok (carbon_amt, 0, st))"

definition clear_types :: "env \<Rightarrow> u64 \<Rightarrow> address \<Rightarrow> CreditType option \<Rightarrow> coupon_engine \<Rightarrow> (CouponEngineError, coupon_engine) result"
  where
  "clear_types env bond_id caller credit_type st =
     (case credit_type of
        None \<Rightarrow> Trap
      | Some Basket \<Rightarrow> Ok (clear_accrued env bond_id caller Biodiversity (clear_accrued env bond_id caller Carbon st))
      | Some Biodiversity \<Rightarrow> Ok (clear_accrued env bond_id caller Biodiversity st)
      | Some _ \<Rightarrow> Ok (clear_accrued env bond_id caller Carbon st))"

definition claim_credits ::
    "env \<Rightarrow> address \<Rightarrow> u64 \<Rightarrow> u64 \<Rightarrow> coupon_engine \<Rightarrow> (CouponEngineError, int \<times> coupon_engine) result" where
  "claim_credits env caller bond_id nonce st =
     and_then (require_auth env caller) (\<lambda>_.
     and_then (coupon_consume_nonce env caller nonce st) (\<lambda>st.
     let accrued = unwrap_or (pget (cpn_accrued st) (bond_id, caller)) 0;
         credit_type = cpn_bond_credit_type st bond_id
     in and_then
          (if accrued > 0
           then and_then (claim_breakdown env bond_id caller credit_type accrued st) (\<lambda>(carbon_amt, bio_amt, st).
                and_then (clear_types env bond_id caller credit_type
                  (st\<lparr>cpn_accrued := coupon_write env (cpn_accrued st) (bond_id, caller) 0\<rparr>)) (\<lambda>st.
                Ok (carbon_amt, bio_amt, st)))
           else Ok (0, 0, st)) (\<lambda>(carbon_amt, bio_amt, st).
        Ok (accrued, coupon_publish
              (if credit_type = Some Basket then credits_claimed_by_type bond_id caller carbon_amt bio_amt
               else credits_claimed bond_id caller accrued) st))))"

definition sweep_undistributed ::
    "env \<Rightarrow> address \<Rightarrow> u64 \<Rightarrow> address \<Rightarrow> u64 \<Rightarrow> coupon_engine \<Rightarrow> (CouponEngineError, SweepReceipt \<times> coupon_engine) result"
  where
  "sweep_undistributed env caller bond_id destination nonce st =
     and_then (require_auth env caller) (\<lambda>_.
     and_then (coupon_consume_nonce env caller nonce st) (\<lambda>st.
     and_then (coupon_require_admin st caller) (\<lambda>_.
     let combined = unwrap_or (pget (cpn_undistributed_total st) bond_id) 0;
         carbon = unwrap_or (pget (cpn_undistributed_by_type st) (bond_id, Carbon)) 0;
         biodiversity = unwrap_or (pget (cpn_undistributed_by_type st) (bond_id, Biodiversity)) 0
     in and_then (ok_or (checked_i128 (carbon + biodiversity)) CouponEngineError.Overflow) (\<lambda>s.
     if s \<noteq> combined then Err CouponEngineError.AccountingMismatch
     else if combined = 0
     then Ok (\<lparr>sw_bond_id = bond_id, sw_destination = destination, sw_amount = 0, sw_carbon_amount = 0,
              sw_biodiversity_amount = 0\<rparr>, st)
     else let st = st\<lparr>cpn_undistributed_total := coupon_write env (cpn_undistributed_total st) bond_id 0,
                     cpn_undistributed_by_type := coupon_write env
                       (coupon_write env (cpn_undistributed_by_type st) (bond_id, Carbon) 0) (bond_id, Biodiversity) 0\<rparr>
     in and_then (if carbon > 0 then accrue_credits env bond_id destination Carbon carbon st else Ok st) (\<lambda>st.
     and_then (if biodiversity > 0 then accrue_credits env bond_id destination Biodiversity biodiversity st
               else Ok st) (\<lambda>st.
     Ok (\<lparr>sw_bond_id = bond_id, sw_destination = destination, sw_amount = combined, sw_carbon_amount = carbon,
          sw_biodiversity_amount = biodiversity\<rparr>,
         coupon_publish (undistributed_swept bond_id destination combined carbon biodiversity) st)))))))"

definition register_deduct_caller ::
    "env \<Rightarrow> address \<Rightarrow> address \<Rightarrow> u64 \<Rightarrow> coupon_engine \<Rightarrow> (CouponEngineError, coupon_engine) result" where
  "register_deduct_caller env caller deduct_caller nonce st =
     and_then (require_auth env caller) (\<lambda>_.
     and_then (coupon_consume_nonce env caller nonce st) (\<lambda>st.
     and_then (coupon_require_admin st caller) (\<lambda>_.
     Ok (st\<lparr>cpn_deduct_caller := Some deduct_caller\<rparr>))))"

definition deduct_credits ::
    "env \<Rightarrow> u64 \<Rightarrow> address \<Rightarrow> int \<Rightarrow> CreditType \<Rightarrow> coupon_engine \<Rightarrow> (CouponEngineError, int \<times> coupon_engine) result" where
  "deduct_credits env bond_id holder amount credit_type st =
     and_then (ok_or (cpn_deduct_caller st) CouponEngineError.Unauthorized) (\<lambda>authorized.
     and_then (require_auth env authorized) (\<lambda>_.
     if amount \<le> 0 then Err CouponEngineError.ZeroAmount
     else let combined = unwrap_or (pget (cpn_accrued st) (bond_id, holder)) 0
     in if amount > combined then Err CouponEngineError.Overflow
     else let k = (bond_id, holder, storage_type credit_type);
              by_type = unwrap_or (pget (cpn_accrued_by_type st) k) 0
     in if amount > by_type then Err CouponEngineError.Overflow
     else and_then (arith_i128 env (combined - amount)) (\<lambda>new_combined.
     and_then (arith_i128 env (by_type - amount)) (\<lambda>new_by_type.
     let st = st\<lparr>cpn_accrued := coupon_write env (cpn_accrued st) (bond_id, holder) new_combined,
                cpn_accrued_by_type := coupon_write env (cpn_accrued_by_type st) k new_by_type\<rparr>
     in Ok (new_combined, coupon_publish (credits_deducted bond_id holder amount credit_type) st)))))"

section \<open>Getters\<close>

definition get_period_info ::
    "env \<Rightarrow> u64 \<Rightarrow> u32 \<Rightarrow> coupon_engine \<Rightarrow> (CouponEngineError, PeriodInfo \<times> coupon_engine) result" where
  "get_period_info env bond_id period_index st =
     (let (v, m) = read_refresh_ttl env (cpn_period_info st) (bond_id, period_index)
      in and_then (ok_or v CouponEngineError.PeriodNotFound) (\<lambda>info. Ok (info, st\<lparr>cpn_period_info := m\<rparr>)))"

definition get_period_info_range :: "u64 \<Rightarrow> u32 \<Rightarrow> u32 \<Rightarrow> coupon_engine \<Rightarrow> PeriodInfo list" where
  "get_period_info_range bond_id start count st =
     (let total = unwrap_or (pget (cpn_period_count st) bond_id) 0
      in if count = 0 \<or> start \<ge> total then []
         else let stop = (ucast (min (ucast start + ucast count :: u64) (ucast total)) :: u32)
         in collect_range (\<lambda>i. pget (cpn_period_info st) (bond_id, of_nat i)) (unat start) (unat stop))"

definition get_period_count :: "env \<Rightarrow> u64 \<Rightarrow> coupon_engine \<Rightarrow> u32 \<times> coupon_engine" where
  "get_period_count env bond_id st =
     (let (v, m) = read_refresh_ttl env (cpn_period_count st) bond_id
      in (unwrap_or v 0, st\<lparr>cpn_period_count := m\<rparr>))"

definition get_undistributed_total :: "env \<Rightarrow> u64 \<Rightarrow> coupon_engine \<Rightarrow> int \<times> coupon_engine" where
  "get_undistributed_total env bond_id st =
     (let (v, m) = read_refresh_ttl env (cpn_undistributed_total st) bond_id
      in (unwrap_or v 0, st\<lparr>cpn_undistributed_total := m\<rparr>))"

definition get_undistributed_by_type :: "env \<Rightarrow> u64 \<Rightarrow> CreditType \<Rightarrow> coupon_engine \<Rightarrow> int \<times> coupon_engine" where
  "get_undistributed_by_type env bond_id credit_type st =
     (let (v, m) = read_refresh_ttl env (cpn_undistributed_by_type st) (bond_id, storage_type credit_type)
      in (unwrap_or v 0, st\<lparr>cpn_undistributed_by_type := m\<rparr>))"

section \<open>Steps\<close>

text \<open>
  A successful call of the engine in an environment that satisfies \<open>E\<close>, or a call somebody makes to
  one of the peers in between.
\<close>

inductive coupon_step ::
    "(env \<Rightarrow> bool) \<Rightarrow> coupon_engine \<times> peers \<Rightarrow> timed_label \<Rightarrow> coupon_engine \<times> peers \<Rightarrow> bool"
  for E :: "env \<Rightarrow> bool" where
  step_register_bond: "E env \<Longrightarrow> register_bond env caller bond_id project_id nonce st P = Ok (st', P') \<Longrightarrow>
     coupon_step E (st, P) (timestamp env, Some (caller, nonce)) (st', P')"
| step_distribute_coupon: "E env \<Longrightarrow>
     distribute_coupon env caller bond_id period_index holders report_id nonce is_final_batch st P =
       Ok (res, st', P') \<Longrightarrow>
     coupon_step E (st, P) (timestamp env, Some (caller, nonce)) (st', P')"
| step_claim_credits: "E env \<Longrightarrow> claim_credits env caller bond_id nonce st = Ok (v, st') \<Longrightarrow>
     coupon_step E (st, P) (timestamp env, Some (caller, nonce)) (st', P)"
| step_sweep_undistributed: "E env \<Longrightarrow> sweep_undistributed env caller bond_id destination nonce st = Ok (rc, st') \<Longrightarrow>
     coupon_step E (st, P) (timestamp env, Some (caller, nonce)) (st', P)"
| step_register_deduct_caller: "E env \<Longrightarrow> register_deduct_caller env caller deduct_caller nonce st = Ok st' \<Longrightarrow>
     coupon_step E (st, P) (timestamp env, Some (caller, nonce)) (st', P)"
| step_deduct_credits: "E env \<Longrightarrow> deduct_credits env bond_id holder amount credit_type st = Ok (v, st') \<Longrightarrow>
     coupon_step E (st, P) (timestamp env, None) (st', P)"
| step_get_period_info: "get_period_info env bond_id period_index st = Ok (info, st') \<Longrightarrow>
     coupon_step E (st, P) (timestamp env, None) (st', P)"
| step_coupon_read: "(st' = snd (accrued_credits env b h st) \<or> st' = snd (accrued_credits_by_type env b h c st) \<or>
     st' = snd (get_period_count env b st) \<or> st' = snd (get_undistributed_total env b st) \<or>
     st' = snd (get_undistributed_by_type env b c st)) \<Longrightarrow>
     coupon_step E (st, P) (timestamp env, None) (st', P)"
| step_peer_issuer: "issuers_at P a = Some s \<Longrightarrow> issuer_step s l s' \<Longrightarrow>
     coupon_step E (st, P) (now, None) (st, P\<lparr>issuers_at := (issuers_at P)(a \<mapsto> s')\<rparr>)"
| step_peer_oracle: "oracles_at P a = Some s \<Longrightarrow>
     oracle_step (\<lambda>_. True) (s, registries_at P) (now, l) (s', R') \<Longrightarrow>
     coupon_step E (st, P) (now, None) (st, P\<lparr>oracles_at := (oracles_at P)(a \<mapsto> s'), registries_at := R'\<rparr>)"
| step_peer_registry: "registries_at P a = Some s \<Longrightarrow> registry_step s (now, l) s' \<Longrightarrow>
     coupon_step E (st, P) (now, None) (st, P\<lparr>registries_at := (registries_at P)(a \<mapsto> s')\<rparr>)"

end
