(* ===== verification/Report_Desk.thy ===== *)
theory Report_Desk
  imports Oracle
begin

text \<open>
  The oracle consumer as a desk of reports: the abstract state \<open>desk\<close> and its steps, the refinement of
  every entrypoint of \<open>Oracle\<close> to such a step, and the invariant of the desk: numbered reports, distinct
  providers, verifiers and votes, periods in order, and a threshold that the active providers can meet; and,
  call by call, which reports change and who may change the administrator.
\<close>

section \<open>Abstract desk of reports\<close>

text \<open>
  What the oracle promises about reports: providers, numbered reports with their verifiers and
  challenges, the periods claimed for each project, the signature threshold and the administrator.
  Stake, bonds and events are left out; a slash changes the stake of a provider by an amount the desk
  does not fix.
\<close>

record desk =
  dk_admin :: "address option"
  dk_pending :: "PendingAdminChange option"
  dk_threshold :: u32
  dk_count :: u64
  dk_providers :: "address \<rightharpoonup> OracleProvider"
  dk_plist :: "address list"
  dk_reports :: "u64 \<rightharpoonup> Report"
  dk_challenges :: "u64 \<rightharpoonup> Challenge"
  dk_verifiers :: "u64 \<Rightarrow> address list"
  dk_uphold :: "u64 \<Rightarrow> address list"
  dk_reject :: "u64 \<Rightarrow> address list"
  dk_periods :: "u64 \<Rightarrow> (u64 \<times> u64) list"
  dk_nonces :: "address \<Rightarrow> u64"

definition desk_of :: "oracle_consumer \<Rightarrow> desk" where
  "desk_of st =
     \<lparr>dk_admin = orc_admin st, dk_pending = orc_pending_admin st,
      dk_threshold = unwrap_or (orc_signature_threshold st) 1, dk_count = unwrap_or (orc_report_count st) 0,
      dk_providers = pget (orc_providers st), dk_plist = unwrap_or (pget (orc_provider_list st) ()) [],
      dk_reports = pget (orc_reports st), dk_challenges = pget (orc_challenges st),
      dk_verifiers = (\<lambda>i. unwrap_or (pget (orc_report_verifiers st) i) []),
      dk_uphold = (\<lambda>i. unwrap_or (pget (orc_uphold_votes st) i) []),
      dk_reject = (\<lambda>i. unwrap_or (pget (orc_reject_votes st) i) []),
      dk_periods = (\<lambda>i. unwrap_or (pget (orc_report_periods st) i) []),
      dk_nonces = (\<lambda>a. unwrap_or (pget (orc_nonces st) a) 0)\<rparr>"

definition is_active :: "desk \<Rightarrow> address \<Rightarrow> bool" where
  "is_active D a \<longleftrightarrow> (case dk_providers D a of Some p \<Rightarrow> op_active p | None \<Rightarrow> False)"

definition active_providers :: "desk \<Rightarrow> nat" where
  "active_providers D = length (filter (is_active D) (dk_plist D))"

definition dk_spend :: "address \<Rightarrow> desk \<Rightarrow> desk" where
  "dk_spend a D = D\<lparr>dk_nonces := (dk_nonces D)(a := dk_nonces D a + 1)\<rparr>"

definition dk_clamp :: "desk \<Rightarrow> desk" where
  "dk_clamp D = D\<lparr>dk_threshold := min (dk_threshold D) (max (of_nat (active_providers D)) 1)\<rparr>"

definition dk_set_provider :: "address \<Rightarrow> OracleProvider \<Rightarrow> desk \<Rightarrow> desk" where
  "dk_set_provider a p D = D\<lparr>dk_providers := (dk_providers D)(a \<mapsto> p)\<rparr>"

definition dk_set_report :: "u64 \<Rightarrow> Report \<Rightarrow> desk \<Rightarrow> desk" where
  "dk_set_report i r D = D\<lparr>dk_reports := (dk_reports D)(i \<mapsto> r)\<rparr>"

definition dk_set_challenge :: "u64 \<Rightarrow> Challenge \<Rightarrow> desk \<Rightarrow> desk" where
  "dk_set_challenge i c D = D\<lparr>dk_challenges := (dk_challenges D)(i \<mapsto> c)\<rparr>"

definition dk_add_verifier :: "u64 \<Rightarrow> address \<Rightarrow> desk \<Rightarrow> desk" where
  "dk_add_verifier i a D =
     D\<lparr>dk_verifiers := (dk_verifiers D)(i := if a \<in> set (dk_verifiers D i) then dk_verifiers D i
                                          else dk_verifiers D i @ [a])\<rparr>"

definition dk_vote :: "u64 \<Rightarrow> address \<Rightarrow> bool \<Rightarrow> desk \<Rightarrow> desk" where
  "dk_vote i a up D =
     (if up then D\<lparr>dk_uphold := (dk_uphold D)(i := dk_uphold D i @ [a])\<rparr>
      else D\<lparr>dk_reject := (dk_reject D)(i := dk_reject D i @ [a])\<rparr>)"

text \<open>The last \<open>MAX_PERIOD_HISTORY\<close> periods of a project are kept.\<close>

definition dk_claim :: "u64 \<Rightarrow> u64 \<times> u64 \<Rightarrow> desk \<Rightarrow> desk" where
  "dk_claim p window D =
     D\<lparr>dk_periods := (dk_periods D)(p := push_period (dk_periods D p) window)\<rparr>"

text \<open>
  The outcome of an open challenge: the challenge is resolved and the report takes the resolution; a
  rejection also takes some stake of the provider, who becomes inactive when nothing is left.
\<close>

definition dk_resolve :: "u64 \<Rightarrow> u64 \<Rightarrow> ReportStatus \<Rightarrow> Challenge \<Rightarrow> Report \<Rightarrow> desk \<Rightarrow> desk" where
  "dk_resolve now i res c r D =
     dk_set_report i (r\<lparr>rp_status := res, rp_verified_at := (if res = Verified then now else rp_verified_at r)\<rparr>)
       (dk_set_challenge i (c\<lparr>ch_resolved := True, ch_resolution := ReportStatus_code res\<rparr>) D)"

definition slashed :: "int \<Rightarrow> OracleProvider \<Rightarrow> OracleProvider" where
  "slashed s p = p\<lparr>op_stake := s, op_active := (if s = 0 then False else op_active p)\<rparr>"

inductive finalized :: "u64 \<Rightarrow> u64 \<Rightarrow> ReportStatus \<Rightarrow> desk \<Rightarrow> desk \<Rightarrow> bool" where
  fin_done: "dk_challenges D i = Some c \<Longrightarrow> ch_resolved c \<Longrightarrow> finalized now i res D D"
| fin_upheld: "dk_challenges D i = Some c \<Longrightarrow> \<not> ch_resolved c \<Longrightarrow> dk_reports D i = Some r \<Longrightarrow>
     finalized now i Verified D (dk_resolve now i Verified c r D)"
| fin_rejected: "dk_challenges D i = Some c \<Longrightarrow> \<not> ch_resolved c \<Longrightarrow> dk_reports D i = Some r \<Longrightarrow>
     dk_providers D (rp_provider r) = Some p \<Longrightarrow>
     finalized now i ReportStatus.Rejected D
       (dk_clamp (dk_set_provider (rp_provider r) (slashed s p) (dk_resolve now i ReportStatus.Rejected c r D)))"

inductive desk_step :: "desk \<Rightarrow> timed_label \<Rightarrow> desk \<Rightarrow> bool" where
  k_register: "n = dk_nonces D a \<Longrightarrow> dk_admin D = Some a \<Longrightarrow> dk_providers D q = None \<Longrightarrow> op_active p \<Longrightarrow>
     desk_step D (now, Some (a, n)) (dk_set_provider q p ((dk_spend a D)\<lparr>dk_plist := dk_plist D @ [q]\<rparr>))"
| k_remove: "n = dk_nonces D a \<Longrightarrow> dk_admin D = Some a \<Longrightarrow> dk_providers D q = Some p \<Longrightarrow>
     desk_step D (now, Some (a, n)) (dk_clamp (dk_set_provider q (p\<lparr>op_active := False\<rparr>) (dk_spend a D)))"
| k_threshold: "n = dk_nonces D a \<Longrightarrow> dk_admin D = Some a \<Longrightarrow> t \<noteq> 0 \<Longrightarrow> t \<le> of_nat (active_providers D) \<Longrightarrow>
     desk_step D (now, Some (a, n)) ((dk_spend a D)\<lparr>dk_threshold := t\<rparr>)"
| k_stake: "n = dk_nonces D a \<Longrightarrow> dk_providers D a = Some p \<Longrightarrow>
     desk_step D (now, Some (a, n)) (dk_set_provider a (p\<lparr>op_stake := s\<rparr>) (dk_spend a D))"
| k_submit: "n = dk_nonces D (rp_provider r) \<Longrightarrow> dk_providers D (rp_provider r) = Some p \<Longrightarrow> op_active p \<Longrightarrow>
     rp_id r = dk_count D + 1 \<Longrightarrow> rp_period_start r < rp_period_end r \<Longrightarrow>
     \<not> list_ex (overlaps (rp_period_start r) (rp_period_end r)) (dk_periods D (rp_project_id r)) \<Longrightarrow>
     (dk_periods D (rp_project_id r) \<noteq> [] \<longrightarrow> snd (last (dk_periods D (rp_project_id r))) \<le> rp_period_start r) \<Longrightarrow>
     rp_status r = ReportStatus.Pending \<Longrightarrow> rp_submitted_at r = now \<Longrightarrow>
     0 \<le> rp_carbon_sequestered r \<Longrightarrow> \<not> negative_metric (rp_biodiversity r) \<Longrightarrow>
     desk_step D (now, Some (rp_provider r, n))
       (dk_claim (rp_project_id r) (rp_period_start r, rp_period_end r)
         (dk_set_report (rp_id r) r ((dk_spend (rp_provider r) D)\<lparr>dk_count := rp_id r\<rparr>)))"
| k_verify: "n = dk_nonces D a \<Longrightarrow> is_active D a \<Longrightarrow> dk_reports D i = Some r \<Longrightarrow>
     rp_status r = ReportStatus.Pending \<Longrightarrow> a \<noteq> rp_provider r \<Longrightarrow>
     (\<And>c. dk_challenges D i = Some c \<Longrightarrow> ch_resolved c) \<Longrightarrow>
     D' = dk_add_verifier i a (dk_spend a D) \<Longrightarrow>
     desk_step D (now, Some (a, n))
       (if dk_threshold D \<le> vec_len (dk_verifiers D' i)
        then dk_set_report i (r\<lparr>rp_status := Verified, rp_verified_at := now\<rparr>) D' else D')"
| k_override: "n = dk_nonces D a \<Longrightarrow> dk_admin D = Some a \<Longrightarrow> dk_reports D i = Some r \<Longrightarrow>
     rp_status r = ReportStatus.Pending \<Longrightarrow> s = Verified \<or> s = ReportStatus.Rejected \<Longrightarrow>
     desk_step D (now, Some (a, n))
       (dk_set_report i (r\<lparr>rp_status := s, rp_verified_at := now\<rparr>) (dk_spend a D))"
| k_challenge: "n = dk_nonces D a \<Longrightarrow> dk_challenges D i = None \<Longrightarrow> dk_reports D i = Some r \<Longrightarrow>
     rp_status r = ReportStatus.Pending \<Longrightarrow> a \<noteq> rp_provider r \<Longrightarrow> ch_challenger c = a \<Longrightarrow> \<not> ch_resolved c \<Longrightarrow>
     desk_step D (now, Some (a, n))
       (dk_set_report i (r\<lparr>rp_status := Challenged\<rparr>) (dk_set_challenge i c (dk_spend a D)))"
| k_resolve: "n = dk_nonces D a \<Longrightarrow> dk_admin D = Some a \<Longrightarrow> finalized now i res (dk_spend a D) D' \<Longrightarrow>
     desk_step D (now, Some (a, n)) D'"
| k_vote: "n = dk_nonces D a \<Longrightarrow> is_active D a \<Longrightarrow> dk_challenges D i = Some c \<Longrightarrow> \<not> ch_resolved c \<Longrightarrow>
     dk_reports D i = Some r \<Longrightarrow> rp_status r = Challenged \<Longrightarrow> a \<noteq> rp_provider r \<Longrightarrow>
     a \<notin> set (dk_uphold D i) \<Longrightarrow> a \<notin> set (dk_reject D i) \<Longrightarrow> D1 = dk_vote i a up (dk_spend a D) \<Longrightarrow>
     (if supermajority_threshold (of_nat (active_providers D)) \<le>
           vec_len (if up then dk_uphold D1 i else dk_reject D1 i)
      then finalized now i (if up then Verified else ReportStatus.Rejected) D1 D' else D' = D1) \<Longrightarrow>
     desk_step D (now, Some (a, n)) D'"
| k_expire: "dk_challenges D i = Some c \<Longrightarrow> \<not> ch_resolved c \<Longrightarrow>
     unat (ch_submitted_at c) + unat CHALLENGE_TIMEOUT_SECONDS < unat now \<Longrightarrow>
     dk_reports D i = Some r \<Longrightarrow> rp_status r = Challenged \<Longrightarrow>
     desk_step D (now, None) (dk_set_report i (r\<lparr>rp_status := ReportStatus.Pending\<rparr>)
       (dk_set_challenge i (c\<lparr>ch_resolved := True\<rparr>) D))"
| k_propose: "n = dk_nonces D a \<Longrightarrow> dk_admin D = Some a \<Longrightarrow>
     desk_step D (now, Some (a, n)) ((dk_spend a D)\<lparr>dk_pending :=
       Some \<lparr>pa_candidate = c, pa_executable_at = now + ADMIN_TRANSFER_TIMELOCK_SECONDS\<rparr>\<rparr>)"
| k_cancel: "n = dk_nonces D a \<Longrightarrow> dk_admin D = Some a \<Longrightarrow>
     desk_step D (now, Some (a, n)) ((dk_spend a D)\<lparr>dk_pending := None\<rparr>)"
| k_accept: "n = dk_nonces D (pa_candidate p) \<Longrightarrow> dk_pending D = Some p \<Longrightarrow> pa_executable_at p \<le> now \<Longrightarrow>
     desk_step D (now, Some (pa_candidate p, n))
       ((dk_spend (pa_candidate p) D)\<lparr>dk_admin := Some (pa_candidate p), dk_pending := None\<rparr>)"
| k_other: "n = dk_nonces D a \<Longrightarrow> desk_step D (now, Some (a, n)) (dk_spend a D)"
| k_read: "desk_step D (now, None) D"

section \<open>Invariant\<close>

text \<open>
  Reports are numbered from 1; a report is challenged exactly while it has an open challenge; its
  verifiers are distinct registered providers other than its submitter; every provider votes at most
  once on a challenge; the listed providers are the
  registered ones, each once; the periods of a project's reports follow each other without overlap,
  and the newest of them ends where the kept history ends; and (as long as fewer than \<open>2 ^ 32\<close> calls
  were made) the signature threshold lies between 1 and the number of active providers.
\<close>

definition desk_ids :: "nat \<Rightarrow> desk \<Rightarrow> bool" where
  "desk_ids n D \<longleftrightarrow> unat (dk_count D) \<le> n \<and>
     (\<forall>i. dk_reports D i \<noteq> None \<longleftrightarrow> 1 \<le> unat i \<and> unat i \<le> unat (dk_count D)) \<and>
     (\<forall>i. dk_challenges D i \<noteq> None \<longrightarrow> dk_reports D i \<noteq> None) \<and>
     (\<forall>i. dk_reports D i = None \<longrightarrow> dk_verifiers D i = [])"

definition desk_status :: "desk \<Rightarrow> bool" where
  "desk_status D \<longleftrightarrow> (\<forall>i r. dk_reports D i = Some r \<longrightarrow>
     (rp_status r = Challenged \<longleftrightarrow> (\<exists>c. dk_challenges D i = Some c \<and> \<not> ch_resolved c)))"

definition desk_verifiers :: "desk \<Rightarrow> bool" where
  "desk_verifiers D \<longleftrightarrow> (\<forall>i r. dk_reports D i = Some r \<longrightarrow>
     distinct (dk_verifiers D i) \<and> rp_provider r \<notin> set (dk_verifiers D i) \<and>
     set (dk_verifiers D i) \<subseteq> dom (dk_providers D))"

definition desk_providers :: "nat \<Rightarrow> desk \<Rightarrow> bool" where
  "desk_providers n D \<longleftrightarrow> distinct (dk_plist D) \<and> set (dk_plist D) = dom (dk_providers D) \<and>
     length (dk_plist D) \<le> n"

definition desk_periods :: "desk \<Rightarrow> bool" where
  "desk_periods D \<longleftrightarrow>
     (\<forall>i r. dk_reports D i = Some r \<longrightarrow> rp_period_start r < rp_period_end r \<and>
        dk_periods D (rp_project_id r) \<noteq> [] \<and> rp_period_end r \<le> snd (last (dk_periods D (rp_project_id r)))) \<and>
     (\<forall>i j r q. dk_reports D i = Some r \<longrightarrow> dk_reports D j = Some q \<longrightarrow>
        rp_project_id r = rp_project_id q \<longrightarrow> i < j \<longrightarrow> rp_period_end r \<le> rp_period_start q)"

definition desk_threshold :: "nat \<Rightarrow> desk \<Rightarrow> bool" where
  "desk_threshold n D \<longleftrightarrow>
     (n < 2 ^ 32 \<longrightarrow> 1 \<le> unat (dk_threshold D) \<and> unat (dk_threshold D) \<le> max 1 (active_providers D))"

definition desk_votes :: "desk \<Rightarrow> bool" where
  "desk_votes D \<longleftrightarrow> (\<forall>i. distinct (dk_uphold D i @ dk_reject D i) \<and>
     set (dk_uphold D i @ dk_reject D i) \<subseteq> dom (dk_providers D))"

definition desk_inv :: "nat \<Rightarrow> desk \<Rightarrow> bool" where
  "desk_inv n D \<longleftrightarrow> desk_ids n D \<and> desk_status D \<and> desk_verifiers D \<and> desk_providers n D \<and>
     desk_periods D \<and> desk_threshold n D \<and> desk_votes D"

definition lists_of :: "('k, 'a list) pstore \<Rightarrow> 'k \<Rightarrow> 'a list" where
  "lists_of m k = unwrap_or (pget m k) []"

definition new_report ::
    "env \<Rightarrow> address \<Rightarrow> u64 \<Rightarrow> u64 \<Rightarrow> u64 \<Rightarrow> int \<Rightarrow> BiodiversityMetrics \<Rightarrow> symbol \<Rightarrow> bytes32 \<Rightarrow> u64 \<Rightarrow> bytes32 \<Rightarrow> Report" where
  "new_report env a pj t1 t2 carbon bio meth ev i h =
     \<lparr>rp_id = i, rp_provider = a, rp_project_id = pj, rp_project_metadata_hash = h,
       rp_period_start = t1, rp_period_end = t2, rp_carbon_sequestered = carbon, rp_biodiversity = bio,
       rp_methodology = meth, rp_ipfs_evidence_hash = ev, rp_status = ReportStatus.Pending,
       rp_submitted_at = timestamp env, rp_verified_at = 0\<rparr>"

text \<open>How any call changes a report: it appears with the next number, or keeps all that its provider submitted.\<close>

definition same_claim :: "Report \<Rightarrow> Report \<Rightarrow> bool" where
  "same_claim r r' \<longleftrightarrow> (\<exists>s v. r' = r\<lparr>rp_status := s, rp_verified_at := v\<rparr>)"

text \<open>What a report claims is never negative; nothing else of the state matters for this.\<close>

definition sound_report :: "Report \<Rightarrow> bool" where
  "sound_report r \<longleftrightarrow> 0 \<le> rp_carbon_sequestered r \<and> \<not> negative_metric (rp_biodiversity r)"

definition sound_reports :: "oracle_consumer \<Rightarrow> bool" where
  "sound_reports st \<longleftrightarrow> (\<forall>i r. pget (orc_reports st) i = Some r \<longrightarrow> sound_report r)"

text \<open>The administrator and the pending change of administrator are left alone.\<close>

definition same_office :: "desk \<Rightarrow> desk \<Rightarrow> bool" where
  "same_office D D' \<longleftrightarrow> dk_admin D' = dk_admin D \<and> dk_pending D' = dk_pending D"

section \<open>Refinement\<close>


lemma orc_bump_pget [storage_simps]: "pget (orc_bump env m k) = pget m"
  by (simp add: orc_bump_def storage_simps)

lemma orc_touch_pget [storage_simps]: "pget (orc_touch env m k) = pget m"
  by (simp add: orc_touch_def storage_simps)

lemma orc_write_pget [storage_simps]: "pget (orc_write env m k v) = (pget m)(k \<mapsto> v)"
  by (simp add: orc_write_def storage_simps)

lemma unwrap_or_upd: "(\<lambda>i. unwrap_or (if i = k then Some v else m i) d) = (\<lambda>i. unwrap_or (m i) d)(k := v)"
  by (auto simp: fun_eq_iff)

lemmas desk_defs = dk_spend_def dk_set_provider_def dk_set_report_def dk_set_challenge_def dk_resolve_def

lemma lists_of_simps [simp]:
  "lists_of (orc_write env m k v) = (lists_of m)(k := v)" "lists_of (orc_bump env m k) = lists_of m"
  "lists_of (orc_touch env m k) = lists_of m"
  by (simp_all add: fun_eq_iff lists_of_def storage_simps)

text \<open>How the desk changes with each field of the state.\<close>

lemma desk_of_upd [simp]:
  "desk_of (st\<lparr>orc_providers := m1\<rparr>) = (desk_of st)\<lparr>dk_providers := pget m1\<rparr>"
  "desk_of (st\<lparr>orc_reports := m2\<rparr>) = (desk_of st)\<lparr>dk_reports := pget m2\<rparr>"
  "desk_of (st\<lparr>orc_challenges := m3\<rparr>) = (desk_of st)\<lparr>dk_challenges := pget m3\<rparr>"
  "desk_of (st\<lparr>orc_provider_list := m4\<rparr>) = (desk_of st)\<lparr>dk_plist := lists_of m4 ()\<rparr>"
  "desk_of (st\<lparr>orc_report_periods := m5\<rparr>) = (desk_of st)\<lparr>dk_periods := lists_of m5\<rparr>"
  "desk_of (st\<lparr>orc_uphold_votes := m6\<rparr>) = (desk_of st)\<lparr>dk_uphold := lists_of m6\<rparr>"
  "desk_of (st\<lparr>orc_reject_votes := m6\<rparr>) = (desk_of st)\<lparr>dk_reject := lists_of m6\<rparr>"
  "desk_of (st\<lparr>orc_report_verifiers := m6\<rparr>) = (desk_of st)\<lparr>dk_verifiers := lists_of m6\<rparr>"
  "desk_of (st\<lparr>orc_signature_threshold := Some t\<rparr>) = (desk_of st)\<lparr>dk_threshold := t\<rparr>"
  "desk_of (st\<lparr>orc_report_count := Some w\<rparr>) = (desk_of st)\<lparr>dk_count := w\<rparr>"
  "desk_of (st\<lparr>orc_admin := x\<rparr>) = (desk_of st)\<lparr>dk_admin := x\<rparr>"
  "desk_of (st\<lparr>orc_pending_admin := pa\<rparr>) = (desk_of st)\<lparr>dk_pending := pa\<rparr>"
  by (simp_all add: desk_of_def lists_of_def fun_eq_iff)

lemma desk_of_other [simp]:
  "desk_of (oracle_publish e st) = desk_of st"
  "desk_of (st\<lparr>orc_locked_stake := n1\<rparr>) = desk_of st" "desk_of (st\<lparr>orc_report_locks := n2\<rparr>) = desk_of st"
  "desk_of (st\<lparr>orc_bond_balances := n1\<rparr>) = desk_of st" "desk_of (st\<lparr>orc_bond_locks := n1\<rparr>) = desk_of st"
  "desk_of (st\<lparr>orc_slash_history := n3\<rparr>) = desk_of st" "desk_of (st\<lparr>orc_project_reports := n4\<rparr>) = desk_of st"
  "desk_of (st\<lparr>orc_provider_report_counts := n5\<rparr>) = desk_of st"
  "desk_of (st\<lparr>orc_provider_challenges := n6\<rparr>) = desk_of st"
  "desk_of (st\<lparr>orc_verification_counts := n7\<rparr>) = desk_of st"
  "desk_of (st\<lparr>orc_project_registry_nonce := z\<rparr>) = desk_of st"
  "desk_of (st\<lparr>orc_project_registry := y\<rparr>) = desk_of st"
  by (simp_all add: desk_of_def oracle_publish_def)

lemma desk_reads:
  "pget (orc_providers st) = dk_providers (desk_of st)" "pget (orc_reports st) = dk_reports (desk_of st)"
  "pget (orc_challenges st) = dk_challenges (desk_of st)"
  "unwrap_or (pget (orc_provider_list st) ()) [] = dk_plist (desk_of st)"
  "unwrap_or (pget (orc_report_verifiers st) i) [] = dk_verifiers (desk_of st) i"
  "unwrap_or (pget (orc_uphold_votes st) i) [] = dk_uphold (desk_of st) i"
  "unwrap_or (pget (orc_reject_votes st) i) [] = dk_reject (desk_of st) i"
  "unwrap_or (pget (orc_report_periods st) i) [] = dk_periods (desk_of st) i"
  "lists_of (orc_provider_list st) () = dk_plist (desk_of st)"
  "lists_of (orc_report_verifiers st) = dk_verifiers (desk_of st)"
  "lists_of (orc_uphold_votes st) = dk_uphold (desk_of st)"
  "lists_of (orc_reject_votes st) = dk_reject (desk_of st)"
  "lists_of (orc_report_periods st) = dk_periods (desk_of st)"
  "unwrap_or (orc_signature_threshold st) 1 = dk_threshold (desk_of st)"
  "unwrap_or (orc_report_count st) 0 = dk_count (desk_of st)"
  "orc_admin st = dk_admin (desk_of st)" "orc_pending_admin st = dk_pending (desk_of st)"
  by (simp_all add: desk_of_def lists_of_def fun_eq_iff)

lemmas desk_calc = desk_reads desk_defs storage_simps

lemma foldl_count:
  "foldl (\<lambda>c a. if P a then c + 1 else c) (k :: 'l::len word) xs = k + of_nat (length (filter P xs))"
  by (induction xs arbitrary: k) auto

lemma active_provider_count_desk: "active_provider_count st = of_nat (active_providers (desk_of st))"
proof -
  have "(\<lambda>(count :: u32) addr. case dk_providers (desk_of st) addr of Some p \<Rightarrow> if op_active p then count + 1 else count
      | None \<Rightarrow> count) = (\<lambda>count addr. if is_active (desk_of st) addr then count + 1 else count)"
    by (auto simp: fun_eq_iff is_active_def split: option.splits)
  then show ?thesis
    by (simp add: active_provider_count_def desk_reads foldl_count active_providers_def)
qed

lemma reconcile_desk [simp]: "desk_of (reconcile_signature_threshold st) = dk_clamp (desk_of st)"
  by (simp add: reconcile_signature_threshold_def Let_def desk_reads active_provider_count_desk dk_clamp_def)

lemma oracle_consume_nonce_Ok:
  "oracle_consume_nonce env a n st = Ok st' \<Longrightarrow> n = dk_nonces (desk_of st) a \<and> desk_of st' = dk_spend a (desk_of st)"
  by (auto simp: oracle_consume_nonce_def oracle_get_nonce_def oracle_set_nonce_def Let_def result_simps desk_of_def
      dk_spend_def storage_simps unwrap_or_upd dest!: add_word_OkD split: if_splits)

lemma oracle_require_admin_Ok: "oracle_require_admin st a = Ok u \<longleftrightarrow> dk_admin (desk_of st) = Some a"
  by (auto simp: oracle_require_admin_def result_simps desk_reads)

lemma lock_release_desk:
  "lock_stake_for_report env a i x st = Ok st' \<Longrightarrow> desk_of st' = desk_of st"
  "release_report_lock env a i st = Ok st' \<Longrightarrow> desk_of st' = desk_of st"
  "charge_challenge_bond env a st = Ok (b, st') \<Longrightarrow> desk_of st' = desk_of st"
  "settle_challenge_bond env a y f st = Ok st' \<Longrightarrow> desk_of st' = desk_of st"
  by (auto simp: lock_stake_for_report_def release_report_lock_def charge_challenge_bond_def
      settle_challenge_bond_def result_simps Let_def split: if_splits)

lemma slash_provider_Ok:
  "slash_provider env a i st = Ok st' \<Longrightarrow> \<exists>p s. dk_providers (desk_of st) a = Some p \<and>
     desk_of st' = dk_clamp (dk_set_provider a (slashed s p) (desk_of st))"
  by (fastforce simp: slash_provider_def result_simps Let_def desk_calc slashed_def split: option.splits)

lemma revoke_desk: "revoke_reported_project env i st R = Ok (st', R') \<Longrightarrow> desk_of st' = desk_of st"
  by (auto simp: revoke_reported_project_def result_simps Let_def split: option.splits)

lemma finalize_challenge_Ok:
  assumes "finalize_challenge env i res st R = Ok (st', R')" and "res = Verified \<or> res = ReportStatus.Rejected"
  shows "finalized (timestamp env) i res (desk_of st) (desk_of st')"
proof -
  from assms(1) obtain c where c: "dk_challenges (desk_of st) i = Some c"
    by (auto simp: finalize_challenge_def result_simps desk_reads)
  show ?thesis
  proof (cases "ch_resolved c")
    case True
    with assms(1) c have "st' = st" by (auto simp: finalize_challenge_def result_simps desk_reads)
    with c True fin_done show ?thesis by simp
  next
    case False
    show ?thesis
    proof (cases "res = Verified")
      case True
      with assms(1) c False obtain r where "dk_reports (desk_of st) i = Some r"
        "desk_of st' = dk_resolve (timestamp env) i Verified c r (desk_of st)"
        by (auto simp: finalize_challenge_def result_simps Let_def desk_calc dest!: lock_release_desk(2,4))
      with True c False fin_upheld show ?thesis by simp
    next
      case nv: False
      with assms(2) have res: "res = ReportStatus.Rejected" by simp
      with assms(1) c False obtain r st1 st2 st3 where
        r: "dk_reports (desk_of st) i = Some r"
          "desk_of st1 = dk_resolve (timestamp env) i ReportStatus.Rejected c r (desk_of st)"
          "slash_provider env (rp_provider r) i st1 = Ok st2"
          "revoke_reported_project env (rp_project_id r) st2 R = Ok (st3, R')" "desk_of st' = desk_of st3"
        by (auto simp: finalize_challenge_def result_simps Let_def desk_calc dest!: lock_release_desk(2,4))
      from slash_provider_Ok [OF r(3)] obtain p s where p: "dk_providers (desk_of st1) (rp_provider r) = Some p"
        "desk_of st2 = dk_clamp (dk_set_provider (rp_provider r) (slashed s p) (desk_of st1))" by blast
      then have "dk_providers (desk_of st) (rp_provider r) = Some p" using r(2) by (simp add: desk_defs)
      from fin_rejected [OF c False r(1) this] r p revoke_desk [OF r(4)] res show ?thesis by simp
    qed
  qed
qed

lemmas oracle_dests = oracle_consume_nonce_Ok lock_release_desk

lemma active_cong:
  "dk_providers D' = dk_providers D \<Longrightarrow> is_active D' = is_active D"
  "dk_providers D' = dk_providers D \<Longrightarrow> dk_plist D' = dk_plist D \<Longrightarrow> active_providers D' = active_providers D"
proof -
  assume "dk_providers D' = dk_providers D"
  then show *: "is_active D' = is_active D" by (simp add: is_active_def fun_eq_iff)
  assume "dk_plist D' = dk_plist D"
  with * show "active_providers D' = active_providers D" by (simp add: active_providers_def)
qed

lemma dk_spend_fields [simp]:
  "dk_admin (dk_spend a D) = dk_admin D" "dk_pending (dk_spend a D) = dk_pending D"
  "dk_threshold (dk_spend a D) = dk_threshold D" "dk_count (dk_spend a D) = dk_count D"
  "dk_providers (dk_spend a D) = dk_providers D" "dk_plist (dk_spend a D) = dk_plist D"
  "dk_reports (dk_spend a D) = dk_reports D" "dk_challenges (dk_spend a D) = dk_challenges D"
  "dk_verifiers (dk_spend a D) = dk_verifiers D" "dk_uphold (dk_spend a D) = dk_uphold D"
  "dk_reject (dk_spend a D) = dk_reject D" "dk_periods (dk_spend a D) = dk_periods D"
  "dk_nonces (dk_spend a D) = (dk_nonces D)(a := dk_nonces D a + 1)"
  by (simp_all add: dk_spend_def)

lemma dk_spend_active [simp]: "is_active (dk_spend a D) = is_active D" "active_providers (dk_spend a D) = active_providers D"
  by (rule active_cong; simp)+

lemma k_register_sim: "register_provider env a q m n st = Ok st' \<Longrightarrow>
  desk_step (desk_of st) (timestamp env, Some (a, n)) (desk_of st')"
proof -
  assume "register_provider env a q m n st = Ok st'"
  then obtain st1 where 1: "oracle_consume_nonce env a n st = Ok st1" "dk_admin (desk_of st1) = Some a"
    "dk_providers (desk_of st1) q = None"
    "desk_of st' = dk_set_provider q \<lparr>op_address = q, op_methodology = m, op_stake = 0, op_active = True,
      op_registered_at = timestamp env\<rparr> ((desk_of st1)\<lparr>dk_plist := dk_plist (desk_of st1) @ [q]\<rparr>)"
    by (auto simp: register_provider_def result_simps Let_def oracle_require_admin_Ok desk_reads
        dk_set_provider_def storage_simps split: if_splits)
  with oracle_consume_nonce_Ok [OF 1(1)] k_register [of n "desk_of st" a q] show ?thesis by simp
qed

lemma k_remove_sim: "remove_provider env a q n st = Ok st' \<Longrightarrow>
  desk_step (desk_of st) (timestamp env, Some (a, n)) (desk_of st')"
proof -
  assume "remove_provider env a q n st = Ok st'"
  then obtain st1 p where 1: "oracle_consume_nonce env a n st = Ok st1" "dk_admin (desk_of st1) = Some a"
    "dk_providers (desk_of st1) q = Some p"
    "desk_of st' = dk_clamp (dk_set_provider q (p\<lparr>op_active := False\<rparr>) (desk_of st1))"
    by (auto simp: remove_provider_def result_simps Let_def oracle_require_admin_Ok desk_reads
        dk_set_provider_def storage_simps)
  with oracle_consume_nonce_Ok [OF 1(1)] k_remove [of n "desk_of st" a q] show ?thesis by simp
qed

lemma k_threshold_sim: "set_signature_threshold env a t n st = Ok st' \<Longrightarrow>
  desk_step (desk_of st) (timestamp env, Some (a, n)) (desk_of st')"
  by (auto simp: set_signature_threshold_def result_simps Let_def oracle_require_admin_Ok not_less
      active_provider_count_desk dest!: oracle_consume_nonce_Ok split: if_splits intro!: k_threshold)

lemma k_stake_sim:
  "add_stake env a x n st = Ok st' \<Longrightarrow> desk_step (desk_of st) (timestamp env, Some (a, n)) (desk_of st')"
  "withdraw_stake env a x n st = Ok st' \<Longrightarrow> desk_step (desk_of st) (timestamp env, Some (a, n)) (desk_of st')"
proof -
  assume "add_stake env a x n st = Ok st'"
  then obtain st1 p s where 1: "oracle_consume_nonce env a n st = Ok st1" "dk_providers (desk_of st1) a = Some p"
    "desk_of st' = dk_set_provider a (p\<lparr>op_stake := s\<rparr>) (desk_of st1)"
    by (auto simp: add_stake_def result_simps Let_def desk_reads dk_set_provider_def storage_simps split: if_splits)
  with oracle_consume_nonce_Ok [OF 1(1)] k_stake [of n "desk_of st" a]
  show "desk_step (desk_of st) (timestamp env, Some (a, n)) (desk_of st')" by simp
next
  assume "withdraw_stake env a x n st = Ok st'"
  then obtain st1 p s where 1: "oracle_consume_nonce env a n st = Ok st1" "dk_providers (desk_of st1) a = Some p"
    "desk_of st' = dk_set_provider a (p\<lparr>op_stake := s\<rparr>) (desk_of st1)"
    by (auto simp: withdraw_stake_def result_simps Let_def desk_reads dk_set_provider_def storage_simps split: if_splits)
  with oracle_consume_nonce_Ok [OF 1(1)] k_stake [of n "desk_of st" a]
  show "desk_step (desk_of st) (timestamp env, Some (a, n)) (desk_of st')" by simp
qed

lemma submit_report_raw:
  assumes "submit_report env a pj t1 t2 carbon bio meth ev n st R = Ok (i, st', R')"
  shows "\<exists>st1 p reg pl st2 k. oracle_consume_nonce env a n st = Ok st1 \<and>
    pget (orc_providers st1) a = Some p \<and> op_active p \<and> t1 < t2 \<and> 0 \<le> carbon \<and> \<not> negative_metric bio \<and>
    orc_project_registry st1 = Some reg \<and> linked_project env reg pj R = Ok (pl, R') \<and>
    pl_status pl = ProjectStatus.Approved \<and>
    \<not> list_ex (overlaps t1 t2) (unwrap_or (pget (orc_report_periods st1) pj) []) \<and>
    (unwrap_or (pget (orc_report_periods st1) pj) [] = [] \<or>
       snd (last (unwrap_or (pget (orc_report_periods st1) pj) [])) \<le> t1) \<and>
    add_word env (unwrap_or (orc_report_count st1) 0) 1 = (Ok i :: (OracleError, u64) result) \<and>
    lock_stake_for_report env a i (op_stake p) (st1\<lparr>orc_providers := orc_bump env (orc_providers st1) a,
       orc_report_count := Some i, orc_reports := orc_write env (orc_reports st1) i
         (new_report env a pj t1 t2 carbon bio meth ev i (pl_metadata_ipfs_hash pl))\<rparr>) = Ok st2 \<and>
    st' = oracle_publish (report_submitted i a pj)
      (st2\<lparr>orc_project_reports := orc_write env (orc_project_reports st2) pj
             (unwrap_or (pget (orc_project_reports st2) pj) [] @ [i]),
           orc_report_periods := orc_write env (orc_report_periods st2) pj
             (push_period (unwrap_or (pget (orc_report_periods st2) pj) []) (t1, t2)),
           orc_provider_report_counts := orc_write env (orc_provider_report_counts st2) a k\<rparr>)"
  using assms
  by (clarsimp simp: submit_report_def result_simps Let_def not_le not_less new_report_def split: if_splits)
    auto

lemma k_submit_sim:
  assumes "submit_report env a pj t1 t2 carbon bio meth ev n st R = Ok (i, st', R')"
  shows "desk_step (desk_of st) (timestamp env, Some (a, n)) (desk_of st')"
  using submit_report_raw [OF assms]
proof (elim exE conjE)
  fix st1 p pl reg st2 k
  let ?r = "new_report env a pj t1 t2 carbon bio meth ev i (pl_metadata_ipfs_hash pl)"
  assume 0: "oracle_consume_nonce env a n st = Ok st1"
    "pget (orc_providers st1) a = Some p" "op_active p" "t1 < t2"
    and content: "0 \<le> carbon" "\<not> negative_metric bio"
    and 00: "\<not> list_ex (overlaps t1 t2) (unwrap_or (pget (orc_report_periods st1) pj) [])"
    "unwrap_or (pget (orc_report_periods st1) pj) [] = [] \<or>
       snd (last (unwrap_or (pget (orc_report_periods st1) pj) [])) \<le> t1"
    "add_word env (unwrap_or (orc_report_count st1) 0) 1 = (Ok i :: (OracleError, u64) result)"
    "lock_stake_for_report env a i (op_stake p) (st1\<lparr>orc_providers := orc_bump env (orc_providers st1) a,
       orc_report_count := Some i, orc_reports := orc_write env (orc_reports st1) i ?r\<rparr>) = Ok st2"
    and fin: "st' = oracle_publish (report_submitted i a pj)
      (st2\<lparr>orc_project_reports := orc_write env (orc_project_reports st2) pj
             (unwrap_or (pget (orc_project_reports st2) pj) [] @ [i]),
           orc_report_periods := orc_write env (orc_report_periods st2) pj
             (push_period (unwrap_or (pget (orc_report_periods st2) pj) []) (t1, t2)),
           orc_provider_report_counts := orc_write env (orc_provider_report_counts st2) a k\<rparr>)"
  have st2: "desk_of st2 = dk_set_report i ?r ((desk_of st1)\<lparr>dk_count := i\<rparr>)"
    using lock_release_desk(1) [OF 00(4)] by (simp add: desk_calc)
  have d: "desk_of st' = dk_claim pj (t1, t2) (dk_set_report i ?r ((desk_of st1)\<lparr>dk_count := i\<rparr>))"
    unfolding fin dk_claim_def st2 [symmetric] by (simp add: desk_reads)
  have 1: "dk_providers (desk_of st1) a = Some p"
    "\<not> list_ex (overlaps t1 t2) (dk_periods (desk_of st1) pj)"
    "dk_periods (desk_of st1) pj \<noteq> [] \<longrightarrow> snd (last (dk_periods (desk_of st1) pj)) \<le> t1"
    "i = dk_count (desk_of st1) + 1"
    using 0 00 by (auto simp: desk_reads dest!: add_word_OkD)
  define r where "r = ?r"
  then have f: "rp_provider r = a" "rp_id r = i" "rp_period_start r = t1" "rp_period_end r = t2" "rp_project_id r = pj"
    "rp_status r = ReportStatus.Pending" "rp_submitted_at r = timestamp env"
    "rp_carbon_sequestered r = carbon" "rp_biodiversity r = bio" by (simp_all add: new_report_def)
  note c = oracle_consume_nonce_Ok [OF 0(1)]
  show ?thesis
    using k_submit [of n "desk_of st" r p "timestamp env"] 1 0(3,4) content c d [folded r_def] by (simp add: f)
qed

lemma verify_report_Ok:
  assumes "verify_report env a i n st = Ok st'" and "D = dk_add_verifier i a (dk_spend a (desk_of st))"
  shows "\<exists>r. n = dk_nonces (desk_of st) a \<and> is_active (desk_of st) a \<and> dk_reports (desk_of st) i = Some r \<and>
    rp_status r = ReportStatus.Pending \<and> a \<noteq> rp_provider r \<and>
    (\<forall>c. dk_challenges (desk_of st) i = Some c \<longrightarrow> ch_resolved c) \<and>
    desk_of st' = (if dk_threshold (desk_of st) \<le> vec_len (dk_verifiers D i)
      then dk_set_report i (r\<lparr>rp_status := Verified, rp_verified_at := timestamp env\<rparr>) D else D)"
proof -
  from assms obtain p st1 r where 0: "pget (orc_providers st) a = Some p" "op_active p"
    "oracle_consume_nonce env a n (st\<lparr>orc_providers := orc_bump env (orc_providers st) a\<rparr>) = Ok st1"
    "pget (orc_reports st1) i = Some r" "rp_status r = ReportStatus.Pending"
    "\<not> (case pget (orc_challenges st1) i of Some c \<Rightarrow> \<not> ch_resolved c | None \<Rightarrow> False)" "a \<noteq> rp_provider r"
    by (auto simp: verify_report_def result_simps Let_def split: if_splits prod.splits)
  note c = oracle_consume_nonce_Ok [OF 0(3)]
  have D: "D = dk_add_verifier i a (desk_of st1)" using c assms(2) by (simp add: desk_reads storage_simps)
  have v: "fst (add_verifier env i a st1) = dk_verifiers D i" "desk_of (snd (add_verifier env i a st1)) = D"
    by (auto simp: D add_verifier_def Let_def dk_add_verifier_def desk_reads fun_eq_iff)
  have "desk_of st' = (if dk_threshold (desk_of st) \<le> vec_len (dk_verifiers D i)
        then dk_set_report i (r\<lparr>rp_status := Verified, rp_verified_at := timestamp env\<rparr>) D else D)"
    using assms(1) 0 v c
    by (auto simp: D verify_report_def result_simps Let_def desk_calc dk_add_verifier_def
        dest!: lock_release_desk(2) split: if_splits prod.splits)
  moreover have "is_active (desk_of st) a" using 0(1,2) by (simp add: is_active_def desk_reads)
  moreover have "ch_resolved c" if "dk_challenges (desk_of st) i = Some c" for c
    using 0(6) that c by (simp add: desk_calc)
  ultimately show ?thesis using c 0 by (simp add: desk_calc)
qed

lemma k_verify_sim:
  "verify_report env a i n st = Ok st' \<Longrightarrow> desk_step (desk_of st) (timestamp env, Some (a, n)) (desk_of st')"
  using k_verify [of n "desk_of st" a i _ "dk_add_verifier i a (dk_spend a (desk_of st))" "timestamp env"]
    verify_report_Ok [OF _ refl, of env a i n st st'] by auto

lemma k_override_sim:
  assumes "admin_override_report env a i s n st = Ok st'"
  shows "desk_step (desk_of st) (timestamp env, Some (a, n)) (desk_of st')"
proof -
  from assms obtain st1 r where 1: "oracle_consume_nonce env a n st = Ok st1" "dk_admin (desk_of st1) = Some a"
    "s = Verified \<or> s = ReportStatus.Rejected" "dk_reports (desk_of st1) i = Some r"
    "rp_status r = ReportStatus.Pending"
    "desk_of st' = dk_set_report i (r\<lparr>rp_status := s, rp_verified_at := timestamp env\<rparr>) (desk_of st1)"
    by (auto simp: admin_override_report_def result_simps Let_def oracle_require_admin_Ok desk_calc split: if_splits)
  with oracle_consume_nonce_Ok [OF 1(1)] k_override [of n "desk_of st" a i r s] show ?thesis by simp
qed

lemma k_challenge_sim:
  assumes "challenge_report env a i h n st = Ok st'"
  shows "desk_step (desk_of st) (timestamp env, Some (a, n)) (desk_of st')"
proof -
  let ?c = "\<lambda>bond. \<lparr>ch_report_id = i, ch_challenger = a, ch_counter_evidence_hash = h,
    ch_submitted_at = timestamp env, ch_resolved = False, ch_resolution = 0, ch_bond = bond\<rparr>"
  from assms obtain st1 r bond where 1: "oracle_consume_nonce env a n st = Ok st1"
    "dk_challenges (desk_of st1) i = None" "dk_reports (desk_of st1) i = Some r" "rp_status r = ReportStatus.Pending"
    "a \<noteq> rp_provider r"
    "desk_of st' = dk_set_report i (r\<lparr>rp_status := Challenged\<rparr>) (dk_set_challenge i (?c bond) (desk_of st1))"
    by (auto simp: challenge_report_def result_simps Let_def desk_calc dest!: lock_release_desk(3)
        split: if_splits option.splits)
  with oracle_consume_nonce_Ok [OF 1(1)] k_challenge [of n "desk_of st" a i r "?c bond"] show ?thesis by simp
qed

lemma k_resolve_sim:
  assumes "resolve_challenge env a i res n st R = Ok (st', R')"
  shows "desk_step (desk_of st) (timestamp env, Some (a, n)) (desk_of st')"
proof -
  from assms obtain st1 where 1: "oracle_consume_nonce env a n st = Ok st1" "dk_admin (desk_of st1) = Some a"
    "res = Verified \<or> res = ReportStatus.Rejected" "finalize_challenge env i res st1 R = Ok (st', R')"
    by (auto simp: resolve_challenge_def result_simps oracle_require_admin_Ok split: if_splits)
  with oracle_consume_nonce_Ok [OF 1(1)] finalize_challenge_Ok [OF 1(4,3)] show ?thesis
    by (intro k_resolve) auto
qed

lemma vote_Ok:
  assumes "resolve_challenge_by_verifier env a i up n st R = Ok (st', R')"
    and "D = dk_vote i a up (dk_spend a (desk_of st))"
  shows "\<exists>c r. n = dk_nonces (desk_of st) a \<and> is_active (desk_of st) a \<and> dk_challenges (desk_of st) i = Some c \<and>
    \<not> ch_resolved c \<and> dk_reports (desk_of st) i = Some r \<and> rp_status r = Challenged \<and> a \<noteq> rp_provider r \<and>
    a \<notin> set (dk_uphold (desk_of st) i) \<and> a \<notin> set (dk_reject (desk_of st) i) \<and>
    (if supermajority_threshold (of_nat (active_providers (desk_of st))) \<le>
          vec_len (if up then dk_uphold D i else dk_reject D i)
     then finalized (timestamp env) i (if up then Verified else ReportStatus.Rejected) D (desk_of st')
     else desk_of st' = D)"
proof -
  let ?cast = "\<lambda>st. oracle_publish (challenge_vote i a up)
     (if up then st\<lparr>orc_uphold_votes := orc_write env (orc_uphold_votes st) i (dk_uphold (desk_of st) i @ [a])\<rparr>
      else st\<lparr>orc_reject_votes := orc_write env (orc_reject_votes st) i (dk_reject (desk_of st) i @ [a])\<rparr>)"
  from assms(1) obtain st1 p c r where 0: "oracle_consume_nonce env a n st = Ok st1"
    "dk_providers (desk_of st1) a = Some p" "op_active p" "dk_challenges (desk_of st1) i = Some c" "\<not> ch_resolved c"
    "dk_reports (desk_of st1) i = Some r" "rp_status r = Challenged" "a \<noteq> rp_provider r"
    "a \<notin> set (dk_uphold (desk_of st1) i)" "a \<notin> set (dk_reject (desk_of st1) i)"
    by (auto simp: resolve_challenge_by_verifier_def result_simps Let_def desk_calc split: if_split_asm)
  note c = oracle_consume_nonce_Ok [OF 0(1)]
  define st2 where "st2 = ?cast (st1\<lparr>orc_providers := orc_bump env (orc_providers st1) a\<rparr>)"
  have last: "(if supermajority_threshold (active_provider_count st2) \<le>
        vec_len (if up then dk_uphold (desk_of st1) i @ [a] else dk_reject (desk_of st1) i @ [a])
      then finalize_challenge env i (if up then Verified else ReportStatus.Rejected) st2 R else Ok (st2, R)) = Ok (st', R')"
    using assms(1) 0 unfolding st2_def
    by (cases up) (simp_all add: resolve_challenge_by_verifier_def result_simps Let_def desk_calc split: if_splits)
  have D2: "desk_of st2 = D"
    unfolding assms(2) using c by (simp add: st2_def dk_vote_def desk_reads storage_simps)
  have act: "active_provider_count st2 = of_nat (active_providers (desk_of st))"
    unfolding active_provider_count_desk D2 assms(2) by (subst active_cong(2) [of _ "desk_of st"]) (simp_all add: dk_vote_def)
  have votes: "(if up then dk_uphold (desk_of st1) i @ [a] else dk_reject (desk_of st1) i @ [a]) =
    (if up then dk_uphold (desk_of st2) i else dk_reject (desk_of st2) i)"
    unfolding D2 assms(2) using c by (simp add: dk_vote_def)
  have fin: "if supermajority_threshold (of_nat (active_providers (desk_of st))) \<le>
        vec_len (if up then dk_uphold (desk_of st2) i else dk_reject (desk_of st2) i)
      then finalized (timestamp env) i (if up then Verified else ReportStatus.Rejected) (desk_of st2) (desk_of st')
      else desk_of st' = desk_of st2"
    using last [unfolded act votes] finalize_challenge_Ok [of env i _ st2 R st' R'] by (auto split: if_splits)
  have "is_active (desk_of st) a" using 0(2,3) c by (simp add: is_active_def)
  with fin 0 c show ?thesis by (auto simp: D2)
qed

lemma k_vote_sim:
  "resolve_challenge_by_verifier env a i up n st R = Ok (st', R') \<Longrightarrow>
     desk_step (desk_of st) (timestamp env, Some (a, n)) (desk_of st')"
  by (drule vote_Ok [OF _ refl], elim exE conjE, rule k_vote) (assumption | rule refl)+

lemma k_expire_sim:
  assumes "expire_stale_challenge env i st = Ok st'"
  shows "desk_step (desk_of st) (timestamp env, None) (desk_of st')"
proof -
  from assms obtain c where c: "dk_challenges (desk_of st) i = Some c"
    by (auto simp: expire_stale_challenge_def result_simps desk_reads)
  show ?thesis
  proof (cases "ch_resolved c")
    case True
    with assms c have "st' = st" by (simp add: expire_stale_challenge_def result_simps desk_reads)
    with k_read show ?thesis by simp
  next
    case False
    with assms c obtain r where "dk_reports (desk_of st) i = Some r" "rp_status r = Challenged"
      "\<not> saturating_sub_u64 (timestamp env) (ch_submitted_at c) \<le> CHALLENGE_TIMEOUT_SECONDS"
      "desk_of st' = dk_set_report i (r\<lparr>rp_status := ReportStatus.Pending\<rparr>)
         (dk_set_challenge i (c\<lparr>ch_resolved := True\<rparr>) (desk_of st))"
      by (auto simp: expire_stale_challenge_def result_simps Let_def desk_calc dest!: lock_release_desk(4)
          split: if_splits)
    with c False k_expire [of "desk_of st" i c "timestamp env" r] show ?thesis
      by (simp add: saturating_sub_u64_le)
  qed
qed

lemma k_other_sim:
  "deposit_challenge_bond env a x n st = Ok st' \<Longrightarrow> desk_step (desk_of st) (timestamp env, Some (a, n)) (desk_of st')"
  "withdraw_challenge_bond env a x n st = Ok st' \<Longrightarrow> desk_step (desk_of st) (timestamp env, Some (a, n)) (desk_of st')"
  "set_project_registry env a q n st = Ok st' \<Longrightarrow> desk_step (desk_of st) (timestamp env, Some (a, n)) (desk_of st')"
  by (auto simp: deposit_challenge_bond_def withdraw_challenge_bond_def set_project_registry_def result_simps Let_def
      dest!: oracle_consume_nonce_Ok split: if_splits intro!: k_other)

lemma k_admin_sim:
  "oracle_propose_admin_transfer env a q n st = Ok st' \<Longrightarrow>
     desk_step (desk_of st) (timestamp env, Some (a, n)) (desk_of st')"
  "oracle_cancel_admin_transfer env a n st = Ok st' \<Longrightarrow>
     desk_step (desk_of st) (timestamp env, Some (a, n)) (desk_of st')"
  "oracle_accept_admin_transfer env a n st = Ok st' \<Longrightarrow>
     desk_step (desk_of st) (timestamp env, Some (a, n)) (desk_of st')"
proof -
  assume "oracle_propose_admin_transfer env a q n st = Ok st'"
  then show "desk_step (desk_of st) (timestamp env, Some (a, n)) (desk_of st')"
    by (auto simp: oracle_propose_admin_transfer_def result_simps oracle_require_admin_Ok
        dest!: oracle_consume_nonce_Ok add_word_OkD intro!: k_propose)
next
  assume "oracle_cancel_admin_transfer env a n st = Ok st'"
  then show "desk_step (desk_of st) (timestamp env, Some (a, n)) (desk_of st')"
    by (auto simp: oracle_cancel_admin_transfer_def result_simps oracle_require_admin_Ok
        dest!: oracle_consume_nonce_Ok split: if_splits intro!: k_cancel)
next
  assume "oracle_accept_admin_transfer env a n st = Ok st'"
  then obtain st1 p where 1: "oracle_consume_nonce env a n st = Ok st1" "dk_pending (desk_of st1) = Some p"
    "a = pa_candidate p" "pa_executable_at p \<le> timestamp env"
    "desk_of st' = (desk_of st1)\<lparr>dk_admin := Some a, dk_pending := None\<rparr>"
    by (auto simp: oracle_accept_admin_transfer_def result_simps desk_reads not_less split: if_splits)
  with oracle_consume_nonce_Ok [OF 1(1)] k_accept [of n "desk_of st" p "timestamp env"]
  show "desk_step (desk_of st) (timestamp env, Some (a, n)) (desk_of st')" by simp
qed

lemma collect_challenges_desk: "desk_of (snd (collect_challenges env is acc st)) = desk_of st"
  by (induction env "is" acc st rule: collect_challenges.induct)
    (auto simp: desk_reads storage_simps split: option.splits)

lemma reads_desk:
  "get_provider env a st = Ok (p, st') \<Longrightarrow> desk_of st' = desk_of st"
  "get_report env i st = Ok (r, st') \<Longrightarrow> desk_of st' = desk_of st"
  "get_challenge env i st = Ok (c, st') \<Longrightarrow> desk_of st' = desk_of st"
  "get_provider_stats env a st = Ok (ps, st') \<Longrightarrow> desk_of st' = desk_of st"
  "desk_of (snd (list_providers env st)) = desk_of st" "desk_of (snd (get_project_reports env i st)) = desk_of st"
  "desk_of (snd (get_verification_count env i st)) = desk_of st"
  "desk_of (snd (get_report_verifiers env i st)) = desk_of st"
  "desk_of (snd (get_locked_stake env a st)) = desk_of st" "desk_of (snd (get_slash_history env a st)) = desk_of st"
  "desk_of (snd (get_challenge_history env a st)) = desk_of st"
  "desk_of (snd (get_challenge_bond_balance env a st)) = desk_of st"
  "desk_of (snd (get_locked_challenge_bond env a st)) = desk_of st"
  "desk_of (snd (get_challenge_votes env i st)) = desk_of st"
  by (auto simp: get_provider_def get_report_def get_challenge_def get_provider_stats_def list_providers_def
      get_project_reports_def get_verification_count_def get_report_verifiers_def get_locked_stake_def
      get_slash_history_def get_challenge_history_def collect_challenges_desk get_challenge_bond_balance_def
      get_locked_challenge_bond_def get_challenge_votes_def result_simps Let_def desk_reads storage_simps)

lemma oracle_step_desk: "oracle_step E s l t \<Longrightarrow> desk_step (desk_of (fst s)) l (desk_of (fst t))"
proof (induction rule: oracle_step.induct)
  case (step_oracle_read st' env st i a R)
  then have "desk_of st' = desk_of st" using reads_desk by auto
  with k_read show ?case by simp
qed (use reads_desk k_read in \<open>auto intro: k_register_sim k_remove_sim k_threshold_sim k_stake_sim k_submit_sim k_verify_sim
      k_override_sim k_challenge_sim k_resolve_sim k_vote_sim k_expire_sim k_other_sim k_admin_sim\<close>)


section \<open>Preservation of the invariant\<close>

lemmas desk_parts = dk_spend_def dk_set_provider_def dk_set_report_def dk_set_challenge_def dk_resolve_def
  dk_clamp_def dk_vote_def dk_add_verifier_def dk_claim_def

text \<open>What a resolution leaves alone.\<close>

lemma finalized_frame:
  assumes "finalized now i res D D'"
  shows "dk_count D' = dk_count D" "dk_plist D' = dk_plist D" "dk_verifiers D' = dk_verifiers D"
    "dk_periods D' = dk_periods D" "dk_nonces D' = dk_nonces D" "dk_admin D' = dk_admin D"
    "dk_pending D' = dk_pending D" "dom (dk_reports D') = dom (dk_reports D)"
    "dom (dk_challenges D') = dom (dk_challenges D)" "dom (dk_providers D') = dom (dk_providers D)"
    "dk_uphold D' = dk_uphold D" "dk_reject D' = dk_reject D"
  using assms by (cases rule: finalized.cases; force simp: desk_parts)+

lemma same_claim_fields:
  "same_claim r r' \<Longrightarrow> rp_id r' = rp_id r \<and> rp_provider r' = rp_provider r \<and> rp_project_id r' = rp_project_id r \<and>
     rp_period_start r' = rp_period_start r \<and> rp_period_end r' = rp_period_end r \<and>
     rp_submitted_at r' = rp_submitted_at r \<and> rp_carbon_sequestered r' = rp_carbon_sequestered r \<and>
     rp_biodiversity r' = rp_biodiversity r"
  by (auto simp: same_claim_def)

lemma same_claim_refl [simp]: "same_claim r r"
  unfolding same_claim_def by (intro exI [of _ "rp_status r"] exI [of _ "rp_verified_at r"]) simp

lemma same_claim_trans: "same_claim r r' \<Longrightarrow> same_claim r' r'' \<Longrightarrow> same_claim r r''"
  unfolding same_claim_def by (elim exE) (simp, blast)

lemma same_claim_status [simp]: "same_claim r (r\<lparr>rp_status := s, rp_verified_at := v\<rparr>)" "same_claim r (r\<lparr>rp_status := s\<rparr>)"
  unfolding same_claim_def by (blast, intro exI [of _ s] exI [of _ "rp_verified_at r"]) simp

lemma finalized_report:
  assumes "finalized now i res D D'" and "dk_reports D' j = Some r'"
  shows "\<exists>r. dk_reports D j = Some r \<and>
    (r' = r \<or> j = i \<and> (\<exists>c. dk_challenges D i = Some c \<and> \<not> ch_resolved c) \<and>
       (res = Verified \<or> res = ReportStatus.Rejected) \<and> rp_status r' = res \<and> same_claim r r')"
  using assms by (cases rule: finalized.cases) (auto simp: desk_parts split: if_splits)

lemma finalized_same_claim:
  "finalized now i res D D' \<Longrightarrow> dk_reports D' j = Some r' \<Longrightarrow> \<exists>r. dk_reports D j = Some r \<and> same_claim r r'"
  using finalized_report by fastforce

lemma desk_step_report:
  assumes "desk_step D l D'" and "dk_reports D' j = Some r'"
  shows "(\<exists>r. dk_reports D j = Some r \<and> same_claim r r') \<or>
    (j = dk_count D + 1 \<and> dk_count D' = j \<and> rp_status r' = ReportStatus.Pending \<and>
     0 \<le> rp_carbon_sequestered r' \<and> \<not> negative_metric (rp_biodiversity r'))"
  using assms
proof (cases rule: desk_step.cases)
  case (k_resolve n a now i res)
  with finalized_same_claim [OF k_resolve(4) assms(2)] show ?thesis by simp
next
  case (k_vote n a i c r D1 up now)
  have "\<exists>r. dk_reports D1 j = Some r \<and> same_claim r r'"
    using k_vote(12) assms(2) finalized_same_claim by (fastforce split: if_splits)
  with k_vote(11) show ?thesis by (auto simp: desk_parts split: if_splits)
qed (use assms(2) in \<open>auto simp: desk_parts split: if_splits\<close>)

lemma sound_reports_step:
  assumes "oracle_step E (st, R) l (st', R')" and "sound_reports st"
  shows "sound_reports st'"
  unfolding sound_reports_def
proof (intro allI impI)
  fix j r' assume "pget (orc_reports st') j = Some r'"
  with desk_step_report [OF oracle_step_desk [OF assms(1)], of j r'] assms(2) show "sound_report r'"
    by (auto simp: desk_reads sound_reports_def sound_report_def dest: same_claim_fields)
qed

lemma sound_reports_init: "sound_reports (oracle_constructor a)"
  by (simp add: sound_reports_def oracle_constructor_def storage_simps)

lemma desk_step_keeps:
  assumes "desk_step D l D'"
  shows "dom (dk_reports D) \<subseteq> dom (dk_reports D')" and "dom (dk_providers D) \<subseteq> dom (dk_providers D')"
    and "dom (dk_challenges D) \<subseteq> dom (dk_challenges D')"
  using assms
  by (cases rule: desk_step.cases; force simp: desk_parts dest: finalized_frame(8-10) split: if_splits)+

lemma desk_step_counts:
  assumes "desk_step D l D'"
  shows "dk_count D' = dk_count D \<and> dom (dk_reports D') = dom (dk_reports D) \<or>
    dk_count D' = dk_count D + 1 \<and> dom (dk_reports D') = insert (dk_count D + 1) (dom (dk_reports D))"
  using assms
proof (cases rule: desk_step.cases)
  case (k_resolve n a now i res)
  with finalized_frame [OF k_resolve(4)] show ?thesis by simp
next
  case (k_vote n a i c r D1 up now)
  have "dk_count D' = dk_count D1 \<and> dom (dk_reports D') = dom (dk_reports D1)"
    using k_vote(12) finalized_frame [of now i _ D1 D'] by (auto split: if_splits)
  with k_vote(11) show ?thesis by (simp add: desk_parts)
qed (auto simp: desk_parts split: if_splits)

lemma desk_step_indexed:
  assumes "desk_step D l D'"
  shows "dom (dk_challenges D') \<subseteq> dom (dk_challenges D) \<union> dom (dk_reports D) \<and>
    (\<forall>j. dk_verifiers D' j \<noteq> dk_verifiers D j \<longrightarrow> j \<in> dom (dk_reports D))"
  using assms
proof (cases rule: desk_step.cases)
  case (k_resolve n a now i res)
  with finalized_frame [OF k_resolve(4)] show ?thesis by simp
next
  case (k_vote n a i c r D1 up now)
  have "dk_verifiers D' = dk_verifiers D1 \<and> dom (dk_challenges D') = dom (dk_challenges D1)"
    using k_vote(12) finalized_frame [of now i _ D1 D'] by (auto split: if_splits)
  with k_vote(11) show ?thesis by (simp add: desk_parts)
qed (auto simp: desk_parts split: if_splits)

lemma desk_ids_step:
  assumes "desk_step D l D'" and "desk_ids n D" and "Suc n < 2 ^ 64"
  shows "desk_ids (Suc n) D'"
proof -
  from assms(2) have c: "unat (dk_count D) \<le> n"
    and d: "\<And>i. i \<in> dom (dk_reports D) \<longleftrightarrow> 1 \<le> unat i \<and> unat i \<le> unat (dk_count D)"
    and ch: "dom (dk_challenges D) \<subseteq> dom (dk_reports D)"
    and v: "\<And>i. i \<notin> dom (dk_reports D) \<Longrightarrow> dk_verifiers D i = []"
    unfolding desk_ids_def by blast+
  have u: "unat (dk_count D + 1) = unat (dk_count D) + 1" using c assms(3) by (intro unat_inc) simp
  have d': "i \<in> dom (dk_reports D') \<longleftrightarrow> 1 \<le> unat i \<and> unat i \<le> unat (dk_count D')" for i
  proof -
    have "i = dk_count D + 1 \<longleftrightarrow> unat i = unat (dk_count D) + 1" by (metis u word_unat_eq_iff)
    with desk_step_counts [OF assms(1)] d [of i] u show ?thesis by auto
  qed
  have "unat (dk_count D') \<le> Suc n" using desk_step_counts [OF assms(1)] u c by auto
  moreover have "dk_verifiers D' i = []" if "i \<notin> dom (dk_reports D')" for i
    using desk_step_indexed [OF assms(1)] v desk_step_keeps(1) [OF assms(1)] that by (metis subsetD)
  moreover have "dom (dk_challenges D') \<subseteq> dom (dk_reports D')"
    using desk_step_indexed [OF assms(1)] desk_step_keeps(1) [OF assms(1)] ch by blast
  ultimately show ?thesis unfolding desk_ids_def using d' by blast
qed

lemma desk_ids_fresh:
  assumes "desk_ids n D" and "Suc n < 2 ^ 64"
  shows "dk_reports D (dk_count D + 1) = None" and "dk_challenges D (dk_count D + 1) = None"
    and "dk_verifiers D (dk_count D + 1) = []" and "dk_reports D j = Some r \<Longrightarrow> j < dk_count D + 1"
proof -
  have u: "unat (dk_count D + 1) = unat (dk_count D) + 1"
    using assms unfolding desk_ids_def by (intro unat_inc) simp
  then show none: "dk_reports D (dk_count D + 1) = None"
    using assms(1) unfolding desk_ids_def by (metis not_add_less1 less_add_one linorder_not_le)
  with assms(1) show "dk_challenges D (dk_count D + 1) = None" "dk_verifiers D (dk_count D + 1) = []"
    unfolding desk_ids_def by blast+
  assume "dk_reports D j = Some r"
  with assms(1) have "unat j \<le> unat (dk_count D)" unfolding desk_ids_def by auto
  with u show "j < dk_count D + 1" by (simp add: word_less_nat_alt)
qed

lemma finalized_challenge:
  assumes "finalized now i res D D'"
  shows "dk_challenges D' j = dk_challenges D j \<and> dk_reports D' j = dk_reports D j \<or>
    j = i \<and> (\<exists>c r. dk_challenges D' i = Some c \<and> ch_resolved c \<and> dk_reports D' i = Some r \<and> rp_status r \<noteq> Challenged)"
  using assms by (cases rule: finalized.cases) (auto simp: desk_parts)

lemma desk_status_fin:
  assumes "finalized now i res D D'" and "desk_status D"
  shows "desk_status D'"
  unfolding desk_status_def
proof (intro allI impI)
  fix j r assume r: "dk_reports D' j = Some r"
  from finalized_challenge [OF assms(1), of j] show "rp_status r = Challenged \<longleftrightarrow> (\<exists>c. dk_challenges D' j = Some c \<and> \<not> ch_resolved c)"
  proof (elim disjE conjE exE)
    assume "dk_challenges D' j = dk_challenges D j" "dk_reports D' j = dk_reports D j"
    with assms(2) r show ?thesis unfolding desk_status_def by metis
  qed (use r in auto)
qed

lemma desk_status_step:
  assumes "desk_step D l D'" and "desk_ids n D" and "Suc n < 2 ^ 64" and "desk_status D"
  shows "desk_status D'"
  using assms(1)
proof (cases rule: desk_step.cases)
  case (k_submit k r p now)
  with assms(4) desk_ids_fresh(2) [OF assms(2,3)] show ?thesis
    by (auto simp: desk_status_def desk_parts)
next
  case (k_override k a i r s now)
  then have "\<not> (\<exists>c. dk_challenges D i = Some c \<and> \<not> ch_resolved c)"
    using assms(4) unfolding desk_status_def by (metis ReportStatus.distinct(3))
  with k_override assms(4) show ?thesis by (auto simp: desk_status_def desk_parts)
next
  case (k_resolve k a now i res)
  with desk_status_fin [OF k_resolve(4)] assms(4) show ?thesis by (simp add: desk_status_def)
next
  case (k_vote k a i c r D1 up now)
  have "desk_status D1" using k_vote(11) assms(4) by (simp add: desk_status_def desk_parts)
  with k_vote(12) desk_status_fin show ?thesis by (auto split: if_splits)
qed (use assms(4) in \<open>auto simp: desk_status_def desk_parts\<close>)

lemma desk_verifiers_step:
  assumes "desk_step D l D'" and "desk_ids n D" and "Suc n < 2 ^ 64" and "desk_verifiers D"
  shows "desk_verifiers D'"
  unfolding desk_verifiers_def
proof (intro allI impI)
  fix j r' assume r': "dk_reports D' j = Some r'"
  note dom = desk_step_keeps(2) [OF assms(1)]
  from desk_step_report [OF assms(1) r']
  show "distinct (dk_verifiers D' j) \<and> rp_provider r' \<notin> set (dk_verifiers D' j) \<and>
      set (dk_verifiers D' j) \<subseteq> dom (dk_providers D')"
  proof (elim disjE exE conjE)
    fix r assume r: "dk_reports D j = Some r" "same_claim r r'"
    have old: "distinct (dk_verifiers D j)" "rp_provider r' \<notin> set (dk_verifiers D j)"
      "set (dk_verifiers D j) \<subseteq> dom (dk_providers D')"
      using assms(4) r(1) same_claim_fields [OF r(2)] dom unfolding desk_verifiers_def by (auto, blast)
    have "dk_verifiers D' j = dk_verifiers D j \<or> (\<exists>a. a \<notin> set (dk_verifiers D j) \<and>
        dk_verifiers D' j = dk_verifiers D j @ [a] \<and> a \<in> dom (dk_providers D) \<and> a \<noteq> rp_provider r)"
      using assms(1) r
      by (cases rule: desk_step.cases) (auto simp: desk_parts is_active_def dest: finalized_frame(3) split: if_splits option.splits)
    moreover have "rp_provider r' = rp_provider r" using same_claim_fields [OF r(2)] by simp
    ultimately show ?thesis using old dom by (elim disjE exE conjE) (simp_all add: subset_iff)
  next
    assume j: "j = dk_count D + 1"
    have "dk_verifiers D' j = []"
      using desk_ids_fresh(1,3) [OF assms(2,3)] desk_step_indexed [OF assms(1)] j by (metis domIff)
    then show ?thesis by simp
  qed
qed

lemma desk_step_providers:
  assumes "desk_step D l D'"
  shows "dk_plist D' = dk_plist D \<and> dom (dk_providers D') = dom (dk_providers D) \<or>
    (\<exists>q. q \<notin> dom (dk_providers D) \<and> dk_plist D' = dk_plist D @ [q] \<and>
       dom (dk_providers D') = insert q (dom (dk_providers D)))"
  using assms
proof (cases rule: desk_step.cases)
  case (k_resolve n a now i res)
  with finalized_frame [OF k_resolve(4)] show ?thesis by simp
next
  case (k_vote n a i c r D1 up now)
  have "dk_plist D' = dk_plist D1 \<and> dom (dk_providers D') = dom (dk_providers D1)"
    using k_vote(12) finalized_frame [of now i _ D1 D'] by (auto split: if_splits)
  with k_vote(11) show ?thesis by (simp add: desk_parts)
qed (auto simp: desk_parts split: if_splits)

lemma desk_providers_step: "desk_step D l D' \<Longrightarrow> desk_providers n D \<Longrightarrow> desk_providers (Suc n) D'"
  unfolding desk_providers_def by (drule desk_step_providers) fastforce

lemma push_period_last [simp]: "push_period ps w \<noteq> []" "last (push_period ps w) = w"
  by (simp_all add: push_period_def)

lemma desk_step_claims:
  assumes "desk_step D l D'"
  shows "dk_periods D' = dk_periods D \<and> dk_count D' = dk_count D \<or>
    (\<exists>r. dk_reports D' = (dk_reports D)(dk_count D + 1 \<mapsto> r) \<and> rp_period_start r < rp_period_end r \<and>
       (dk_periods D (rp_project_id r) \<noteq> [] \<longrightarrow> snd (last (dk_periods D (rp_project_id r))) \<le> rp_period_start r) \<and>
       dk_periods D' = (dk_periods D)(rp_project_id r :=
         push_period (dk_periods D (rp_project_id r)) (rp_period_start r, rp_period_end r)))"
  using assms
proof (cases rule: desk_step.cases)
  case (k_resolve n a now i res)
  with finalized_frame [OF k_resolve(4)] show ?thesis by simp
next
  case (k_vote n a i c r D1 up now)
  have "dk_periods D' = dk_periods D1 \<and> dk_count D' = dk_count D1"
    using k_vote(12) finalized_frame [of now i _ D1 D'] by (auto split: if_splits)
  with k_vote(11) show ?thesis by (simp add: desk_parts)
next
  case (k_submit n r p now)
  then show ?thesis by (intro disjI2 exI [of _ r]) (simp add: desk_parts)
qed (auto simp: desk_parts split: if_splits)

lemma desk_periods_step:
  assumes "desk_step D l D'" and "desk_ids n D" and "Suc n < 2 ^ 64" and "desk_periods D"
  shows "desk_periods D'"
  using desk_step_claims [OF assms(1)]
proof (elim disjE exE conjE)
  assume same: "dk_periods D' = dk_periods D" "dk_count D' = dk_count D"
  have prev: "\<exists>q. dk_reports D j = Some q \<and> rp_project_id r = rp_project_id q \<and>
      rp_period_start r = rp_period_start q \<and> rp_period_end r = rp_period_end q" if "dk_reports D' j = Some r" for j r
    using desk_step_report [OF assms(1) that] same(2) same_claim_fields by fastforce
  show ?thesis
    using assms(4) unfolding desk_periods_def same(1)
    by (intro conjI allI impI; metis prev)
next
  fix r :: Report
  let ?ps = "dk_periods D (rp_project_id r)"
  assume r: "dk_reports D' = (dk_reports D)(dk_count D + 1 \<mapsto> r)" "rp_period_start r < rp_period_end r"
    "?ps \<noteq> [] \<longrightarrow> snd (last ?ps) \<le> rp_period_start r"
    "dk_periods D' = (dk_periods D)(rp_project_id r := push_period ?ps (rp_period_start r, rp_period_end r))"
  have old: "rp_period_end q \<le> rp_period_start r" if "dk_reports D j = Some q" "rp_project_id q = rp_project_id r" for j q
  proof -
    have "?ps \<noteq> [] \<and> rp_period_end q \<le> snd (last ?ps)"
      using assms(4) that(1) unfolding desk_periods_def that(2) [symmetric] by blast
    with r(3) show ?thesis by auto
  qed
  have lt: "j < dk_count D + 1" if "dk_reports D j = Some q" for j q
    using desk_ids_fresh(4) [OF assms(2,3) that] .
  have 1: "rp_period_start q < rp_period_end q \<and> dk_periods D' (rp_project_id q) \<noteq> [] \<and>
      rp_period_end q \<le> snd (last (dk_periods D' (rp_project_id q)))" if "dk_reports D' j = Some q" for j q
  proof (cases "j = dk_count D + 1")
    case True
    with that r show ?thesis by simp
  next
    case False
    with that r(1) have q: "dk_reports D j = Some q" by simp
    show ?thesis
      using assms(4) q old [OF q] r(2) unfolding desk_periods_def r(4) by (cases "rp_project_id q = rp_project_id r") auto
  qed
  have 2: "rp_period_end q \<le> rp_period_start q'"
    if "dk_reports D' i = Some q" "dk_reports D' j = Some q'" "rp_project_id q = rp_project_id q'" "i < j" for i j q q'
  proof (cases "j = dk_count D + 1")
    case True
    with that(4) have "i \<noteq> dk_count D + 1" by blast
    with True that(1,2) r(1) have "dk_reports D i = Some q" "q' = r" by simp_all
    with old that(3) show ?thesis by simp
  next
    case False
    with that(2) r(1) have q': "dk_reports D j = Some q'" by simp
    with lt that(4) have "i \<noteq> dk_count D + 1" by fastforce
    with that(1) r(1) have "dk_reports D i = Some q" by simp
    with assms(4) q' that(3,4) show ?thesis unfolding desk_periods_def by blast
  qed
  from 1 2 show ?thesis unfolding desk_periods_def by blast
qed

lemma dk_clamp_active: "active_providers (dk_clamp D) = active_providers D"
  by (rule active_cong) (simp_all add: dk_clamp_def)

lemma active_set_provider:
  assumes "desk_providers n D" and "dk_providers D a = Some p" and "op_active p' = op_active p"
  shows "active_providers (dk_set_provider a p' D) = active_providers D"
proof -
  have "is_active (dk_set_provider a p' D) = is_active D"
    using assms by (auto simp: is_active_def dk_set_provider_def fun_eq_iff)
  then show ?thesis by (simp add: active_providers_def dk_set_provider_def)
qed

lemma desk_providers_upd:
  "desk_providers n D \<Longrightarrow> dk_providers D a = Some p \<Longrightarrow> desk_providers n (dk_set_provider a p' D)"
  by (auto simp: desk_providers_def dk_set_provider_def)

lemma desk_threshold_cong:
  assumes "desk_threshold n D" and "dk_threshold D' = dk_threshold D" and "active_providers D \<le> active_providers D'"
  shows "desk_threshold n D'"
  using assms by (auto simp: desk_threshold_def)

lemma desk_threshold_clamp:
  assumes "1 \<le> unat (dk_threshold D)" and "desk_providers n D" and "n < 2 ^ 32"
  shows "desk_threshold n (dk_clamp D)"
proof -
  have "active_providers D \<le> n"
    using assms(2) by (auto simp: active_providers_def desk_providers_def intro: order_trans [OF length_filter_le])
  with assms(3) have u: "unat (of_nat (active_providers D) :: u32) = active_providers D"
    by (simp add: unsigned_of_nat take_bit_nat_eq_self)
  have "unat (dk_threshold (dk_clamp D)) = min (unat (dk_threshold D)) (max (active_providers D) 1)"
    unfolding dk_clamp_def using u by (auto simp: min_def max_def word_le_nat_alt)
  with assms(1) show ?thesis by (auto simp: desk_threshold_def dk_clamp_active min_def max_def)
qed

lemma desk_threshold_fin:
  assumes "finalized now i res D D'" and "desk_threshold n D" and "desk_providers n D"
  shows "desk_threshold n D'"
  using assms(1)
proof (cases rule: finalized.cases)
  case (fin_upheld c r)
  have "active_providers D' = active_providers D"
    unfolding fin_upheld(2) by (rule active_cong) (simp_all add: desk_parts)
  with assms(2) fin_upheld(2) show ?thesis by (intro desk_threshold_cong [OF assms(2)]) (simp_all add: desk_parts)
next
  case (fin_rejected c r p s)
  show ?thesis
  proof (cases "n < 2 ^ 32")
    case True
    let ?D = "dk_resolve now i ReportStatus.Rejected c r D"
    have "desk_providers n ?D" "dk_providers ?D (rp_provider r) = Some p" "dk_threshold ?D = dk_threshold D"
      using assms(3) fin_rejected by (simp_all add: desk_providers_def desk_parts)
    with desk_providers_upd True assms(2) show ?thesis
      unfolding fin_rejected(2)
      by (intro desk_threshold_clamp) (auto simp: desk_threshold_def dk_set_provider_def)
  qed (simp add: desk_threshold_def)
qed (use assms in simp)

lemma desk_threshold_step:
  assumes "desk_step D l D'" and "desk_providers n D" and "desk_threshold n D"
  shows "desk_threshold (Suc n) D'"
proof (cases "Suc n < 2 ^ 32")
  case True
  have n: "n < 2 ^ 32" and t: "1 \<le> unat (dk_threshold D)" "unat (dk_threshold D) \<le> max 1 (active_providers D)"
    using True assms(3) by (simp_all add: desk_threshold_def)
  have up: "desk_threshold n X \<Longrightarrow> desk_threshold (Suc n) X" for X by (simp add: desk_threshold_def)
  have keep: "?thesis" if "dk_threshold D' = dk_threshold D" "active_providers D \<le> active_providers D'"
    using up [OF desk_threshold_cong [OF assms(3) that]] .
  from assms(1) show ?thesis
  proof (cases rule: desk_step.cases)
    case (k_register k a q p now)
    then have "q \<notin> set (dk_plist D)" using assms(2) by (auto simp: desk_providers_def)
    then have "filter (is_active D') (dk_plist D) = filter (is_active D) (dk_plist D)"
      unfolding k_register(2) by (intro filter_cong) (auto simp: is_active_def desk_parts)
    then have "active_providers D \<le> active_providers D'"
      unfolding active_providers_def by (simp add: k_register(2) desk_parts)
    with keep k_register(2) show ?thesis by (simp add: desk_parts)
  next
    case (k_remove k a q p now)
    have "desk_providers n (dk_set_provider q (p\<lparr>op_active := False\<rparr>) (dk_spend a D))"
      using assms(2) k_remove by (intro desk_providers_upd) (simp_all add: desk_providers_def)
    with t n show ?thesis
      unfolding k_remove(2) by (intro up desk_threshold_clamp) (simp_all add: dk_set_provider_def)
  next
    case (k_threshold k a t' now)
    have "active_providers D \<le> n"
      using assms(2) by (auto simp: active_providers_def desk_providers_def intro: order_trans [OF length_filter_le])
    with n have "unat (of_nat (active_providers D) :: u32) = active_providers D"
      by (simp add: unsigned_of_nat take_bit_nat_eq_self)
    moreover have "active_providers D' = active_providers D"
      unfolding k_threshold(2) by (rule active_cong) simp_all
    ultimately show ?thesis
      using k_threshold by (auto simp: desk_threshold_def word_le_nat_alt unat_gt_0 Suc_le_eq)
  next
    case (k_stake k a p s now)
    have "active_providers D' = active_providers D"
      unfolding k_stake(2) using assms(2) k_stake(4)
      by (subst active_set_provider [of n _ a p]) (simp_all add: desk_providers_def)
    with keep k_stake(2) show ?thesis by (simp add: desk_parts)
  next
    case (k_resolve k a now i res)
    have "desk_threshold n (dk_spend a D)" "desk_providers n (dk_spend a D)"
      using assms(2,3) by (simp_all add: desk_threshold_def desk_providers_def)
    with up desk_threshold_fin [OF k_resolve(4)] show ?thesis by blast
  next
    case (k_vote k a i c r D1 up' now)
    have "active_providers D1 = active_providers D" unfolding k_vote(11) by (rule active_cong) (simp_all add: dk_vote_def)
    then have "desk_threshold n D1" "desk_providers n D1"
      using assms(2,3) k_vote(11) by (simp_all add: desk_threshold_def desk_providers_def dk_vote_def)
    with up desk_threshold_fin k_vote(12) show ?thesis by (auto split: if_splits)
  next
    case (k_submit k r p now)
    with keep active_cong(2) [of D' D] show ?thesis by (simp add: desk_parts)
  next
    case (k_verify k a i r D1 now)
    with keep active_cong(2) [of D' D] show ?thesis by (simp add: desk_parts split: if_splits)
  next
    case (k_override k a i r s now)
    with keep active_cong(2) [of D' D] show ?thesis by (simp add: desk_parts)
  next
    case (k_challenge k a i r c now)
    with keep active_cong(2) [of D' D] show ?thesis by (simp add: desk_parts)
  next
    case (k_expire i c now r)
    with keep active_cong(2) [of D' D] show ?thesis by (simp add: desk_parts)
  qed (use keep active_cong(2) [of D' D] in \<open>simp_all add: desk_parts\<close>)
qed (simp add: desk_threshold_def)

lemma desk_step_votes:
  assumes "desk_step D l D'"
  shows "dk_uphold D' j = dk_uphold D j \<and> dk_reject D' j = dk_reject D j \<or>
    (\<exists>a. a \<in> dom (dk_providers D) \<and> a \<notin> set (dk_uphold D j) \<and> a \<notin> set (dk_reject D j) \<and>
      (dk_uphold D' j = dk_uphold D j @ [a] \<and> dk_reject D' j = dk_reject D j \<or>
       dk_uphold D' j = dk_uphold D j \<and> dk_reject D' j = dk_reject D j @ [a]))"
  using assms
proof (cases rule: desk_step.cases)
  case (k_resolve n a now i res)
  with finalized_frame [OF k_resolve(4)] show ?thesis by simp
next
  case (k_vote n a i c r D1 up now)
  have "dk_uphold D' = dk_uphold D1 \<and> dk_reject D' = dk_reject D1"
    using k_vote(12) finalized_frame [of now i _ D1 D'] by (auto split: if_splits)
  moreover have "a \<in> dom (dk_providers D)" using k_vote(3) by (auto simp: is_active_def split: option.splits)
  ultimately show ?thesis using k_vote(9,10) unfolding k_vote(11) by (auto simp: desk_parts)
qed (auto simp: desk_parts split: if_splits)

lemma desk_votes_step:
  assumes "desk_step D l D'" and "desk_votes D"
  shows "desk_votes D'"
  unfolding desk_votes_def
proof (intro allI)
  fix j
  have "distinct (dk_uphold D j @ dk_reject D j)" "set (dk_uphold D j @ dk_reject D j) \<subseteq> dom (dk_providers D')"
    using assms(2) desk_step_keeps(2) [OF assms(1)] unfolding desk_votes_def by blast+
  with desk_step_votes [OF assms(1), of j] desk_step_keeps(2) [OF assms(1)]
  show "distinct (dk_uphold D' j @ dk_reject D' j) \<and> set (dk_uphold D' j @ dk_reject D' j) \<subseteq> dom (dk_providers D')"
    by (elim disjE exE conjE) (simp_all add: subset_iff)
qed

lemma desk_inv_step: "desk_inv n D \<Longrightarrow> desk_step D l D' \<Longrightarrow> Suc n < 2 ^ 64 \<Longrightarrow> desk_inv (Suc n) D'"
  unfolding desk_inv_def
  by (intro conjI; (elim conjE)?; blast intro: desk_ids_step desk_status_step desk_verifiers_step
      desk_providers_step desk_periods_step desk_threshold_step desk_votes_step)

interpretation oracle_desk: simulated_machine "oracle_step E" desk_step "\<lambda>s. desk_of (fst s)" "\<lambda>_. True" desk_inv for E
  by unfold_locales (erule oracle_step_desk, rule TrueI, fact desk_inv_step)

lemma desk_step_nonces:
  "desk_step D l D' \<Longrightarrow> dk_nonces D' = (case snd l of None \<Rightarrow> dk_nonces D
     | Some (a, n) \<Rightarrow> (dk_nonces D)(a := n + 1)) \<and> (case snd l of None \<Rightarrow> True | Some (a, n) \<Rightarrow> dk_nonces D a = n)"
proof (induction rule: desk_step.induct)
  case (k_resolve n D a now i res D')
  with finalized_frame [OF k_resolve(3)] show ?case by simp
next
  case (k_vote n D a i c r D1 up now D')
  have "dk_nonces D' = dk_nonces D1"
    using k_vote(11) finalized_frame [of now i _ D1 D'] by (auto split: if_splits)
  moreover have "dk_nonces D1 = (dk_nonces D)(a := n + 1)" using k_vote(1,10) by (simp add: dk_vote_def)
  ultimately show ?case using k_vote(1) by simp
qed (auto simp: desk_parts)

interpretation oracle_nonces: nonce_machine "oracle_step E" snd "\<lambda>s. dk_nonces (desk_of (fst s))" for E
proof unfold_locales
  fix s l t a n
  assume "oracle_step E s l t" "snd l = Some (a, n)"
  with desk_step_nonces [OF oracle_step_desk [OF this(1)]]
  show "dk_nonces (desk_of (fst s)) a = n \<and> dk_nonces (desk_of (fst t)) = (dk_nonces (desk_of (fst s)))(a := n + 1)"
    by simp
next
  fix s l t
  assume "oracle_step E s l t" "snd l = None"
  with desk_step_nonces [OF oracle_step_desk [OF this(1)]]
  show "dk_nonces (desk_of (fst t)) = dk_nonces (desk_of (fst s))" by simp
qed

section \<open>What each call leaves alone\<close>

text \<open>
  Entrypoint by entrypoint: the reports a call can change and how, and that only the three calls of the
  rotation touch the administrator or the pending change.
\<close>

lemma same_office_refl [simp]: "same_office D D"
  by (simp add: same_office_def)

lemma provider_calls_frame:
  "register_provider env a q me n st = Ok st' \<Longrightarrow>
     dk_reports (desk_of st') = dk_reports (desk_of st) \<and> same_office (desk_of st) (desk_of st')"
  "remove_provider env a q n st = Ok st' \<Longrightarrow>
     dk_reports (desk_of st') = dk_reports (desk_of st) \<and> same_office (desk_of st) (desk_of st')"
  "set_signature_threshold env a t n st = Ok st' \<Longrightarrow>
     dk_reports (desk_of st') = dk_reports (desk_of st) \<and> same_office (desk_of st) (desk_of st')"
  "set_project_registry env a q n st = Ok st' \<Longrightarrow>
     dk_reports (desk_of st') = dk_reports (desk_of st) \<and> same_office (desk_of st) (desk_of st')"
  "add_stake env a x n st = Ok st' \<Longrightarrow>
     dk_reports (desk_of st') = dk_reports (desk_of st) \<and> same_office (desk_of st) (desk_of st')"
  "withdraw_stake env a x n st = Ok st' \<Longrightarrow>
     dk_reports (desk_of st') = dk_reports (desk_of st) \<and> same_office (desk_of st) (desk_of st')"
  "deposit_challenge_bond env a x n st = Ok st' \<Longrightarrow>
     dk_reports (desk_of st') = dk_reports (desk_of st) \<and> same_office (desk_of st) (desk_of st')"
  "withdraw_challenge_bond env a x n st = Ok st' \<Longrightarrow>
     dk_reports (desk_of st') = dk_reports (desk_of st) \<and> same_office (desk_of st) (desk_of st')"
  by (auto simp: same_office_def register_provider_def remove_provider_def set_signature_threshold_def set_project_registry_def
      add_stake_def withdraw_stake_def deposit_challenge_bond_def withdraw_challenge_bond_def result_simps Let_def desk_calc
      dk_clamp_def dest!: oracle_consume_nonce_Ok split: if_splits)

lemma reads_frame: "desk_of st' = desk_of st \<Longrightarrow>
   dk_reports (desk_of st') = dk_reports (desk_of st) \<and> same_office (desk_of st) (desk_of st')"
  by (simp add: same_office_def)

lemma office_calls_reports:
  "oracle_propose_admin_transfer env a q n st = Ok st' \<Longrightarrow> dk_reports (desk_of st') = dk_reports (desk_of st)"
  "oracle_cancel_admin_transfer env a n st = Ok st' \<Longrightarrow> dk_reports (desk_of st') = dk_reports (desk_of st)"
  "oracle_accept_admin_transfer env a n st = Ok st' \<Longrightarrow> dk_reports (desk_of st') = dk_reports (desk_of st)"
  by (auto simp: oracle_propose_admin_transfer_def oracle_cancel_admin_transfer_def oracle_accept_admin_transfer_def
      result_simps Let_def desk_calc dest!: oracle_consume_nonce_Ok split: if_splits)

lemma submit_frame:
  assumes "submit_report env a p s e x y me h n st R = Ok (i, st', R')"
  shows "same_office (desk_of st) (desk_of st') \<and>
    (\<forall>j r. dk_reports (desk_of st') j = Some r \<longrightarrow> dk_reports (desk_of st) j = Some r \<or> rp_status r = ReportStatus.Pending)"
  using submit_report_raw [OF assms] by (auto simp: desk_calc same_office_def new_report_def dest!: oracle_dests split: if_splits)

lemma verify_frame:
  assumes "verify_report env a i n st = Ok st'"
  shows "same_office (desk_of st) (desk_of st') \<and> (\<forall>j. j \<noteq> i \<longrightarrow> dk_reports (desk_of st') j = dk_reports (desk_of st) j)"
  using verify_report_Ok [OF assms refl] by (auto simp: desk_parts dk_add_verifier_def same_office_def)

lemma override_frame:
  assumes "admin_override_report env a i s n st = Ok st'"
  shows "\<exists>r. dk_admin (desk_of st) = Some a \<and> dk_reports (desk_of st) i = Some r \<and> rp_status r = ReportStatus.Pending \<and>
    dk_reports (desk_of st') = (dk_reports (desk_of st))(i \<mapsto> r\<lparr>rp_status := s, rp_verified_at := timestamp env\<rparr>) \<and>
    same_office (desk_of st) (desk_of st')"
  using assms by (auto simp: admin_override_report_def result_simps Let_def oracle_require_admin_Ok desk_calc same_office_def
      dest!: oracle_consume_nonce_Ok split: if_splits)

lemma challenge_frame:
  assumes "challenge_report env a i h n st = Ok st'"
  shows "\<exists>r. dk_reports (desk_of st') = (dk_reports (desk_of st))(i \<mapsto> r\<lparr>rp_status := Challenged\<rparr>) \<and>
    same_office (desk_of st) (desk_of st')"
proof -
  from assms obtain st1 r where 1: "oracle_consume_nonce env a n st = Ok st1" 
    "dk_reports (desk_of st') = (dk_reports (desk_of st1))(i \<mapsto> r\<lparr>rp_status := Challenged\<rparr>)" 
    "dk_admin (desk_of st') = dk_admin (desk_of st1)" "dk_pending (desk_of st') = dk_pending (desk_of st1)"
    by (auto simp: challenge_report_def result_simps Let_def desk_calc dest!: lock_release_desk(3)
        split: if_splits option.splits)
  with oracle_consume_nonce_Ok [OF 1(1)] show ?thesis by (auto simp: same_office_def)
qed

lemma expire_frame:
  assumes "expire_stale_challenge env i st = Ok st'"
  shows "same_office (desk_of st) (desk_of st') \<and> (dk_reports (desk_of st') = dk_reports (desk_of st) \<or>
    (\<exists>r. dk_reports (desk_of st') = (dk_reports (desk_of st))(i \<mapsto> r\<lparr>rp_status := ReportStatus.Pending\<rparr>)))"
  using assms by (auto simp: expire_stale_challenge_def result_simps Let_def desk_calc same_office_def dest!: lock_release_desk(4)
          split: if_splits)

lemma resolve_frame:
  assumes "resolve_challenge env a i v n st R = Ok (st', R')"
  shows "dk_admin (desk_of st) = Some a \<and> finalized (timestamp env) i v (dk_spend a (desk_of st)) (desk_of st') \<and>
    same_office (desk_of st) (desk_of st')"
proof -
  from assms obtain st1 where 1: "oracle_consume_nonce env a n st = Ok st1" "dk_admin (desk_of st1) = Some a"
    "v = Verified \<or> v = ReportStatus.Rejected" "finalize_challenge env i v st1 R = Ok (st', R')"
    by (auto simp: resolve_challenge_def result_simps oracle_require_admin_Ok split: if_splits)
  from finalize_challenge_Ok [OF 1(4,3)] oracle_consume_nonce_Ok [OF 1(1)] have
    f: "finalized (timestamp env) i v (dk_spend a (desk_of st)) (desk_of st')" by simp
  from finalized_frame(6,7) [OF f] 1(2) oracle_consume_nonce_Ok [OF 1(1)] f show ?thesis by (simp add: same_office_def)
qed

lemma vote_frame:
  assumes "resolve_challenge_by_verifier env a i up n st R = Ok (st', R')"
  shows "same_office (desk_of st) (desk_of st') \<and> (\<exists>D1. dk_reports D1 = dk_reports (desk_of st) \<and> (desk_of st' = D1 \<or>
    finalized (timestamp env) i (if up then Verified else ReportStatus.Rejected) D1 (desk_of st')))"
proof -
  let ?D = "dk_vote i a up (dk_spend a (desk_of st))"
  have D: "dk_reports ?D = dk_reports (desk_of st)" "dk_admin ?D = dk_admin (desk_of st)" "dk_pending ?D = dk_pending (desk_of st)"
    by (simp_all add: dk_vote_def)
  from vote_Ok [OF assms refl] have
    v: "desk_of st' = ?D \<or> finalized (timestamp env) i (if up then Verified else ReportStatus.Rejected) ?D (desk_of st')"
    by (auto split: if_splits)
  then have "dk_admin (desk_of st') = dk_admin ?D \<and> dk_pending (desk_of st') = dk_pending ?D"
    using finalized_frame(6,7) [of "timestamp env" i _ ?D "desk_of st'"] by auto
  with v D show ?thesis by (auto simp: same_office_def)
qed

lemma finalized_reports:
  assumes "finalized now i res D D'" and "dk_reports D' j = Some r'" and "dk_reports D j \<noteq> Some r'"
  shows "\<exists>c r. j = i \<and> dk_challenges D i = Some c \<and> \<not> ch_resolved c \<and> dk_reports D i = Some r \<and> rp_status r' = res"
  using assms by (cases rule: finalized.cases) (auto simp: desk_parts dk_clamp_def split: if_splits)

lemma oracle_office_calls:
  "oracle_propose_admin_transfer env a c n st = Ok st' \<Longrightarrow>
     dk_admin (desk_of st) = Some a \<and> dk_admin (desk_of st') = Some a \<and>
     dk_pending (desk_of st') = Some \<lparr>pa_candidate = c, pa_executable_at = timestamp env + ADMIN_TRANSFER_TIMELOCK_SECONDS\<rparr>"
  "oracle_cancel_admin_transfer env a n st = Ok st' \<Longrightarrow>
     dk_admin (desk_of st') = dk_admin (desk_of st) \<and> dk_pending (desk_of st') = None"
  "oracle_accept_admin_transfer env c n st = Ok st' \<Longrightarrow>
     \<exists>p. dk_pending (desk_of st) = Some p \<and> pa_candidate p = c \<and> pa_executable_at p \<le> timestamp env \<and>
       dk_admin (desk_of st') = Some c \<and> dk_pending (desk_of st') = None"
  by (auto simp: oracle_propose_admin_transfer_def oracle_cancel_admin_transfer_def oracle_accept_admin_transfer_def
      result_simps Let_def oracle_require_admin_Ok desk_calc not_less dest!: oracle_consume_nonce_Ok add_word_OkD split: if_splits)

interpretation oracle_rotation: admin_rotation "oracle_step E" "\<lambda>s. dk_admin (desk_of (fst s))" "\<lambda>s. dk_pending (desk_of (fst s))"
  "\<lambda>env a c n s t. oracle_propose_admin_transfer env a c n (fst s) = Ok (fst t)"
  "\<lambda>env c n s t. oracle_accept_admin_transfer env c n (fst s) = Ok (fst t)" for E
proof unfold_locales
  fix s l t
  assume "oracle_step E s l t"
  then have "same_office (desk_of (fst s)) (desk_of (fst t)) \<or>
      (\<exists>env a n. oracle_cancel_admin_transfer env a n (fst s) = Ok (fst t)) \<or>
      (\<exists>env a c n. l = (timestamp env, Some (a, n)) \<and> oracle_propose_admin_transfer env a c n (fst s) = Ok (fst t)) \<or>
      (\<exists>env c n. l = (timestamp env, Some (c, n)) \<and> oracle_accept_admin_transfer env c n (fst s) = Ok (fst t))"
  proof (cases rule: oracle_step.cases)
    case (step_oracle_read st' env st i a R)
    then have "desk_of st' = desk_of st" using reads_desk(5-14) by auto
    with step_oracle_read show ?thesis by (simp add: same_office_def)
  next
    case step_oracle_propose
    then show ?thesis by auto
  next
    case step_oracle_cancel
    then show ?thesis by auto
  next
    case step_oracle_accept
    then show ?thesis by auto
  qed (rule disjI1, (auto dest: provider_calls_frame submit_frame verify_frame override_frame challenge_frame expire_frame
      resolve_frame vote_frame dest!: reads_desk(1-4) [THEN reads_frame]) [1])+
  then show "(dk_admin (desk_of (fst t)) = dk_admin (desk_of (fst s)) \<and>
        (dk_pending (desk_of (fst t)) = dk_pending (desk_of (fst s)) \<or> dk_pending (desk_of (fst t)) = None)) \<or>
      (\<exists>env a c n. l = (timestamp env, Some (a, n)) \<and> oracle_propose_admin_transfer env a c n (fst s) = Ok (fst t)) \<or>
      (\<exists>env c n. l = (timestamp env, Some (c, n)) \<and> oracle_accept_admin_transfer env c n (fst s) = Ok (fst t))"
    using oracle_office_calls(2) by (auto simp: same_office_def)
qed (auto dest: oracle_office_calls)

lemma desk_inv_init: "desk_inv 0 (desk_of (oracle_constructor a))"
  by (auto simp: desk_inv_def desk_ids_def desk_status_def desk_verifiers_def desk_providers_def desk_periods_def
      desk_threshold_def desk_votes_def desk_of_def oracle_constructor_def storage_simps unat_eq_0)

lemma oracle_reachable_inv:
  assumes "run (oracle_step E) (oracle_constructor a, R0) ls (st, R)" and "length ls < 2 ^ 64"
  shows "desk_inv (length ls) (desk_of st)"
  using oracle_desk.conc.inv_run [OF assms(1), of 0] desk_inv_init assms(2) by simp

text \<open>
  As in the registry, the administrator changes only when a candidate accepts whom the administrator in office
  proposed at least 48 hours before.
\<close>

lemma oracle_admin_needs_timelock:
  assumes "run (oracle_step E) (oracle_constructor admin, R0) ls (st, R)" and "oracle_step E (st, R) l (st', R')"
    and "oracle_get_admin st' \<noteq> oracle_get_admin st" and "\<forall>l \<in> set ls. unat (fst l) + 172800 < 2 ^ 64"
  shows "\<exists>env c n ls1 env1 a n1 ls2 s1 s2. l = (timestamp env, Some (c, n)) \<and>
    oracle_accept_admin_transfer env c n st = Ok st' \<and> oracle_get_admin st' = Some c \<and>
    ls = ls1 @ (timestamp env1, Some (a, n1)) # ls2 \<and> run (oracle_step E) (oracle_constructor admin, R0) ls1 s1 \<and>
    oracle_propose_admin_transfer env1 a c n1 (fst s1) = Ok (fst s2) \<and> run (oracle_step E) s2 ls2 (st, R) \<and>
    oracle_get_admin st = Some a \<and> unat (timestamp env1) + 172800 \<le> unat (timestamp env)"
proof -
  have "dk_pending (desk_of (oracle_constructor admin)) = None"
    by (simp add: desk_of_def oracle_constructor_def storage_simps)
  with assms(3) oracle_rotation.admin_change [OF assms(1) _ assms(2) _ assms(4)] show ?thesis
    by (simp add: oracle_get_admin_def desk_reads)
qed

end
