(* ===== verification/Challenges.thy ===== *)
theory Challenges
  imports Report_Desk
begin

text \<open>
  Challenges and the properties of the oracle consumer: the bonds of challengers as an abstract \<open>purse\<close>, its
  refinement and invariant; what it takes to verify, reject or expire a report, that the periods of a
  project never overlap, the life cycle of reports, the bounds of the threshold and of penalties; and a
  concrete history.
\<close>

section \<open>The bonds of challengers\<close>

text \<open>
  The bonds of challengers: what each account has free and locked, the open challenges with their
  bonds, and the net amount it has put in according to the published events.
\<close>

record purse =
  pu_free :: "address \<Rightarrow> int"
  pu_locked :: "address \<Rightarrow> int"
  pu_open :: "u64 \<rightharpoonup> address \<times> int"
  pu_net :: "address \<Rightarrow> int"

fun bond_flow :: "OracleEvent \<Rightarrow> address \<Rightarrow> int" where
  "bond_flow (challenge_bond_deposited b x) a = (if a = b then x else 0)"
| "bond_flow (challenge_bond_withdrawn b x) a = (if a = b then - x else 0)"
| "bond_flow (challenge_bond_forfeited b x) a = (if a = b then - x else 0)"
| "bond_flow _ a = 0"

definition open_challenge :: "Challenge \<Rightarrow> (address \<times> int) option" where
  "open_challenge c = (if ch_resolved c then None else Some (ch_challenger c, ch_bond c))"

definition amounts :: "('k, int) pstore \<Rightarrow> 'k \<Rightarrow> int" where
  "amounts m a = unwrap_or (pget m a) 0"

definition net_bonds :: "oracle_consumer \<Rightarrow> address \<Rightarrow> int" where
  "net_bonds st a = sum_list (map (\<lambda>e. bond_flow e a) (orc_events st))"

definition purse_of :: "oracle_consumer \<Rightarrow> purse" where
  "purse_of st =
     \<lparr>pu_free = amounts (orc_bond_balances st), pu_locked = amounts (orc_bond_locks st),
      pu_open = (\<lambda>i. Option.bind (pget (orc_challenges st) i) open_challenge), pu_net = net_bonds st\<rparr>"

definition open_bonds :: "purse \<Rightarrow> address \<Rightarrow> int" where
  "open_bonds P a = map_total (\<lambda>i. map_option snd (pu_open P i)) (\<lambda>i. map_option fst (pu_open P i) = Some a)"

inductive purse_step :: "purse \<Rightarrow> timed_label \<Rightarrow> purse \<Rightarrow> bool" where
  b_deposit: "0 < x \<Longrightarrow> purse_step P l (P\<lparr>pu_free := (pu_free P)(a := pu_free P a + x),
     pu_net := (pu_net P)(a := pu_net P a + x)\<rparr>)"
| b_withdraw: "0 < x \<Longrightarrow> x \<le> pu_free P a \<Longrightarrow>
     purse_step P l (P\<lparr>pu_free := (pu_free P)(a := pu_free P a - x), pu_net := (pu_net P)(a := pu_net P a - x)\<rparr>)"
| b_lock: "pu_open P i = None \<Longrightarrow> 0 < x \<Longrightarrow> x \<le> pu_free P a \<Longrightarrow>
     purse_step P l (P\<lparr>pu_free := (pu_free P)(a := pu_free P a - x),
       pu_locked := (pu_locked P)(a := pu_locked P a + x), pu_open := (pu_open P)(i \<mapsto> (a, x))\<rparr>)"
| b_refund: "pu_open P i = Some (a, x) \<Longrightarrow> 0 < x \<Longrightarrow> y = min x (pu_locked P a) \<Longrightarrow>
     purse_step P l (P\<lparr>pu_open := (pu_open P)(i := None), pu_locked := (pu_locked P)(a := pu_locked P a - y),
       pu_free := (pu_free P)(a := pu_free P a + y)\<rparr>)"
| b_forfeit: "pu_open P i = Some (a, x) \<Longrightarrow> 0 < x \<Longrightarrow> y = min x (pu_locked P a) \<Longrightarrow>
     purse_step P l (P\<lparr>pu_open := (pu_open P)(i := None), pu_locked := (pu_locked P)(a := pu_locked P a - y),
       pu_net := (pu_net P)(a := pu_net P a - y)\<rparr>)"
| b_drop: "pu_open P i = Some (a, x) \<Longrightarrow> x \<le> 0 \<Longrightarrow> purse_step P l (P\<lparr>pu_open := (pu_open P)(i := None)\<rparr>)"
| b_none: "purse_step P l P"

definition purse_inv :: "purse \<Rightarrow> bool" where
  "purse_inv P \<longleftrightarrow> finite (dom (pu_open P)) \<and> (\<forall>i a x. pu_open P i = Some (a, x) \<longrightarrow> 0 < x) \<and>
     (\<forall>a. 0 \<le> pu_free P a) \<and> (\<forall>a. pu_locked P a = open_bonds P a) \<and>
     (\<forall>a. pu_net P a = pu_free P a + open_bonds P a)"

definition settled :: "address \<Rightarrow> int \<Rightarrow> bool \<Rightarrow> purse \<Rightarrow> purse" where
  "settled a x refund P =
     (if x \<le> 0 then P
      else let y = min x (pu_locked P a); P = P\<lparr>pu_locked := (pu_locked P)(a := pu_locked P a - y)\<rparr>
      in if refund then P\<lparr>pu_free := (pu_free P)(a := pu_free P a + y)\<rparr>
         else P\<lparr>pu_net := (pu_net P)(a := pu_net P a - y)\<rparr>)"

text \<open>The moves a report's status can make in one call.\<close>

definition report_may_become :: "ReportStatus \<Rightarrow> ReportStatus \<Rightarrow> bool" where
  "report_may_become s t \<longleftrightarrow>
     (s = ReportStatus.Pending \<and> t \<in> {Verified, ReportStatus.Rejected, Challenged}) \<or>
     (s = Challenged \<and> t \<in> {Verified, ReportStatus.Rejected, ReportStatus.Pending})"

text \<open>
  A concrete history: two providers, an approved project in the registry at address 50, a report on
  it by the first provider, and a challenge of that report by a third account.
\<close>

definition checked_env :: "u64 \<Rightarrow> env" where
  "checked_env now = (sample_env now)\<lparr>overflow_checks := True\<rparr>"

definition sample_registries :: registries where
  "sample_registries = [Address 50 \<mapsto> (registry_constructor (sample_env 5) (Address 0))\<lparr>reg_projects :=
     [project_id_to_bytes 1 \<mapsto> (\<lparr>pj_id = 1, pj_owner = Address 9, pj_metadata_ipfs_hash = [1], pj_name = ''n'',
        pj_status = ProjectStatus.Approved, pj_methodology = ''m'', pj_country = ''c''\<rparr>, 4096)]\<rparr>]"

abbreviation sample_labels :: "timed_label list" where
  "sample_labels \<equiv> [(10, Some (Address 0, 0)), (10, Some (Address 0, 1)), (10, Some (Address 0, 2)),
     (100, Some (Address 1, 0)), (100, Some (Address 1, 1)), (150, Some (Address 2, 0)), (150, Some (Address 3, 0)),
     (200, Some (Address 3, 1))]"

section \<open>Accounting of bonds\<close>

lemma arith_i128_exact: "arith_i128 env x = Ok y \<Longrightarrow> overflow_checks env \<Longrightarrow> y = x"
  by (auto simp: arith_i128_def split: if_splits)

lemma amounts_simps [simp]:
  "amounts (orc_write env m k v) = (amounts m)(k := v)" "amounts (orc_bump env m k) = amounts m"
  "amounts (orc_touch env m k) = amounts m" "amounts (premove m k) = (amounts m)(k := 0)"
  by (auto simp: fun_eq_iff amounts_def storage_simps)

lemma add_at [simp]: "(\<lambda>b. f b + (if b = a then (x :: int) else 0)) = f(a := f a + x)"
  by (auto simp: fun_eq_iff)

lemma purse_of_upd [simp]:
  "purse_of (st\<lparr>orc_bond_balances := m1\<rparr>) = (purse_of st)\<lparr>pu_free := amounts m1\<rparr>"
  "purse_of (st\<lparr>orc_bond_locks := m1\<rparr>) = (purse_of st)\<lparr>pu_locked := amounts m1\<rparr>"
  "purse_of (st\<lparr>orc_challenges := m2\<rparr>) = (purse_of st)\<lparr>pu_open := \<lambda>i. Option.bind (pget m2 i) open_challenge\<rparr>"
  "purse_of (oracle_publish e st) = (purse_of st)\<lparr>pu_net := \<lambda>a. pu_net (purse_of st) a + bond_flow e a\<rparr>"
  by (simp_all add: purse_of_def oracle_publish_def net_bonds_def fun_eq_iff)

lemma purse_of_other [simp]:
  "purse_of (st\<lparr>orc_providers := n1\<rparr>) = purse_of st" "purse_of (st\<lparr>orc_reports := n2\<rparr>) = purse_of st"
  "purse_of (st\<lparr>orc_provider_list := n3\<rparr>) = purse_of st" "purse_of (st\<lparr>orc_report_periods := n4\<rparr>) = purse_of st"
  "purse_of (st\<lparr>orc_uphold_votes := n5\<rparr>) = purse_of st" "purse_of (st\<lparr>orc_reject_votes := n5\<rparr>) = purse_of st"
  "purse_of (st\<lparr>orc_report_verifiers := n5\<rparr>) = purse_of st" "purse_of (st\<lparr>orc_signature_threshold := n6\<rparr>) = purse_of st"
  "purse_of (st\<lparr>orc_report_count := n7\<rparr>) = purse_of st" "purse_of (st\<lparr>orc_admin := n8\<rparr>) = purse_of st"
  "purse_of (st\<lparr>orc_pending_admin := n9\<rparr>) = purse_of st" "purse_of (st\<lparr>orc_nonces := n10\<rparr>) = purse_of st"
  "purse_of (st\<lparr>orc_locked_stake := n11\<rparr>) = purse_of st" "purse_of (st\<lparr>orc_report_locks := n12\<rparr>) = purse_of st"
  "purse_of (st\<lparr>orc_slash_history := n13\<rparr>) = purse_of st" "purse_of (st\<lparr>orc_project_reports := n14\<rparr>) = purse_of st"
  "purse_of (st\<lparr>orc_provider_report_counts := n15\<rparr>) = purse_of st"
  "purse_of (st\<lparr>orc_provider_challenges := n16\<rparr>) = purse_of st"
  "purse_of (st\<lparr>orc_verification_counts := n17\<rparr>) = purse_of st"
  "purse_of (st\<lparr>orc_project_registry_nonce := n18\<rparr>) = purse_of st"
  "purse_of (st\<lparr>orc_project_registry := n19\<rparr>) = purse_of st"
  by (simp_all add: purse_of_def net_bonds_def fun_eq_iff)

lemma purse_reads:
  "unwrap_or (pget (orc_bond_balances st) a) 0 = pu_free (purse_of st) a"
  "unwrap_or (pget (orc_bond_locks st) a) 0 = pu_locked (purse_of st) a"
  "amounts (orc_bond_balances st) = pu_free (purse_of st)" "amounts (orc_bond_locks st) = pu_locked (purse_of st)"
  "(\<lambda>i. Option.bind (pget (orc_challenges st) i) open_challenge) = pu_open (purse_of st)"
  by (simp_all add: purse_of_def amounts_def fun_eq_iff)

lemma open_upd [simp]:
  "(\<lambda>j. Option.bind (pget (orc_write env m i c) j) open_challenge) =
     (\<lambda>j. Option.bind (pget m j) open_challenge)(i := open_challenge c)"
  "(\<lambda>j. Option.bind (pget (orc_bump env m i) j) open_challenge) = (\<lambda>j. Option.bind (pget m j) open_challenge)"
  by (auto simp: fun_eq_iff storage_simps)

lemma purse_helpers:
  "oracle_consume_nonce env a n st = Ok st' \<Longrightarrow> purse_of st' = purse_of st"
  "lock_stake_for_report env a i x st = Ok st' \<Longrightarrow> purse_of st' = purse_of st"
  "release_report_lock env a i st = Ok st' \<Longrightarrow> purse_of st' = purse_of st"
  "revoke_reported_project env i st R = Ok (st', R') \<Longrightarrow> purse_of st' = purse_of st"
  by (auto simp: oracle_consume_nonce_def oracle_get_nonce_def oracle_set_nonce_def lock_stake_for_report_def
      release_report_lock_def revoke_reported_project_def result_simps Let_def split: if_splits option.splits)

lemma reconcile_purse [simp]: "purse_of (reconcile_signature_threshold st) = purse_of st"
  by (simp add: reconcile_signature_threshold_def Let_def)

lemma slash_purse: "slash_provider env a i st = Ok st' \<Longrightarrow> purse_of st' = purse_of st"
  by (auto simp: slash_provider_def result_simps Let_def split: option.splits)

lemma charge_purse:
  assumes "charge_challenge_bond env a st = Ok (b, st')" and "overflow_checks env"
  shows "b = CHALLENGE_BOND \<and> CHALLENGE_BOND \<le> pu_free (purse_of st) a \<and>
    purse_of st' = (purse_of st)\<lparr>pu_free := (pu_free (purse_of st))(a := pu_free (purse_of st) a - CHALLENGE_BOND),
      pu_locked := (pu_locked (purse_of st))(a := pu_locked (purse_of st) a + CHALLENGE_BOND)\<rparr>"
  using assms
  by (auto simp: charge_challenge_bond_def result_simps Let_def purse_reads not_less
      dest!: arith_i128_exact split: if_splits)

lemma settle_purse:
  assumes "settle_challenge_bond env a x refund st = Ok st'" and "overflow_checks env"
  shows "purse_of st' = settled a x refund (purse_of st)"
  using assms
  by (cases refund) (auto simp: settle_challenge_bond_def settled_def result_simps Let_def purse_reads
      dest!: arith_i128_exact split: if_splits)

lemma purse_step_settled:
  assumes "pu_open P i = Some (a, x)" and "P' = settled a x refund (P\<lparr>pu_open := (pu_open P)(i := None)\<rparr>)"
  shows "purse_step P l P'"
  using assms b_drop [OF assms(1), of l] b_refund [OF assms(1) _ refl, of l] b_forfeit [OF assms(1) _ refl, of l]
  by (auto simp: settled_def Let_def)

lemma open_some: "pget (orc_challenges st) i = Some c \<Longrightarrow> \<not> ch_resolved c \<Longrightarrow>
    pu_open (purse_of st) i = Some (ch_challenger c, ch_bond c)"
  by (simp add: purse_of_def open_challenge_def)

lemma open_resolved [simp]: "ch_resolved c \<Longrightarrow> open_challenge c = None"
  by (simp add: open_challenge_def)

lemma finalize_purse:
  assumes "finalize_challenge env i res st R = Ok (st', R')" and "overflow_checks env"
  shows "purse_step (purse_of st) l (purse_of st')"
proof -
  from assms(1) obtain c where c: "pget (orc_challenges st) i = Some c"
    by (auto simp: finalize_challenge_def result_simps)
  show ?thesis
  proof (cases "ch_resolved c")
    case True
    with assms(1) c have "st' = st" by (auto simp: finalize_challenge_def result_simps)
    with b_none show ?thesis by simp
  next
    case False
    with assms c have "purse_of st' = settled (ch_challenger c) (ch_bond c) (res = ReportStatus.Rejected)
        ((purse_of st)\<lparr>pu_open := (pu_open (purse_of st))(i := None)\<rparr>)"
      by (auto simp: finalize_challenge_def result_simps Let_def purse_reads
          dest!: settle_purse purse_helpers slash_purse split: if_splits)
    with purse_step_settled [OF open_some [OF c False]] show ?thesis by blast
  qed
qed

lemma purse_idle:
  "register_provider env a q m n st = Ok st' \<Longrightarrow> purse_of st' = purse_of st"
  "remove_provider env a q n st = Ok st' \<Longrightarrow> purse_of st' = purse_of st"
  "set_signature_threshold env a t n st = Ok st' \<Longrightarrow> purse_of st' = purse_of st"
  "add_stake env a x n st = Ok st' \<Longrightarrow> purse_of st' = purse_of st"
  "withdraw_stake env a x n st = Ok st' \<Longrightarrow> purse_of st' = purse_of st"
  "verify_report env a i n st = Ok st' \<Longrightarrow> purse_of st' = purse_of st"
  "admin_override_report env a i s n st = Ok st' \<Longrightarrow> purse_of st' = purse_of st"
  "set_project_registry env a q n st = Ok st' \<Longrightarrow> purse_of st' = purse_of st"
  "oracle_propose_admin_transfer env a q n st = Ok st' \<Longrightarrow> purse_of st' = purse_of st"
  "oracle_cancel_admin_transfer env a n st = Ok st' \<Longrightarrow> purse_of st' = purse_of st"
  "oracle_accept_admin_transfer env a n st = Ok st' \<Longrightarrow> purse_of st' = purse_of st"
  by (auto simp: register_provider_def remove_provider_def set_signature_threshold_def add_stake_def
      withdraw_stake_def verify_report_def admin_override_report_def set_project_registry_def
      oracle_propose_admin_transfer_def oracle_cancel_admin_transfer_def oracle_accept_admin_transfer_def
      add_verifier_def result_simps Let_def dest!: purse_helpers split: if_splits)

lemma submit_purse: "submit_report env a pj t1 t2 cb bio me ev n st R = Ok (i, st', R') \<Longrightarrow> purse_of st' = purse_of st"
  by (drule submit_report_raw) (auto dest!: purse_helpers)

lemma challenge_purse:
  assumes "challenge_report env a i h n st = Ok st'" and "overflow_checks env"
  shows "purse_step (purse_of st) l (purse_of st')"
proof -
  let ?P = "purse_of st"
  let ?c = "\<lambda>b. \<lparr>ch_report_id = i, ch_challenger = a, ch_counter_evidence_hash = h,
    ch_submitted_at = timestamp env, ch_resolved = False, ch_resolution = 0, ch_bond = b\<rparr>"
  from assms(1) obtain st1 st2 b m where 1: "oracle_consume_nonce env a n st = Ok st1"
    "pget (orc_challenges st1) i = None" "charge_challenge_bond env a (st1\<lparr>orc_reports := m\<rparr>) = Ok (b, st2)"
    "purse_of st' = purse_of (st2\<lparr>orc_challenges := orc_write env (orc_challenges st2) i (?c b)\<rparr>)"
    by (auto simp: challenge_report_def result_simps Let_def phas_pget split: if_splits option.splits)
  have P: "purse_of st1 = ?P" using purse_helpers(1) [OF 1(1)] .
  have "pu_open ?P i = None" unfolding P [symmetric] using 1(2) by (simp add: purse_of_def)
  moreover have "CHALLENGE_BOND \<le> pu_free ?P a \<and>
    purse_of st' = ?P\<lparr>pu_free := (pu_free ?P)(a := pu_free ?P a - CHALLENGE_BOND),
      pu_locked := (pu_locked ?P)(a := pu_locked ?P a + CHALLENGE_BOND),
      pu_open := (pu_open ?P)(i \<mapsto> (a, CHALLENGE_BOND))\<rparr>"
    using charge_purse [OF 1(3) assms(2)] 1(4) P by (simp add: purse_reads open_challenge_def)
  ultimately show ?thesis using b_lock [of ?P i CHALLENGE_BOND a] by (simp add: CHALLENGE_BOND_def)
qed

lemma vote_purse:
  assumes "resolve_challenge_by_verifier env a i up n st R = Ok (st', R')" and "overflow_checks env"
  shows "purse_step (purse_of st) l (purse_of st')"
  using assms b_none [of "purse_of st" l]
  by (auto simp: resolve_challenge_by_verifier_def result_simps Let_def dest!: purse_helpers finalize_purse [where l = l]
      split: if_splits)

lemma expire_purse:
  assumes "expire_stale_challenge env i st = Ok st'" and "overflow_checks env"
  shows "purse_step (purse_of st) l (purse_of st')"
proof -
  from assms(1) obtain c where c: "pget (orc_challenges st) i = Some c"
    by (auto simp: expire_stale_challenge_def result_simps)
  show ?thesis
  proof (cases "ch_resolved c")
    case True
    with assms(1) c have "st' = st" by (auto simp: expire_stale_challenge_def result_simps)
    with b_none show ?thesis by simp
  next
    case False
    with assms c have "purse_of st' = settled (ch_challenger c) (ch_bond c) True
        ((purse_of st)\<lparr>pu_open := (pu_open (purse_of st))(i := None)\<rparr>)"
      by (auto simp: expire_stale_challenge_def result_simps Let_def purse_reads dest!: settle_purse split: if_splits)
    with purse_step_settled [OF open_some [OF c False]] show ?thesis by blast
  qed
qed

lemma bond_calls_purse:
  assumes "overflow_checks env"
  shows "deposit_challenge_bond env a x n st = Ok st' \<Longrightarrow> purse_step (purse_of st) l (purse_of st')"
    and "withdraw_challenge_bond env a x n st = Ok st' \<Longrightarrow> purse_step (purse_of st) l (purse_of st')"
proof -
  let ?P = "purse_of st"
  assume "deposit_challenge_bond env a x n st = Ok st'"
  then have "0 < x \<and> purse_of st' = ?P\<lparr>pu_free := (pu_free ?P)(a := pu_free ?P a + x),
      pu_net := (pu_net ?P)(a := pu_net ?P a + x)\<rparr>"
    by (auto simp: deposit_challenge_bond_def result_simps Let_def purse_reads
        dest!: purse_helpers(1) split: if_splits)
  with b_deposit [of x ?P l a] show "purse_step ?P l (purse_of st')" by simp
next
  let ?P = "purse_of st"
  assume "withdraw_challenge_bond env a x n st = Ok st'"
  then have "0 < x \<and> x \<le> pu_free ?P a \<and> purse_of st' = ?P\<lparr>pu_free := (pu_free ?P)(a := pu_free ?P a - x),
      pu_net := (pu_net ?P)(a := pu_net ?P a - x)\<rparr>"
    using assms
    by (auto simp: withdraw_challenge_bond_def result_simps Let_def purse_reads
        dest!: purse_helpers(1) arith_i128_exact split: if_splits)
  with b_withdraw [of x ?P a l] show "purse_step ?P l (purse_of st')" by simp
qed

lemma collect_challenges_purse: "purse_of (snd (collect_challenges env is acc st)) = purse_of st"
  by (induction env "is" acc st rule: collect_challenges.induct) (auto simp: purse_reads split: option.splits)

lemma reads_purse:
  "get_provider env a st = Ok (p, st') \<Longrightarrow> purse_of st' = purse_of st"
  "get_report env i st = Ok (r, st') \<Longrightarrow> purse_of st' = purse_of st"
  "get_challenge env i st = Ok (c, st') \<Longrightarrow> purse_of st' = purse_of st"
  "get_provider_stats env a st = Ok (ps, st') \<Longrightarrow> purse_of st' = purse_of st"
  "purse_of (snd (list_providers env st)) = purse_of st" "purse_of (snd (get_project_reports env i st)) = purse_of st"
  "purse_of (snd (get_verification_count env i st)) = purse_of st"
  "purse_of (snd (get_report_verifiers env i st)) = purse_of st"
  "purse_of (snd (get_locked_stake env a st)) = purse_of st" "purse_of (snd (get_slash_history env a st)) = purse_of st"
  "purse_of (snd (get_challenge_history env a st)) = purse_of st"
  "purse_of (snd (get_challenge_bond_balance env a st)) = purse_of st"
  "purse_of (snd (get_locked_challenge_bond env a st)) = purse_of st"
  "purse_of (snd (get_challenge_votes env i st)) = purse_of st"
  by (auto simp: get_provider_def get_report_def get_challenge_def get_provider_stats_def list_providers_def
      get_project_reports_def get_verification_count_def get_report_verifiers_def get_locked_stake_def
      get_slash_history_def get_challenge_history_def collect_challenges_purse get_challenge_bond_balance_def
      get_locked_challenge_bond_def get_challenge_votes_def result_simps Let_def purse_reads)

lemma resolve_purse:
  "resolve_challenge env a i res n st R = Ok (st', R') \<Longrightarrow> overflow_checks env \<Longrightarrow>
     purse_step (purse_of st) l (purse_of st')"
  by (auto simp: resolve_challenge_def result_simps dest!: purse_helpers(1) finalize_purse [where l = l] split: if_splits)

lemma oracle_step_purse: "oracle_step overflow_checks s l t \<Longrightarrow> purse_step (purse_of (fst s)) l (purse_of (fst t))"
proof (induction rule: oracle_step.induct)
  case (step_oracle_read st' env st i a R)
  then have "purse_of st' = purse_of st" using reads_purse by auto
  with b_none show ?case by simp
qed (simp_all add: purse_idle submit_purse reads_purse b_none challenge_purse resolve_purse vote_purse
    expire_purse bond_calls_purse)

lemma open_bonds_upd:
  assumes "finite (dom (pu_open P))"
  shows "pu_open P i = None \<Longrightarrow> open_bonds (P\<lparr>pu_open := (pu_open P)(i \<mapsto> (a, x))\<rparr>) b =
      open_bonds P b + (if b = a then x else 0)"
    and "pu_open P i = Some (a, x) \<Longrightarrow> open_bonds (P\<lparr>pu_open := (pu_open P)(i := None)\<rparr>) b =
      open_bonds P b - (if b = a then x else 0)"
proof -
  have add: "open_bonds (Q\<lparr>pu_open := (pu_open Q)(i \<mapsto> (a, x))\<rparr>) b = open_bonds Q b + (if b = a then x else 0)"
    if "pu_open Q i = None" "finite (dom (pu_open Q))" for Q :: purse
  proof -
    let ?D = "{j \<in> dom (pu_open Q). map_option fst (pu_open Q j) = Some b}"
    have D: "{j \<in> dom (\<lambda>j. map_option snd (((pu_open Q)(i \<mapsto> (a, x))) j)). map_option fst (((pu_open Q)(i \<mapsto> (a, x))) j) = Some b}
        = (if b = a then insert i ?D else ?D)" using that(1) by (auto simp: dom_def)
    have i: "i \<notin> ?D" "finite ?D" using that by auto
    have same: "(\<Sum>j\<in>?D. the (map_option snd (((pu_open Q)(i \<mapsto> (a, x))) j))) = (\<Sum>j\<in>?D. the (map_option snd (pu_open Q j)))"
      using i(1) by (intro sum.cong) auto
    have old: "open_bonds Q b = (\<Sum>j\<in>?D. the (map_option snd (pu_open Q j)))"
      unfolding open_bonds_def map_total_def by (rule sum.cong) (auto simp: dom_def)
    have "open_bonds (Q\<lparr>pu_open := (pu_open Q)(i \<mapsto> (a, x))\<rparr>) b =
        (\<Sum>j\<in>(if b = a then insert i ?D else ?D). the (map_option snd (((pu_open Q)(i \<mapsto> (a, x))) j)))"
      unfolding open_bonds_def map_total_def D [symmetric] by simp
    with same old i show ?thesis by (cases "b = a") simp_all
  qed
  show "pu_open P i = None \<Longrightarrow> open_bonds (P\<lparr>pu_open := (pu_open P)(i \<mapsto> (a, x))\<rparr>) b =
      open_bonds P b + (if b = a then x else 0)" by (rule add [OF _ assms])
  assume s: "pu_open P i = Some (a, x)"
  let ?Q = "P\<lparr>pu_open := (pu_open P)(i := None)\<rparr>"
  have "?Q\<lparr>pu_open := (pu_open ?Q)(i \<mapsto> (a, x))\<rparr> = P" using s by (simp add: fun_upd_idem)
  with add [of ?Q] assms show "open_bonds ?Q b = open_bonds P b - (if b = a then x else 0)" by simp
qed

lemma open_bonds_cong: "pu_open P' = pu_open P \<Longrightarrow> open_bonds P' = open_bonds P"
  by (simp add: open_bonds_def fun_eq_iff)

lemma open_bonds_member:
  assumes "purse_inv P" and "pu_open P i = Some (a, x)"
  shows "x \<le> open_bonds P a"
  unfolding open_bonds_def
proof (rule map_total_member_le [where k = i])
  show "finite (dom (\<lambda>i. map_option snd (pu_open P i)))"
    using assms(1) by (simp add: purse_inv_def dom_def)
  show "0 \<le> v" if "map_option snd (pu_open P k) = Some v" for k v
    using assms(1) that unfolding purse_inv_def by fastforce
qed (use assms(2) in simp_all)

lemma purse_inv_closed:
  assumes "purse_inv P" and "pu_open P i = Some (a, x)" and "pu_open Q = (pu_open P)(i := None)"
    and "pu_locked Q = (pu_locked P)(a := pu_locked P a - x)"
    and "pu_free Q = pu_free P \<and> pu_net Q = (pu_net P)(a := pu_net P a - x) \<or>
      pu_free Q = (pu_free P)(a := pu_free P a + x) \<and> pu_net Q = pu_net P"
  shows "purse_inv Q"
proof -
  have fin: "finite (dom (pu_open P))" and pos: "0 < x" using assms(1,2) unfolding purse_inv_def by blast+
  have "open_bonds Q b = open_bonds P b - (if b = a then x else 0)" for b
    using open_bonds_upd(2) [OF fin assms(2), of b] open_bonds_cong [of Q "P\<lparr>pu_open := (pu_open P)(i := None)\<rparr>"] assms(3)
    by simp
  moreover have "0 \<le> pu_free P b" "pu_locked P b = open_bonds P b" "pu_net P b = pu_free P b + open_bonds P b" for b
    using assms(1) unfolding purse_inv_def by blast+
  moreover have "\<forall>i a x. pu_open Q i = Some (a, x) \<longrightarrow> 0 < x"
    using assms(1,3) unfolding purse_inv_def by auto
  ultimately show ?thesis unfolding purse_inv_def using assms(3-5) fin pos by (auto simp: add_nonneg_pos less_imp_le)
qed

lemma purse_inv_step: "purse_inv P \<Longrightarrow> purse_step P l P' \<Longrightarrow> purse_inv P'"
proof (erule purse_step.cases)
  fix x Q l' a assume "purse_inv P" "P = Q" "0 < x"
    "P' = Q\<lparr>pu_free := (pu_free Q)(a := pu_free Q a + x), pu_net := (pu_net Q)(a := pu_net Q a + x)\<rparr>"
  then show ?thesis using open_bonds_cong [of P' P] by (auto simp: purse_inv_def)
next
  fix x Q l' a assume "purse_inv P" "P = Q" "0 < x" "x \<le> pu_free Q a"
    "P' = Q\<lparr>pu_free := (pu_free Q)(a := pu_free Q a - x), pu_net := (pu_net Q)(a := pu_net Q a - x)\<rparr>"
  then show ?thesis using open_bonds_cong [of P' P] by (auto simp: purse_inv_def)
next
  fix Q i x l' a
  assume h: "purse_inv P" "P = Q" "pu_open Q i = None" "0 < x" "x \<le> pu_free Q a"
    "P' = Q\<lparr>pu_free := (pu_free Q)(a := pu_free Q a - x), pu_locked := (pu_locked Q)(a := pu_locked Q a + x),
       pu_open := (pu_open Q)(i \<mapsto> (a, x))\<rparr>"
  have "open_bonds P' b = open_bonds P b + (if b = a then x else 0)" for b
    using open_bonds_upd(1) [of P i a x b] open_bonds_cong [of P' "P\<lparr>pu_open := (pu_open P)(i \<mapsto> (a, x))\<rparr>"] h
    by (simp add: purse_inv_def)
  with h show ?thesis by (auto simp: purse_inv_def split: if_splits)
next
  fix Q i a x y l'
  assume h: "purse_inv P" "P = Q" "pu_open Q i = Some (a, x)" "0 < x" "y = min x (pu_locked Q a)"
    "P' = Q\<lparr>pu_open := (pu_open Q)(i := None), pu_locked := (pu_locked Q)(a := pu_locked Q a - y),
       pu_free := (pu_free Q)(a := pu_free Q a + y)\<rparr>"
  then have "y = x" using open_bonds_member [of P i a x] by (auto simp: purse_inv_def)
  with h purse_inv_closed [of P i a x P'] show ?thesis by simp
next
  fix Q i a x y l'
  assume h: "purse_inv P" "P = Q" "pu_open Q i = Some (a, x)" "0 < x" "y = min x (pu_locked Q a)"
    "P' = Q\<lparr>pu_open := (pu_open Q)(i := None), pu_locked := (pu_locked Q)(a := pu_locked Q a - y),
       pu_net := (pu_net Q)(a := pu_net Q a - y)\<rparr>"
  then have "y = x" using open_bonds_member [of P i a x] by (auto simp: purse_inv_def)
  with h purse_inv_closed [of P i a x P'] show ?thesis by simp
next
  fix Q i a x l' assume "purse_inv P" "P = Q" "pu_open Q i = Some (a, x)" "x \<le> 0"
  then show ?thesis unfolding purse_inv_def by force
qed simp

interpretation challenge_bonds: simulated_machine "oracle_step overflow_checks" purse_step "\<lambda>s. purse_of (fst s)"
    "\<lambda>_. True" "\<lambda>_. purse_inv"
  by unfold_locales (erule oracle_step_purse, rule TrueI, erule (1) purse_inv_step)

lemma purse_inv_init: "purse_inv (purse_of (oracle_constructor a))"
  by (simp add: purse_inv_def purse_of_def oracle_constructor_def amounts_def net_bonds_def open_bonds_def storage_simps)

text \<open>
  C32. The books of the challenge bonds: in a build that checks overflow, at any time and for every
  account, the free balance is not negative, the locked amount is the sum of the bonds of the
  account's open challenges, and the two together are what the account deposited less what it
  withdrew and what it forfeited with lost challenges, as the published events tell.
\<close>

theorem challenge_bonds_balance:
  assumes "run (oracle_step overflow_checks) (oracle_constructor admin, R0) ls (st, R)" and "length ls < 2 ^ 64"
  shows "0 \<le> fst (get_challenge_bond_balance env a st) \<and>
    fst (get_locked_challenge_bond env a st) =
      (\<Sum>i\<in>{i. \<exists>c. pget (orc_challenges st) i = Some c \<and> \<not> ch_resolved c \<and> ch_challenger c = a}.
         ch_bond (the (pget (orc_challenges st) i))) \<and>
    fst (get_challenge_bond_balance env a st) + fst (get_locked_challenge_bond env a st) =
      sum_list (map (\<lambda>e. bond_flow e a) (orc_events st))"
proof -
  have inv: "purse_inv (purse_of st)"
    using challenge_bonds.conc.inv_run [OF assms(1), of 0] assms(2) purse_inv_init by simp
  have D: "{i \<in> dom (\<lambda>i. map_option snd (pu_open (purse_of st) i)). map_option fst (pu_open (purse_of st) i) = Some a} =
      {i. \<exists>c. pget (orc_challenges st) i = Some c \<and> \<not> ch_resolved c \<and> ch_challenger c = a}"
    by (auto simp: purse_of_def open_challenge_def bind_eq_Some_conv split: if_splits)
  have "open_bonds (purse_of st) a =
      (\<Sum>i\<in>{i. \<exists>c. pget (orc_challenges st) i = Some c \<and> \<not> ch_resolved c \<and> ch_challenger c = a}.
         ch_bond (the (pget (orc_challenges st) i)))"
    unfolding open_bonds_def map_total_def D
    by (rule sum.cong) (auto simp: purse_of_def open_challenge_def)
  moreover have "pu_net (purse_of st) a = sum_list (map (\<lambda>e. bond_flow e a) (orc_events st))"
    by (simp add: purse_of_def net_bonds_def)
  moreover have "fst (get_challenge_bond_balance env a st) = pu_free (purse_of st) a"
    "fst (get_locked_challenge_bond env a st) = pu_locked (purse_of st) a"
    by (simp_all add: get_challenge_bond_balance_def get_locked_challenge_bond_def purse_reads)
  ultimately show ?thesis using inv unfolding purse_inv_def by metis
qed

text \<open>
  C34. A challenge nobody resolves does not last for ever: 30 days after it was made anybody can close
  it, as long as the challenger's bonds together fit 128 bits; the report is pending again and the
  challenger gets the whole bond back.
\<close>

theorem stale_challenge_expires:
  assumes "run (oracle_step overflow_checks) (oracle_constructor admin, R0) ls (st, R)" and "length ls < 2 ^ 64"
    and "pget (orc_challenges st) i = Some c" and "\<not> ch_resolved c"
    and "unat (ch_submitted_at c) + 2592000 < unat (timestamp env)"
    and "fits_i128 (fst (get_challenge_bond_balance env (ch_challenger c) st) +
      fst (get_locked_challenge_bond env (ch_challenger c) st))"
  shows "\<exists>st' r. expire_stale_challenge env i st = Ok st' \<and> pget (orc_reports st') i = Some r \<and>
    rp_status r = ReportStatus.Pending \<and> pget (orc_challenges st') i = Some (c\<lparr>ch_resolved := True\<rparr>) \<and>
    fst (get_challenge_bond_balance env (ch_challenger c) st') =
      fst (get_challenge_bond_balance env (ch_challenger c) st) + ch_bond c"
proof -
  let ?a = "ch_challenger c" and ?P = "purse_of st"
  have "desk_inv (length ls) (desk_of st)" using oracle_reachable_inv [OF assms(1,2)] .
  then obtain r where r: "pget (orc_reports st) i = Some r" "rp_status r = Challenged"
    using assms(3,4) unfolding desk_inv_def desk_ids_def desk_status_def by (fastforce simp: desk_reads)
  have inv: "purse_inv ?P"
    using challenge_bonds.conc.inv_run [OF assms(1), of 0] assms(2) purse_inv_init by simp
  then have b: "0 < ch_bond c" "ch_bond c \<le> pu_locked ?P ?a" "0 \<le> pu_free ?P ?a"
    using open_some [OF assms(3,4)] open_bonds_member [OF inv open_some [OF assms(3,4)]]
    unfolding purse_inv_def by auto
  have fits: "fits_i128 (pu_free ?P ?a + pu_locked ?P ?a)"
    using assms(6) by (simp add: get_challenge_bond_balance_def get_locked_challenge_bond_def purse_reads)
  have f: "fits_i128 (pu_locked ?P ?a - ch_bond c)" "fits_i128 (pu_free ?P ?a + ch_bond c)"
    using fits_i128_between [OF fits_i128_zero fits] b by auto
  have late: "\<not> saturating_sub_u64 (timestamp env) (ch_submitted_at c) \<le> CHALLENGE_TIMEOUT_SECONDS"
    using assms(5) by (simp add: saturating_sub_u64_le CHALLENGE_TIMEOUT_SECONDS_def)
  have ev: "pu_free (purse_of (x\<lparr>orc_events := e\<rparr>)) = pu_free (purse_of x)" for x e by (simp add: purse_of_def)
  have m: "min (ch_bond c) (pu_locked ?P ?a) = ch_bond c" using b(2) by simp
  show ?thesis
    using r b f late assms(3,4)
    by (auto simp: expire_stale_challenge_def settle_challenge_bond_def Let_def purse_reads m ev arith_i128_fits
        oracle_publish_def storage_simps get_challenge_bond_balance_def ok_or_def)
qed


section \<open>Properties of reports and challenges\<close>

lemma desk_step_status:
  assumes "desk_step D l D'" and "desk_ids n D" and "Suc n < 2 ^ 64" and "desk_status D" and "dk_reports D j = Some r"
  shows "\<exists>r'. dk_reports D' j = Some r' \<and> (r' = r \<or> same_claim r r' \<and> report_may_become (rp_status r) (rp_status r'))"
proof -
  have fin: "r' = q \<or> same_claim q r' \<and> report_may_become (rp_status q) (rp_status r')"
    if "finalized now i res D1 D'" "desk_status D1" "dk_reports D' j = Some r'" "dk_reports D1 j = Some q" for now i res D1 r' q
    using finalized_report [OF that(1,3)] that(2,4) unfolding desk_status_def report_may_become_def by auto
  from desk_step_keeps(1) [OF assms(1)] assms(5) obtain r' where r': "dk_reports D' j = Some r'" by blast
  from assms(1) have "r' = r \<or> same_claim r r' \<and> report_may_become (rp_status r) (rp_status r')"
  proof (cases rule: desk_step.cases)
    case (k_resolve k a now i res)
    with fin [OF k_resolve(4) _ r'] assms(4,5) show ?thesis by (simp add: desk_status_def)
  next
    case (k_vote k a i c q D1 up now)
    have "desk_status D1" "dk_reports D1 j = Some r"
      using k_vote(11) assms(4,5) by (simp_all add: desk_status_def desk_parts)
    with k_vote(12) fin r' show ?thesis by (auto split: if_splits)
  next
    case (k_submit k q p now)
    with desk_ids_fresh(1) [OF assms(2,3)] assms(5) r' show ?thesis by (auto simp: desk_parts split: if_splits)
  next
    case (k_verify k a i q D1 now)
    have 1: "j = i \<Longrightarrow> q = r" using k_verify(5) assms(5) by simp
    have 2: "dk_reports D1 = dk_reports D" using k_verify(9) by (simp add: desk_parts)
    from k_verify(2) r' assms(5) have "r' = r \<or> j = i \<and> r' = q\<lparr>rp_status := Verified, rp_verified_at := now\<rparr>"
      by (auto simp: 2 dk_set_report_def split: if_splits)
    with 1 k_verify(6) show ?thesis by (elim disjE) (simp_all add: report_may_become_def)
  next
    case (k_override k a i q s now)
    have "j = i \<longrightarrow> q = r \<and> r' = r\<lparr>rp_status := s, rp_verified_at := now\<rparr>" "j \<noteq> i \<longrightarrow> r' = r"
      using k_override(2,5) r' assms(5) by (auto simp: desk_parts)
    then show ?thesis using k_override(6,7) by (cases "j = i") (simp_all, simp add: report_may_become_def, blast)
  next
    case (k_challenge k a i q c now)
    have "j = i \<longrightarrow> q = r \<and> r' = r\<lparr>rp_status := Challenged\<rparr>" "j \<noteq> i \<longrightarrow> r' = r"
      using k_challenge(2,5) r' assms(5) by (auto simp: desk_parts)
    with k_challenge(6) show ?thesis by (cases "j = i") (simp_all add: report_may_become_def)
  next
    case (k_expire i c now q)
    have "j = i \<longrightarrow> q = r \<and> r' = r\<lparr>rp_status := ReportStatus.Pending\<rparr>" "j \<noteq> i \<longrightarrow> r' = r"
      using k_expire(2,6) r' assms(5) by (auto simp: desk_parts)
    with k_expire(7) show ?thesis by (cases "j = i") (simp_all add: report_may_become_def)
  qed (use assms(5) r' in \<open>simp_all add: desk_parts\<close>)
  with r' show ?thesis by blast
qed

lemma desk_run_status:
  assumes "run desk_step D ls D'" and "desk_inv n D" and "n + length ls < 2 ^ 64" and "dk_reports D j = Some r"
  shows "\<exists>r'. dk_reports D' j = Some r' \<and> same_claim r r' \<and> report_may_become\<^sup>*\<^sup>* (rp_status r) (rp_status r') \<and>
    (rp_status r \<in> {Verified, ReportStatus.Rejected} \<longrightarrow> r' = r)"
  using assms
proof (induction rule: run.induct)
  case (run_refl D)
  then show ?case by auto
next
  case (run_snoc D ls T l U)
  then obtain q where q: "dk_reports T j = Some q" "same_claim r q" "report_may_become\<^sup>*\<^sup>* (rp_status r) (rp_status q)"
    "rp_status r \<in> {Verified, ReportStatus.Rejected} \<longrightarrow> q = r" by auto
  have "desk_inv (n + length ls) T"
    using oracle_desk.inv_run [OF run_snoc.hyps(1) run_snoc.prems(1)] run_snoc.prems(2) by simp
  with desk_step_status [OF run_snoc.hyps(2) _ _ _ q(1)] run_snoc.prems(2) obtain r' where
    r': "dk_reports U j = Some r'" "r' = q \<or> same_claim q r' \<and> report_may_become (rp_status q) (rp_status r')"
    by (auto simp: desk_inv_def)
  have "rp_status r \<in> {Verified, ReportStatus.Rejected} \<longrightarrow> r' = r"
    using r'(2) q(4) by (auto simp: report_may_become_def)
  moreover have "same_claim r r'" using r'(2) q(2) same_claim_trans by blast
  moreover have "report_may_become\<^sup>*\<^sup>* (rp_status r) (rp_status r')"
    using r'(2) q(3) by (auto intro: rtranclp.rtrancl_into_rtrancl)
  ultimately show ?case using r'(1) by blast
qed

text \<open>
  The life cycle of a report: whatever is called, by whom and when, a submitted report keeps its
  number, provider, project, period and content; its status moves only from pending to verified,
  rejected or challenged and from challenged to verified, rejected or back to pending; a verified or
  rejected report never changes again; and a report is challenged exactly while a challenge of it is
  open.
\<close>

theorem report_life_cycle:
  assumes "run (oracle_step E) (oracle_constructor admin, R0) ls (st, R)"
    and "run (oracle_step E) (st, R) ls' (st', R')" and "length ls + length ls' < 2 ^ 64"
    and "pget (orc_reports st) i = Some r"
  shows "\<exists>s v. pget (orc_reports st') i = Some (r\<lparr>rp_status := s, rp_verified_at := v\<rparr>) \<and>
    report_may_become\<^sup>*\<^sup>* (rp_status r) s \<and>
    (rp_status r \<in> {Verified, ReportStatus.Rejected} \<longrightarrow> pget (orc_reports st') i = Some r) \<and>
    (s = Challenged \<longleftrightarrow> (\<exists>c. pget (orc_challenges st') i = Some c \<and> \<not> ch_resolved c))"
proof -
  have 1: "desk_inv (length ls) (desk_of st)" using oracle_reachable_inv [OF assms(1)] assms(3) by simp
  have "run desk_step (desk_of st) ls' (desk_of st')" using oracle_desk.run_refines [OF assms(2)] by simp
  from desk_run_status [OF this 1 assms(3), of i r] assms(4) obtain r' where
    r': "pget (orc_reports st') i = Some r'" "same_claim r r'" "report_may_become\<^sup>*\<^sup>* (rp_status r) (rp_status r')"
      "rp_status r \<in> {Verified, ReportStatus.Rejected} \<longrightarrow> r' = r" by (auto simp: desk_reads)
  then obtain s v where sv: "r' = r\<lparr>rp_status := s, rp_verified_at := v\<rparr>" by (auto simp: same_claim_def)
  have "desk_status (desk_of st')"
    using oracle_reachable_inv [OF run_append [OF assms(1,2)]] assms(3) by (simp add: desk_inv_def)
  then have "rp_status r' = Challenged \<longleftrightarrow> (\<exists>c. pget (orc_challenges st') i = Some c \<and> \<not> ch_resolved c)"
    using r'(1) by (auto simp: desk_status_def desk_reads)
  moreover have "rp_status r' = s" using sv by simp
  ultimately show ?thesis using r'(1,3,4) sv by metis
qed

text \<open>
  C5. No two reports on a project cover a common moment, whichever providers submitted them and
  however many there are: evicting the oldest of 200 recorded periods never lets an overlapping
  report in.
\<close>

theorem report_periods_disjoint:
  assumes "run (oracle_step E) (oracle_constructor admin, R0) ls (st, R)" and "length ls < 2 ^ 64"
    and "pget (orc_reports st) i = Some r" and "pget (orc_reports st) j = Some q" and "i \<noteq> j"
    and "rp_project_id r = rp_project_id q"
  shows "rp_period_end r \<le> rp_period_start q \<or> rp_period_end q \<le> rp_period_start r"
proof -
  have "desk_periods (desk_of st)" using oracle_reachable_inv [OF assms(1,2)] by (simp add: desk_inv_def)
  with assms(3-6) show ?thesis
    unfolding desk_periods_def desk_reads by (metis linorder_neqE)
qed

text \<open>
  C35. The signature threshold can be met at any time by the providers there are: it is never 0 and
  never more than the number of active providers (or 1, if none is active).
\<close>

theorem signature_threshold_bounds:
  assumes "run (oracle_step E) (oracle_constructor admin, R0) ls (st, R)" and "length ls < 2 ^ 32"
  shows "1 \<le> unat (get_signature_threshold st) \<and>
    unat (get_signature_threshold st) \<le> max 1 (unat (active_provider_count st))"
proof -
  have inv: "desk_inv (length ls) (desk_of st)" using oracle_reachable_inv [OF assms(1)] assms(2) by simp
  then have "active_providers (desk_of st) \<le> length ls"
    by (auto simp: desk_inv_def active_providers_def desk_providers_def intro: order_trans [OF length_filter_le])
  with assms(2) have "unat (active_provider_count st) = active_providers (desk_of st)"
    by (simp add: active_provider_count_desk unsigned_of_nat take_bit_nat_eq_self)
  with inv assms(2) show ?thesis
    by (simp_all add: desk_inv_def desk_threshold_def get_signature_threshold_def desk_reads)
qed

lemma vec_len_nat: "length xs < 2 ^ 32 \<Longrightarrow> unat (vec_len xs) = length xs"
  by (simp add: vec_len_def unsigned_of_nat take_bit_nat_eq_self)

lemma provider_lists_short:
  assumes "desk_inv n D" and "n < 2 ^ 32" and "distinct xs" and "set xs \<subseteq> dom (dk_providers D)"
  shows "length xs < 2 ^ 32"
proof -
  have "set xs \<subseteq> set (dk_plist D)" "length (dk_plist D) \<le> n"
    using assms(1,4) unfolding desk_inv_def desk_providers_def by auto
  then have "length xs \<le> n"
    using assms(3) by (metis List.finite_set card_length card_mono distinct_card order_trans)
  with assms(2) show ?thesis by simp
qed

text \<open>
  A successful \<open>verify_report\<close> of a pending report is signed by an active provider other than the submitter,
  leaves as verifiers of the report distinct registered providers that include the caller and not the
  submitter, and makes the report verified exactly when they are at least as many as the signature
  threshold; otherwise the report stays pending.
\<close>

lemma verify_report_quorum:
  assumes "run (oracle_step E) (oracle_constructor admin, R0) ls (st, R)" and "length ls + 1 < 2 ^ 32"
    and "verify_report env a i n st = Ok st'"
  shows "\<exists>r p r'. pget (orc_reports st) i = Some r \<and> rp_status r = ReportStatus.Pending \<and>
    a \<noteq> rp_provider r \<and> pget (orc_providers st) a = Some p \<and> op_active p \<and>
    pget (orc_reports st') i = Some r' \<and>
    (let V = fst (get_report_verifiers env i st')
     in distinct V \<and> a \<in> set V \<and> rp_provider r \<notin> set V \<and> (\<forall>v \<in> set V. pget (orc_providers st') v \<noteq> None) \<and>
        rp_status r' = (if unat (get_signature_threshold st) \<le> length V then Verified else ReportStatus.Pending))"
proof -
  let ?D = "dk_add_verifier i a (dk_spend a (desk_of st))" and ?V = "dk_verifiers (desk_of st') i"
  from verify_report_Ok [OF assms(3) refl] obtain r where r: "is_active (desk_of st) a"
    "dk_reports (desk_of st) i = Some r" "rp_status r = ReportStatus.Pending" "a \<noteq> rp_provider r"
    and D: "desk_of st' = (if dk_threshold (desk_of st) \<le> vec_len (dk_verifiers ?D i)
      then dk_set_report i (r\<lparr>rp_status := Verified, rp_verified_at := timestamp env\<rparr>) ?D else ?D)" by blast
  have V: "?V = dk_verifiers ?D i" unfolding D by (simp add: dk_set_report_def)
  have a: "a \<in> set ?V" unfolding V by (simp add: dk_add_verifier_def)
  have inv0: "desk_inv (length ls) (desk_of st)" using oracle_reachable_inv [OF assms(1)] assms(2) by simp
  have inv: "desk_inv (Suc (length ls)) (desk_of st')"
    using desk_inv_step [OF inv0 k_verify_sim [OF assms(3)]] assms(2) by simp
  have "dk_reports (desk_of st') i = Some (if dk_threshold (desk_of st) \<le> vec_len (dk_verifiers ?D i)
      then r\<lparr>rp_status := Verified, rp_verified_at := timestamp env\<rparr> else r)"
    unfolding D using r(2) by (simp add: dk_set_report_def dk_add_verifier_def)
  then obtain r' where r': "dk_reports (desk_of st') i = Some r'" "rp_provider r' = rp_provider r"
    "rp_status r' = (if dk_threshold (desk_of st) \<le> vec_len ?V then Verified else ReportStatus.Pending)"
    using r(3) unfolding V by (cases "dk_threshold (desk_of st) \<le> vec_len (dk_verifiers ?D i)") simp_all
  have v: "distinct ?V" "rp_provider r \<notin> set ?V" "set ?V \<subseteq> dom (dk_providers (desk_of st'))"
    using inv r'(1) unfolding desk_inv_def desk_verifiers_def r'(2) [symmetric] by blast+
  have "unat (vec_len ?V) = length ?V"
    using provider_lists_short [OF inv _ v(1,3)] assms(2) vec_len_nat [of ?V] by simp
  with r'(3) have "rp_status r' = (if unat (get_signature_threshold st) \<le> length ?V then Verified else ReportStatus.Pending)"
    by (simp add: word_le_nat_alt get_signature_threshold_def desk_reads)
  with a v r r'(1) show ?thesis
    by (auto simp: get_report_verifiers_def desk_reads Let_def is_active_def split: option.splits)
qed

lemma ceil_div:
  fixes x :: nat
  shows "x mod 3 = 0 \<Longrightarrow> x div 3 = (x + 2) div 3" and "x mod 3 \<noteq> 0 \<Longrightarrow> x div 3 + 1 = (x + 2) div 3"
    and "(x + 2) div 3 \<le> m \<longleftrightarrow> x \<le> 3 * m"
  by presburger+

lemma supermajority_nat: "unat (supermajority_threshold k) \<le> m \<longleftrightarrow> 1 \<le> m \<and> 2 * unat k \<le> 3 * m"
proof -
  have k: "unat k < 2 ^ 32" using unsigned_less [of k, where 'a = nat] by simp
  have u: "unat (2 * ucast k :: u64) = 2 * unat k"
    using k by (simp add: unat_word_ariths unsigned_ucast_eq take_bit_nat_eq_self)
  have m: "(2 * ucast k :: u64) mod 3 = 0 \<longleftrightarrow> (2 * unat k) mod 3 = 0"
    by (simp add: word_unat_eq_iff unat_mod u)
  have i: "unat ((2 * ucast k :: u64) div 3 + 1) = (2 * unat k) div 3 + 1"
    using k by (subst unat_inc) (simp_all add: unat_div u)
  have d: "unat (div_ceil (2 * ucast k) 3) = (2 * unat k + 2) div 3"
    unfolding div_ceil_def m using ceil_div(1,2) [of "2 * unat k"] i by (simp add: unat_div u)
  have "unat (max (div_ceil (2 * ucast k) 3) 1) = max ((2 * unat k + 2) div 3) 1"
    by (auto simp: max_def word_le_nat_alt d)
  moreover have "max ((2 * unat k + 2) div 3) 1 < 2 ^ 32" using k by simp
  ultimately have "unat (supermajority_threshold k) = max ((2 * unat k + 2) div 3) 1"
    by (simp add: supermajority_threshold_def unsigned_ucast_eq take_bit_nat_eq_self)
  then show ?thesis using ceil_div(3) [of "2 * unat k" m] by auto
qed

lemma finalized_open:
  assumes "finalized now i res D D'" and "dk_challenges D i = Some c" and "\<not> ch_resolved c" and "dk_reports D i = Some r"
  shows "\<exists>r' c'. dk_reports D' i = Some r' \<and> dk_challenges D' i = Some c' \<and> ch_resolved c' \<and>
    rp_provider r' = rp_provider r \<and> rp_status r' = res"
  using assms by (cases rule: finalized.cases) (auto simp: desk_parts)

text \<open>What a vote does to the list of its side, and when that list is a supermajority.\<close>

lemma vote_counts:
  fixes st :: oracle_consumer and up :: bool and i :: u64
  defines "W D \<equiv> if up then dk_uphold D i else dk_reject D i"
  assumes "run (oracle_step E) (oracle_constructor admin, R0) ls (st, R)" and "length ls + 1 < 2 ^ 32"
    and "resolve_challenge_by_verifier env a i up n st R = Ok (st', R')"
  shows "W (desk_of st') = W (desk_of st) @ [a]" and "distinct (W (desk_of st'))"
    and "supermajority_threshold (of_nat (active_providers (desk_of st))) \<le> vec_len (W (dk_vote i a up (dk_spend a (desk_of st)))) \<longleftrightarrow>
      2 * unat (active_provider_count st) \<le> 3 * length (W (desk_of st'))"
proof -
  let ?D = "dk_vote i a up (dk_spend a (desk_of st))"
  from vote_Ok [OF assms(4) refl] have fin: "desk_of st' = ?D \<or>
      finalized (timestamp env) i (if up then Verified else ReportStatus.Rejected) ?D (desk_of st')"
    by (auto split: if_splits)
  have inv0: "desk_inv (length ls) (desk_of st)" using oracle_reachable_inv [OF assms(2)] assms(3) by simp
  have inv: "desk_inv (Suc (length ls)) (desk_of st')"
    using desk_inv_step [OF inv0 k_vote_sim [OF assms(4)]] assms(3) by simp
  have D: "W ?D = W (desk_of st) @ [a]" by (simp add: W_def dk_vote_def)
  have same: "W (desk_of st') = W ?D"
    using fin finalized_frame(11,12) [of "timestamp env" i _ ?D "desk_of st'"] by (auto simp: W_def)
  with D show "W (desk_of st') = W (desk_of st) @ [a]" by simp
  show dist: "distinct (W (desk_of st'))"
    using inv unfolding desk_inv_def desk_votes_def W_def by (auto split: if_splits)
  have "set (W (desk_of st')) \<subseteq> dom (dk_providers (desk_of st'))"
    using inv unfolding desk_inv_def desk_votes_def W_def by (auto split: if_splits)
  from provider_lists_short [OF inv _ dist this] assms(3) vec_len_nat
  have "unat (vec_len (W (desk_of st'))) = length (W (desk_of st'))" by simp
  then show "supermajority_threshold (of_nat (active_providers (desk_of st))) \<le> vec_len (W ?D) \<longleftrightarrow>
      2 * unat (active_provider_count st) \<le> 3 * length (W (desk_of st'))"
    unfolding same [symmetric] word_le_nat_alt supermajority_nat active_provider_count_desk by (simp add: same D)
qed

text \<open>
  C33. Voting on a challenge: a successful vote is cast by an active provider who did not submit the
  report and had not voted on it before; each voter is counted once; and the vote settles the
  challenge exactly when the votes on its side reach two thirds of the active providers. Then the
  report becomes verified or rejected according to the side; otherwise the challenge stays open.
\<close>

theorem challenge_vote_supermajority:
  assumes "run (oracle_step E) (oracle_constructor admin, R0) ls (st, R)" and "length ls + 1 < 2 ^ 32"
    and "resolve_challenge_by_verifier env a i up n st R = Ok (st', R')"
    and "votes = (if up then fst else snd)" and "V = votes (fst (get_challenge_votes env i st'))"
  shows "\<exists>r c'. pget (orc_reports st') i = Some r \<and> pget (orc_challenges st') i = Some c' \<and>
    V = votes (fst (get_challenge_votes env i st)) @ [a] \<and> distinct V \<and> a \<noteq> rp_provider r \<and>
    (if 2 * unat (active_provider_count st) \<le> 3 * length V
     then ch_resolved c' \<and> rp_status r = (if up then Verified else ReportStatus.Rejected)
     else \<not> ch_resolved c' \<and> rp_status r = Challenged)"
proof -
  let ?D = "dk_vote i a up (dk_spend a (desk_of st))" and ?k = "of_nat (active_providers (desk_of st)) :: u32"
  let ?V = "\<lambda>D. if up then dk_uphold D i else dk_reject D i"
  from vote_Ok [OF assms(3) refl] obtain c r where r: "dk_challenges (desk_of st) i = Some c" "\<not> ch_resolved c"
    "dk_reports (desk_of st) i = Some r" "rp_status r = Challenged" "a \<noteq> rp_provider r"
    and fin: "if supermajority_threshold ?k \<le> vec_len (?V ?D)
     then finalized (timestamp env) i (if up then Verified else ReportStatus.Rejected) ?D (desk_of st')
     else desk_of st' = ?D" by blast
  have V: "V = ?V (desk_of st')" "votes (fst (get_challenge_votes env i st)) = ?V (desk_of st)"
    using assms(4,5) by (simp_all add: get_challenge_votes_def desk_reads)
  note count = vote_counts [OF assms(1-3)]
  have dist: "distinct V" and Va: "V = votes (fst (get_challenge_votes env i st)) @ [a]"
    and q: "supermajority_threshold ?k \<le> vec_len (?V ?D) \<longleftrightarrow> 2 * unat (active_provider_count st) \<le> 3 * length V"
    unfolding V by (rule count(2), rule count(1), rule count(3))
  show ?thesis
  proof (cases "2 * unat (active_provider_count st) \<le> 3 * length V")
    case True
    with fin q have f: "finalized (timestamp env) i (if up then Verified else ReportStatus.Rejected) ?D (desk_of st')"
      by simp
    have "dk_challenges ?D i = Some c" "dk_reports ?D i = Some r" using r by (simp_all add: dk_vote_def)
    from finalized_open [OF f this(1) r(2) this(2)] obtain r' c' where "dk_reports (desk_of st') i = Some r'"
      "dk_challenges (desk_of st') i = Some c'" "ch_resolved c'" "rp_provider r' = rp_provider r"
      "rp_status r' = (if up then Verified else ReportStatus.Rejected)" by blast
    with True r(5) dist Va show ?thesis
      by (intro exI [of _ r'] exI [of _ c']) (simp only: desk_reads if_True simp_thms not_False_eq_True)
  next
    case False
    with fin q have D': "desk_of st' = ?D" by simp
    have "dk_reports (desk_of st') i = Some r" "dk_challenges (desk_of st') i = Some c"
      using r(1,3) unfolding D' by (simp_all add: dk_vote_def)
    with False r(2,4,5) dist Va show ?thesis
      by (intro exI [of _ r] exI [of _ c]) (simp only: desk_reads if_False simp_thms not_False_eq_True)
  qed
qed

lemma oracle_step_verifies:
  assumes "oracle_step E (st, R) l (st', R')" and "dk_reports (desk_of st') i = Some r'" and "rp_status r' = Verified"
    and "dk_reports (desk_of st) i \<noteq> Some r'"
  shows "\<exists>env a n. l = (timestamp env, Some (a, n)) \<and> (verify_report env a i n st = Ok st' \<or>
    admin_override_report env a i Verified n st = Ok st' \<or> resolve_challenge env a i Verified n st R = Ok (st', R') \<or>
    resolve_challenge_by_verifier env a i True n st R = Ok (st', R'))"
  using assms(1)
proof (cases rule: oracle_step.cases)
  case (step_submit_report env a p s e x y me h n j)
  with submit_frame [OF step_submit_report(3)] assms(2-4) have "rp_status r' = ReportStatus.Pending" by blast
  with assms(3) show ?thesis by simp
next
  case (step_verify_report env a j n)
  with verify_frame [OF step_verify_report(4)] assms(2,4) have "j = i" by metis
  with step_verify_report show ?thesis by blast
next
  case (step_admin_override env a j s n)
  with override_frame [OF step_admin_override(4)] assms(2-4) have "j = i" "s = Verified" by (auto split: if_splits)
  with step_admin_override show ?thesis by blast
next
  case (step_challenge_report env a j h n)
  with challenge_frame [OF step_challenge_report(4)] assms(2-4) show ?thesis by (auto split: if_splits)
next
  case (step_resolve_challenge env a j v n)
  with resolve_frame [OF step_resolve_challenge(3)] assms(2-4)
    finalized_reports [of "timestamp env" j v "dk_spend a (desk_of st)" "desk_of st'" i r'] have "j = i" "v = Verified" by auto
  with step_resolve_challenge show ?thesis by blast
next
  case (step_resolve_by_verifier env a j up n)
  from vote_frame [OF step_resolve_by_verifier(3)] obtain D1 where "dk_reports D1 = dk_reports (desk_of st)"
    "desk_of st' = D1 \<or> finalized (timestamp env) j (if up then Verified else ReportStatus.Rejected) D1 (desk_of st')" by blast
  with finalized_reports [of "timestamp env" j _ D1 "desk_of st'" i r'] assms(2-4)
  have "j = i" "up" by (auto split: if_splits)
  with step_resolve_by_verifier(3) have "resolve_challenge_by_verifier env a i True n st R = Ok (st', R')" by simp
  with step_resolve_by_verifier(1) show ?thesis by blast
next
  case (step_expire env j)
  with expire_frame [OF step_expire(4)] assms(2-4) show ?thesis by (auto split: if_splits)
next
  case (step_oracle_read env j a)
  then have "desk_of st' = desk_of st" using reads_desk(5-14) by auto
  with assms(2,4) show ?thesis by simp
qed (use assms(2,4) in \<open>auto dest: provider_calls_frame office_calls_reports reads_desk(1-4)\<close>)

text \<open>
  C31. The ways in which a report becomes verified. When, after any run from the constructor, a call leaves
  a report verified that was not verified before, then the call is one of four. (1) \<open>verify_report\<close> of a
  pending report: its verifiers are then distinct registered providers, among them the caller and not the
  submitter, at least as many as the signature threshold. (2) The vote \<open>resolve_challenge_by_verifier\<close> to
  uphold a challenged report: the voters for it are then distinct, among them the caller, and at least two
  thirds of the active providers. (3) \<open>admin_override_report\<close> of a pending report or (4) \<open>resolve_challenge\<close>
  of a challenged one, both by the administrator alone.
\<close>

theorem verified_only_by:
  assumes "run (oracle_step E) (oracle_constructor admin, R0) ls (st, R)" and "length ls + 1 < 2 ^ 32"
    and "oracle_step E (st, R) l (st', R')" and "\<forall>r. pget (orc_reports st) i = Some r \<longrightarrow> rp_status r \<noteq> Verified"
    and "pget (orc_reports st') i = Some r'" and "rp_status r' = Verified"
  shows "\<exists>env a n r. l = (timestamp env, Some (a, n)) \<and> pget (orc_reports st) i = Some r \<and>
    (verify_report env a i n st = Ok st' \<and> rp_status r = ReportStatus.Pending \<and>
       (let V = fst (get_report_verifiers env i st')
        in distinct V \<and> a \<in> set V \<and> rp_provider r \<notin> set V \<and> (\<forall>v \<in> set V. pget (orc_providers st') v \<noteq> None) \<and>
           unat (get_signature_threshold st) \<le> length V) \<or>
     resolve_challenge_by_verifier env a i True n st R = Ok (st', R') \<and> rp_status r = Challenged \<and>
       (let V = fst (fst (get_challenge_votes env i st'))
        in distinct V \<and> a \<in> set V \<and> 2 * unat (active_provider_count st) \<le> 3 * length V) \<or>
     admin_override_report env a i Verified n st = Ok st' \<and> rp_status r = ReportStatus.Pending \<and> oracle_get_admin st = Some a \<or>
     resolve_challenge env a i Verified n st R = Ok (st', R') \<and> rp_status r = Challenged \<and> oracle_get_admin st = Some a)"
proof -
  have new: "dk_reports (desk_of st') i = Some r'" "dk_reports (desk_of st) i \<noteq> Some r'"
    using assms(4-6) by (auto simp: desk_reads)
  from oracle_step_verifies [OF assms(3) new(1) assms(6) new(2)] obtain env a n where l: "l = (timestamp env, Some (a, n))"
    and "verify_report env a i n st = Ok st' \<or> admin_override_report env a i Verified n st = Ok st' \<or>
      resolve_challenge env a i Verified n st R = Ok (st', R') \<or> resolve_challenge_by_verifier env a i True n st R = Ok (st', R')" by blast
  then consider (verify) "verify_report env a i n st = Ok st'" | (override) "admin_override_report env a i Verified n st = Ok st'"
    | (resolve) "resolve_challenge env a i Verified n st R = Ok (st', R')"
    | (vote) "resolve_challenge_by_verifier env a i True n st R = Ok (st', R')" by blast
  then show ?thesis
  proof cases
    case verify
    from verify_report_quorum [OF assms(1,2) verify] obtain r r1 where r: "pget (orc_reports st) i = Some r"
      "rp_status r = ReportStatus.Pending" and "pget (orc_reports st') i = Some r1"
      and V: "let V = fst (get_report_verifiers env i st')
        in distinct V \<and> a \<in> set V \<and> rp_provider r \<notin> set V \<and> (\<forall>v \<in> set V. pget (orc_providers st') v \<noteq> None) \<and>
          rp_status r1 = (if unat (get_signature_threshold st) \<le> length V then Verified else ReportStatus.Pending)" by blast
    with assms(5,6) have "let V = fst (get_report_verifiers env i st')
        in distinct V \<and> a \<in> set V \<and> rp_provider r \<notin> set V \<and> (\<forall>v \<in> set V. pget (orc_providers st') v \<noteq> None) \<and>
           unat (get_signature_threshold st) \<le> length V" by (simp add: Let_def split: if_splits)
    with l r verify show ?thesis by blast
  next
    case override
    with override_frame [OF override] l show ?thesis by (auto simp: desk_reads oracle_get_admin_def)
  next
    case resolve
    from resolve_frame [OF resolve] have admin: "dk_admin (desk_of st) = Some a"
      and f: "finalized (timestamp env) i Verified (dk_spend a (desk_of st)) (desk_of st')" by blast+
    from finalized_reports [OF f new(1)] new(2) obtain c r where "dk_challenges (desk_of st) i = Some c" "\<not> ch_resolved c"
      and r: "dk_reports (desk_of st) i = Some r" by auto
    moreover have "desk_inv (length ls) (desk_of st)" using oracle_reachable_inv [OF assms(1)] assms(2) by simp
    ultimately have "rp_status r = Challenged" by (auto simp: desk_inv_def desk_status_def)
    with l r admin resolve show ?thesis by (auto simp: desk_reads oracle_get_admin_def)
  next
    case vote
    let ?D = "dk_vote i a True (dk_spend a (desk_of st))"
    note count = vote_counts [OF assms(1,2) vote, unfolded if_True]
    from vote_Ok [OF vote refl] obtain r where r: "dk_reports (desk_of st) i = Some r" "rp_status r = Challenged"
      and fin: "supermajority_threshold (of_nat (active_providers (desk_of st))) \<le> vec_len (dk_uphold ?D i) \<or> desk_of st' = ?D"
      by (auto split: if_splits)
    moreover have "desk_of st' \<noteq> ?D" using new by (auto simp: dk_vote_def)
    ultimately have "let V = fst (fst (get_challenge_votes env i st'))
        in distinct V \<and> a \<in> set V \<and> 2 * unat (active_provider_count st) \<le> 3 * length V"
      using count by (simp add: get_challenge_votes_def desk_reads)
    moreover have "pget (orc_reports st) i = Some r" using r(1) by (simp add: desk_reads)
    ultimately show ?thesis using l r(2) vote by blast
  qed
qed

lemma revoke_needs_approved:
  assumes "revoke_project env a i why n reg = Ok reg'"
  shows "\<exists>p. pget (reg_projects reg) (project_id_to_bytes i) = Some p \<and> pj_status p = ProjectStatus.Approved"
  using assms
  by (auto simp: revoke_project_def Let_def result_simps registry_consume_nonce_def registry_check_nonce_def
      registry_write_nonce_def registry_bump_instance_def read_project_def read_persistent_def write_persistent_def
      split: if_splits prod.splits option.splits)

lemma rejected_needs_approved:
  assumes "finalize_challenge env i ReportStatus.Rejected st R = Ok (st', R')"
    and "pget (orc_challenges st) i = Some c" and "\<not> ch_resolved c" and "pget (orc_reports st) i = Some r"
    and "orc_project_registry st = Some q" and "R q = Some reg"
  shows "\<exists>p. pget (reg_projects reg) (project_id_to_bytes (rp_project_id r)) = Some p \<and> pj_status p = ProjectStatus.Approved"
proof -
  have reg1: "orc_project_registry st2 = orc_project_registry st1" if "release_report_lock env a j st1 = Ok st2" for st1 st2 a j
    using that by (auto simp: release_report_lock_def Let_def result_simps split: if_splits)
  have reg2: "orc_project_registry st2 = orc_project_registry st1" if "slash_provider env a j st1 = Ok st2" for st1 st2 a j
    using that by (auto simp: slash_provider_def reconcile_signature_threshold_def oracle_publish_def Let_def result_simps
        split: option.splits if_splits)
  from assms(1-4) obtain st1 st2 st3 st4 where
    "release_report_lock env (rp_provider r) i st1 = Ok st2" "orc_project_registry st1 = orc_project_registry st"
    "slash_provider env (rp_provider r) i st2 = Ok st3"
    "revoke_reported_project env (rp_project_id r) st3 R = Ok st4"
    by (auto simp: finalize_challenge_def result_simps Let_def storage_simps)
  with reg1 reg2 assms(5,6) show ?thesis
    by (auto simp: revoke_reported_project_def result_simps Let_def dest!: revoke_needs_approved split: option.splits)
qed

lemma consume_keeps:
  "oracle_consume_nonce env a n st = Ok st' \<Longrightarrow> orc_project_registry st' = orc_project_registry st \<and>
     orc_challenges st' = orc_challenges st \<and> orc_reports st' = orc_reports st"
  by (auto simp: oracle_consume_nonce_def oracle_get_nonce_def oracle_set_nonce_def Let_def result_simps split: if_splits)

text \<open>
  C36. A challenge cannot be upheld against the provider once the project is out of circulation: as
  long as the project of a challenged report is not approved in the configured registry (it was
  suspended, or revoked because of an earlier rejected report), no call rejects the report; the
  administrator's resolution fails, and a rejecting vote that would settle the challenge fails, so the
  challenge stays open.
\<close>

theorem rejection_needs_approved_project:
  assumes "pget (orc_challenges st) i = Some c" and "\<not> ch_resolved c" and "pget (orc_reports st) i = Some r"
    and "orc_project_registry st = Some q" and "R q = Some reg"
    and "pget (reg_projects reg) (project_id_to_bytes (rp_project_id r)) = Some p"
    and "pj_status p \<noteq> ProjectStatus.Approved"
  shows "\<not> is_ok (resolve_challenge env a i ReportStatus.Rejected n st R) \<and>
    (\<forall>st' R'. resolve_challenge_by_verifier env a i False n st R = Ok (st', R') \<longrightarrow>
       pget (orc_challenges st') i = Some c \<and> pget (orc_reports st') i = Some r)"
proof
  have no: "finalize_challenge env i ReportStatus.Rejected st1 R \<noteq> Ok (st', R')"
    if "orc_project_registry st1 = orc_project_registry st" "pget (orc_challenges st1) = pget (orc_challenges st)"
      "pget (orc_reports st1) = pget (orc_reports st)" for st1 st' R'
    using rejected_needs_approved [of env i st1 R st' R' c r q reg] assms that by auto
  show "\<not> is_ok (resolve_challenge env a i ReportStatus.Rejected n st R)"
  proof
    assume "is_ok (resolve_challenge env a i ReportStatus.Rejected n st R)"
    then obtain st' R' where "resolve_challenge env a i ReportStatus.Rejected n st R = Ok (st', R')"
      by (cases "resolve_challenge env a i ReportStatus.Rejected n st R") auto
    with no show False by (auto simp: resolve_challenge_def result_simps dest: consume_keeps)
  qed
  show "\<forall>st' R'. resolve_challenge_by_verifier env a i False n st R = Ok (st', R') \<longrightarrow>
       pget (orc_challenges st') i = Some c \<and> pget (orc_reports st') i = Some r"
  proof (intro allI impI)
    fix st' R' assume v: "resolve_challenge_by_verifier env a i False n st R = Ok (st', R')"
    let ?cast = "\<lambda>x. oracle_publish (challenge_vote i a False) (x\<lparr>orc_providers := orc_bump env (orc_providers x) a,
      orc_reject_votes := orc_write env (orc_reject_votes x) i (unwrap_or (pget (orc_reject_votes x) i) [] @ [a])\<rparr>)"
    from v obtain st1 where 1: "oracle_consume_nonce env a n st = Ok st1"
      "st' = ?cast st1 \<or> finalize_challenge env i ReportStatus.Rejected (?cast st1) R = Ok (st', R')"
      by (auto simp: resolve_challenge_by_verifier_def result_simps Let_def split: if_splits)
    have "orc_project_registry (?cast st1) = orc_project_registry st"
      "pget (orc_challenges (?cast st1)) = pget (orc_challenges st)"
      "pget (orc_reports (?cast st1)) = pget (orc_reports st)"
      using consume_keeps [OF 1(1)] by (simp_all add: oracle_publish_def)
    with no [OF this] 1(2) assms(1,3)
    show "pget (orc_challenges st') i = Some c \<and> pget (orc_reports st') i = Some r" by auto
  qed
qed

lemma slashable_amount_bounds:
  assumes "slashable_amount env stake = Ok penalty" and "0 \<le> stake"
  shows "0 \<le> penalty" and "penalty \<le> stake" and "0 < stake \<Longrightarrow> 0 < penalty"
    and "fits_i128 (stake * 100000) \<Longrightarrow> penalty = (if stake < 10 then stake else stake div 10)"
proof -
  from assms(1) obtain product where p: "arith_i128 env (stake * SLASH_PENALTY_PPM) = (Ok product :: (OracleError, int) result)"
    "penalty = (let q = product sdiv 1000000; q = (if q \<le> 0 then stake else q) in if q > stake then stake else q)"
    by (auto simp: slashable_amount_def result_simps Let_def)
  from p(2) assms(2) show "0 \<le> penalty" "penalty \<le> stake" "0 < stake \<Longrightarrow> 0 < penalty" by (auto simp: Let_def)
  assume "fits_i128 (stake * 100000)"
  with p(1) have "product = stake * 100000" by (simp add: arith_i128_def SLASH_PENALTY_PPM_def)
  then have "product sdiv 1000000 = stake div 10"
    using assms(2) by (simp add: signed_divide_int_def sgn_if)
  with p(2) assms(2) show "penalty = (if stake < 10 then stake else stake div 10)" by (auto simp: Let_def)
qed

text \<open>
  Slashing takes a tenth of the provider's stake, and all of it when the stake is below 10; in any
  case, even if the product with the penalty rate overflows, it takes a positive amount of a positive
  stake and never more than there is, records it in the history, and deactivates a provider who has
  nothing left.
\<close>

theorem slash_takes_a_tenth:
  assumes "slash_provider env a i st = Ok st'" and "pget (orc_providers st) a = Some p" and "0 \<le> op_stake p" and "fits_i128 (op_stake p)"
  shows "\<exists>penalty. 0 \<le> penalty \<and> penalty \<le> op_stake p \<and> (0 < op_stake p \<longrightarrow> 0 < penalty) \<and>
    (fits_i128 (op_stake p * 100000) \<longrightarrow> penalty = (if op_stake p < 10 then op_stake p else op_stake p div 10)) \<and>
    pget (orc_providers st') a = Some (p\<lparr>op_stake := op_stake p - penalty,
      op_active := op_active p \<and> penalty < op_stake p\<rparr>) \<and>
    fst (get_slash_history env a st') = fst (get_slash_history env a st) @
      [\<lparr>sr_report_id = i, sr_penalty = penalty, sr_remaining_stake = op_stake p - penalty,
        sr_timestamp = timestamp env, sr_active_after = op_active p \<and> penalty < op_stake p\<rparr>]"
proof -
  from assms(1,2) obtain penalty s where s: "slashable_amount env (op_stake p) = Ok penalty"
    "arith_i128 env (op_stake p - penalty) = (Ok s :: (OracleError, int) result)"
    by (auto simp: slash_provider_def result_simps)
  note b = slashable_amount_bounds [OF s(1) assms(3)]
  have s': "s = op_stake p - penalty"
    using b s(2) fits_i128_between [OF fits_i128_zero assms(4), of "op_stake p - penalty"] by (simp add: arith_i128_fits)
  define p' where "p' = p\<lparr>op_stake := op_stake p - penalty, op_active := op_active p \<and> penalty < op_stake p\<rparr>"
  have keep: "orc_slash_history (reconcile_signature_threshold x) = orc_slash_history x"
    "orc_providers (reconcile_signature_threshold x) = orc_providers x" for x
    by (simp_all add: reconcile_signature_threshold_def Let_def oracle_publish_def)
  have "p\<lparr>op_stake := s, op_active := (if s = 0 then False else op_active p)\<rparr> = p'"
    using b s' by (simp add: p'_def)
  then have "pget (orc_providers st') a = Some p' \<and>
    fst (get_slash_history env a st') = fst (get_slash_history env a st) @
      [\<lparr>sr_report_id = i, sr_penalty = penalty, sr_remaining_stake = op_stake p', sr_timestamp = timestamp env,
        sr_active_after = op_active p'\<rparr>]"
    using assms(1,2) s s'
    by (auto simp: slash_provider_def result_simps Let_def get_slash_history_def oracle_publish_def keep storage_simps)
  with b show ?thesis by (intro exI [of _ penalty]) (simp add: p'_def)
qed


section \<open>A concrete history\<close>

lemma timestamp_checked [simp]: "timestamp (checked_env now) = now" "overflow_checks (checked_env now) = True"
  by (simp_all add: checked_env_def)

lemmas oracle_exec = checked_env_def sample_env_def sample_registries_def oracle_constructor_def register_provider_def
  set_project_registry_def submit_report_def verify_report_def deposit_challenge_bond_def challenge_report_def
  resolve_challenge_by_verifier_def oracle_consume_nonce_def oracle_get_nonce_def oracle_set_nonce_def
  oracle_require_admin_def oracle_publish_def orc_write_def orc_touch_def orc_bump_def linked_project_def
  get_project_linkage_def read_project_def read_persistent_def registry_bump_instance_def call_env_def contract_at_def
  lock_stake_for_report_def slashable_amount_def charge_challenge_bond_def CHALLENGE_BOND_def SLASH_PENALTY_PPM_def
  release_report_lock_def add_verifier_def push_period_def supermajority_threshold_def div_ceil_def
  active_provider_count_def saturating_sub_u64_def CHALLENGE_WINDOW_SECONDS_def
  require_auth_def Let_def ok_or_def add_word_def arith_i128_def checked_i128_def fits_i128_def i128_min_def i128_max_def
  phas_def pset_def pget_def pext_def premove_def vec_len_def MAX_PERIOD_HISTORY_def bump_persistent_def overlaps_def
  ORACLE_TTL_EXTEND_TO_def registry_constructor_def signed_divide_int_def

lemma sample_calls:
  "\<exists>st1 st2 st3 st4 R4 st5 R5 st6 st7 st8 st9 R9.
     register_provider (checked_env 10) (Address 0) (Address 1) ''m'' 0 (oracle_constructor (Address 0)) = Ok st1 \<and>
     register_provider (checked_env 10) (Address 0) (Address 2) ''m'' 1 st1 = Ok st2 \<and>
     set_project_registry (checked_env 10) (Address 0) (Address 50) 2 st2 = Ok st3 \<and>
     submit_report (checked_env 100) (Address 1) 1 10 20 7 Absent ''m'' [2] 0 st3 sample_registries = Ok (1, st4, R4) \<and>
     submit_report (checked_env 100) (Address 1) 1 20 30 7 Absent ''m'' [2] 1 st4 R4 = Ok (2, st5, R5) \<and>
     verify_report (checked_env 150) (Address 2) 2 0 st5 = Ok st6 \<and>
     map_option rp_status (pget (orc_reports st6) 2) = Some Verified \<and> oracle_get_admin st5 = Some (Address 0) \<and>
     deposit_challenge_bond (checked_env 150) (Address 3) 1500000 0 st6 = Ok st7 \<and>
     challenge_report (checked_env 200) (Address 3) 1 [3] 1 st7 = Ok st8 \<and>
     resolve_challenge_by_verifier (checked_env 300) (Address 2) 1 True 1 st8 R5 = Ok (st9, R9) \<and>
     (\<exists>r1 r2 c p reg. pget (orc_reports st8) 1 = Some r1 \<and> pget (orc_reports st8) 2 = Some r2 \<and> rp_project_id r1 = 1 \<and>
        rp_project_id r2 = 1 \<and> rp_period_start r1 = 10 \<and> rp_period_end r1 = 20 \<and> rp_period_start r2 = 20 \<and>
        rp_period_end r2 = 30 \<and> rp_status r2 = Verified \<and> rp_status r1 = Challenged \<and>
        pget (orc_challenges st8) 1 = Some c \<and> \<not> ch_resolved c \<and> ch_submitted_at c = 200 \<and> ch_bond c = 1000000 \<and>
        ch_challenger c = Address 3 \<and> amounts (orc_bond_balances st8) (Address 3) = 500000 \<and>
        amounts (orc_bond_locks st8) (Address 3) = 1000000 \<and> orc_project_registry st8 = Some (Address 50) \<and>
        R5 (Address 50) = Some reg \<and> pget (reg_projects reg) (project_id_to_bytes 1) = Some p)"
  by (simp add: oracle_exec oracle_get_admin_def amounts_def word_le_nat_alt word_less_nat_alt)

lemma sample_runs:
  "\<exists>st5 R5 st6 st8 st9 R9. run (oracle_step overflow_checks) (oracle_constructor (Address 0), sample_registries)
       (take 5 sample_labels) (st5, R5) \<and>
     verify_report (checked_env 150) (Address 2) 2 0 st5 = Ok st6 \<and>
     map_option rp_status (pget (orc_reports st6) 2) = Some Verified \<and> oracle_get_admin st5 = Some (Address 0) \<and>
     run (oracle_step overflow_checks) (st5, R5) (drop 5 sample_labels) (st8, R5) \<and>
     run (oracle_step overflow_checks) (oracle_constructor (Address 0), sample_registries) sample_labels (st8, R5) \<and>
     resolve_challenge_by_verifier (checked_env 300) (Address 2) 1 True 1 st8 R5 = Ok (st9, R9) \<and>
     (\<exists>r1 r2 c p reg. pget (orc_reports st8) 1 = Some r1 \<and> pget (orc_reports st8) 2 = Some r2 \<and> rp_project_id r1 = 1 \<and>
        rp_project_id r2 = 1 \<and> rp_period_start r1 = 10 \<and> rp_period_end r1 = 20 \<and> rp_period_start r2 = 20 \<and>
        rp_period_end r2 = 30 \<and> rp_status r2 = Verified \<and> rp_status r1 = Challenged \<and>
        pget (orc_challenges st8) 1 = Some c \<and> \<not> ch_resolved c \<and> ch_submitted_at c = 200 \<and> ch_bond c = 1000000 \<and>
        ch_challenger c = Address 3 \<and> amounts (orc_bond_balances st8) (Address 3) = 500000 \<and>
        amounts (orc_bond_locks st8) (Address 3) = 1000000 \<and> orc_project_registry st8 = Some (Address 50) \<and>
        R5 (Address 50) = Some reg \<and> pget (reg_projects reg) (project_id_to_bytes 1) = Some p)"
  using sample_calls
proof (elim exE conjE)
  fix st1 st2 st3 st4 R4 st5 R5 st6 st7 st8 st9 R9 r1 r2 c p reg
  assume s: "register_provider (checked_env 10) (Address 0) (Address 1) ''m'' 0 (oracle_constructor (Address 0)) = Ok st1"
    "register_provider (checked_env 10) (Address 0) (Address 2) ''m'' 1 st1 = Ok st2"
    "set_project_registry (checked_env 10) (Address 0) (Address 50) 2 st2 = Ok st3"
    "submit_report (checked_env 100) (Address 1) 1 10 20 7 Absent ''m'' [2] 0 st3 sample_registries = Ok (1, st4, R4)"
    "submit_report (checked_env 100) (Address 1) 1 20 30 7 Absent ''m'' [2] 1 st4 R4 = Ok (2, st5, R5)"
    "verify_report (checked_env 150) (Address 2) 2 0 st5 = Ok st6"
    and ver: "map_option rp_status (pget (orc_reports st6) 2) = Some Verified" "oracle_get_admin st5 = Some (Address 0)"
    and s': "deposit_challenge_bond (checked_env 150) (Address 3) 1500000 0 st6 = Ok st7"
    "challenge_report (checked_env 200) (Address 3) 1 [3] 1 st7 = Ok st8"
    "resolve_challenge_by_verifier (checked_env 300) (Address 2) 1 True 1 st8 R5 = Ok (st9, R9)"
    and f: "pget (orc_reports st8) 1 = Some r1" "pget (orc_reports st8) 2 = Some r2" "rp_project_id r1 = 1"
      "rp_project_id r2 = 1" "rp_period_start r1 = 10" "rp_period_end r1 = 20" "rp_period_start r2 = 20"
      "rp_period_end r2 = 30" "rp_status r2 = Verified" "rp_status r1 = Challenged"
      "pget (orc_challenges st8) 1 = Some c" "\<not> ch_resolved c" "ch_submitted_at c = 200" "ch_bond c = 1000000"
      "ch_challenger c = Address 3" "amounts (orc_bond_balances st8) (Address 3) = 500000"
      "amounts (orc_bond_locks st8) (Address 3) = 1000000" "orc_project_registry st8 = Some (Address 50)"
      "R5 (Address 50) = Some reg" "pget (reg_projects reg) (project_id_to_bytes 1) = Some p"
  let ?S = "oracle_step overflow_checks"
  have o: "overflow_checks (checked_env t)" for t by simp
  note step = step_register_provider [where E = overflow_checks, OF o s(1)] step_register_provider [where E = overflow_checks, OF o s(2)] step_set_project_registry [where E = overflow_checks, OF o s(3)]
    step_submit_report [where E = overflow_checks, OF o s(4)] step_submit_report [where E = overflow_checks, OF o s(5)] step_verify_report [where E = overflow_checks, OF o s(6)]
    step_deposit_bond [where E = overflow_checks, OF o s'(1)] step_challenge_report [where E = overflow_checks, OF o s'(2)]
  have r5: "run ?S (oracle_constructor (Address 0), sample_registries) (take 5 sample_labels) (st5, R5)"
    using step(1-5) [unfolded timestamp_checked] by (simp, blast intro: run_Cons run_refl)
  moreover have r8: "run ?S (st5, R5) (drop 5 sample_labels) (st8, R5)"
    using step(6-8) [unfolded timestamp_checked] by (simp, blast intro: run_Cons run_refl)
  moreover have "run ?S (oracle_constructor (Address 0), sample_registries) sample_labels (st8, R5)"
    using run_append [OF r5 r8] by simp
  ultimately show ?thesis using s(6) s'(3) ver f by blast
qed

theorem challenge_bonds_balance_witness:
  "\<exists>st :: oracle_consumer. fst (get_locked_challenge_bond (checked_env 300) (Address 3) st) = 1000000 \<and>
     fst (get_challenge_bond_balance (checked_env 300) (Address 3) st) = 500000 \<and>
     sum_list (map (\<lambda>e. bond_flow e (Address 3)) (orc_events st)) = 1500000"
proof -
  from sample_runs obtain st R where
    r: "run (oracle_step overflow_checks) (oracle_constructor (Address 0), sample_registries) sample_labels (st, R)"
    and "amounts (orc_bond_balances st) (Address 3) = 500000" "amounts (orc_bond_locks st) (Address 3) = 1000000"
    by blast
  then have "fst (get_locked_challenge_bond (checked_env 300) (Address 3) st) = 1000000"
    "fst (get_challenge_bond_balance (checked_env 300) (Address 3) st) = 500000"
    by (simp_all add: get_locked_challenge_bond_def get_challenge_bond_balance_def amounts_def)
  with challenge_bonds_balance [OF r, of "checked_env 300" "Address 3"] show ?thesis by auto
qed

theorem stale_challenge_expires_witness:
  "\<exists>st st' r. expire_stale_challenge (checked_env 2592201) 1 st = Ok st' \<and> pget (orc_reports st') 1 = Some r \<and>
     rp_status r = ReportStatus.Pending \<and>
     fst (get_challenge_bond_balance (checked_env 2592201) (Address 3) st') = 1500000"
proof -
  from sample_runs obtain st R c where
    r: "run (oracle_step overflow_checks) (oracle_constructor (Address 0), sample_registries) sample_labels (st, R)"
    and c: "pget (orc_challenges st) 1 = Some c" "\<not> ch_resolved c" "ch_submitted_at c = 200" "ch_bond c = 1000000"
      "ch_challenger c = Address 3"
    and m: "amounts (orc_bond_balances st) (Address 3) = 500000" "amounts (orc_bond_locks st) (Address 3) = 1000000"
    by blast
  let ?e = "checked_env 2592201"
  have b: "fst (get_locked_challenge_bond ?e (Address 3) st) = 1000000"
    "fst (get_challenge_bond_balance ?e (Address 3) st) = 500000"
    using m by (simp_all add: get_locked_challenge_bond_def get_challenge_bond_balance_def amounts_def)
  have "unat (ch_submitted_at c) + 2592000 < unat (timestamp ?e)" by (simp add: c(3))
  moreover have "fits_i128 (fst (get_challenge_bond_balance ?e (ch_challenger c) st) +
      fst (get_locked_challenge_bond ?e (ch_challenger c) st))"
    by (simp add: c(5) b fits_i128_def i128_min_def i128_max_def)
  ultimately show ?thesis
    using stale_challenge_expires [OF r _ c(1,2), of ?e] c(4,5) b by auto
qed

theorem report_life_cycle_witness:
  "\<exists>(st5 :: oracle_consumer) (st8 :: oracle_consumer) (r :: Report) s v. rp_status r = ReportStatus.Pending \<and> pget (orc_reports st5) 2 = Some r \<and>
     pget (orc_reports st8) 2 = Some (r\<lparr>rp_status := s, rp_verified_at := v\<rparr>) \<and>
     report_may_become\<^sup>*\<^sup>* ReportStatus.Pending s \<and>
     (s = Challenged \<longleftrightarrow> (\<exists>c. pget (orc_challenges st8) 2 = Some c \<and> \<not> ch_resolved c))"
proof -
  from sample_runs obtain st5 R5 st6 st8 where
    r: "run (oracle_step overflow_checks) (oracle_constructor (Address 0), sample_registries) (take 5 sample_labels) (st5, R5)"
      "run (oracle_step overflow_checks) (st5, R5) (drop 5 sample_labels) (st8, R5)"
    and v: "verify_report (checked_env 150) (Address 2) 2 0 st5 = Ok st6" by blast
  from verify_report_Ok [OF v refl] obtain q where q: "pget (orc_reports st5) 2 = Some q" "rp_status q = ReportStatus.Pending"
    by (auto simp: desk_reads)
  from report_life_cycle [OF r _ q(1)] q show ?thesis by simp blast
qed

theorem report_periods_disjoint_witness:
  "\<exists>(st :: oracle_consumer) (r :: Report) (q :: Report). pget (orc_reports st) 1 = Some r \<and> pget (orc_reports st) 2 = Some q \<and>
     rp_project_id r = rp_project_id q \<and> (rp_period_end r \<le> rp_period_start q \<or> rp_period_end q \<le> rp_period_start r)"
proof -
  from sample_runs obtain st R r1 r2 where
    r: "run (oracle_step overflow_checks) (oracle_constructor (Address 0), sample_registries) sample_labels (st, R)"
    and q: "pget (orc_reports st) 1 = Some r1" "pget (orc_reports st) 2 = Some r2" "rp_project_id r1 = 1"
      "rp_project_id r2 = 1" by blast
  have "rp_period_end r1 \<le> rp_period_start r2 \<or> rp_period_end r2 \<le> rp_period_start r1"
    using report_periods_disjoint [OF r _ q(1,2)] q(3,4) by simp
  with q show ?thesis by metis
qed

theorem signature_threshold_bounds_witness:
  "\<exists>st :: oracle_consumer. pget (orc_reports st) 1 \<noteq> None \<and> 1 \<le> unat (get_signature_threshold st) \<and>
     unat (get_signature_threshold st) \<le> max 1 (unat (active_provider_count st))"
proof -
  from sample_runs obtain st R r1 where
    r: "run (oracle_step overflow_checks) (oracle_constructor (Address 0), sample_registries) sample_labels (st, R)"
    and "pget (orc_reports st) 1 = Some r1" by blast
  with signature_threshold_bounds [OF r] show ?thesis by auto
qed

theorem verified_only_by_witness:
  "\<exists>st R st' r'. run (oracle_step overflow_checks) (oracle_constructor (Address 0), sample_registries) (take 5 sample_labels) (st, R) \<and>
     oracle_step overflow_checks (st, R) (150, Some (Address 2, 0)) (st', R) \<and>
     pget (orc_reports st') 2 = Some r' \<and> rp_status r' = Verified \<and>
     (\<exists>env r. timestamp env = 150 \<and> pget (orc_reports st) 2 = Some r \<and> rp_status r = ReportStatus.Pending \<and>
        verify_report env (Address 2) 2 0 st = Ok st' \<and>
        (let V = fst (get_report_verifiers env 2 st') in distinct V \<and> Address 2 \<in> set V \<and> rp_provider r \<notin> set V \<and>
           unat (get_signature_threshold st) \<le> length V))"
proof -
  from sample_runs obtain st R st' where
    r: "run (oracle_step overflow_checks) (oracle_constructor (Address 0), sample_registries) (take 5 sample_labels) (st, R)"
    and v: "verify_report (checked_env 150) (Address 2) 2 0 st = Ok st'"
    and "map_option rp_status (pget (orc_reports st') 2) = Some Verified"
    and adm: "oracle_get_admin st = Some (Address 0)" by blast
  then obtain r' where r': "pget (orc_reports st') 2 = Some r'" "rp_status r' = Verified" by auto
  have "overflow_checks (checked_env 150)" by simp
  from step_verify_report [where E = overflow_checks, OF this v]
  have t: "oracle_step overflow_checks (st, R) (150, Some (Address 2, 0)) (st', R)" by simp
  from verify_report_Ok [OF v refl] obtain r where r2: "pget (orc_reports st) 2 = Some r" "rp_status r = ReportStatus.Pending"
    by (auto simp: desk_reads)
  then have p: "\<forall>r. pget (orc_reports st) 2 = Some r \<longrightarrow> rp_status r \<noteq> Verified" by simp
  have "length (take 5 sample_labels) + 1 < 2 ^ 32" by simp
  from verified_only_by [OF r this t p r'] adm r2 r t r' show ?thesis unfolding Let_def by fastforce
qed

theorem challenge_vote_supermajority_witness:
  "\<exists>st st' R R' r c'. resolve_challenge_by_verifier (checked_env 300) (Address 2) 1 True 1 st R = Ok (st', R') \<and>
     pget (orc_reports st') 1 = Some r \<and> pget (orc_challenges st') 1 = Some c' \<and>
     fst (fst (get_challenge_votes (checked_env 300) 1 st')) =
       fst (fst (get_challenge_votes (checked_env 300) 1 st)) @ [Address 2]"
proof -
  from sample_runs obtain st R st' R' where
    r: "run (oracle_step overflow_checks) (oracle_constructor (Address 0), sample_registries) sample_labels (st, R)"
    and v: "resolve_challenge_by_verifier (checked_env 300) (Address 2) 1 True 1 st R = Ok (st', R')" by blast
  from challenge_vote_supermajority [OF r _ v refl refl] v show ?thesis by simp blast
qed

theorem rejection_needs_approved_project_witness:
  "\<exists>st R. pget (orc_challenges st) 1 \<noteq> None \<and>
     \<not> is_ok (resolve_challenge (checked_env 300) (Address 0) 1 ReportStatus.Rejected 3 st R)"
proof -
  from sample_runs obtain st :: oracle_consumer and r c where
    c: "pget (orc_challenges st) 1 = Some c" "\<not> ch_resolved c" "pget (orc_reports st) 1 = Some r"
      "orc_project_registry st = Some (Address 50)" "rp_project_id r = 1" by blast
  let ?p = "\<lparr>pj_id = 1, pj_owner = Address 9, pj_metadata_ipfs_hash = [1], pj_name = ''n'',
     pj_status = ProjectStatus.Inactive, pj_methodology = ''m'', pj_country = ''c''\<rparr>"
  let ?reg = "(registry_constructor (sample_env 5) (Address 0))\<lparr>reg_projects := [project_id_to_bytes 1 \<mapsto> (?p, 4096)]\<rparr>"
  have p: "pget (reg_projects ?reg) (project_id_to_bytes (rp_project_id r)) = Some ?p"
    by (simp add: c(5) pget_def)
  have "[Address 50 \<mapsto> ?reg] (Address 50) = Some ?reg" by simp
  from rejection_needs_approved_project [where R = "[Address 50 \<mapsto> ?reg]", OF c(1-4) this p, of "checked_env 300" "Address 0" 3] c(1)
  show ?thesis by fastforce
qed

theorem slash_takes_a_tenth_witness:
  "\<exists>st st' :: oracle_consumer. slash_provider (checked_env 9) (Address 1) 1 st = Ok st' \<and>
     map_option op_stake (pget (orc_providers st) (Address 1)) = Some 250 \<and>
     map_option op_stake (pget (orc_providers st') (Address 1)) = Some 225"
proof -
  let ?p = "\<lparr>op_address = Address 1, op_methodology = ''m'', op_stake = 250, op_active = True, op_registered_at = 1\<rparr>"
  let ?st = "(oracle_constructor (Address 0))\<lparr>orc_providers := [Address 1 \<mapsto> (?p, 4096)]\<rparr>"
  have p: "pget (orc_providers ?st) (Address 1) = Some ?p" by (simp add: pget_def)
  have f: "fits_i128 25000000" "fits_i128 225" "fits_i128 250" by (simp_all add: fits_i128_def i128_min_def i128_max_def)
  have "\<exists>st'. slash_provider (checked_env 9) (Address 1) 1 ?st = Ok st'"
    using f by (simp add: slash_provider_def pget_def slashable_amount_def SLASH_PENALTY_PPM_def arith_i128_def
        signed_divide_int_def Let_def)
  then obtain st' where s: "slash_provider (checked_env 9) (Address 1) 1 ?st = Ok st'" by blast
  from slash_takes_a_tenth [OF s p] f p s show ?thesis by (intro exI [of _ ?st] exI [of _ st']) auto
qed

end
