(* ===== verification/Coupon_Book.thy ===== *)
theory Coupon_Book
  imports Coupon Challenges
begin

text \<open>
  The coupon engine as a book of credits: the abstract state \<open>book\<close> and its steps, the refinement of
  every entrypoint of \<open>Coupon\<close> to such a step, the invariant of the book, and the properties of the
  engine. Credits are accounted for by the published events, no more is distributed than a report
  earned, nobody is paid twice for a period, and a claim pays out exactly what was accrued.
\<close>

section \<open>Abstract book of credits\<close>

text \<open>
  What the engine promises: buckets of credits per bond, holder and kind, their combined balances,
  undistributed credits, settled periods and open batches, and the log of events. \<open>bk_cfg\<close> and
  \<open>bk_issued\<close> are what the engine relies on in its bond issuer: the credit type each issued bond has.
\<close>

record book =
  bk_nonces :: "address \<Rightarrow> u64"
  bk_types :: "u64 \<rightharpoonup> CreditType"
  bk_bucket :: "u64 \<times> address \<times> CreditType \<Rightarrow> int"
  bk_accrued :: "u64 \<times> address \<Rightarrow> int"
  bk_sum :: "u64 \<Rightarrow> int"
  bk_dust :: "u64 \<Rightarrow> int"
  bk_dust_by :: "u64 \<times> CreditType \<Rightarrow> int"
  bk_periods :: "u64 \<times> u32 \<rightharpoonup> PeriodInfo"
  bk_batches :: "u64 \<times> u32 \<rightharpoonup> BatchState"
  bk_progress :: "u64 \<times> u32 \<rightharpoonup> int \<times> int"
  bk_paid :: "u64 \<times> u32 \<times> address \<Rightarrow> bool"
  bk_log :: "CouponEvent list"
  bk_cfg :: "u64 \<rightharpoonup> CreditType"
  bk_issued :: u64

definition engine_issuer :: "coupon_engine \<Rightarrow> peers \<Rightarrow> issuer option" where
  "engine_issuer st P = Option.bind (cpn_bond_issuer st) (issuers_at P)"

definition issuer_types :: "issuer option \<Rightarrow> u64 \<rightharpoonup> CreditType" where
  "issuer_types i = (\<lambda>b. Option.bind i (\<lambda>s. map_option bc_credit_type (lg_configs (ledger_of s) b)))"

definition issuer_count :: "issuer option \<Rightarrow> u64" where
  "issuer_count i = (case i of None \<Rightarrow> 0 | Some s \<Rightarrow> lg_count (ledger_of s))"

definition of_bond :: "u64 \<Rightarrow> u64 \<times> 'a \<Rightarrow> bool" where
  "of_bond b k \<longleftrightarrow> fst k = b"

definition book_of :: "coupon_engine \<times> peers \<Rightarrow> book" where
  "book_of s = (case s of (st, P) \<Rightarrow>
     \<lparr>bk_nonces = coupon_get_nonce st, bk_types = cpn_bond_credit_type st,
      bk_bucket = amounts (cpn_accrued_by_type st), bk_accrued = amounts (cpn_accrued st),
      bk_sum = (\<lambda>b. map_total (pget (cpn_accrued st)) (of_bond b)),
      bk_dust = amounts (cpn_undistributed_total st), bk_dust_by = amounts (cpn_undistributed_by_type st),
      bk_periods = pget (cpn_period_info st), bk_batches = pget (cpn_batch_state st),
      bk_progress = pget (cpn_distribution_balance st), bk_paid = phas (cpn_holder_distributed st),
      bk_log = cpn_events st, bk_cfg = issuer_types (engine_issuer st P),
      bk_issued = issuer_count (engine_issuer st P)\<rparr>)"

text \<open>What the engine's own numbers and its oracles satisfy at all times.\<close>

definition sane_amounts :: "('k, int) pstore \<Rightarrow> bool" where
  "sane_amounts m \<longleftrightarrow> finite (dom (pget m)) \<and> (\<forall>k v. pget m k = Some v \<longrightarrow> fits_i128 v)"

definition coupon_typed :: "coupon_engine \<times> peers \<Rightarrow> bool" where
  "coupon_typed s = (case s of (st, P) \<Rightarrow>
     sane_amounts (cpn_accrued st) \<and>
     (\<forall>k s. pget (cpn_batch_state st) k = Some s \<longrightarrow>
        0 \<le> ba_credits_per_token s \<and> 0 \<le> ba_carbon_per_token s \<and> 0 \<le> ba_biodiversity_per_token s) \<and>
     (\<forall>a orc. oracles_at P a = Some orc \<longrightarrow> sound_reports orc))"

definition bk_spend :: "address \<Rightarrow> book \<Rightarrow> book" where
  "bk_spend a B = B\<lparr>bk_nonces := (bk_nonces B)(a := bk_nonces B a + 1)\<rparr>"

definition bk_credit :: "u64 \<Rightarrow> address \<Rightarrow> CreditType \<Rightarrow> int \<Rightarrow> book \<Rightarrow> book" where
  "bk_credit b h c x B =
     B\<lparr>bk_bucket := (bk_bucket B)((b, h, c) := bk_bucket B (b, h, c) + x),
       bk_accrued := (bk_accrued B)((b, h) := bk_accrued B (b, h) + x),
       bk_sum := (bk_sum B)(b := bk_sum B b + x)\<rparr>"

definition bk_note :: "CouponEvent \<Rightarrow> book \<Rightarrow> book" where
  "bk_note e B = B\<lparr>bk_log := bk_log B @ [e]\<rparr>"

text \<open>The holders of a batch that are paid: those with a positive balance who were not paid before.\<close>

fun payable :: "(address \<Rightarrow> bool) \<Rightarrow> (address \<times> int) list \<Rightarrow> (address \<times> int) list" where
  "payable paid [] = []"
| "payable paid ((h, x) # hs) =
     (if paid h \<or> x \<le> 0 then payable paid hs else (h, x) # payable (paid(h := True)) hs)"

definition carbon_share :: "CreditType \<Rightarrow> BatchState \<Rightarrow> int \<Rightarrow> int" where
  "carbon_share ct s x =
     (case ct of Biodiversity \<Rightarrow> 0
      | Basket \<Rightarrow> (ba_carbon_per_token s * x) div FIXED_POINT
      | _ \<Rightarrow> (ba_credits_per_token s * x) div FIXED_POINT)"

definition bio_share :: "CreditType \<Rightarrow> BatchState \<Rightarrow> int \<Rightarrow> int" where
  "bio_share ct s x =
     (case ct of Biodiversity \<Rightarrow> (ba_credits_per_token s * x) div FIXED_POINT
      | Basket \<Rightarrow> (ba_biodiversity_per_token s * x) div FIXED_POINT
      | _ \<Rightarrow> 0)"

definition bk_pay :: "u64 \<Rightarrow> u32 \<Rightarrow> CreditType \<Rightarrow> BatchState \<Rightarrow> address \<times> int \<Rightarrow> book \<Rightarrow> book" where
  "bk_pay b i ct s hx B =
     (bk_credit b (fst hx) Biodiversity (bio_share ct s (snd hx))
       (bk_credit b (fst hx) Carbon (carbon_share ct s (snd hx)) B))
     \<lparr>bk_paid := (bk_paid B)((b, i, fst hx) := True)\<rparr>"

definition rate :: "int \<Rightarrow> int \<Rightarrow> int" where
  "rate x subs = (if 0 < subs \<and> 0 < x then x * FIXED_POINT div subs else 0)"

text \<open>A fresh batch for \<open>c\<close> carbon and \<open>y\<close> biodiversity credits over \<open>subs\<close> tokens.\<close>

definition fresh_batch :: "u64 \<Rightarrow> int \<Rightarrow> int \<Rightarrow> int \<Rightarrow> BatchState" where
  "fresh_batch rid c y subs =
     \<lparr>ba_report_id = rid, ba_distributed_so_far = 0, ba_carbon_distributed_so_far = 0,
      ba_bio_distributed_so_far = 0, ba_holder_count_so_far = 0, ba_total_credits = c + y,
      ba_carbon_total = c, ba_biodiversity_total = y, ba_credits_per_token = rate (c + y) subs,
      ba_carbon_per_token = rate c subs, ba_biodiversity_per_token = rate y subs\<rparr>"

fun fits_type :: "CreditType \<Rightarrow> int \<Rightarrow> int \<Rightarrow> bool" where
  "fits_type Biodiversity c y \<longleftrightarrow> c = 0"
| "fits_type Basket c y \<longleftrightarrow> True"
| "fits_type ct c y \<longleftrightarrow> y = 0"

definition advance :: "int \<Rightarrow> int \<Rightarrow> u32 \<Rightarrow> BatchState \<Rightarrow> BatchState" where
  "advance c y k s = s\<lparr>ba_distributed_so_far := ba_distributed_so_far s + (c + y),
     ba_carbon_distributed_so_far := ba_carbon_distributed_so_far s + c,
     ba_bio_distributed_so_far := ba_bio_distributed_so_far s + y, ba_holder_count_so_far := k\<rparr>"

definition bk_close :: "u64 \<Rightarrow> u32 \<Rightarrow> BatchState \<Rightarrow> PeriodInfo \<Rightarrow> book \<Rightarrow> book" where
  "bk_close b i s info B =
     bk_note (coupon_distributed b i (ba_distributed_so_far s) (ba_holder_count_so_far s))
       (B\<lparr>bk_periods := (bk_periods B)((b, i) \<mapsto> info),
          bk_dust := (bk_dust B)(b := bk_dust B b + max 0 (ba_total_credits s - ba_distributed_so_far s)),
          bk_dust_by := (bk_dust_by B)
            ((b, Carbon) := bk_dust_by B (b, Carbon) + max 0 (ba_carbon_total s - ba_carbon_distributed_so_far s),
             (b, Biodiversity) :=
               bk_dust_by B (b, Biodiversity) + max 0 (ba_biodiversity_total s - ba_bio_distributed_so_far s)),
          bk_batches := (bk_batches B)((b, i) := None), bk_progress := (bk_progress B)((b, i) := None)\<rparr>)"

definition bk_wipe :: "u64 \<Rightarrow> address \<Rightarrow> CreditType \<Rightarrow> book \<Rightarrow> book" where
  "bk_wipe b a ct B =
     B\<lparr>bk_bucket := (\<lambda>k. if k = (b, a, Carbon) \<and> ct \<noteq> Biodiversity \<or>
                         k = (b, a, Biodiversity) \<and> ct \<in> {Biodiversity, Basket} then 0 else bk_bucket B k),
       bk_accrued := (bk_accrued B)((b, a) := 0), bk_sum := (bk_sum B)(b := bk_sum B b - bk_accrued B (b, a))\<rparr>"

fun claimable :: "CreditType \<Rightarrow> int \<Rightarrow> int \<Rightarrow> int \<Rightarrow> bool" where
  "claimable Basket c y x \<longleftrightarrow> c + y = x"
| "claimable Biodiversity c y x \<longleftrightarrow> y = x"
| "claimable ct c y x \<longleftrightarrow> c = x"

text \<open>
  A batch over \<open>holders\<close> for period \<open>i\<close> of bond \<open>b\<close>: it continues the open batch \<open>s\<close> of the period or starts
  one, pays the payable holders from \<open>done0\<close> to \<open>done1\<close> processed tokens, and settles the period when it
  is the last one.
\<close>

definition bk_distribution :: "address \<Rightarrow> u64 \<Rightarrow> u32 \<Rightarrow> (address \<times> int) list \<Rightarrow> bool \<Rightarrow> book \<Rightarrow> book \<Rightarrow> bool" where
  "bk_distribution a b i holders last_batch B B2 \<longleftrightarrow> (\<exists>ct s subs done0 pays done1 k s1 B1 info.
     (\<forall>info. bk_periods B (b, i) = Some info \<longrightarrow> \<not> pi_distributed info) \<and> bk_types B b = Some ct \<and>
     (case bk_batches B (b, i) of
        Some s' \<Rightarrow> s = s' \<and> bk_progress B (b, i) = Some (subs, done0)
      | None \<Rightarrow> (\<exists>rid c y. 0 \<le> c \<and> 0 \<le> y \<and> fits_type ct c y \<and> s = fresh_batch rid c y subs) \<and> done0 = 0) \<and>
     pays = payable (\<lambda>h. bk_paid B (b, i, h)) holders \<and> done1 = done0 + sum_list (map snd pays) \<and>
     (pays \<noteq> [] \<longrightarrow> done1 \<le> subs) \<and>
     s1 = advance (\<Sum>p\<leftarrow>pays. carbon_share ct s (snd p)) (\<Sum>p\<leftarrow>pays. bio_share ct s (snd p)) k s \<and>
     B1 = (fold (bk_pay b i ct s) pays (bk_spend a B))
        \<lparr>bk_batches := (bk_batches B)((b, i) \<mapsto> s1), bk_progress := (bk_progress B)((b, i) \<mapsto> (subs, done1))\<rparr> \<and>
     (if last_batch then done1 = subs \<and> pi_distributed info \<and>
        pi_total_credits_earned info = ba_distributed_so_far s1 \<and>
        pi_undistributed info = ba_total_credits s1 - ba_distributed_so_far s1 \<and> B2 = bk_close b i s1 info B1
      else B2 = B1))"

inductive book_step :: "book \<Rightarrow> timed_label \<Rightarrow> book \<Rightarrow> bool" where
  b_register: "n = bk_nonces B a \<Longrightarrow> bk_cfg B b = Some ct \<Longrightarrow>
     book_step B (now, Some (a, n)) (bk_note (bond_registered b h) ((bk_spend a B)\<lparr>bk_types := (bk_types B)(b \<mapsto> ct)\<rparr>))"
| b_distribute: "n = bk_nonces B a \<Longrightarrow> bk_distribution a b i holders last_batch B B2 \<Longrightarrow>
     book_step B (now, Some (a, n)) B2"
| b_claim: "n = bk_nonces B a \<Longrightarrow> x = bk_accrued B (b, a) \<Longrightarrow>
     (if 0 < x then \<exists>ct. bk_types B b = Some ct \<and> claimable ct (bk_bucket B (b, a, Carbon)) (bk_bucket B (b, a, Biodiversity)) x \<and>
          B1 = bk_wipe b a ct (bk_spend a B)
      else B1 = bk_spend a B) \<Longrightarrow>
     e = (if bk_types B b = Some Basket
          then credits_claimed_by_type b a (if 0 < x then bk_bucket B (b, a, Carbon) else 0)
                 (if 0 < x then bk_bucket B (b, a, Biodiversity) else 0)
          else credits_claimed b a x) \<Longrightarrow>
     book_step B (now, Some (a, n)) (bk_note e B1)"
| b_sweep: "n = bk_nonces B a \<Longrightarrow> c = bk_dust_by B (b, Carbon) \<Longrightarrow> y = bk_dust_by B (b, Biodiversity) \<Longrightarrow>
     bk_dust B b = c + y \<Longrightarrow> c + y \<noteq> 0 \<Longrightarrow>
     book_step B (now, Some (a, n)) (bk_note (undistributed_swept b d (c + y) c y)
       (bk_credit b d Biodiversity (max 0 y) (bk_credit b d Carbon (max 0 c)
         ((bk_spend a B)\<lparr>bk_dust := (bk_dust B)(b := 0),
            bk_dust_by := (bk_dust_by B)((b, Carbon) := 0, (b, Biodiversity) := 0)\<rparr>))))"
| b_deduct: "0 < x \<Longrightarrow> x \<le> bk_accrued B (b, h) \<Longrightarrow> x \<le> bk_bucket B (b, h, storage_type c) \<Longrightarrow>
     book_step B (now, None) (bk_note (credits_deducted b h x c) (bk_credit b h (storage_type c) (- x) B))"
| b_issue: "book_step B (now, None)
     (B\<lparr>bk_cfg := (bk_cfg B)(bk_issued B + 1 \<mapsto> ct), bk_issued := bk_issued B + 1\<rparr>)"
| b_other: "n = bk_nonces B a \<Longrightarrow> book_step B (now, Some (a, n)) (bk_spend a B)"
| b_read: "book_step B (now, None) B"

section \<open>Invariant\<close>

text \<open>
  Bond types never change (\<open>bk_ids\<close>); a combined balance is the sum of its buckets (\<open>bk_split\<close>), which
  only hold the kinds of credit of the bond (\<open>bk_kinds\<close>); undistributed credits add up (\<open>bk_dusts\<close>); an
  open batch has distributed at most what its rates allow for the balances it has processed
  (\<open>bk_batch\<close>); settled periods left nothing negative (\<open>bk_closed\<close>); and all credits are accounted for
  by the events and the open batches (\<open>bk_sums\<close>).
\<close>

fun kind_ok :: "CreditType option \<Rightarrow> int \<Rightarrow> int \<Rightarrow> bool" where
  "kind_ok None c y \<longleftrightarrow> c = 0 \<and> y = 0"
| "kind_ok (Some ct) c y \<longleftrightarrow> fits_type ct c y"

definition bk_ids :: "nat \<Rightarrow> book \<Rightarrow> bool" where
  "bk_ids n B \<longleftrightarrow> unat (bk_issued B) \<le> n \<and>
     (\<forall>b. bk_cfg B b \<noteq> None \<longrightarrow> 1 \<le> unat b \<and> unat b \<le> unat (bk_issued B)) \<and>
     (\<forall>b ct. bk_types B b = Some ct \<longrightarrow> bk_cfg B b = Some ct)"

definition bk_split :: "book \<Rightarrow> bool" where
  "bk_split B \<longleftrightarrow> (\<forall>b h. bk_accrued B (b, h) = bk_bucket B (b, h, Carbon) + bk_bucket B (b, h, Biodiversity)) \<and>
     (\<forall>k. 0 \<le> bk_bucket B k) \<and> (\<forall>b h. bk_bucket B (b, h, Basket) = 0 \<and> bk_bucket B (b, h, BlueCarbon) = 0)"

definition bk_kinds :: "book \<Rightarrow> bool" where
  "bk_kinds B \<longleftrightarrow>
     (\<forall>b h. kind_ok (bk_types B b) (bk_bucket B (b, h, Carbon)) (bk_bucket B (b, h, Biodiversity))) \<and>
     (\<forall>b. kind_ok (bk_types B b) (bk_dust_by B (b, Carbon)) (bk_dust_by B (b, Biodiversity)))"

definition bk_dusts :: "book \<Rightarrow> bool" where
  "bk_dusts B \<longleftrightarrow> (\<forall>b. bk_dust B b = bk_dust_by B (b, Carbon) + bk_dust_by B (b, Biodiversity) \<and>
     0 \<le> bk_dust_by B (b, Carbon) \<and> 0 \<le> bk_dust_by B (b, Biodiversity))"

definition batch_ok :: "CreditType \<Rightarrow> BatchState \<Rightarrow> int \<Rightarrow> int \<Rightarrow> bool" where
  "batch_ok ct s subs processed \<longleftrightarrow>
     0 \<le> ba_carbon_total s \<and> 0 \<le> ba_biodiversity_total s \<and> fits_type ct (ba_carbon_total s) (ba_biodiversity_total s) \<and>
     ba_total_credits s = ba_carbon_total s + ba_biodiversity_total s \<and>
     ba_credits_per_token s = rate (ba_total_credits s) subs \<and>
     ba_carbon_per_token s = rate (ba_carbon_total s) subs \<and>
     ba_biodiversity_per_token s = rate (ba_biodiversity_total s) subs \<and>
     0 \<le> processed \<and> processed \<le> max 0 subs \<and>
     ba_distributed_so_far s = ba_carbon_distributed_so_far s + ba_bio_distributed_so_far s \<and>
     0 \<le> ba_carbon_distributed_so_far s \<and> 0 \<le> ba_bio_distributed_so_far s \<and>
     ba_carbon_distributed_so_far s * FIXED_POINT \<le> ba_carbon_per_token s * processed \<and>
     ba_bio_distributed_so_far s * FIXED_POINT \<le> ba_biodiversity_per_token s * processed"

definition bk_batch :: "book \<Rightarrow> bool" where
  "bk_batch B \<longleftrightarrow> finite (dom (bk_batches B)) \<and>
     (\<forall>k s. bk_batches B k = Some s \<longrightarrow> (\<exists>ct subs p. bk_types B (fst k) = Some ct \<and>
        bk_progress B k = Some (subs, p) \<and> batch_ok ct s subs p))"

definition bk_closed :: "book \<Rightarrow> bool" where
  "bk_closed B \<longleftrightarrow> finite (dom (bk_periods B)) \<and> (\<forall>k info. bk_periods B k = Some info \<longrightarrow>
     pi_distributed info \<and> 0 \<le> pi_total_credits_earned info \<and> 0 \<le> pi_undistributed info)"

fun credit_flow :: "u64 \<Rightarrow> CouponEvent \<Rightarrow> int" where
  "credit_flow b (coupon_distributed b' i x k) = (if b' = b then x else 0)"
| "credit_flow b (undistributed_swept b' d x c y) = (if b' = b then x else 0)"
| "credit_flow b (credits_claimed b' a x) = (if b' = b then - x else 0)"
| "credit_flow b (credits_claimed_by_type b' a c y) = (if b' = b then - (c + y) else 0)"
| "credit_flow b (credits_deducted b' h x c) = (if b' = b then - x else 0)"
| "credit_flow b _ = 0"

fun swept_flow :: "u64 \<Rightarrow> CouponEvent \<Rightarrow> int" where
  "swept_flow b (undistributed_swept b' d x c y) = (if b' = b then x else 0)"
| "swept_flow b _ = 0"

definition in_flight :: "(u64 \<times> u32 \<rightharpoonup> BatchState) \<Rightarrow> u64 \<Rightarrow> int" where
  "in_flight m b = map_total (\<lambda>k. map_option ba_distributed_so_far (m k)) (of_bond b)"

definition left_over :: "(u64 \<times> u32 \<rightharpoonup> PeriodInfo) \<Rightarrow> u64 \<Rightarrow> int" where
  "left_over m b = map_total (\<lambda>k. map_option pi_undistributed (m k)) (of_bond b)"

definition bk_sums :: "book \<Rightarrow> bool" where
  "bk_sums B \<longleftrightarrow> (\<forall>b. bk_sum B b = (\<Sum>e\<leftarrow>bk_log B. credit_flow b e) + in_flight (bk_batches B) b) \<and>
     (\<forall>b. bk_dust B b = left_over (bk_periods B) b - (\<Sum>e\<leftarrow>bk_log B. swept_flow b e))"

definition book_inv :: "nat \<Rightarrow> book \<Rightarrow> bool" where
  "book_inv n B \<longleftrightarrow> bk_ids n B \<and> bk_split B \<and> bk_kinds B \<and> bk_dusts B \<and> bk_batch B \<and> bk_closed B \<and> bk_sums B"

text \<open>Frames: what accruing, paying and reading may change.\<close>

definition only_accrued :: "coupon_engine \<Rightarrow> coupon_engine \<Rightarrow> bool" where
  "only_accrued st st' \<longleftrightarrow>
     (\<exists>m1 m2. st' = st\<lparr>cpn_accrued_by_type := m1, cpn_accrued := m2\<rparr> \<and> sane_amounts m2)"

definition tallied :: "int \<Rightarrow> int \<Rightarrow> tally \<Rightarrow> tally \<Rightarrow> bool" where
  "tallied c y t t' \<longleftrightarrow> ty_total t' = ty_total t + (c + y) \<and> ty_carbon t' = ty_carbon t + c \<and> ty_bio t' = ty_bio t + y \<and>
     ty_processed t' = ty_processed t"

text \<open>The loop over the holders of a batch.\<close>

definition only_paid :: "coupon_engine \<Rightarrow> coupon_engine \<Rightarrow> bool" where
  "only_paid st st' \<longleftrightarrow> (\<exists>m1 m2 m3. sane_amounts m2 \<and>
     st' = st\<lparr>cpn_accrued_by_type := m1, cpn_accrued := m2, cpn_holder_distributed := m3\<rparr>)"

definition looped :: "CreditType \<Rightarrow> BatchState \<Rightarrow> int \<Rightarrow> (address \<times> int) list \<Rightarrow> tally \<Rightarrow> tally \<Rightarrow> bool" where
  "looped ct s subs pays t t' \<longleftrightarrow>
     ty_total t' = ty_total t + ((\<Sum>p\<leftarrow>pays. carbon_share ct s (snd p)) + (\<Sum>p\<leftarrow>pays. bio_share ct s (snd p))) \<and>
     ty_carbon t' = ty_carbon t + (\<Sum>p\<leftarrow>pays. carbon_share ct s (snd p)) \<and>
     ty_bio t' = ty_bio t + (\<Sum>p\<leftarrow>pays. bio_share ct s (snd p)) \<and>
     ty_processed t' = ty_processed t + sum_list (map snd pays) \<and> (pays \<noteq> [] \<longrightarrow> ty_processed t' \<le> subs)"

text \<open>Calls of the peers that only read them.\<close>

definition peers_read :: "peers \<Rightarrow> peers \<Rightarrow> bool" where
  "peers_read P P' \<longleftrightarrow>
     (\<forall>a. map_option ledger_of (issuers_at P' a) = map_option ledger_of (issuers_at P a)) \<and>
     (\<forall>a. map_option (\<lambda>s. pget (orc_reports s)) (oracles_at P' a) =
          map_option (\<lambda>s. pget (orc_reports s)) (oracles_at P a))"

text \<open>The kinds of credit a bond of a credit type can hold.\<close>

fun holds_kind :: "CreditType \<Rightarrow> CreditType \<Rightarrow> bool" where
  "holds_kind Biodiversity c \<longleftrightarrow> c = Biodiversity"
| "holds_kind Basket c \<longleftrightarrow> c = Carbon \<or> c = Biodiversity"
| "holds_kind ct c \<longleftrightarrow> c = Carbon"

text \<open>
  A freshly deployed engine: its bond issuer, if it is deployed at all, has issued at most \<open>n\<close> bonds, and
  the reports of the oracles make no negative claims.
\<close>

definition coupon_start :: "nat \<Rightarrow> coupon_engine \<times> peers \<Rightarrow> bool" where
  "coupon_start n s \<longleftrightarrow> (case s of (st, P) \<Rightarrow>
     (\<exists>admin iss orc reg. st = coupon_constructor admin iss orc reg \<and>
        (\<forall>i. issuers_at P iss = Some i \<longrightarrow> inv_ids n (ledger_of i))) \<and>
     (\<forall>a orc. oracles_at P a = Some orc \<longrightarrow> sound_reports orc))"

text \<open>
  The contracts of the examples: an issuer with one carbon bond of 500 tokens, an oracle with a verified
  report worth 1001 credits, and a registry with the approved project.
\<close>

definition sample_peers :: peers where
  "sample_peers = \<lparr>issuers_at = [Address 40 \<mapsto> (issuer_constructor (Address 0))\<lparr>iss_bond_count := Some 1,
       iss_configs := [1 \<mapsto> (sample_config, 4096)],
       iss_states := [1 \<mapsto> (\<lparr>bs_total_subscribed = 500, bs_status = Active, bs_created_at = 5\<rparr>, 4096)],
       iss_balances := [(1, Address 1) \<mapsto> (300, 4096), (1, Address 2) \<mapsto> (200, 4096)],
       iss_bond_list := [() \<mapsto> ([1], 4096)]\<rparr>],
     oracles_at = [Address 41 \<mapsto> (oracle_constructor (Address 0))\<lparr>orc_reports := [7 \<mapsto>
       (\<lparr>rp_id = 7, rp_provider = Address 6, rp_project_id = 1, rp_project_metadata_hash = replicate 32 1,
         rp_period_start = 10, rp_period_end = 20, rp_carbon_sequestered = 1001000, rp_biodiversity = Absent,
         rp_methodology = ''m'', rp_ipfs_evidence_hash = replicate 32 2, rp_status = Verified,
         rp_submitted_at = 21, rp_verified_at = 22\<rparr>, 4096)]\<rparr>],
     registries_at = [Address 42 \<mapsto> (registry_constructor (sample_env 5) (Address 0))\<lparr>
       reg_project_by_hash := [replicate 32 1 \<mapsto> (1, 4096)],
       reg_projects := [project_id_to_bytes 1 \<mapsto> (\<lparr>pj_id = 1, pj_owner = Address 9,
         pj_metadata_ipfs_hash = replicate 32 1, pj_name = ''n'', pj_status = ProjectStatus.Approved,
         pj_methodology = ''m'', pj_country = ''c''\<rparr>, 4096)]\<rparr>]\<rparr>"

abbreviation sample_engine :: coupon_engine where
  "sample_engine \<equiv> coupon_constructor (Address 0) (Address 40) (Address 41) (Address 42)"

abbreviation coupon_labels :: "timed_label list" where
  "coupon_labels \<equiv> [(30, Some (Address 0, 0)), (31, Some (Address 0, 1)), (32, Some (Address 0, 2))]"

section \<open>Refinement\<close>


lemma coupon_extend_pget [storage_simps]: "pget (coupon_extend_ttl env m k) = pget m"
  by (simp add: coupon_extend_ttl_def storage_simps)

lemma coupon_write_pget [storage_simps]: "pget (coupon_write env m k v) = (pget m)(k \<mapsto> v)"
  by (simp add: coupon_write_def storage_simps)

lemma read_refresh_pget [storage_simps]:
  "fst (read_refresh_ttl env m k) = pget m k" "pget (snd (read_refresh_ttl env m k)) = pget m"
  by (auto simp: read_refresh_ttl_def storage_simps split: option.splits)

lemma coupon_amounts [simp]:
  "amounts (coupon_write env m k v) = (amounts m)(k := v)" "amounts (coupon_extend_ttl env m k) = amounts m"
  "amounts (snd (read_refresh_ttl env m k)) = amounts m"
  by (auto simp: fun_eq_iff amounts_def storage_simps)

lemma phas_coupon [simp]:
  "phas (coupon_write env m k v) = (phas m)(k := True)" "phas (coupon_extend_ttl env m k) = phas m"
  by (auto simp: fun_eq_iff phas_pget storage_simps)

text \<open>How the book changes with each field of the state.\<close>

lemma book_of_upd [simp]:
  "book_of (st\<lparr>cpn_bond_credit_type := m0\<rparr>, P) = (book_of (st, P))\<lparr>bk_types := m0\<rparr>"
  "book_of (st\<lparr>cpn_accrued_by_type := m1\<rparr>, P) = (book_of (st, P))\<lparr>bk_bucket := amounts m1\<rparr>"
  "book_of (st\<lparr>cpn_accrued := m2\<rparr>, P) =
     (book_of (st, P))\<lparr>bk_accrued := amounts m2, bk_sum := \<lambda>b. map_total (pget m2) (of_bond b)\<rparr>"
  "book_of (st\<lparr>cpn_undistributed_total := m3\<rparr>, P) = (book_of (st, P))\<lparr>bk_dust := amounts m3\<rparr>"
  "book_of (st\<lparr>cpn_undistributed_by_type := m4\<rparr>, P) = (book_of (st, P))\<lparr>bk_dust_by := amounts m4\<rparr>"
  "book_of (st\<lparr>cpn_period_info := m5\<rparr>, P) = (book_of (st, P))\<lparr>bk_periods := pget m5\<rparr>"
  "book_of (st\<lparr>cpn_batch_state := m6\<rparr>, P) = (book_of (st, P))\<lparr>bk_batches := pget m6\<rparr>"
  "book_of (st\<lparr>cpn_distribution_balance := m7\<rparr>, P) = (book_of (st, P))\<lparr>bk_progress := pget m7\<rparr>"
  "book_of (st\<lparr>cpn_holder_distributed := m8\<rparr>, P) = (book_of (st, P))\<lparr>bk_paid := phas m8\<rparr>"
  "book_of (coupon_publish e st, P) = bk_note e (book_of (st, P))"
  by (simp_all add: book_of_def coupon_get_nonce_def fun_eq_iff engine_issuer_def coupon_publish_def bk_note_def)

lemma book_of_other [simp]:
  "book_of (st\<lparr>cpn_bond_project := n1\<rparr>, P) = book_of (st, P)" "book_of (st\<lparr>cpn_period_count := n2\<rparr>, P) = book_of (st, P)"
  "book_of (st\<lparr>cpn_deduct_caller := n3\<rparr>, P) = book_of (st, P)"
  by (simp_all add: book_of_def coupon_get_nonce_def fun_eq_iff engine_issuer_def)

lemma book_reads:
  "unwrap_or (pget (cpn_accrued st) k1) 0 = bk_accrued (book_of (st, P)) k1"
  "unwrap_or (pget (cpn_accrued_by_type st) k2) 0 = bk_bucket (book_of (st, P)) k2"
  "unwrap_or (pget (cpn_undistributed_total st) b) 0 = bk_dust (book_of (st, P)) b"
  "unwrap_or (pget (cpn_undistributed_by_type st) k3) 0 = bk_dust_by (book_of (st, P)) k3"
  "amounts (cpn_accrued st) = bk_accrued (book_of (st, P))"
  "amounts (cpn_accrued_by_type st) = bk_bucket (book_of (st, P))"
  "amounts (cpn_undistributed_total st) = bk_dust (book_of (st, P))"
  "amounts (cpn_undistributed_by_type st) = bk_dust_by (book_of (st, P))"
  "map_total (pget (cpn_accrued st)) (of_bond b) = bk_sum (book_of (st, P)) b"
  "pget (cpn_period_info st) = bk_periods (book_of (st, P))" "pget (cpn_batch_state st) = bk_batches (book_of (st, P))"
  "pget (cpn_distribution_balance st) = bk_progress (book_of (st, P))"
  "phas (cpn_holder_distributed st) = bk_paid (book_of (st, P))"
  "cpn_bond_credit_type st = bk_types (book_of (st, P))" "cpn_events st = bk_log (book_of (st, P))"
  by (simp_all add: book_of_def amounts_def fun_eq_iff)

lemma sane_finite: "sane_amounts m \<Longrightarrow> finite (dom (pget m))"
  by (simp add: sane_amounts_def)

lemma sane_write [simp]: "sane_amounts m \<Longrightarrow> fits_i128 v \<Longrightarrow> sane_amounts (coupon_write env m k v)"
  by (simp add: sane_amounts_def storage_simps)

lemma sane_refresh [simp]: "sane_amounts (snd (read_refresh_ttl env m k)) = sane_amounts m"
  by (simp add: sane_amounts_def storage_simps)

lemma sane_fits: "sane_amounts (cpn_accrued st) \<Longrightarrow> fits_i128 (bk_accrued (book_of (st, P)) k)"
  by (cases k; cases "pget (cpn_accrued st) k") (auto simp: sane_amounts_def book_of_def amounts_def)

lemma sum_write:
  assumes "finite (dom m)" and "v = unwrap_or (m (b, h)) 0 + x"
  shows "(\<lambda>b'. map_total (m((b, h) \<mapsto> v)) (of_bond b')) =
    (\<lambda>b'. map_total m (of_bond b'))(b := map_total m (of_bond b) + x)"
  using assms by (auto simp: fun_eq_iff map_total_upd of_bond_def)

lemma coupon_consume_nonce_Ok:
  "coupon_consume_nonce env a n st = Ok st' \<Longrightarrow> n = bk_nonces (book_of (st, P)) a \<and>
     book_of (st', P) = bk_spend a (book_of (st, P)) \<and> st' = st\<lparr>cpn_nonces := cpn_nonces st'\<rparr>"
  by (auto simp: coupon_consume_nonce_def coupon_set_nonce_def Let_def result_simps book_of_def bk_spend_def
      coupon_get_nonce_def storage_simps fun_eq_iff engine_issuer_def dest!: add_word_OkD split: if_splits)

lemma only_accrued_refl: "sane_amounts (cpn_accrued st) \<Longrightarrow> only_accrued st st"
  unfolding only_accrued_def by (intro exI [of _ "cpn_accrued_by_type st"] exI [of _ "cpn_accrued st"]) simp

lemma only_accrued_trans: "only_accrued st st1 \<Longrightarrow> only_accrued st1 st2 \<Longrightarrow> only_accrued st st2"
  unfolding only_accrued_def
proof (elim exE conjE)
  fix m1 m2 n1 n2
  assume "st1 = st\<lparr>cpn_accrued_by_type := m1, cpn_accrued := m2\<rparr>"
    and "st2 = st1\<lparr>cpn_accrued_by_type := n1, cpn_accrued := n2\<rparr>" and "sane_amounts n2"
  then show "\<exists>m1 m2. st2 = st\<lparr>cpn_accrued_by_type := m1, cpn_accrued := m2\<rparr> \<and> sane_amounts m2"
    by (intro exI [of _ n1] exI [of _ n2]) simp
qed

lemma only_accrued_sane: "only_accrued st st' \<Longrightarrow> sane_amounts (cpn_accrued st')"
  by (auto simp: only_accrued_def)

lemma accrue_book:
  assumes "accrue_credits env b h c x st = Ok st'" and "sane_amounts (cpn_accrued st)"
  shows "book_of (st', P) = bk_credit b h c x (book_of (st, P)) \<and> only_accrued st st'"
proof -
  from assms(1) have st': "st' = st\<lparr>cpn_accrued_by_type := coupon_write env (cpn_accrued_by_type st) (b, h, c)
        (bk_bucket (book_of (st, P)) (b, h, c) + x),
      cpn_accrued := coupon_write env (cpn_accrued st) (b, h) (bk_accrued (book_of (st, P)) (b, h) + x)\<rparr>"
    and fits: "fits_i128 (bk_accrued (book_of (st, P)) (b, h) + x)"
    by (auto simp: accrue_credits_def Let_def result_simps book_reads [where P = P])
  have "book_of (st', P) = bk_credit b h c x (book_of (st, P))"
    unfolding st' by (simp add: bk_credit_def storage_simps book_reads [where P = P] sum_write [OF sane_finite [OF assms(2)]])
  moreover have "only_accrued st st'"
    unfolding only_accrued_def st' using assms(2) fits by (intro exI conjI) (rule refl, simp)
  ultimately show ?thesis ..
qed

lemma bk_credit_zero [simp]: "bk_credit b h c 0 B = B"
  by (simp add: bk_credit_def)

text \<open>Paying one holder.\<close>

lemma FIXED_POINT_pos [simp]: "0 < FIXED_POINT"
  by (simp add: FIXED_POINT_def)

lemma holder_share_Ok:
  "holder_share env r x = Ok v \<Longrightarrow> overflow_checks env \<Longrightarrow> 0 \<le> r \<Longrightarrow> 0 < x \<Longrightarrow> v = r * x div FIXED_POINT \<and> 0 \<le> v"
  by (auto simp: holder_share_def result_simps sdiv_nonneg pos_imp_zdiv_nonneg_iff dest!: arith_i128_exact)

lemma pay_single_book:
  assumes "pay_single env b kind s h x t st = Ok (t', st')" and "overflow_checks env"
    and "0 \<le> ba_credits_per_token s" and "0 < x" and "sane_amounts (cpn_accrued st)"
    and "v = ba_credits_per_token s * x div FIXED_POINT"
  shows "book_of (st', P) = bk_credit b h kind v (book_of (st, P)) \<and> only_accrued st st' \<and>
    tallied (if kind = Carbon then v else 0) (if kind = Carbon then 0 else v) t t'"
proof -
  from assms(1) obtain w where w: "holder_share env (ba_credits_per_token s) x = Ok w"
    by (auto simp: pay_single_def result_simps)
  from holder_share_Ok [OF w assms(2-4)] assms(6) have v: "w = v" "0 \<le> v" by simp_all
  show ?thesis
  proof (cases "0 < v")
    case True
    with assms(1) w v have "accrue_credits env b h kind v st = Ok st' \<and>
        tallied (if kind = Carbon then v else 0) (if kind = Carbon then 0 else v) t t'"
      by (cases "kind = Carbon") (auto simp: pay_single_def result_simps tallied_def)
    with accrue_book [OF _ assms(5), of env b h kind v st' P] show ?thesis by simp
  next
    case False
    with v have "v = 0" by simp
    with assms(1) w v have "t' = t" "st' = st" by (auto simp: pay_single_def result_simps)
    with \<open>v = 0\<close> assms(5) show ?thesis by (simp add: tallied_def only_accrued_refl)
  qed
qed

lemma pay_basket_book:
  assumes "pay_basket env b s h x t st = Ok (t', st')" and "overflow_checks env"
    and "0 \<le> ba_carbon_per_token s" and "0 \<le> ba_biodiversity_per_token s" and "0 < x"
    and "sane_amounts (cpn_accrued st)"
    and "c = ba_carbon_per_token s * x div FIXED_POINT" and "y = ba_biodiversity_per_token s * x div FIXED_POINT"
  shows "book_of (st', P) = bk_credit b h Biodiversity y (bk_credit b h Carbon c (book_of (st, P))) \<and>
    only_accrued st st' \<and> tallied c y t t'"
proof -
  from assms(1) obtain c' y' where "holder_share env (ba_carbon_per_token s) x = Ok c'"
    and "holder_share env (ba_biodiversity_per_token s) x = Ok y'"
    by (auto simp: pay_basket_def result_simps)
  with holder_share_Ok [OF _ assms(2) assms(3) assms(5), of c']
    holder_share_Ok [OF _ assms(2) assms(4) assms(5), of y'] assms(7,8)
  have hs: "holder_share env (ba_carbon_per_token s) x = Ok c"
    "holder_share env (ba_biodiversity_per_token s) x = Ok y" and pos: "0 \<le> c" "0 \<le> y" by simp_all
  have skip: ?thesis if "c + y \<le> 0"
  proof -
    from that pos have "c = 0" "y = 0" by simp_all
    with assms(1,6) hs show ?thesis by (auto simp: pay_basket_def result_simps tallied_def only_accrued_refl)
  qed
  have pay: ?thesis if "0 < c + y"
  proof -
    from assms(1) hs that obtain st1
      where st1: "(if 0 < c then accrue_credits env b h Carbon c st else Ok st) = Ok st1"
        and st': "(if 0 < y then accrue_credits env b h Biodiversity y st1 else Ok st1) = Ok st'"
        and t': "tallied c y t t'"
      using pos by (auto simp: pay_basket_def result_simps tallied_def Let_def split: if_splits)
    from st1 pos assms(6) have 1: "book_of (st1, P) = bk_credit b h Carbon c (book_of (st, P)) \<and> only_accrued st st1"
      by (cases "0 < c") (auto dest!: accrue_book [where P = P] intro: only_accrued_refl)
    then have fin: "sane_amounts (cpn_accrued st1)" by (auto dest: only_accrued_sane)
    from st' pos fin have "book_of (st', P) = bk_credit b h Biodiversity y (book_of (st1, P)) \<and> only_accrued st1 st'"
      by (cases "0 < y") (auto dest!: accrue_book [where P = P] intro: only_accrued_refl)
    with 1 t' show ?thesis by (auto intro: only_accrued_trans)
  qed
  from skip pay show ?thesis by linarith
qed

lemma pay_holder_book:
  assumes "pay_holder env b ct s h x t st = Ok (t', st')" and "overflow_checks env"
    and "0 \<le> ba_credits_per_token s" and "0 \<le> ba_carbon_per_token s" and "0 \<le> ba_biodiversity_per_token s"
    and "0 < x" and "sane_amounts (cpn_accrued st)"
  shows "book_of (st', P) =
      bk_credit b h Biodiversity (bio_share ct s x) (bk_credit b h Carbon (carbon_share ct s x) (book_of (st, P))) \<and>
    only_accrued st st' \<and> tallied (carbon_share ct s x) (bio_share ct s x) t t'"
proof -
  note single = pay_single_book [OF _ assms(2) assms(3) assms(6-7) refl, of b _ h t t' st' P]
  note basket = pay_basket_book [OF _ assms(2) assms(4-7) refl refl, of b h t t' st' P]
  from assms(1) single [of Carbon] single [of Biodiversity] basket show ?thesis
    by (cases ct) (simp_all add: pay_holder_def carbon_share_def bio_share_def)
qed

lemma only_paid_refl: "sane_amounts (cpn_accrued st) \<Longrightarrow> only_paid st st"
  unfolding only_paid_def
  by (intro exI [of _ "cpn_accrued_by_type st"] exI [of _ "cpn_accrued st"] exI [of _ "cpn_holder_distributed st"]) simp

lemma only_paid_trans: "only_paid st st1 \<Longrightarrow> only_paid st1 st2 \<Longrightarrow> only_paid st st2"
  unfolding only_paid_def by (elim exE conjE) (intro exI conjI, assumption, simp)

lemma only_paid_accrued:
  "only_accrued st st1 \<Longrightarrow> only_paid st (st1\<lparr>cpn_holder_distributed := m\<rparr>)"
  unfolding only_paid_def only_accrued_def by (elim exE conjE) (intro exI conjI, assumption, simp)

lemma only_paid_sane: "only_paid st st' \<Longrightarrow> sane_amounts (cpn_accrued st')"
  by (auto simp: only_paid_def)

lemma only_paid_marked:
  "sane_amounts (cpn_accrued st) \<Longrightarrow> only_paid st (st\<lparr>cpn_holder_distributed := m\<rparr>)"
  by (rule only_paid_accrued [OF only_accrued_refl])

lemma payable_pos: "p \<in> set (payable paid hs) \<Longrightarrow> 0 < snd p"
  by (induction paid hs rule: payable.induct) (auto split: if_splits)

lemma looped_Cons:
  assumes "tallied (carbon_share ct s x) (bio_share ct s x) (t\<lparr>ty_processed := ty_processed t + x\<rparr>) t1"
    and "looped ct s subs pays t1 t'" and "ty_processed t + x \<le> subs"
  shows "looped ct s subs ((h, x) # pays) t t'"
  using assms by (cases pays) (auto simp: looped_def tallied_def)

lemma distribute_loop_pay:
  assumes "distribute_loop env b i ct s subs ((h, x) # hs) t st = Ok (t', st')" and "overflow_checks env"
    and "0 \<le> ba_credits_per_token s" and "0 \<le> ba_carbon_per_token s" and "0 \<le> ba_biodiversity_per_token s"
    and "sane_amounts (cpn_accrued st)" and "\<not> bk_paid (book_of (st, P)) (b, i, h)" and "0 < x"
  obtains t1 st1 where "distribute_loop env b i ct s subs hs t1 st1 = Ok (t', st')" and "only_paid st st1"
    and "book_of (st1, P) = bk_pay b i ct s (h, x) (book_of (st, P))"
    and "tallied (carbon_share ct s x) (bio_share ct s x) (t\<lparr>ty_processed := ty_processed t + x\<rparr>) t1"
    and "ty_processed t + x \<le> subs"
proof -
  have paid: "phas (cpn_holder_distributed st) = bk_paid (book_of (st, P))" by (rule book_reads)
  from assms(1,7,8) obtain t1 st0
    where le: "ty_processed t + x \<le> subs"
      and ph: "pay_holder env b ct s h x (t\<lparr>ty_processed := ty_processed t + x\<rparr>) st = Ok (t1, st0)"
      and rest: "distribute_loop env b i ct s subs hs t1
        (st0\<lparr>cpn_holder_distributed := coupon_write env (cpn_holder_distributed st0) (b, i, h) True\<rparr>) = Ok (t', st')"
    by (auto simp: paid result_simps split: if_splits)
  note p = pay_holder_book [OF ph assms(2-5,8,6), of P]
  show thesis
  proof (rule that [OF rest])
    show "book_of (st0\<lparr>cpn_holder_distributed := coupon_write env (cpn_holder_distributed st0) (b, i, h) True\<rparr>, P) =
        bk_pay b i ct s (h, x) (book_of (st, P))"
      using p by (simp add: book_reads [where P = P] bk_pay_def bk_credit_def)
  qed (use p le in \<open>simp_all add: only_paid_accrued\<close>)
qed

lemma distribute_loop_book:
  assumes "distribute_loop env b i ct s subs hs t st = Ok (t', st')" and "overflow_checks env"
    and "0 \<le> ba_credits_per_token s" and "0 \<le> ba_carbon_per_token s" and "0 \<le> ba_biodiversity_per_token s"
    and "sane_amounts (cpn_accrued st)"
  shows "\<exists>pays. pays = payable (\<lambda>h. bk_paid (book_of (st, P)) (b, i, h)) hs \<and>
    book_of (st', P) = fold (bk_pay b i ct s) pays (book_of (st, P)) \<and> only_paid st st' \<and> looped ct s subs pays t t'"
  using assms(1,6)
proof (induction hs arbitrary: t st)
  case Nil
  then show ?case by (simp add: looped_def only_paid_refl)
next
  case (Cons hx hs)
  obtain h x where hx: "hx = (h, x)" by (cases hx)
  have paid: "phas (cpn_holder_distributed st) = bk_paid (book_of (st, P))" by (rule book_reads)
  consider (again) "bk_paid (book_of (st, P)) (b, i, h)" | (zero) "\<not> bk_paid (book_of (st, P)) (b, i, h)" "x \<le> 0"
    | (pay) "\<not> bk_paid (book_of (st, P)) (b, i, h)" "0 < x" by linarith
  then show ?case
  proof cases
    case again
    define st1 where "st1 = st\<lparr>cpn_holder_distributed := coupon_extend_ttl env (cpn_holder_distributed st) (b, i, h)\<rparr>"
    have eq: "book_of (st1, P) = book_of (st, P)" unfolding st1_def by (simp add: paid)
    have run: "distribute_loop env b i ct s subs hs t st1 = Ok (t', st')"
      using Cons.prems(1) again unfolding st1_def hx by (simp add: paid)
    have o1: "only_paid st st1" unfolding st1_def by (rule only_paid_marked) (rule Cons.prems(2))
    from Cons.IH [OF run only_paid_sane [OF o1]] only_paid_trans [OF o1, of st'] again show ?thesis
      by (simp add: hx eq)
  next
    case zero
    with Cons show ?thesis by (simp add: hx paid)
  next
    case pay
    obtain t1 st1 where run: "distribute_loop env b i ct s subs hs t1 st1 = Ok (t', st')" and o1: "only_paid st st1"
      and b1: "book_of (st1, P) = bk_pay b i ct s (h, x) (book_of (st, P))"
      and t1: "tallied (carbon_share ct s x) (bio_share ct s x) (t\<lparr>ty_processed := ty_processed t + x\<rparr>) t1"
      and le: "ty_processed t + x \<le> subs"
      by (rule distribute_loop_pay [OF Cons.prems(1) [unfolded hx] assms(2-5) Cons.prems(2) pay])
    have "(\<lambda>h'. bk_paid (book_of (st1, P)) (b, i, h')) = (\<lambda>h'. bk_paid (book_of (st, P)) (b, i, h'))(h := True)"
      by (auto simp: b1 bk_pay_def fun_eq_iff)
    with Cons.IH [OF run only_paid_sane [OF o1]] only_paid_trans [OF o1, of st'] looped_Cons [OF t1 _ le] pay
    show ?thesis by (simp add: hx b1)
  qed
qed


lemma peers_read_trans: "peers_read P P1 \<Longrightarrow> peers_read P1 P2 \<Longrightarrow> peers_read P P2"
  by (simp add: peers_read_def)

lemma issuer_types_alt:
  "issuer_types i = (\<lambda>b. Option.bind (map_option ledger_of i) (\<lambda>L. map_option bc_credit_type (lg_configs L b)))"
  "issuer_count i = (case map_option ledger_of i of None \<Rightarrow> 0 | Some L \<Rightarrow> lg_count L)"
  by (cases i; simp add: issuer_types_def issuer_count_def fun_eq_iff)+

lemma peers_read_book:
  assumes "peers_read P P'"
  shows "book_of (st, P') = book_of (st, P)"
proof -
  have "map_option ledger_of (engine_issuer st P') = map_option ledger_of (engine_issuer st P)"
    using assms by (cases "cpn_bond_issuer st") (simp_all add: engine_issuer_def peers_read_def)
  then show ?thesis by (simp only: book_of_def issuer_types_alt prod.case)
qed

lemma peers_read_sound:
  assumes "peers_read P P'" and "\<forall>a s. oracles_at P a = Some s \<longrightarrow> sound_reports s"
  shows "\<forall>a s. oracles_at P' a = Some s \<longrightarrow> sound_reports s"
proof (intro allI impI)
  fix a s' assume s': "oracles_at P' a = Some s'"
  from assms(1) have "map_option (\<lambda>s. pget (orc_reports s)) (oracles_at P' a) =
      map_option (\<lambda>s. pget (orc_reports s)) (oracles_at P a)" unfolding peers_read_def by blast
  with s' obtain s where "oracles_at P a = Some s" "pget (orc_reports s) = pget (orc_reports s')"
    by (cases "oracles_at P a") simp_all
  with assms(2) show "sound_reports s'" by (auto simp: sound_reports_def)
qed

lemma peers_read_typed: "peers_read P P' \<Longrightarrow> coupon_typed (st, P) \<Longrightarrow> coupon_typed (st, P')"
  using peers_read_sound [of P P'] by (simp add: coupon_typed_def)

lemma invoke_get_bond_Ok:
  "invoke_get_bond env a b P = Ok (cfg, P') \<Longrightarrow> peers_read P P' \<and>
     (\<exists>s. issuers_at P a = Some s \<and> lg_configs (ledger_of s) b = Some cfg)"
  by (auto simp: invoke_get_bond_def result_simps peers_read_def ledger_of_def get_bond_def
      dest: extend_bond_ttl_ledger)

lemma invoke_total_subscribed_Ok: "invoke_total_subscribed env a b P = Ok (subs, P') \<Longrightarrow> peers_read P P'"
  by (auto simp: invoke_total_subscribed_def result_simps peers_read_def total_subscribed_def
      dest: extend_bond_ttl_ledger)

lemma invoke_get_report_Ok:
  "invoke_get_report env a rid P = Ok (r, P') \<Longrightarrow> peers_read P P' \<and>
     (\<exists>s. oracles_at P a = Some s \<and> pget (orc_reports s) rid = Some r)"
  by (auto simp: invoke_get_report_def result_simps peers_read_def get_report_def storage_simps)

lemma invoke_status_Ok: "invoke_status_by_hash env a h P = Ok (v, P') \<Longrightarrow> peers_read P P'"
  by (auto simp: invoke_status_by_hash_def result_simps peers_read_def)

text \<open>The first batch and the later ones.\<close>

lemma saturate_nonneg: "0 \<le> x \<Longrightarrow> 0 \<le> saturate_i128 x"
  by (simp add: saturate_i128_def i128_max_def)

lemma biodiversity_credits_nonneg: "\<not> negative_metric m \<Longrightarrow> 0 \<le> compute_biodiversity_credits m"
proof (induction m rule: compute_biodiversity_credits.induct)
  case (2 habitat species units)
  then have "0 \<le> habitat" "0 \<le> species" "0 \<le> units" by auto
  then show ?case
    by (simp add: sdiv_nonneg saturate_nonneg HABITAT_CREDIT_RATE_def SPECIES_CREDIT_RATE_def
        UNIT_CREDIT_RATE_def pos_imp_zdiv_nonneg_iff)
qed simp

lemma report_totals_Ok:
  "report_totals ct r = Ok (c, y) \<Longrightarrow> sound_report r \<Longrightarrow> 0 \<le> c \<and> 0 \<le> y \<and> fits_type ct c y"
  by (cases ct) (auto simp: report_totals_def sound_report_def CREDIT_DIVISOR_def sdiv_nonneg
      pos_imp_zdiv_nonneg_iff biodiversity_credits_nonneg split: if_splits)

lemma per_token_rate: "per_token env x subs = Ok r \<Longrightarrow> overflow_checks env \<Longrightarrow> r = rate x subs"
  by (auto simp: per_token_def rate_def result_simps sdiv_nonneg FIXED_POINT_def dest!: arith_i128_exact split: if_splits)

lemma rate_nonneg: "0 \<le> rate x subs"
  by (simp add: rate_def pos_imp_zdiv_nonneg_iff FIXED_POINT_def)

lemma fresh_batch_rates [simp]:
  "ba_credits_per_token (fresh_batch rid c y subs) = rate (c + y) subs"
  "ba_carbon_per_token (fresh_batch rid c y subs) = rate c subs"
  "ba_biodiversity_per_token (fresh_batch rid c y subs) = rate y subs"
  by (simp_all add: fresh_batch_def)

lemma open_batch_book:
  assumes "open_batch env b i rid pid ct st P = Ok (s, subs, p, st', P')"
    and "overflow_checks env" and "coupon_typed (st, P)"
  shows "(\<exists>rid c y. 0 \<le> c \<and> 0 \<le> y \<and> fits_type ct c y \<and> s = fresh_batch rid c y subs) \<and> p = 0 \<and>
    book_of (st', P') = (book_of (st, P))\<lparr>bk_batches := (bk_batches (book_of (st, P)))((b, i) \<mapsto> s),
      bk_progress := (bk_progress (book_of (st, P)))((b, i) \<mapsto> (subs, p))\<rparr> \<and> coupon_typed (st', P')"
proof -
  from assms(1) obtain a ia r P1 c y
    where r: "invoke_get_report env a rid P = Ok (r, P1)"
      and subs: "invoke_total_subscribed env ia b P1 = Ok (subs, P')"
      and cy: "report_totals ct r = Ok (c, y)" and p: "p = 0"
      and s: "s = fresh_batch rid c y subs"
      and st': "st' = st\<lparr>cpn_batch_state := coupon_write env (cpn_batch_state st) (b, i) s,
        cpn_distribution_balance := coupon_write env (cpn_distribution_balance st) (b, i) (subs, 0)\<rparr>"
    by (auto simp: open_batch_def result_simps Let_def fresh_batch_def
        dest!: per_token_rate [OF _ assms(2)] split: if_splits option.splits)
  from r assms(3) have "sound_report r"
    by (auto dest!: invoke_get_report_Ok simp: coupon_typed_def sound_reports_def)
  with cy have cy': "0 \<le> c" "0 \<le> y" "fits_type ct c y" by (auto dest: report_totals_Ok)
  have read: "peers_read P P'"
    using invoke_get_report_Ok [OF r] invoke_total_subscribed_Ok [OF subs] by (blast intro: peers_read_trans)
  have "book_of (st', P') = (book_of (st, P))\<lparr>bk_batches := (bk_batches (book_of (st, P)))((b, i) \<mapsto> s),
      bk_progress := (bk_progress (book_of (st, P)))((b, i) \<mapsto> (subs, p))\<rparr>"
    unfolding peers_read_book [OF read] st' p by (simp add: storage_simps book_reads [where P = P])
  moreover from assms(3) have "coupon_typed (st', P)"
    unfolding st' s by (simp add: coupon_typed_def storage_simps rate_nonneg)
  ultimately show ?thesis using cy' s p peers_read_typed [OF read] by blast
qed

lemma resume_batch_book:
  assumes "resume_batch env b i rid s0 st = Ok (s, subs, p, st')" and "pget (cpn_batch_state st) (b, i) = Some s0"
    and "coupon_typed (st, P)"
  shows "s = s0 \<and> bk_batches (book_of (st, P)) (b, i) = Some s \<and> bk_progress (book_of (st, P)) (b, i) = Some (subs, p) \<and>
    book_of (st', P) = book_of (st, P) \<and> coupon_typed (st', P)"
proof -
  from assms(1) have s: "s = s0" and p: "pget (cpn_distribution_balance st) (b, i) = Some (subs, p)"
    and st': "st' = st\<lparr>cpn_batch_state := coupon_extend_ttl env (cpn_batch_state st) (b, i),
      cpn_distribution_balance := coupon_extend_ttl env (cpn_distribution_balance st) (b, i)\<rparr>"
    by (auto simp: resume_batch_def result_simps split: if_splits)
  from assms(3) have "coupon_typed (st', P)" unfolding st' by (simp add: coupon_typed_def storage_simps)
  moreover have "book_of (st', P) = book_of (st, P)"
    unfolding st' by (simp add: storage_simps book_reads [where P = P])
  ultimately show ?thesis using s p assms(2) by (simp add: book_reads [where P = P])
qed


text \<open>The batch that settles the period.\<close>

lemma add_undistributed_amounts:
  "add_undistributed env m k x = Ok m' \<Longrightarrow> amounts m' = (amounts m)(k := amounts m k + max 0 x)"
  by (cases "0 < x") (auto simp: add_undistributed_def result_simps amounts_def [symmetric])

lemma close_period_book:
  assumes "close_period env b i rid s p subs st P = Ok (res, st', P')" and "coupon_typed (st, P)"
  shows "p = subs \<and> coupon_typed (st', P') \<and> (\<exists>info. pi_distributed info \<and>
    pi_total_credits_earned info = ba_distributed_so_far s \<and>
    pi_undistributed info = ba_total_credits s - ba_distributed_so_far s \<and>
    book_of (st', P') = bk_close b i s info (book_of (st, P)))"
proof -
  let ?info = "\<lambda>r. \<lparr>pi_period_index = i, pi_start_time = rp_period_start r, pi_end_time = rp_period_end r,
    pi_total_credits_earned = ba_distributed_so_far s, pi_distributed = True, pi_report_id = rid,
    pi_undistributed = ba_total_credits s - ba_distributed_so_far s\<rparr>"
  from assms(1) obtain a r m1 m2 m3 count
    where p: "p = subs" and r: "invoke_get_report env a rid P = Ok (r, P')"
      and m1: "add_undistributed env (cpn_undistributed_total st) b (ba_total_credits s - ba_distributed_so_far s) = Ok m1"
      and m2: "add_undistributed env (cpn_undistributed_by_type st) (b, Carbon)
        (ba_carbon_total s - ba_carbon_distributed_so_far s) = Ok m2"
      and m3: "add_undistributed env m2 (b, Biodiversity) (ba_biodiversity_total s - ba_bio_distributed_so_far s) = Ok m3"
      and st': "st' = coupon_publish (coupon_distributed b i (ba_distributed_so_far s) (ba_holder_count_so_far s))
        (st\<lparr>cpn_period_info := coupon_write env (cpn_period_info st) (b, i) (?info r), cpn_undistributed_total := m1,
           cpn_undistributed_by_type := m3, cpn_period_count := coupon_write env (cpn_period_count st) b count,
           cpn_batch_state := premove (cpn_batch_state st) (b, i),
           cpn_distribution_balance := premove (cpn_distribution_balance st) (b, i)\<rparr>)"
    by (auto simp: close_period_def result_simps Let_def split: if_splits)
  have read: "peers_read P P'" using invoke_get_report_Ok [OF r] by blast
  have "book_of (st', P') = bk_close b i s (?info r) (book_of (st, P))"
    unfolding peers_read_book [OF read] st' bk_close_def
    by (simp add: storage_simps book_reads [where P = P] add_undistributed_amounts [OF m1]
        add_undistributed_amounts [OF m2] add_undistributed_amounts [OF m3])
  moreover from assms(2) have "coupon_typed (st', P)"
    unfolding st' by (simp add: coupon_typed_def storage_simps coupon_publish_def)
  ultimately show ?thesis using p peers_read_typed [OF read] by (intro conjI exI [of _ "?info r"]) simp_all
qed

text \<open>Paying holders leaves the batches, the progress and the rest of the book alone.\<close>

lemma fold_pay_keeps:
  "bk_batches (fold (bk_pay b i ct s) pays B) = bk_batches B"
  "bk_progress (fold (bk_pay b i ct s) pays B) = bk_progress B"
  "bk_periods (fold (bk_pay b i ct s) pays B) = bk_periods B"
  "bk_types (fold (bk_pay b i ct s) pays B) = bk_types B"
  "bk_dust (fold (bk_pay b i ct s) pays B) = bk_dust B"
  "bk_dust_by (fold (bk_pay b i ct s) pays B) = bk_dust_by B"
  "bk_log (fold (bk_pay b i ct s) pays B) = bk_log B"
  "bk_cfg (fold (bk_pay b i ct s) pays B) = bk_cfg B"
  "bk_issued (fold (bk_pay b i ct s) pays B) = bk_issued B"
  "bk_nonces (fold (bk_pay b i ct s) pays B) = bk_nonces B"
  by (induction pays arbitrary: B) (simp_all add: bk_pay_def bk_credit_def)

lemma fold_pay_upd:
  "fold (bk_pay b i ct s) pays (B\<lparr>bk_batches := m, bk_progress := n\<rparr>) =
     (fold (bk_pay b i ct s) pays B)\<lparr>bk_batches := m, bk_progress := n\<rparr>"
proof (induction pays arbitrary: B)
  case (Cons p pays)
  have "bk_pay b i ct s p (B\<lparr>bk_batches := m, bk_progress := n\<rparr>) =
      (bk_pay b i ct s p B)\<lparr>bk_batches := m, bk_progress := n\<rparr>"
    by (simp add: bk_pay_def bk_credit_def)
  with Cons show ?case by simp
qed simp

lemma only_paid_typed: "only_paid st st' \<Longrightarrow> coupon_typed (st, P) \<Longrightarrow> coupon_typed (st', P)"
  by (auto simp: only_paid_def coupon_typed_def)

text \<open>The batch a distribution starts from, and the book once it is stored.\<close>

lemma begin_batch_book:
  assumes "(case pget (cpn_batch_state st) (b, i) of
      Some s \<Rightarrow> and_then (resume_batch env b i rid s st) (\<lambda>(s, subs, processed, st). Ok (s, subs, processed, st, P))
    | None \<Rightarrow> open_batch env b i rid pid ct st P) = Ok (s, subs, p, st', P')"
    and "overflow_checks env" and "coupon_typed (st, P)" and "B = book_of (st, P)"
  shows "(case bk_batches B (b, i) of
        Some s' \<Rightarrow> s = s' \<and> bk_progress B (b, i) = Some (subs, p)
      | None \<Rightarrow> (\<exists>rid c y. 0 \<le> c \<and> 0 \<le> y \<and> fits_type ct c y \<and> s = fresh_batch rid c y subs) \<and> p = 0) \<and>
    book_of (st', P') = B\<lparr>bk_batches := (bk_batches B)((b, i) \<mapsto> s), bk_progress := (bk_progress B)((b, i) \<mapsto> (subs, p))\<rparr> \<and>
    coupon_typed (st', P')"
proof (cases "pget (cpn_batch_state st) (b, i)")
  case None
  with assms(1) have "open_batch env b i rid pid ct st P = Ok (s, subs, p, st', P')" by simp
  from open_batch_book [OF this assms(2,3)] None show ?thesis by (simp add: assms(4) book_reads [where P = P])
next
  case (Some s0)
  with assms(1) have "resume_batch env b i rid s0 st = Ok (s, subs, p, st')" and "P' = P"
    by (auto simp: result_simps)
  with resume_batch_book [OF _ Some assms(3)] have "s = s0" "bk_batches B (b, i) = Some s"
    "bk_progress B (b, i) = Some (subs, p)" "book_of (st', P') = B" "coupon_typed (st', P')"
    unfolding assms(4) by blast+
  then show ?thesis by (simp add: fun_upd_idem)
qed


text \<open>Each entrypoint is a step of the book.\<close>

lemma typed_nonces: "coupon_consume_nonce env a n st = Ok st' \<Longrightarrow> coupon_typed (st, P) \<Longrightarrow> coupon_typed (st', P)"
  by (auto simp: coupon_consume_nonce_def coupon_set_nonce_def Let_def result_simps coupon_typed_def split: if_splits)

lemma typed_rates:
  "coupon_typed (st, P) \<Longrightarrow> bk_batches (book_of (st, P)) k = Some s \<Longrightarrow>
     0 \<le> ba_credits_per_token s \<and> 0 \<le> ba_carbon_per_token s \<and> 0 \<le> ba_biodiversity_per_token s"
  by (cases k) (auto simp: coupon_typed_def book_reads [where P = P, symmetric])

lemma typed_sane: "coupon_typed (st, P) \<Longrightarrow> sane_amounts (cpn_accrued st)"
  by (simp add: coupon_typed_def)

lemma typed_batch:
  assumes "coupon_typed (st, P)" and "0 \<le> ba_credits_per_token s" "0 \<le> ba_carbon_per_token s" "0 \<le> ba_biodiversity_per_token s"
  shows "coupon_typed (st\<lparr>cpn_batch_state := coupon_write env (cpn_batch_state st) k s,
    cpn_distribution_balance := m\<rparr>, P)"
  using assms by (simp add: coupon_typed_def storage_simps)

text \<open>The batch after the loop: its state is stored with what was paid.\<close>

lemma batch_stored_book:
  assumes "distribute_loop env b i ct s subs hs
      \<lparr>ty_total = 0, ty_carbon = 0, ty_bio = 0, ty_count = 0, ty_processed = p\<rparr> st1 = Ok (t, st2)"
    and "overflow_checks env" and "coupon_typed (st1, P)"
    and "book_of (st1, P) = B\<lparr>bk_batches := (bk_batches B)((b, i) \<mapsto> s), bk_progress := (bk_progress B)((b, i) \<mapsto> (subs, p))\<rparr>"
    and "s1 = s\<lparr>ba_distributed_so_far := ba_distributed_so_far s + ty_total t,
      ba_carbon_distributed_so_far := ba_carbon_distributed_so_far s + ty_carbon t,
      ba_bio_distributed_so_far := ba_bio_distributed_so_far s + ty_bio t, ba_holder_count_so_far := k\<rparr>"
    and "st3 = st2\<lparr>cpn_batch_state := coupon_write env (cpn_batch_state st2) (b, i) s1,
      cpn_distribution_balance := coupon_write env (cpn_distribution_balance st2) (b, i) (subs, ty_processed t)\<rparr>"
  shows "\<exists>pays. pays = payable (\<lambda>h. bk_paid B (b, i, h)) hs \<and> ty_processed t = p + sum_list (map snd pays) \<and>
    (pays \<noteq> [] \<longrightarrow> ty_processed t \<le> subs) \<and>
    s1 = advance (\<Sum>p\<leftarrow>pays. carbon_share ct s (snd p)) (\<Sum>p\<leftarrow>pays. bio_share ct s (snd p)) k s \<and>
    book_of (st3, P) = (fold (bk_pay b i ct s) pays B)\<lparr>bk_batches := (bk_batches B)((b, i) \<mapsto> s1),
      bk_progress := (bk_progress B)((b, i) \<mapsto> (subs, ty_processed t))\<rparr> \<and> coupon_typed (st3, P)"
proof -
  have "bk_batches (book_of (st1, P)) (b, i) = Some s" unfolding assms(4) by simp
  from typed_rates [OF assms(3) this] have r: "0 \<le> ba_credits_per_token s" "0 \<le> ba_carbon_per_token s"
    "0 \<le> ba_biodiversity_per_token s" by blast+
  from distribute_loop_book [OF assms(1,2) r typed_sane [OF assms(3)], of P]
  obtain pays where pays: "pays = payable (\<lambda>h. bk_paid (book_of (st1, P)) (b, i, h)) hs"
    and st2: "book_of (st2, P) = fold (bk_pay b i ct s) pays (book_of (st1, P))" "only_paid st1 st2"
    and l: "looped ct s subs pays \<lparr>ty_total = 0, ty_carbon = 0, ty_bio = 0, ty_count = 0, ty_processed = p\<rparr> t"
    by blast
  have s1: "s1 = advance (\<Sum>p\<leftarrow>pays. carbon_share ct s (snd p)) (\<Sum>p\<leftarrow>pays. bio_share ct s (snd p)) k s"
    using l unfolding assms(5) by (simp add: looped_def advance_def)
  have t: "coupon_typed (st3, P)" unfolding assms(6)
    by (rule typed_batch [OF only_paid_typed [OF st2(2) assms(3)]]) (simp_all add: s1 advance_def r)
  have B3: "book_of (st3, P) = (fold (bk_pay b i ct s) pays B)\<lparr>bk_batches := (bk_batches B)((b, i) \<mapsto> s1),
      bk_progress := (bk_progress B)((b, i) \<mapsto> (subs, ty_processed t))\<rparr>"
    unfolding assms(6) by (simp add: storage_simps book_reads [where P = P] st2(1) assms(4) fold_pay_upd)
  have "pays = payable (\<lambda>h. bk_paid B (b, i, h)) hs" using pays by (simp add: assms(4))
  moreover from l have "ty_processed t = p + sum_list (map snd pays)" "pays \<noteq> [] \<longrightarrow> ty_processed t \<le> subs"
    unfolding looped_def by auto
  ultimately show ?thesis using s1 t B3 by blast
qed

lemma distribute_coupon_OkE:
  assumes "distribute_coupon env a b i hs rid n fin st P = Ok (res, st', P')"
  obtains st0 pid ct s subs p st1 P1 t st2 k
    where "coupon_consume_nonce env a n st = Ok st0"
      and "\<not> (case pget (cpn_period_info st0) (b, i) of Some info \<Rightarrow> pi_distributed info | None \<Rightarrow> False)"
      and "cpn_bond_credit_type st0 b = Some ct"
      and "(case pget (cpn_batch_state st0) (b, i) of
          Some s \<Rightarrow> and_then (resume_batch env b i rid s st0) (\<lambda>(s, subs, processed, st). Ok (s, subs, processed, st, P))
        | None \<Rightarrow> open_batch env b i rid pid ct st0 P) = Ok (s, subs, p, st1, P1)"
      and "distribute_loop env b i ct s subs hs
          \<lparr>ty_total = 0, ty_carbon = 0, ty_bio = 0, ty_count = 0, ty_processed = p\<rparr> st1 = Ok (t, st2)"
      and "(let s1 = s\<lparr>ba_distributed_so_far := ba_distributed_so_far s + ty_total t,
              ba_carbon_distributed_so_far := ba_carbon_distributed_so_far s + ty_carbon t,
              ba_bio_distributed_so_far := ba_bio_distributed_so_far s + ty_bio t, ba_holder_count_so_far := k\<rparr>;
            st3 = st2\<lparr>cpn_batch_state := coupon_write env (cpn_batch_state st2) (b, i) s1,
              cpn_distribution_balance := coupon_write env (cpn_distribution_balance st2) (b, i) (subs, ty_processed t)\<rparr>
          in if fin then close_period env b i rid s1 (ty_processed t) subs st3 P1 = Ok (res, st', P')
             else (st', P') = (st3, P1))"
  using assms by (cases fin) (auto simp: distribute_coupon_def result_simps Let_def split: if_splits)

lemma distribute_coupon_book:
  assumes "distribute_coupon env a b i hs rid n fin st P = Ok (res, st', P')"
    and "overflow_checks env" and "coupon_typed (st, P)"
  shows "n = bk_nonces (book_of (st, P)) a \<and> bk_distribution a b i hs fin (book_of (st, P)) (book_of (st', P')) \<and>
    coupon_typed (st', P')"
proof -
  from assms(1) obtain st0 pid ct s subs p st1 P1 t st2 k
    where st0: "coupon_consume_nonce env a n st = Ok st0"
      and pend: "\<not> (case pget (cpn_period_info st0) (b, i) of Some info \<Rightarrow> pi_distributed info | None \<Rightarrow> False)"
      and ct: "cpn_bond_credit_type st0 b = Some ct"
      and beg: "(case pget (cpn_batch_state st0) (b, i) of
          Some s \<Rightarrow> and_then (resume_batch env b i rid s st0) (\<lambda>(s, subs, processed, st). Ok (s, subs, processed, st, P))
        | None \<Rightarrow> open_batch env b i rid pid ct st0 P) = Ok (s, subs, p, st1, P1)"
      and loop: "distribute_loop env b i ct s subs hs
          \<lparr>ty_total = 0, ty_carbon = 0, ty_bio = 0, ty_count = 0, ty_processed = p\<rparr> st1 = Ok (t, st2)"
      and fin: "(let s1 = s\<lparr>ba_distributed_so_far := ba_distributed_so_far s + ty_total t,
              ba_carbon_distributed_so_far := ba_carbon_distributed_so_far s + ty_carbon t,
              ba_bio_distributed_so_far := ba_bio_distributed_so_far s + ty_bio t, ba_holder_count_so_far := k\<rparr>;
            st3 = st2\<lparr>cpn_batch_state := coupon_write env (cpn_batch_state st2) (b, i) s1,
              cpn_distribution_balance := coupon_write env (cpn_distribution_balance st2) (b, i) (subs, ty_processed t)\<rparr>
          in if fin then close_period env b i rid s1 (ty_processed t) subs st3 P1 = Ok (res, st', P')
             else (st', P') = (st3, P1))"
    by (rule distribute_coupon_OkE)
  define s1 where "s1 = s\<lparr>ba_distributed_so_far := ba_distributed_so_far s + ty_total t,
      ba_carbon_distributed_so_far := ba_carbon_distributed_so_far s + ty_carbon t,
      ba_bio_distributed_so_far := ba_bio_distributed_so_far s + ty_bio t, ba_holder_count_so_far := k\<rparr>"
  define st3 where "st3 = st2\<lparr>cpn_batch_state := coupon_write env (cpn_batch_state st2) (b, i) s1,
      cpn_distribution_balance := coupon_write env (cpn_distribution_balance st2) (b, i) (subs, ty_processed t)\<rparr>"
  have fin': "if fin then close_period env b i rid s1 (ty_processed t) subs st3 P1 = Ok (res, st', P')
      else (st', P') = (st3, P1)" using fin unfolding Let_def s1_def st3_def .
  define B where "B = book_of (st, P)"
  from coupon_consume_nonce_Ok [OF st0, of P] have n: "n = bk_nonces B a" and B0: "bk_spend a B = book_of (st0, P)"
    unfolding B_def by simp_all
  have same: "bk_batches (bk_spend a B) = bk_batches B" "bk_progress (bk_spend a B) = bk_progress B"
    "bk_paid (bk_spend a B) = bk_paid B" by (simp_all add: bk_spend_def)
  note beg' = begin_batch_book [OF beg assms(2) typed_nonces [OF st0 assms(3)] B0, unfolded same]
  from batch_stored_book [OF loop assms(2) beg'[THEN conjunct2, THEN conjunct2], of "bk_spend a B", unfolded same,
      OF beg'[THEN conjunct2, THEN conjunct1] s1_def st3_def]
  obtain pays where pays: "pays = payable (\<lambda>h. bk_paid B (b, i, h)) hs"
    and pr: "ty_processed t = p + sum_list (map snd pays)" "pays \<noteq> [] \<longrightarrow> ty_processed t \<le> subs"
    and s1: "s1 = advance (\<Sum>p\<leftarrow>pays. carbon_share ct s (snd p)) (\<Sum>p\<leftarrow>pays. bio_share ct s (snd p)) k s"
    and B1: "book_of (st3, P1) = (fold (bk_pay b i ct s) pays (bk_spend a B))
      \<lparr>bk_batches := (bk_batches B)((b, i) \<mapsto> s1), bk_progress := (bk_progress B)((b, i) \<mapsto> (subs, ty_processed t))\<rparr>"
    and t3: "coupon_typed (st3, P1)" by blast
  have pend': "\<not> pi_distributed info" if "bk_periods B (b, i) = Some info" for info
    using pend that by (simp add: book_reads [where P = P] bk_spend_def B0 [symmetric])
  have ct': "bk_types B b = Some ct" using ct by (simp add: book_reads [where P = P] B0 [symmetric] bk_spend_def)
  obtain info where "coupon_typed (st', P') \<and> (if fin then ty_processed t = subs \<and> pi_distributed info \<and>
      pi_total_credits_earned info = ba_distributed_so_far s1 \<and>
      pi_undistributed info = ba_total_credits s1 - ba_distributed_so_far s1 \<and>
      book_of (st', P') = bk_close b i s1 info (book_of (st3, P1)) else book_of (st', P') = book_of (st3, P1))"
    using fin' t3 close_period_book [of env b i rid s1 "ty_processed t" subs st3 P1 res st' P']
    by (cases fin) auto
  with n beg'[THEN conjunct1] pays pr s1 B1 pend' ct' show ?thesis
    unfolding B_def [symmetric] bk_distribution_def by blast
qed

lemma distribute_coupon_step:
  assumes "distribute_coupon env a b i hs rid n fin st P = Ok (res, st', P')"
    and "overflow_checks env" and "coupon_typed (st, P)"
  shows "book_step (book_of (st, P)) (timestamp env, Some (a, n)) (book_of (st', P')) \<and> coupon_typed (st', P')"
  using distribute_coupon_book [OF assms] by (blast intro: book_step.b_distribute)

lemma register_bond_step:
  assumes "register_bond env a b h n st P = Ok (st', P')" and "coupon_typed (st, P)"
  shows "book_step (book_of (st, P)) (timestamp env, Some (a, n)) (book_of (st', P')) \<and> coupon_typed (st', P')"
proof -
  from assms(1) obtain st0 ia cfg P1 ra v
    where st0: "coupon_consume_nonce env a n st = Ok st0" and ia: "cpn_bond_issuer st0 = Some ia"
      and cfg: "invoke_get_bond env ia b P = Ok (cfg, P1)" and v: "invoke_status_by_hash env ra h P1 = Ok (v, P')"
      and st': "st' = coupon_publish (bond_registered b h) (st0\<lparr>cpn_bond_project := (cpn_bond_project st0)(b \<mapsto> h),
        cpn_bond_credit_type := (cpn_bond_credit_type st0)(b \<mapsto> bc_credit_type cfg)\<rparr>)"
    by (auto simp: register_bond_def result_simps Let_def split: if_splits)
  have read: "peers_read P P'"
    using invoke_get_bond_Ok [OF cfg] invoke_status_Ok [OF v] by (blast intro: peers_read_trans)
  note nonce = coupon_consume_nonce_Ok [OF st0, of P]
  from nonce ia have "cpn_bond_issuer st = Some ia" by (metis (no_types, lifting) coupon_engine.select_convs(2) coupon_engine.surjective coupon_engine.update_convs(15))
  with invoke_get_bond_Ok [OF cfg] have "bk_cfg (book_of (st, P)) b = Some (bc_credit_type cfg)"
    by (auto simp: book_of_def engine_issuer_def issuer_types_def)
  from book_step.b_register [OF conjunct1 [OF nonce] this, of "timestamp env" h]
  have "book_step (book_of (st, P)) (timestamp env, Some (a, n)) (book_of (st', P'))"
    unfolding peers_read_book [OF read] st' using nonce
    by (simp add: book_reads [where P = P] bk_spend_def)
  moreover have "coupon_typed (st', P)"
    unfolding st' using typed_nonces [OF st0 assms(2)] by (simp add: coupon_typed_def coupon_publish_def)
  ultimately show ?thesis using peers_read_typed [OF read] by blast
qed

lemma coupon_read_step:
  "st' = snd (accrued_credits env b h st) \<or> st' = snd (accrued_credits_by_type env b h c st) \<or>
   st' = snd (get_period_count env b st) \<or> st' = snd (get_undistributed_total env b st) \<or>
   st' = snd (get_undistributed_by_type env b c st) \<Longrightarrow>
     book_of (st', P) = book_of (st, P) \<and> (coupon_typed (st, P) \<longrightarrow> coupon_typed (st', P))"
  by (elim disjE) (simp_all add: accrued_credits_def accrued_credits_by_type_def get_period_count_def
      get_undistributed_total_def get_undistributed_by_type_def case_prod_unfold Let_def storage_simps
      book_reads [where P = P] coupon_typed_def)

lemma get_period_info_step:
  "get_period_info env b i st = Ok (info, st') \<Longrightarrow>
     book_of (st', P) = book_of (st, P) \<and> (coupon_typed (st, P) \<longrightarrow> coupon_typed (st', P))"
  by (auto simp: get_period_info_def result_simps case_prod_unfold Let_def storage_simps
      book_reads [where P = P] coupon_typed_def)

lemma deduct_credits_step:
  assumes "deduct_credits env b h x c st = Ok (v, st')" and "coupon_typed (st, P)" and "overflow_checks env"
  shows "book_step (book_of (st, P)) (timestamp env, None) (book_of (st', P)) \<and> coupon_typed (st', P)"
proof -
  let ?B = "book_of (st, P)" and ?k = "(b, h, storage_type c)"
  from assms(1,3) have x: "0 < x" "x \<le> bk_accrued ?B (b, h)" "x \<le> bk_bucket ?B ?k"
    and st': "st' = coupon_publish (credits_deducted b h x c)
      (st\<lparr>cpn_accrued := coupon_write env (cpn_accrued st) (b, h) (bk_accrued ?B (b, h) - x),
         cpn_accrued_by_type := coupon_write env (cpn_accrued_by_type st) ?k (bk_bucket ?B ?k - x)\<rparr>)"
    by (auto simp: deduct_credits_def result_simps Let_def book_reads [where P = P] dest!: arith_i128_exact split: if_splits)
  have "book_of (st', P) = bk_note (credits_deducted b h x c) (bk_credit b h (storage_type c) (- x) ?B)"
    unfolding st' using sum_write [OF sane_finite [OF typed_sane [OF assms(2)]], of "bk_accrued ?B (b, h) - x" b h "- x"]
    by (intro book.equality) (simp_all add: bk_credit_def bk_note_def storage_simps book_reads [where P = P])
  moreover have "fits_i128 (bk_accrued ?B (b, h) - x)"
    by (rule fits_i128_between [OF fits_i128_zero sane_fits [OF typed_sane [OF assms(2)], of P "(b, h)"]]) (use x in simp_all)
  with assms(2) have "coupon_typed (st', P)"
    unfolding st' by (simp add: coupon_typed_def coupon_publish_def storage_simps)
  ultimately show ?thesis using book_step.b_deduct [OF x] by simp
qed

lemma sweep_step:
  assumes "sweep_undistributed env a b d n st = Ok (rc, st')" and "coupon_typed (st, P)"
  shows "book_step (book_of (st, P)) (timestamp env, Some (a, n)) (book_of (st', P)) \<and> coupon_typed (st', P)"
proof -
  let ?B = "book_of (st, P)"
  define c where "c = bk_dust_by ?B (b, Carbon)" define y where "y = bk_dust_by ?B (b, Biodiversity)"
  from assms(1) obtain st0 where st0: "coupon_consume_nonce env a n st = Ok st0"
    by (auto simp: sweep_undistributed_def result_simps)
  note nonce = coupon_consume_nonce_Ok [OF st0, of P]
  then have reads: "unwrap_or (pget (cpn_undistributed_total st0) b) 0 = bk_dust ?B b"
    "unwrap_or (pget (cpn_undistributed_by_type st0) (b, Carbon)) 0 = c"
    "unwrap_or (pget (cpn_undistributed_by_type st0) (b, Biodiversity)) 0 = y"
    by (simp_all add: book_reads [where P = P] bk_spend_def c_def y_def)
  define st1 where "st1 = st0\<lparr>cpn_undistributed_total := coupon_write env (cpn_undistributed_total st0) b 0,
    cpn_undistributed_by_type := coupon_write env
      (coupon_write env (cpn_undistributed_by_type st0) (b, Carbon) 0) (b, Biodiversity) 0\<rparr>"
  have t1: "coupon_typed (st1, P)"
    using typed_nonces [OF st0 assms(2)] by (simp add: st1_def coupon_typed_def)
  have B1: "book_of (st1, P) = (bk_spend a ?B)\<lparr>bk_dust := (bk_dust ?B)(b := 0),
      bk_dust_by := (bk_dust_by ?B)((b, Carbon) := 0, (b, Biodiversity) := 0)\<rparr>"
    using nonce unfolding st1_def by (simp add: storage_simps book_reads [where P = P] bk_spend_def)
  from assms(1) have eq: "bk_dust ?B b = c + y"
    by (auto simp: sweep_undistributed_def result_simps Let_def st0 reads guarded_Ok)
  show ?thesis
  proof (cases "c + y = 0")
    case True
    with assms(1) st0 reads have "st' = st0" by (auto simp: sweep_undistributed_def result_simps Let_def split: if_splits)
    with nonce typed_nonces [OF st0 assms(2)] show ?thesis using book_step.b_other [of n ?B a] by simp
  next
    case False
    from assms(1) obtain st2 st3
      where st2: "(if 0 < c then accrue_credits env b d Carbon c st1 else Ok st1) = Ok st2"
        and st3: "(if 0 < y then accrue_credits env b d Biodiversity y st2 else Ok st2) = Ok st3"
        and st': "st' = coupon_publish (undistributed_swept b d (c + y) c y) st3"
      by (auto simp: sweep_undistributed_def result_simps Let_def st1_def [symmetric] st0 reads eq guarded_Ok False cong: if_cong)
    from st2 have 2: "book_of (st2, P) = bk_credit b d Carbon (max 0 c) (book_of (st1, P)) \<and> only_accrued st1 st2"
      using accrue_book [of env b d Carbon c st1 st2 P] typed_sane [OF t1]
      by (cases "0 < c") (auto intro: only_accrued_refl)
    from st3 have 3: "book_of (st3, P) = bk_credit b d Biodiversity (max 0 y) (book_of (st2, P)) \<and> only_accrued st2 st3"
      using accrue_book [of env b d Biodiversity y st2 st3 P] 2 only_accrued_sane [of st1 st2]
      by (cases "0 < y") (auto intro: only_accrued_refl)
    have "coupon_typed (st3, P)"
      using t1 2 3 only_accrued_trans [of st1 st2 st3] by (auto simp: only_accrued_def coupon_typed_def)
    then have "coupon_typed (st', P)" unfolding st' by (simp add: coupon_typed_def coupon_publish_def)
    with book_step.b_sweep [OF conjunct1 [OF nonce] c_def y_def eq False, of "timestamp env" d] show ?thesis
      unfolding st' using 2 3 B1 by simp
  qed
qed


lemma accrued_by_type_read:
  "accrued_credits_by_type env b h c st = (v, st') \<Longrightarrow> v = bk_bucket (book_of (st, P)) (b, h, storage_type c) \<and>
     book_of (st', P) = book_of (st, P) \<and> (coupon_typed (st, P) \<longrightarrow> coupon_typed (st', P))"
  using coupon_read_step [of st' env b h st c P]
  by (auto simp: accrued_credits_by_type_def Let_def storage_simps book_reads [where P = P] case_prod_unfold)

lemma claim_breakdown_Ok:
  assumes "claim_breakdown env b a ct x st = Ok (c, y, st1)" and "coupon_typed (st, P)" and "B = book_of (st, P)"
  shows "\<exists>k. ct = Some k \<and> claimable k (bk_bucket B (b, a, Carbon)) (bk_bucket B (b, a, Biodiversity)) x \<and>
    (k = Basket \<longrightarrow> c = bk_bucket B (b, a, Carbon) \<and> y = bk_bucket B (b, a, Biodiversity)) \<and>
    book_of (st1, P) = B \<and> coupon_typed (st1, P)"
proof -
  from assms(1) obtain k where k: "ct = Some k" by (cases ct) (simp_all add: claim_breakdown_def)
  obtain v1 s1 where 1: "accrued_credits_by_type env b a Carbon st = (v1, s1)" by fastforce
  obtain v2 s2 where 2: "accrued_credits_by_type env b a Biodiversity st = (v2, s2)" by fastforce
  obtain v3 s3 where 3: "accrued_credits_by_type env b a Biodiversity s1 = (v3, s3)" by fastforce
  show ?thesis
    using assms k accrued_by_type_read [OF 1, of P] accrued_by_type_read [OF 2, of P] accrued_by_type_read [OF 3, of P]
    by (cases k) (auto simp: claim_breakdown_def 1 2 3 result_simps storage_type_def split: if_splits)
qed

lemma clear_types_Ok:
  assumes "clear_types env b a (Some k) (st\<lparr>cpn_accrued := coupon_write env (cpn_accrued st) (b, a) 0\<rparr>) = Ok st'"
    and "coupon_typed (st, P)"
  shows "book_of (st', P) = bk_wipe b a k (book_of (st, P)) \<and> coupon_typed (st', P)"
proof -
  let ?B = "book_of (st, P)"
  have sum: "(\<lambda>b'. map_total ((pget (cpn_accrued st))((b, a) \<mapsto> 0)) (of_bond b')) =
      (bk_sum ?B)(b := bk_sum ?B b - bk_accrued ?B (b, a))"
    using sum_write [OF sane_finite [OF typed_sane [OF assms(2)]], of 0 b a "- bk_accrued ?B (b, a)"]
    by (simp add: book_reads [where P = P])
  from assms(1) obtain m where st': "st' = st\<lparr>cpn_accrued := coupon_write env (cpn_accrued st) (b, a) 0, cpn_accrued_by_type := m\<rparr>"
    and m: "amounts m = (\<lambda>i. if i = (b, a, Carbon) \<and> k \<noteq> Biodiversity \<or>
       i = (b, a, Biodiversity) \<and> k \<in> {Biodiversity, Basket} then 0 else bk_bucket ?B i)"
    by (cases k) (auto simp: clear_types_def clear_accrued_def fun_eq_iff book_reads [where P = P])
  have "book_of (st', P) = bk_wipe b a k ?B"
    unfolding st' by (intro book.equality) (simp_all add: bk_wipe_def m sum storage_simps book_reads [where P = P])
  moreover from assms(2) have "coupon_typed (st', P)" unfolding st' by (simp add: coupon_typed_def storage_simps)
  ultimately show ?thesis ..
qed

lemma claim_payout_book:
  assumes "(if 0 < x then and_then (claim_breakdown env b a ct x st) (\<lambda>(c, y, s).
        and_then (clear_types env b a ct (s\<lparr>cpn_accrued := coupon_write env (cpn_accrued s) (b, a) 0\<rparr>))
          (\<lambda>s. Ok (c, y, s))) else Ok (0, 0, st)) = Ok (c, y, st1)"
    and "coupon_typed (st, P)" and "B = book_of (st, P)"
  shows "coupon_typed (st1, P) \<and> (if 0 < x then \<exists>k. ct = Some k \<and>
        claimable k (bk_bucket B (b, a, Carbon)) (bk_bucket B (b, a, Biodiversity)) x \<and>
        book_of (st1, P) = bk_wipe b a k B else book_of (st1, P) = B) \<and>
    (ct = Some Basket \<longrightarrow> c = (if 0 < x then bk_bucket B (b, a, Carbon) else 0) \<and>
        y = (if 0 < x then bk_bucket B (b, a, Biodiversity) else 0))"
proof (cases "0 < x")
  case True
  with assms(1) obtain s where s: "claim_breakdown env b a ct x st = Ok (c, y, s)"
    and cl: "clear_types env b a ct (s\<lparr>cpn_accrued := coupon_write env (cpn_accrued s) (b, a) 0\<rparr>) = Ok st1"
    by (auto simp: result_simps)
  from claim_breakdown_Ok [OF s assms(2,3)] obtain k where k: "ct = Some k"
    "claimable k (bk_bucket B (b, a, Carbon)) (bk_bucket B (b, a, Biodiversity)) x"
    "k = Basket \<longrightarrow> c = bk_bucket B (b, a, Carbon) \<and> y = bk_bucket B (b, a, Biodiversity)"
    "book_of (s, P) = B" "coupon_typed (s, P)" by auto
  from clear_types_Ok [OF cl [unfolded k(1)] k(5)] k True show ?thesis by simp
next
  case False
  with assms show ?thesis by simp
qed

lemma typed_publish [simp]: "coupon_typed (coupon_publish e st, P) = coupon_typed (st, P)"
  by (simp add: coupon_typed_def coupon_publish_def)

lemma claim_credits_book:
  assumes "claim_credits env a b n st = Ok (v, st')" and "coupon_typed (st, P)" and "B = book_of (st, P)"
    and "x = bk_accrued B (b, a)"
  shows "n = bk_nonces B a \<and> coupon_typed (st', P) \<and>
    (\<exists>B1. (if 0 < x then \<exists>ct. bk_types B b = Some ct \<and>
          claimable ct (bk_bucket B (b, a, Carbon)) (bk_bucket B (b, a, Biodiversity)) x \<and> B1 = bk_wipe b a ct (bk_spend a B)
        else B1 = bk_spend a B) \<and>
      book_of (st', P) = bk_note (if bk_types B b = Some Basket
          then credits_claimed_by_type b a (if 0 < x then bk_bucket B (b, a, Carbon) else 0)
                 (if 0 < x then bk_bucket B (b, a, Biodiversity) else 0)
          else credits_claimed b a x) B1)"
proof -
  note x_def = assms(4)
  from assms(1) obtain st0 where st0: "coupon_consume_nonce env a n st = Ok st0"
    by (auto simp: claim_credits_def result_simps)
  note nonce = coupon_consume_nonce_Ok [OF st0, of P]
  then have B0: "bk_spend a B = book_of (st0, P)" by (simp add: assms(3))
  have reads: "unwrap_or (pget (cpn_accrued st0) (b, a)) 0 = x" "cpn_bond_credit_type st0 b = bk_types B b"
    and keep: "bk_bucket (bk_spend a B) = bk_bucket B"
    using nonce by (simp_all add: book_reads [where P = P] bk_spend_def x_def assms(3))
  from assms(1) obtain c y st1
    where st1: "(if 0 < x then and_then (claim_breakdown env b a (bk_types B b) x st0) (\<lambda>(c, y, s).
             and_then (clear_types env b a (bk_types B b) (s\<lparr>cpn_accrued := coupon_write env (cpn_accrued s) (b, a) 0\<rparr>))
               (\<lambda>s. Ok (c, y, s))) else Ok (0, 0, st0)) = Ok (c, y, st1)"
      and st': "st' = coupon_publish (if bk_types B b = Some Basket then credits_claimed_by_type b a c y
        else credits_claimed b a x) st1"
    by (auto simp: claim_credits_def result_simps Let_def st0 reads cong: if_cong)
  note p = claim_payout_book [OF st1 typed_nonces [OF st0 assms(2)] B0, unfolded keep]
  then have st'': "st' = coupon_publish (if bk_types B b = Some Basket
          then credits_claimed_by_type b a (if 0 < x then bk_bucket B (b, a, Carbon) else 0)
                 (if 0 < x then bk_bucket B (b, a, Biodiversity) else 0)
          else credits_claimed b a x) st1" unfolding st' by auto
  with p nonce show ?thesis
    unfolding st'' assms(3) [symmetric] by (intro conjI exI [of _ "book_of (st1, P)"]) (blast | simp only: book_of_upd typed_publish)+
qed

lemma claim_credits_step:
  assumes "claim_credits env a b n st = Ok (v, st')" and "coupon_typed (st, P)"
  shows "book_step (book_of (st, P)) (timestamp env, Some (a, n)) (book_of (st', P)) \<and> coupon_typed (st', P)"
  using claim_credits_book [OF assms refl refl] book_step.b_claim [OF _ refl _ refl] by metis

lemma register_deduct_caller_step:
  assumes "register_deduct_caller env a d n st = Ok st'" and "coupon_typed (st, P)"
  shows "book_step (book_of (st, P)) (timestamp env, Some (a, n)) (book_of (st', P)) \<and> coupon_typed (st', P)"
proof -
  from assms(1) obtain st0 where st0: "coupon_consume_nonce env a n st = Ok st0"
    and st': "st' = st0\<lparr>cpn_deduct_caller := Some d\<rparr>"
    by (auto simp: register_deduct_caller_def result_simps)
  from typed_nonces [OF st0 assms(2)] have "coupon_typed (st', P)" unfolding st' by (simp add: coupon_typed_def)
  with coupon_consume_nonce_Ok [OF st0, of P] book_step.b_other [of n "book_of (st, P)" a "timestamp env"]
  show ?thesis unfolding st' by simp
qed

text \<open>The peers between two calls: the bond issuer may issue a bond, and nothing else of it matters.\<close>

lemma ledger_step_configs:
  assumes "ledger_step L l L'"
  shows "(lg_configs L' = lg_configs L \<and> lg_count L' = lg_count L) \<or>
    (\<exists>cfg. lg_configs L' = (lg_configs L)(lg_count L + 1 \<mapsto> cfg) \<and> lg_count L' = lg_count L + 1)"
  using assms
  by (cases rule: ledger_step.cases)
    (auto simp: open_bond_def set_state_def credit_def enlist_def spend_def Let_def)

lemma engine_issuer_upd:
  "engine_issuer st (P\<lparr>issuers_at := (issuers_at P)(a \<mapsto> s)\<rparr>) =
     (if cpn_bond_issuer st = Some a then Some s else engine_issuer st P)"
  by (cases "cpn_bond_issuer st") (simp_all add: engine_issuer_def)

lemma book_of_peers:
  "book_of (st, P') = (book_of (st, P))\<lparr>bk_cfg := issuer_types (engine_issuer st P'), bk_issued := issuer_count (engine_issuer st P')\<rparr>"
  by (simp add: book_of_def)

lemma peer_issuer_step:
  assumes "issuers_at P a = Some s" and "issuer_step s l s'" and "P' = P\<lparr>issuers_at := (issuers_at P)(a \<mapsto> s')\<rparr>"
  shows "book_step (book_of (st, P)) (now, None) (book_of (st, P'))"
proof (cases "cpn_bond_issuer st = Some a")
  case True
  with assms have e: "engine_issuer st P = Some s" "engine_issuer st P' = Some s'"
    by (simp_all add: engine_issuer_def)
  from ledger_step_configs [OF issuer_step_ledger [OF assms(2)]] show ?thesis
  proof
    assume same: "lg_configs (ledger_of s') = lg_configs (ledger_of s) \<and> lg_count (ledger_of s') = lg_count (ledger_of s)"
    have "book_of (st, P') = book_of (st, P)"
      using same by (simp add: book_of_def e issuer_types_def issuer_count_def)
    then show ?thesis by (simp add: book_step.b_read)
  next
    assume "\<exists>cfg. lg_configs (ledger_of s') = (lg_configs (ledger_of s))(lg_count (ledger_of s) + 1 \<mapsto> cfg) \<and>
      lg_count (ledger_of s') = lg_count (ledger_of s) + 1"
    then obtain cfg where c: "lg_configs (ledger_of s') = (lg_configs (ledger_of s))(lg_count (ledger_of s) + 1 \<mapsto> cfg)"
      "lg_count (ledger_of s') = lg_count (ledger_of s) + 1" by blast
    have "issuer_types (Some s') = (issuer_types (Some s))(issuer_count (Some s) + 1 \<mapsto> bc_credit_type cfg)"
      "issuer_count (Some s') = issuer_count (Some s) + 1"
      using c by (auto simp: issuer_types_def issuer_count_def fun_eq_iff)
    moreover have "bk_cfg (book_of (st, P)) = issuer_types (Some s)" "bk_issued (book_of (st, P)) = issuer_count (Some s)"
      by (simp_all add: book_of_def e)
    ultimately have "book_of (st, P') = (book_of (st, P))\<lparr>bk_cfg := (bk_cfg (book_of (st, P)))
        (bk_issued (book_of (st, P)) + 1 \<mapsto> bc_credit_type cfg), bk_issued := bk_issued (book_of (st, P)) + 1\<rparr>"
      using book_of_peers [of st P' P] by (simp add: e)
    then show ?thesis by (simp add: book_step.b_issue)
  qed
next
  case False
  then have "book_of (st, P') = book_of (st, P)" unfolding assms(3) by (simp add: book_of_def engine_issuer_upd)
  then show ?thesis by (simp add: book_step.b_read)
qed

lemma coupon_step_book:
  assumes "coupon_step overflow_checks s l s'" and "coupon_typed s"
  shows "book_step (book_of s) l (book_of s') \<and> coupon_typed s'"
  using assms
proof (cases rule: coupon_step.cases)
  case (step_peer_issuer P a s l s' st now)
  with assms(2) peer_issuer_step [OF step_peer_issuer(4,5) refl, of st now] show ?thesis
    by (simp add: coupon_typed_def)
next
  case (step_peer_oracle P a s now l s' R' st)
  from sound_reports_step [OF step_peer_oracle(5)] assms(2) step_peer_oracle show ?thesis
    by (auto simp: coupon_typed_def book_of_def engine_issuer_def intro: book_step.b_read)
next
  case (step_peer_registry P a s now l s' st)
  with assms(2) show ?thesis
    by (auto simp: coupon_typed_def book_of_def engine_issuer_def intro: book_step.b_read)
next
  case (step_get_period_info env bond_id period_index st info st' P)
  with assms(2) get_period_info_step [OF step_get_period_info(4), of P] show ?thesis by (auto intro: book_step.b_read)
next
  case (step_coupon_read st' env b h st c P)
  with assms(2) coupon_read_step [OF step_coupon_read(4), of P] show ?thesis by (auto simp only: intro: book_step.b_read)
qed (use assms(2) in \<open>auto dest: register_bond_step distribute_coupon_step claim_credits_step sweep_step
  register_deduct_caller_step deduct_credits_step\<close>)


section \<open>Invariant of the book\<close>

text \<open>Rates never hand out more than there is.\<close>

lemma div_mult_le: "0 < d \<Longrightarrow> (x div d) * d \<le> (x :: int)"
  using pos_mod_sign [of d x] minus_mod_eq_div_mult [of x d] by linarith

lemma rate_bound: "0 \<le> x \<Longrightarrow> rate x subs * max 0 subs \<le> x * FIXED_POINT"
proof (cases "0 < subs \<and> 0 < x")
  case True
  then show ?thesis
    using div_mult_le [of subs "x * FIXED_POINT"] by (simp add: rate_def max_def)
qed (auto simp: rate_def FIXED_POINT_def)

lemma rate_zero [simp]: "rate 0 subs = 0"
  by (simp add: rate_def)

lemma batch_ok_fresh: "0 \<le> c \<Longrightarrow> 0 \<le> y \<Longrightarrow> fits_type ct c y \<Longrightarrow> batch_ok ct (fresh_batch rid c y subs) subs 0"
  by (simp add: batch_ok_def fresh_batch_def)

lemma batch_shares:
  assumes "batch_ok ct s subs p"
  shows "carbon_share ct s x = (ba_carbon_per_token s * x) div FIXED_POINT"
    and "bio_share ct s x = (ba_biodiversity_per_token s * x) div FIXED_POINT"
  using assms by (cases ct; simp add: batch_ok_def carbon_share_def bio_share_def)+

lemma sum_shares_bound:
  assumes "0 < d"
  shows "(\<Sum>p\<leftarrow>ps. r * snd p div d) * d \<le> r * sum_list (map snd ps :: int list)"
proof (induction ps)
  case (Cons p ps)
  have "(r * snd p div d) * d \<le> r * snd p" using assms by (rule div_mult_le)
  with Cons show ?case by (simp add: algebra_simps)
qed simp

lemma sum_shares_nonneg:
  "0 \<le> r \<Longrightarrow> 0 < d \<Longrightarrow> (\<And>p. p \<in> set ps \<Longrightarrow> 0 < snd p) \<Longrightarrow> 0 \<le> (\<Sum>p\<leftarrow>ps. r * snd p div (d :: int))"
  by (intro sum_list_nonneg) (fastforce simp: pos_imp_zdiv_nonneg_iff)

lemma scaled_add: "d * f \<le> r * p \<Longrightarrow> x * f \<le> r * (q - p) \<Longrightarrow> (d + x) * f \<le> r * (q :: int)"
  by (simp add: algebra_simps)

lemma batch_ok_advance:
  assumes "batch_ok ct s subs p" and "\<And>x. x \<in> set pays \<Longrightarrow> 0 < snd x" and "q = p + sum_list (map snd pays)"
    and "pays \<noteq> [] \<longrightarrow> q \<le> subs"
  shows "batch_ok ct (advance (\<Sum>p\<leftarrow>pays. carbon_share ct s (snd p)) (\<Sum>p\<leftarrow>pays. bio_share ct s (snd p)) k s) subs q"
proof -
  have r: "0 \<le> ba_carbon_per_token s" "0 \<le> ba_biodiversity_per_token s"
    using assms(1) by (simp_all add: batch_ok_def rate_nonneg)
  have q: "0 \<le> sum_list (map snd pays)" using assms(2) by (intro sum_list_nonneg) fastforce
  have "q \<le> max 0 subs" using assms(1,3,4) by (cases "pays = []") (simp_all add: batch_ok_def)
  moreover define c y where "c = (\<Sum>p\<leftarrow>pays. carbon_share ct s (snd p))" and "y = (\<Sum>p\<leftarrow>pays. bio_share ct s (snd p))"
  moreover have "0 \<le> c" "0 \<le> y"
    unfolding c_def y_def batch_shares [OF assms(1)] using assms(2) r by (auto intro: sum_shares_nonneg)
  moreover have "c * FIXED_POINT \<le> ba_carbon_per_token s * (q - p)" "y * FIXED_POINT \<le> ba_biodiversity_per_token s * (q - p)"
    unfolding c_def y_def batch_shares [OF assms(1)] assms(3) using sum_shares_bound [OF FIXED_POINT_pos] by simp_all
  then have "(ba_carbon_distributed_so_far s + c) * FIXED_POINT \<le> ba_carbon_per_token s * q"
    "(ba_bio_distributed_so_far s + y) * FIXED_POINT \<le> ba_biodiversity_per_token s * q"
    using assms(1) by (auto simp: batch_ok_def intro: scaled_add)
  moreover have "0 \<le> q" using assms(1,3) q by (simp add: batch_ok_def)
  ultimately show ?thesis
    unfolding c_def [symmetric] y_def [symmetric] using assms(1) by (simp add: batch_ok_def advance_def)
qed

text \<open>A batch never distributes more than its report earned.\<close>

lemma batch_within:
  assumes "batch_ok ct s subs p"
  shows "ba_carbon_distributed_so_far s \<le> ba_carbon_total s \<and> ba_bio_distributed_so_far s \<le> ba_biodiversity_total s \<and>
    ba_distributed_so_far s \<le> ba_total_credits s \<and>
    fits_type ct (ba_carbon_total s - ba_carbon_distributed_so_far s) (ba_biodiversity_total s - ba_bio_distributed_so_far s)"
proof -
  note ok = assms [unfolded batch_ok_def]
  have le: "d \<le> x" if "0 \<le> x" and "d * FIXED_POINT \<le> rate x subs * p" for d x
  proof -
    have "rate x subs * p \<le> rate x subs * max 0 subs" using ok rate_nonneg by (intro mult_left_mono) simp_all
    with rate_bound [OF that(1), of subs] that(2) have "d * FIXED_POINT \<le> x * FIXED_POINT" by linarith
    then show ?thesis by simp
  qed
  have "ba_carbon_distributed_so_far s \<le> ba_carbon_total s" "ba_bio_distributed_so_far s \<le> ba_biodiversity_total s"
    using ok by (auto intro: le)
  moreover from this ok have "fits_type ct (ba_carbon_total s - ba_carbon_distributed_so_far s)
      (ba_biodiversity_total s - ba_bio_distributed_so_far s)" by (cases ct) auto
  ultimately show ?thesis using ok by auto
qed


text \<open>Crediting and paying keep the buckets in order.\<close>

lemma credit_split:
  "bk_split B \<Longrightarrow> c = Carbon \<or> c = Biodiversity \<Longrightarrow> 0 \<le> bk_bucket B (b, h, c) + x \<Longrightarrow> bk_split (bk_credit b h c x B)"
  by (auto simp: bk_split_def bk_credit_def)

lemma credit_split_nonneg:
  "bk_split B \<Longrightarrow> c = Carbon \<or> c = Biodiversity \<Longrightarrow> 0 \<le> x \<Longrightarrow> bk_split (bk_credit b h c x B)"
  by (rule credit_split) (auto simp: bk_split_def)

lemma credit_kinds:
  assumes "bk_kinds B" and "bk_types B b = Some ct" and "holds_kind ct c \<or> x = 0"
  shows "bk_kinds (bk_credit b h c x B)"
proof -
  from assms(1,2) have "fits_type ct (bk_bucket B (b, h, Carbon)) (bk_bucket B (b, h, Biodiversity))"
    by (metis bk_kinds_def kind_ok.simps(2))
  with assms show ?thesis by (cases ct) (auto simp: bk_kinds_def bk_credit_def)
qed

lemma share_kinds: "holds_kind ct Carbon \<or> carbon_share ct s x = 0" "holds_kind ct Biodiversity \<or> bio_share ct s x = 0"
  by (cases ct; simp add: carbon_share_def bio_share_def)+

lemma bk_credit_fields [simp]:
  "bk_types (bk_credit b h c x B) = bk_types B" "bk_batches (bk_credit b h c x B) = bk_batches B"
  "bk_progress (bk_credit b h c x B) = bk_progress B" "bk_periods (bk_credit b h c x B) = bk_periods B"
  "bk_dust (bk_credit b h c x B) = bk_dust B" "bk_dust_by (bk_credit b h c x B) = bk_dust_by B"
  "bk_log (bk_credit b h c x B) = bk_log B" "bk_cfg (bk_credit b h c x B) = bk_cfg B"
  "bk_issued (bk_credit b h c x B) = bk_issued B" "bk_sum (bk_credit b h c x B) = (bk_sum B)(b := bk_sum B b + x)"
  by (simp_all add: bk_credit_def)

lemma fields_agree:
  "bk_split (B\<lparr>bk_nonces := f0\<rparr>) = bk_split B" "bk_kinds (B\<lparr>bk_nonces := f0\<rparr>) = bk_kinds B"
  "bk_split (B\<lparr>bk_paid := f1\<rparr>) = bk_split B" "bk_kinds (B\<lparr>bk_paid := f1\<rparr>) = bk_kinds B"
  "bk_split (B\<lparr>bk_batches := f2\<rparr>) = bk_split B" "bk_kinds (B\<lparr>bk_batches := f2\<rparr>) = bk_kinds B"
  "bk_split (B\<lparr>bk_progress := f3\<rparr>) = bk_split B" "bk_kinds (B\<lparr>bk_progress := f3\<rparr>) = bk_kinds B"
  "bk_split (B\<lparr>bk_periods := f4\<rparr>) = bk_split B" "bk_kinds (B\<lparr>bk_periods := f4\<rparr>) = bk_kinds B"
  "bk_split (B\<lparr>bk_log := f5\<rparr>) = bk_split B" "bk_kinds (B\<lparr>bk_log := f5\<rparr>) = bk_kinds B"
  "bk_split (B\<lparr>bk_dust := f6\<rparr>) = bk_split B" "bk_kinds (B\<lparr>bk_dust := f6\<rparr>) = bk_kinds B"
  "bk_split (B\<lparr>bk_dust_by := f7\<rparr>) = bk_split B"
  "bk_split (B\<lparr>bk_types := f8\<rparr>) = bk_split B"
  "bk_split (B\<lparr>bk_cfg := f9, bk_issued := k\<rparr>) = bk_split B" "bk_kinds (B\<lparr>bk_cfg := f9, bk_issued := k\<rparr>) = bk_kinds B"
  by (simp_all add: bk_split_def bk_kinds_def)

lemma pay_keeps:
  assumes "bk_split B" and "bk_kinds B" and "bk_types B b = Some ct" and "batch_ok ct s subs p" and "0 < snd hx"
  shows "bk_split (bk_pay b i ct s hx B) \<and> bk_kinds (bk_pay b i ct s hx B)"
proof -
  from assms(4) have "0 \<le> ba_carbon_per_token s" "0 \<le> ba_biodiversity_per_token s"
    by (simp_all add: batch_ok_def rate_nonneg)
  with assms(5) have pos: "0 \<le> carbon_share ct s (snd hx)" "0 \<le> bio_share ct s (snd hx)"
    by (simp_all add: batch_shares [OF assms(4)] pos_imp_zdiv_nonneg_iff)
  let ?B1 = "bk_credit b (fst hx) Carbon (carbon_share ct s (snd hx)) B"
  have "bk_split (bk_credit b (fst hx) Biodiversity (bio_share ct s (snd hx)) ?B1)"
    using assms(1) pos by (simp add: credit_split_nonneg)
  moreover have "bk_kinds (bk_credit b (fst hx) Biodiversity (bio_share ct s (snd hx)) ?B1)"
    using assms(2,3) share_kinds [of ct s "snd hx"] by (auto intro!: credit_kinds [where ct = ct])
  ultimately show ?thesis by (simp add: bk_pay_def fields_agree)
qed

lemma fold_pay_inv:
  assumes "bk_split B" and "bk_kinds B" and "bk_types B b = Some ct" and "batch_ok ct s subs p"
    and "\<And>x. x \<in> set pays \<Longrightarrow> 0 < snd x"
  shows "bk_split (fold (bk_pay b i ct s) pays B) \<and> bk_kinds (fold (bk_pay b i ct s) pays B) \<and>
    bk_sum (fold (bk_pay b i ct s) pays B) = (bk_sum B)(b := bk_sum B b +
      ((\<Sum>p\<leftarrow>pays. carbon_share ct s (snd p)) + (\<Sum>p\<leftarrow>pays. bio_share ct s (snd p))))"
  using assms(1-3,5)
proof (induction pays arbitrary: B)
  case (Cons hx pays)
  let ?B1 = "bk_pay b i ct s hx B"
  have "bk_split ?B1 \<and> bk_kinds ?B1" using Cons.prems by (intro pay_keeps [OF _ _ _ assms(4)]) simp_all
  moreover have "bk_types ?B1 b = Some ct" using Cons.prems by (simp add: bk_pay_def)
  moreover have "bk_sum ?B1 = (bk_sum B)(b := bk_sum B b + (carbon_share ct s (snd hx) + bio_share ct s (snd hx)))"
    by (simp add: bk_pay_def add.assoc)
  ultimately show ?case using Cons.IH [of ?B1] Cons.prems(4) by (simp add: fun_eq_iff ac_simps)
qed simp

text \<open>Sums over the open batches and the settled periods.\<close>

lemma map_total_mapped_upd:
  assumes "finite (dom m)"
  shows "map_total (\<lambda>k. map_option f ((m(k' \<mapsto> v)) k)) P =
    map_total (\<lambda>k. map_option f (m k)) P + (if P k' then f v - unwrap_or (map_option f (m k')) 0 else 0)"
proof -
  have "(\<lambda>k. map_option f ((m(k' \<mapsto> v)) k)) = (\<lambda>k. map_option f (m k))(k' \<mapsto> f v)" by auto
  moreover have "finite (dom (\<lambda>k. map_option f (m k)))" using assms by (simp add: dom_def)
  ultimately show ?thesis by (simp add: map_total_upd)
qed

lemma map_total_mapped_del:
  assumes "finite (dom m)"
  shows "map_total (\<lambda>k. map_option f ((m(k' := None)) k)) P =
    map_total (\<lambda>k. map_option f (m k)) P - (if P k' then unwrap_or (map_option f (m k')) 0 else 0)"
proof -
  let ?m = "\<lambda>k. map_option f ((m(k' := None)) k)"
  have fin: "finite (dom ?m)" using assms by (auto intro: finite_subset [of _ "dom m"] split: if_splits)
  show ?thesis
  proof (cases "m k'")
    case (Some v)
    then have "(\<lambda>k. map_option f (m k)) = ?m(k' \<mapsto> f v)" by (auto simp: fun_eq_iff)
    with map_total_upd [OF fin, of k' "f v" P] Some show ?thesis by simp
  next
    case None
    then have "?m = (\<lambda>k. map_option f (m k))" by (auto simp: fun_eq_iff)
    with None show ?thesis by simp
  qed
qed

lemma in_flight_upd:
  "finite (dom m) \<Longrightarrow> in_flight (m((b, i) \<mapsto> s)) b' = in_flight m b' +
     (if b' = b then ba_distributed_so_far s - unwrap_or (map_option ba_distributed_so_far (m (b, i))) 0 else 0)"
  by (simp add: in_flight_def map_total_mapped_upd of_bond_def del: fun_upd_apply)

lemma in_flight_del:
  "finite (dom m) \<Longrightarrow> in_flight (m((b, i) := None)) b' = in_flight m b' -
     (if b' = b then unwrap_or (map_option ba_distributed_so_far (m (b, i))) 0 else 0)"
  by (simp add: in_flight_def map_total_mapped_del of_bond_def del: fun_upd_apply)

lemma left_over_upd:
  "finite (dom m) \<Longrightarrow> left_over (m((b, i) \<mapsto> info)) b' = left_over m b' +
     (if b' = b then pi_undistributed info - unwrap_or (map_option pi_undistributed (m (b, i))) 0 else 0)"
  by (simp add: left_over_def map_total_mapped_upd of_bond_def del: fun_upd_apply)


text \<open>Every step keeps the invariant.\<close>

lemma book_invD:
  assumes "book_inv n B"
  shows "bk_ids n B" "bk_split B" "bk_kinds B" "bk_dusts B" "bk_batch B" "bk_closed B" "bk_sums B"
  using assms by (simp_all add: book_inv_def)

lemma book_inv_mono: "book_inv n B \<Longrightarrow> book_inv (Suc n) B"
  by (auto simp: book_inv_def bk_ids_def)

lemma book_inv_spend [simp]: "book_inv n (bk_spend a B) = book_inv n B"
  by (simp add: book_inv_def bk_ids_def bk_split_def bk_kinds_def bk_dusts_def bk_batch_def bk_closed_def bk_sums_def
      bk_spend_def)

lemma bk_spend_fields [simp]:
  "bk_types (bk_spend a B) = bk_types B" "bk_batches (bk_spend a B) = bk_batches B"
  "bk_progress (bk_spend a B) = bk_progress B" "bk_periods (bk_spend a B) = bk_periods B"
  "bk_dust (bk_spend a B) = bk_dust B" "bk_dust_by (bk_spend a B) = bk_dust_by B"
  "bk_bucket (bk_spend a B) = bk_bucket B" "bk_accrued (bk_spend a B) = bk_accrued B"
  "bk_sum (bk_spend a B) = bk_sum B" "bk_cfg (bk_spend a B) = bk_cfg B" "bk_issued (bk_spend a B) = bk_issued B"
  by (simp_all add: bk_spend_def)

lemma fresh_batch_start [simp]: "ba_distributed_so_far (fresh_batch rid c y subs) = 0"
  by (simp add: fresh_batch_def)

lemma kindsD:
  "bk_kinds B \<Longrightarrow> bk_types B b = Some ct \<Longrightarrow> fits_type ct (bk_bucket B (b, h, Carbon)) (bk_bucket B (b, h, Biodiversity))"
  "bk_kinds B \<Longrightarrow> bk_types B b = Some ct \<Longrightarrow> fits_type ct (bk_dust_by B (b, Carbon)) (bk_dust_by B (b, Biodiversity))"
  by (metis bk_kinds_def kind_ok.simps(2))+

lemma fits_type_add: "fits_type ct c y \<Longrightarrow> fits_type ct c' y' \<Longrightarrow> fits_type ct (c + c') (y + y')"
  by (cases ct) simp_all

lemma distribute_begins:
  assumes "book_inv n B" and "bk_types B b = Some ct"
    and "case bk_batches B (b, i) of
        Some s' \<Rightarrow> s = s' \<and> bk_progress B (b, i) = Some (subs, p)
      | None \<Rightarrow> (\<exists>rid c y. 0 \<le> c \<and> 0 \<le> y \<and> fits_type ct c y \<and> s = fresh_batch rid c y subs) \<and> p = 0"
  shows "batch_ok ct s subs p \<and> ba_distributed_so_far s = unwrap_or (map_option ba_distributed_so_far (bk_batches B (b, i))) 0"
proof (cases "bk_batches B (b, i)")
  case None
  with assms(3) show ?thesis by (auto intro: batch_ok_fresh)
next
  case (Some s')
  with book_invD(5) [OF assms(1)] obtain ct' subs' p'
    where "bk_types B b = Some ct'" "bk_progress B (b, i) = Some (subs', p')" "batch_ok ct' s' subs' p'"
    by (force simp: bk_batch_def)
  with Some assms(2,3) show ?thesis by simp
qed

lemma distribute_inv:
  assumes "book_inv n B" and "bk_types B b = Some ct" and "batch_ok ct s subs p"
    and "ba_distributed_so_far s = unwrap_or (map_option ba_distributed_so_far (bk_batches B (b, i))) 0"
    and "\<And>x. x \<in> set pays \<Longrightarrow> 0 < snd x" and "batch_ok ct s1 subs q"
    and "s1 = advance (\<Sum>p\<leftarrow>pays. carbon_share ct s (snd p)) (\<Sum>p\<leftarrow>pays. bio_share ct s (snd p)) k s"
    and "B1 = (fold (bk_pay b i ct s) pays B)
      \<lparr>bk_batches := (bk_batches B)((b, i) \<mapsto> s1), bk_progress := (bk_progress B)((b, i) \<mapsto> (subs, q))\<rparr>"
  shows "book_inv n B1"
proof -
  note inv = book_invD [OF assms(1)]
  note pays = fold_pay_inv [OF inv(2,3) assms(2,3,5), where i = i]
  have fin: "finite (dom (bk_batches B))" using inv(5) by (simp add: bk_batch_def)
  have "bk_ids n B1" "bk_dusts B1" "bk_closed B1"
    using inv by (simp_all add: assms(8) bk_ids_def bk_dusts_def bk_closed_def fold_pay_keeps)
  moreover have "bk_split B1" "bk_kinds B1" using pays by (simp_all add: assms(8) fields_agree)
  moreover have "bk_batch B1"
    using inv(5) assms(2,6) by (auto simp: assms(8) bk_batch_def fold_pay_keeps)
  moreover have "bk_sums B1"
    using inv(7) pays assms(4)
    by (auto simp: assms(7,8) bk_sums_def fold_pay_keeps in_flight_upd [OF fin] advance_def)
  ultimately show ?thesis by (simp add: book_inv_def)
qed

lemma close_inv:
  assumes "book_inv n B" and "bk_types B b = Some ct" and "batch_ok ct s subs p" and "bk_batches B (b, i) = Some s"
    and "bk_periods B (b, i) = None" and "pi_distributed info" and "pi_total_credits_earned info = ba_distributed_so_far s"
    and "pi_undistributed info = ba_total_credits s - ba_distributed_so_far s"
  shows "book_inv n (bk_close b i s info B)"
proof -
  note inv = book_invD [OF assms(1)]
  note w = batch_within [OF assms(3)]
  have s: "ba_total_credits s = ba_carbon_total s + ba_biodiversity_total s"
    "ba_distributed_so_far s = ba_carbon_distributed_so_far s + ba_bio_distributed_so_far s" "0 \<le> ba_distributed_so_far s"
    using assms(3) by (simp_all add: batch_ok_def)
  let ?B = "bk_close b i s info B"
  have "bk_ids n ?B" "bk_split ?B"
    using inv by (simp_all add: bk_ids_def bk_split_def bk_close_def bk_note_def)
  moreover have "bk_kinds ?B"
    using inv(3) assms(2) w fits_type_add [OF kindsD(2) [OF inv(3) assms(2)]]
    by (simp add: bk_kinds_def bk_close_def bk_note_def)
  moreover have "bk_dusts ?B" using inv(4) w s by (simp add: bk_dusts_def bk_close_def bk_note_def)
  moreover have "bk_batch ?B" using inv(5) by (auto simp: bk_batch_def bk_close_def bk_note_def)
  moreover have "bk_closed ?B" using inv(6) w s assms(6-8) by (auto simp: bk_closed_def bk_close_def bk_note_def)
  moreover have "bk_sums ?B"
    using inv(5-7) assms(4,5,8) w
    by (auto simp: bk_sums_def bk_close_def bk_note_def bk_batch_def bk_closed_def in_flight_del left_over_upd)
  ultimately show ?thesis by (simp add: book_inv_def)
qed


lemma bk_note_fields [simp]:
  "bk_types (bk_note e B) = bk_types B" "bk_log (bk_note e B) = bk_log B @ [e]"
  "bk_batches (bk_note e B) = bk_batches B" "bk_periods (bk_note e B) = bk_periods B"
  "bk_dust (bk_note e B) = bk_dust B" "bk_sum (bk_note e B) = bk_sum B"
  by (simp_all add: bk_note_def)

lemma note_parts [simp]:
  "bk_ids n (bk_note e B) = bk_ids n B" "bk_split (bk_note e B) = bk_split B" "bk_kinds (bk_note e B) = bk_kinds B"
  "bk_dusts (bk_note e B) = bk_dusts B" "bk_batch (bk_note e B) = bk_batch B" "bk_closed (bk_note e B) = bk_closed B"
  by (simp_all add: bk_note_def bk_ids_def bk_split_def bk_kinds_def bk_dusts_def bk_batch_def bk_closed_def)

lemma credit_parts [simp]:
  "bk_ids n (bk_credit b h c x B) = bk_ids n B" "bk_dusts (bk_credit b h c x B) = bk_dusts B"
  "bk_batch (bk_credit b h c x B) = bk_batch B" "bk_closed (bk_credit b h c x B) = bk_closed B"
  by (simp_all add: bk_ids_def bk_dusts_def bk_batch_def bk_closed_def)

lemma zero_note_inv:
  "book_inv n B \<Longrightarrow> (\<And>b. credit_flow b e = 0 \<and> swept_flow b e = 0) \<Longrightarrow> book_inv n (bk_note e B)"
  by (simp add: book_inv_def bk_sums_def)

lemma register_inv:
  assumes "book_inv n B" and "bk_cfg B b = Some ct"
  shows "book_inv n (bk_note (bond_registered b h) (B\<lparr>bk_types := (bk_types B)(b \<mapsto> ct)\<rparr>))"
proof -
  note inv = book_invD [OF assms(1)]
  have old: "ct' = ct" if "bk_types B b = Some ct'" for ct'
    using inv(1) assms(2) that by (auto simp: bk_ids_def)
  have "bk_kinds (B\<lparr>bk_types := (bk_types B)(b \<mapsto> ct)\<rparr>)"
  proof (cases "bk_types B b")
    case None
    with inv(3) have z: "bk_bucket B (b, h, Carbon) = 0" "bk_bucket B (b, h, Biodiversity) = 0"
      "bk_dust_by B (b, Carbon) = 0" "bk_dust_by B (b, Biodiversity) = 0" for h
      unfolding bk_kinds_def by (metis kind_ok.simps(1))+
    have "fits_type ct 0 0" by (cases ct) simp_all
    with inv(3) z show ?thesis by (simp add: bk_kinds_def)
  next
    case (Some ct')
    with old have "B\<lparr>bk_types := (bk_types B)(b \<mapsto> ct)\<rparr> = B" by (simp add: fun_upd_idem)
    with inv(3) show ?thesis by simp
  qed
  moreover have "bk_batch (B\<lparr>bk_types := (bk_types B)(b \<mapsto> ct)\<rparr>)"
    using inv(5) old by (fastforce simp: bk_batch_def)
  moreover have "bk_ids n (B\<lparr>bk_types := (bk_types B)(b \<mapsto> ct)\<rparr>)" using inv(1) assms(2) by (auto simp: bk_ids_def)
  ultimately have "book_inv n (B\<lparr>bk_types := (bk_types B)(b \<mapsto> ct)\<rparr>)" using inv
    by (simp add: book_inv_def bk_split_def bk_dusts_def bk_closed_def bk_sums_def)
  then show ?thesis by (rule zero_note_inv) simp
qed

lemma issue_inv:
  assumes "book_inv n B" and "Suc n < 2 ^ 64"
  shows "book_inv (Suc n) (B\<lparr>bk_cfg := (bk_cfg B)(bk_issued B + 1 \<mapsto> ct), bk_issued := bk_issued B + 1\<rparr>)"
proof -
  note inv = book_invD [OF assms(1)]
  have ids: "unat (bk_issued B) \<le> n" "\<And>b. bk_cfg B b \<noteq> None \<Longrightarrow> 1 \<le> unat b \<and> unat b \<le> unat (bk_issued B)"
    "\<And>b ct. bk_types B b = Some ct \<Longrightarrow> bk_cfg B b = Some ct" using inv(1) by (auto simp: bk_ids_def)
  have u: "unat (bk_issued B + 1) = unat (bk_issued B) + 1"
    using ids(1) assms(2) by (intro unat_inc) simp
  have new: "bk_cfg B (bk_issued B + 1) = None" using ids(2) [of "bk_issued B + 1"] u by fastforce
  have "bk_ids (Suc n) (B\<lparr>bk_cfg := (bk_cfg B)(bk_issued B + 1 \<mapsto> ct), bk_issued := bk_issued B + 1\<rparr>)"
    unfolding bk_ids_def
  proof (intro conjI allI impI)
    fix b assume "bk_cfg (B\<lparr>bk_cfg := (bk_cfg B)(bk_issued B + 1 \<mapsto> ct), bk_issued := bk_issued B + 1\<rparr>) b \<noteq> None"
    then have "b = bk_issued B + 1 \<or> bk_cfg B b \<noteq> None" by (auto split: if_splits)
    with ids(2) [of b] u show "1 \<le> unat b"
      "unat b \<le> unat (bk_issued (B\<lparr>bk_cfg := (bk_cfg B)(bk_issued B + 1 \<mapsto> ct), bk_issued := bk_issued B + 1\<rparr>))"
      by auto
  qed (use ids u new in auto)
  with inv show ?thesis
    by (simp add: book_inv_def fields_agree bk_dusts_def bk_batch_def bk_closed_def bk_sums_def)
qed

lemma wipe_inv:
  assumes "book_inv n B" and "bk_types B b = Some ct" and "x = bk_accrued B (b, a)"
    and "claimable ct (bk_bucket B (b, a, Carbon)) (bk_bucket B (b, a, Biodiversity)) x"
    and "e = (if ct = Basket then credits_claimed_by_type b a (bk_bucket B (b, a, Carbon)) (bk_bucket B (b, a, Biodiversity))
      else credits_claimed b a x)"
  shows "book_inv n (bk_note e (bk_wipe b a ct B))"
proof -
  note inv = book_invD [OF assms(1)]
  have k: "fits_type ct (bk_bucket B (b, a, Carbon)) (bk_bucket B (b, a, Biodiversity))" by (rule kindsD [OF inv(3) assms(2)])
  have z: "bk_bucket (bk_wipe b a ct B) (b, a, c) = 0" if "c = Carbon \<or> c = Biodiversity" for c
    using k that by (cases ct) (auto simp: bk_wipe_def)
  have same: "bk_bucket (bk_wipe b a ct B) (b', h, c) = bk_bucket B (b', h, c)" if "(b', h) \<noteq> (b, a) \<or> c \<notin> {Carbon, Biodiversity}" for b' h c
    using that by (auto simp: bk_wipe_def)
  have acc: "bk_accrued (bk_wipe b a ct B) = (bk_accrued B)((b, a) := 0)" by (simp add: bk_wipe_def)
  have "bk_split (bk_wipe b a ct B)" unfolding bk_split_def
  proof (intro conjI allI)
    fix b' h show "bk_accrued (bk_wipe b a ct B) (b', h) =
        bk_bucket (bk_wipe b a ct B) (b', h, Carbon) + bk_bucket (bk_wipe b a ct B) (b', h, Biodiversity)"
      using inv(2) by (cases "(b', h) = (b, a)") (simp_all add: z same acc bk_split_def, blast)
  qed (use inv(2) in \<open>auto simp: bk_split_def bk_wipe_def\<close>)
  moreover have "bk_kinds (bk_wipe b a ct B)"
  proof -
    have "fits_type ct 0 0" by (cases ct) simp_all
    with inv(3) assms(2) z same have "kind_ok (bk_types B b') (bk_bucket (bk_wipe b a ct B) (b', h, Carbon))
        (bk_bucket (bk_wipe b a ct B) (b', h, Biodiversity))" for b' h
      by (cases "(b', h) = (b, a)") (auto simp: bk_kinds_def)
    with inv(3) show ?thesis by (simp add: bk_kinds_def bk_wipe_def)
  qed
  moreover have "credit_flow b' e = (if b' = b then - x else 0) \<and> swept_flow b' e = 0" for b'
    using assms(4,5) by auto
  then have "bk_sums (bk_note e (bk_wipe b a ct B))"
    using inv(7) assms(3) by (simp add: bk_sums_def bk_wipe_def)
  ultimately show ?thesis using inv
    by (simp add: book_inv_def) (simp add: bk_wipe_def bk_ids_def bk_dusts_def bk_batch_def bk_closed_def)
qed

lemma sweep_inv:
  assumes "book_inv n B" and "c = bk_dust_by B (b, Carbon)" and "y = bk_dust_by B (b, Biodiversity)" and "c + y \<noteq> 0"
  shows "book_inv n (bk_note (undistributed_swept b d (c + y) c y)
       (bk_credit b d Biodiversity (max 0 y) (bk_credit b d Carbon (max 0 c)
         (B\<lparr>bk_dust := (bk_dust B)(b := 0),
            bk_dust_by := (bk_dust_by B)((b, Carbon) := 0, (b, Biodiversity) := 0)\<rparr>))))"
proof -
  note inv = book_invD [OF assms(1)]
  let ?B = "B\<lparr>bk_dust := (bk_dust B)(b := 0), bk_dust_by := (bk_dust_by B)((b, Carbon) := 0, (b, Biodiversity) := 0)\<rparr>"
  from inv(4) assms(2,3) have pos: "0 \<le> c" "0 \<le> y" "bk_dust B b = c + y" by (simp_all add: bk_dusts_def)
  obtain ct where ct: "bk_types B b = Some ct"
    using inv(3) assms(2-4) by (cases "bk_types B b") (metis add.right_neutral bk_kinds_def kind_ok.simps(1), blast)
  with kindsD(2) [OF inv(3) ct] assms(2,3) have kind: "holds_kind ct Carbon \<or> max 0 c = 0" "holds_kind ct Biodiversity \<or> max 0 y = 0"
    by (cases ct; simp)+
  have "bk_kinds ?B" using inv(3) ct by (cases ct) (simp_all add: bk_kinds_def)
  with kind ct have "bk_kinds (bk_credit b d Biodiversity (max 0 y) (bk_credit b d Carbon (max 0 c) ?B))"
    by (intro credit_kinds [where ct = ct]) simp_all
  moreover have "bk_split (bk_credit b d Biodiversity (max 0 y) (bk_credit b d Carbon (max 0 c) ?B))"
    using inv(2) by (intro credit_split_nonneg) (simp_all add: fields_agree)
  moreover have "bk_dusts ?B" "bk_ids n ?B" "bk_batch ?B" "bk_closed ?B"
    using inv by (simp_all add: bk_dusts_def bk_ids_def bk_batch_def bk_closed_def)
  moreover have "bk_sums (bk_note (undistributed_swept b d (c + y) c y)
      (bk_credit b d Biodiversity (max 0 y) (bk_credit b d Carbon (max 0 c) ?B)))"
    using inv(7) pos by (auto simp: bk_sums_def)
  ultimately show ?thesis by (simp add: book_inv_def)
qed

lemma deduct_inv:
  assumes "book_inv n B" and "0 < x" and "x \<le> bk_bucket B (b, h, storage_type c)"
  shows "book_inv n (bk_note (credits_deducted b h x c) (bk_credit b h (storage_type c) (- x) B))"
proof -
  note inv = book_invD [OF assms(1)]
  have c: "storage_type c = Carbon \<or> storage_type c = Biodiversity"
    using inv(2) assms(2,3) by (cases c) (auto simp: bk_split_def storage_type_def)
  obtain ct where ct: "bk_types B b = Some ct"
    using inv(3) assms(2,3) c by (cases "bk_types B b") (metis bk_kinds_def kind_ok.simps(1) linorder_not_le, blast)
  have "holds_kind ct (storage_type c)"
    using kindsD(1) [OF inv(3) ct, of h] c assms(2,3) by (cases ct) auto
  with ct inv(3) have "bk_kinds (bk_credit b h (storage_type c) (- x) B)" by (intro credit_kinds [where ct = ct]) auto
  moreover have "bk_split (bk_credit b h (storage_type c) (- x) B)"
    using inv(2) c assms(3) by (intro credit_split) auto
  moreover have "bk_sums (bk_note (credits_deducted b h x c) (bk_credit b h (storage_type c) (- x) B))"
    using inv(7) by (auto simp: bk_sums_def)
  ultimately show ?thesis using inv by (simp add: book_inv_def)
qed

lemma distribute_step_inv:
  assumes "book_inv n B" and "bk_distribution a b i holders last_batch B B2"
  shows "book_inv n B2"
proof -
  from assms(2) obtain ct s subs done0 pays done1 k s1 B1 info where
    D: "\<forall>info. bk_periods B (b, i) = Some info \<longrightarrow> \<not> pi_distributed info" "bk_types B b = Some ct"
      "case bk_batches B (b, i) of
         Some s' \<Rightarrow> s = s' \<and> bk_progress B (b, i) = Some (subs, done0)
       | None \<Rightarrow> (\<exists>rid c y. 0 \<le> c \<and> 0 \<le> y \<and> fits_type ct c y \<and> s = fresh_batch rid c y subs) \<and> done0 = 0"
      "pays = payable (\<lambda>h. bk_paid B (b, i, h)) holders" "done1 = done0 + sum_list (map snd pays)"
      "pays \<noteq> [] \<longrightarrow> done1 \<le> subs"
      "s1 = advance (\<Sum>p\<leftarrow>pays. carbon_share ct s (snd p)) (\<Sum>p\<leftarrow>pays. bio_share ct s (snd p)) k s"
      "B1 = (fold (bk_pay b i ct s) pays (bk_spend a B))
        \<lparr>bk_batches := (bk_batches B)((b, i) \<mapsto> s1), bk_progress := (bk_progress B)((b, i) \<mapsto> (subs, done1))\<rparr>"
      "if last_batch then done1 = subs \<and> pi_distributed info \<and>
         pi_total_credits_earned info = ba_distributed_so_far s1 \<and>
         pi_undistributed info = ba_total_credits s1 - ba_distributed_so_far s1 \<and> B2 = bk_close b i s1 info B1
       else B2 = B1"
    unfolding bk_distribution_def by blast
  note ok = distribute_begins [OF assms(1) D(2,3)]
  have pos: "\<And>x. x \<in> set pays \<Longrightarrow> 0 < snd x" using payable_pos D(4) by blast
  have ok1: "batch_ok ct s1 subs done1" unfolding D(7)
    using ok by (intro batch_ok_advance [OF _ pos D(5,6)]) blast+
  have inv1: "book_inv n B1"
    using assms(1) D(2,8) ok pos ok1
    by (intro distribute_inv [of n "bk_spend a B" b ct s subs done0 i pays s1 done1 k B1])
      (simp_all add: D(7))
  show ?thesis
  proof (cases last_batch)
    case True
    have "bk_periods B (b, i) = None"
      using book_invD(6) [OF assms(1)] D(1) by (cases "bk_periods B (b, i)") (auto simp: bk_closed_def)
    with True D(2,9) ok1 inv1 show ?thesis
      using close_inv [of n B1 b ct s1 subs done1 i info] by (simp add: D(8) fold_pay_keeps)
  next
    case False
    with inv1 D(9) show ?thesis by simp
  qed
qed

lemma claim_step_inv:
  assumes "book_inv n B" and "x = bk_accrued B (b, a)"
    and "if 0 < x then \<exists>ct. bk_types B b = Some ct \<and>
          claimable ct (bk_bucket B (b, a, Carbon)) (bk_bucket B (b, a, Biodiversity)) x \<and> B1 = bk_wipe b a ct (bk_spend a B)
      else B1 = bk_spend a B"
    and "e = (if bk_types B b = Some Basket
          then credits_claimed_by_type b a (if 0 < x then bk_bucket B (b, a, Carbon) else 0)
                 (if 0 < x then bk_bucket B (b, a, Biodiversity) else 0)
          else credits_claimed b a x)"
  shows "book_inv n (bk_note e B1)"
proof (cases "0 < x")
  case True
  with assms obtain ct where "bk_types B b = Some ct" "claimable ct (bk_bucket B (b, a, Carbon)) (bk_bucket B (b, a, Biodiversity)) x"
    and B1: "B1 = bk_wipe b a ct (bk_spend a B)" by auto
  with True assms(1,2,4) show ?thesis
    unfolding B1 by (intro wipe_inv [of n "bk_spend a B" b ct x a e]) simp_all
next
  case False
  from book_invD(2) [OF assms(1)] assms(2) have "0 \<le> x" by (simp add: bk_split_def)
  with False have "x = 0" by simp
  with assms False show ?thesis by (auto intro: zero_note_inv)
qed

lemma book_inv_step:
  assumes "book_inv n B" and "book_step B l B'" and "Suc n < 2 ^ 64"
  shows "book_inv (Suc n) B'"
  using assms(2)
proof (cases rule: book_step.cases)
  case (b_distribute n' a b i holders last_batch now)
  from distribute_step_inv [OF assms(1) b_distribute(3)] show ?thesis by (intro book_inv_mono)
next
  case (b_issue now ct)
  with issue_inv [OF assms(1,3)] show ?thesis by simp
next
  case (b_claim n' a x b B1 e now)
  with claim_step_inv [OF assms(1) b_claim(4-6)] show ?thesis by (auto intro: book_inv_mono)
next
  case (b_sweep n' a c b y now d)
  with sweep_inv [of n "bk_spend a B" c b y d] assms(1) show ?thesis by (auto intro: book_inv_mono)
next
  case (b_register n' a b ct now h)
  with register_inv [of n "bk_spend a B" b ct h] assms(1) show ?thesis by (auto intro: book_inv_mono)
qed (use assms(1) in \<open>auto intro: book_inv_mono deduct_inv\<close>)


section \<open>Interpretations\<close>

interpretation coupon_book: simulated_machine "coupon_step overflow_checks" book_step book_of coupon_typed book_inv
  by unfold_locales (blast dest: coupon_step_book intro: book_inv_step)+

lemma book_step_nonce:
  assumes "book_step B l B'"
  shows "case snd l of None \<Rightarrow> bk_nonces B' = bk_nonces B
    | Some (a, n) \<Rightarrow> bk_nonces B a = n \<and> bk_nonces B' = (bk_nonces B)(a := n + 1)"
  using assms
proof (cases rule: book_step.cases)
  case (b_distribute n' a b i holders last_batch now)
  from b_distribute(3) have "bk_nonces B' = bk_nonces (bk_spend a B)"
    unfolding bk_distribution_def by (cases last_batch) (auto simp: fold_pay_keeps bk_close_def bk_note_def)
  with b_distribute show ?thesis by (simp add: bk_spend_def)
next
  case (b_claim n' a x b B1 e now)
  then show ?thesis by (auto simp: bk_spend_def bk_note_def bk_wipe_def split: if_splits)
qed (simp_all add: bk_spend_def bk_note_def bk_credit_def)

interpretation book_nonces: nonce_machine book_step snd bk_nonces
  by unfold_locales (auto dest!: book_step_nonce split: option.splits)

lemma coupon_start_typed: "coupon_start n s \<Longrightarrow> coupon_typed s"
  by (auto simp: coupon_start_def coupon_typed_def coupon_constructor_def sane_amounts_def storage_simps)

lemma coupon_start_inv:
  assumes "coupon_start n s"
  shows "book_inv n (book_of s)"
proof -
  obtain st P admin iss orc reg where s: "s = (st, P)" and st: "st = coupon_constructor admin iss orc reg"
    and ids: "\<forall>i. issuers_at P iss = Some i \<longrightarrow> inv_ids n (ledger_of i)"
    using assms by (cases s) (auto simp: coupon_start_def)
  have e: "engine_issuer st P = issuers_at P iss" by (simp add: engine_issuer_def st coupon_constructor_def)
  have "bk_ids n (book_of s)"
  proof (cases "issuers_at P iss")
    case None
    then show ?thesis by (simp add: s bk_ids_def book_of_def e issuer_types_def issuer_count_def)
      (simp add: st coupon_constructor_def)
  next
    case (Some i)
    with ids have "inv_ids n (ledger_of i)" by blast
    with Some show ?thesis by (simp add: s bk_ids_def book_of_def e issuer_types_def issuer_count_def inv_ids_def)
      (auto simp: st coupon_constructor_def)
  qed
  moreover have "bk_split (book_of s)" "bk_kinds (book_of s)" "bk_dusts (book_of s)" "bk_batch (book_of s)"
    "bk_closed (book_of s)" "bk_sums (book_of s)"
    by (simp_all add: s st book_of_def coupon_constructor_def bk_split_def bk_kinds_def bk_dusts_def bk_batch_def
        bk_closed_def bk_sums_def amounts_def storage_simps in_flight_def left_over_def)
  ultimately show ?thesis by (simp add: book_inv_def)
qed

lemma coupon_reachable:
  assumes "coupon_start n s0" and "run (coupon_step overflow_checks) s0 ls s" and "n + length ls < 2 ^ 64"
  shows "coupon_typed s" and "book_inv (n + length ls) (book_of s)"
  using coupon_book.conc.inv_run [OF assms(2) _ assms(3)] coupon_start_typed [OF assms(1)] coupon_start_inv [OF assms(1)]
  by blast+

section \<open>Properties\<close>

text \<open>
  C3. Every credit is accounted for. In every state the engine reaches, for every bond, the combined
  balances of all holders are the credits of the settled distributions and sweeps, less what was claimed
  and deducted, as the published events say, plus what the open batches have handed out so far; and the
  undistributed counter is what the settled periods left over, less what was swept.
\<close>

theorem coupon_books_balance:
  assumes "coupon_start n s0" and "run (coupon_step overflow_checks) s0 ls (st, P)" and "n + length ls < 2 ^ 64"
  shows "map_total (pget (cpn_accrued st)) (of_bond b) =
      (\<Sum>e\<leftarrow>cpn_events st. credit_flow b e) + in_flight (pget (cpn_batch_state st)) b \<and>
    unwrap_or (pget (cpn_undistributed_total st) b) 0 =
      left_over (pget (cpn_period_info st)) b - (\<Sum>e\<leftarrow>cpn_events st. swept_flow b e)"
  using book_invD(7) [OF coupon_reachable(2) [OF assms]]
  by (simp add: bk_sums_def book_reads [where P = P])

text \<open>
  C8. No report is overpaid, by kind of credit and in total: an open batch has distributed between
  nothing and what its report earned, a settled period left a non-negative remainder, and every balance
  of credits is the sum of its carbon and biodiversity buckets, neither of which is negative.
\<close>

theorem coupon_never_overpays:
  assumes "coupon_start n s0" and "run (coupon_step overflow_checks) s0 ls (st, P)" and "n + length ls < 2 ^ 64"
  shows "(\<forall>i s. pget (cpn_batch_state st) (b, i) = Some s \<longrightarrow>
      0 \<le> ba_carbon_distributed_so_far s \<and> ba_carbon_distributed_so_far s \<le> ba_carbon_total s \<and>
      0 \<le> ba_bio_distributed_so_far s \<and> ba_bio_distributed_so_far s \<le> ba_biodiversity_total s \<and>
      ba_distributed_so_far s = ba_carbon_distributed_so_far s + ba_bio_distributed_so_far s \<and>
      ba_distributed_so_far s \<le> ba_total_credits s) \<and>
    (\<forall>i info. pget (cpn_period_info st) (b, i) = Some info \<longrightarrow>
      0 \<le> pi_total_credits_earned info \<and> 0 \<le> pi_undistributed info) \<and>
    (\<forall>h. unwrap_or (pget (cpn_accrued st) (b, h)) 0 =
      unwrap_or (pget (cpn_accrued_by_type st) (b, h, Carbon)) 0 +
      unwrap_or (pget (cpn_accrued_by_type st) (b, h, Biodiversity)) 0) \<and>
    (\<forall>h c. 0 \<le> unwrap_or (pget (cpn_accrued_by_type st) (b, h, c)) 0)"
proof -
  note inv = book_invD [OF coupon_reachable(2) [OF assms]]
  have "0 \<le> ba_carbon_distributed_so_far s \<and> ba_carbon_distributed_so_far s \<le> ba_carbon_total s \<and>
      0 \<le> ba_bio_distributed_so_far s \<and> ba_bio_distributed_so_far s \<le> ba_biodiversity_total s \<and>
      ba_distributed_so_far s = ba_carbon_distributed_so_far s + ba_bio_distributed_so_far s \<and>
      ba_distributed_so_far s \<le> ba_total_credits s" if "bk_batches (book_of (st, P)) (b, i) = Some s" for i s
  proof -
    from inv(5) that obtain ct subs p where ok: "batch_ok ct s subs p" unfolding bk_batch_def by blast
    from batch_within [OF ok] ok show ?thesis unfolding batch_ok_def by blast
  qed
  with inv(2,6) show ?thesis unfolding bk_closed_def bk_split_def book_reads [where P = P] by blast
qed

lemma coupon_nonce_le:
  assumes "coupon_start n s0" and "run (coupon_step overflow_checks) s0 ls (st, P)" and "n + length ls < 2 ^ 64"
  shows "unat (coupon_get_nonce st a) \<le> length ls"
proof -
  have "run book_step (book_of s0) ls (book_of (st, P))"
    by (rule coupon_book.run_refines [OF assms(2) coupon_start_typed [OF assms(1)]])
  from book_nonces.run_nonce [OF this, of a] have "coupon_get_nonce st a = of_nat (calls_of a (map snd ls))"
    using assms(1) by (auto simp: book_of_def coupon_start_def coupon_constructor_def coupon_get_nonce_def storage_simps)
  moreover have "calls_of a (map snd ls) \<le> length ls" using calls_of_le [of a "map snd ls"] by simp
  ultimately show ?thesis
    using assms(3) by (simp add: unsigned_of_nat take_bit_nat_eq_self)
qed

lemma claim_breakdown_total:
  assumes "bk_types B b = Some ct" and "claimable ct (bk_bucket B (b, a, Carbon)) (bk_bucket B (b, a, Biodiversity)) x"
    and "fits_i128 x" and "B = book_of (st, P)"
  shows "\<exists>c y st'. claim_breakdown env b a (Some ct) x st = Ok (c, y, st')"
proof -
  obtain v1 s1 where 1: "accrued_credits_by_type env b a Carbon st = (v1, s1)" by fastforce
  obtain v2 s2 where 2: "accrued_credits_by_type env b a Biodiversity st = (v2, s2)" by fastforce
  obtain v3 s3 where 3: "accrued_credits_by_type env b a Biodiversity s1 = (v3, s3)" by fastforce
  show ?thesis
    using assms accrued_by_type_read [OF 1, of P] accrued_by_type_read [OF 2, of P] accrued_by_type_read [OF 3, of P]
    by (cases ct) (auto simp: claim_breakdown_def 1 2 3 storage_type_def ok_or_def checked_i128_def)
qed

lemma kinds_claimable:
  assumes "bk_split B" and "bk_kinds B" and "0 < bk_accrued B (b, a)"
  shows "\<exists>ct. bk_types B b = Some ct \<and>
    claimable ct (bk_bucket B (b, a, Carbon)) (bk_bucket B (b, a, Biodiversity)) (bk_accrued B (b, a))"
proof (cases "bk_types B b")
  case None
  with assms(2) have "bk_bucket B (b, a, Carbon) = 0 \<and> bk_bucket B (b, a, Biodiversity) = 0"
    unfolding bk_kinds_def by (metis kind_ok.simps(1))
  with assms(1,3) show ?thesis by (simp add: bk_split_def)
next
  case (Some ct)
  with kindsD(1) [OF assms(2) Some, of a] assms(1) show ?thesis by (cases ct) (simp_all add: bk_split_def)
qed

lemma claim_succeeds:
  assumes "coupon_typed (st, P)" and "book_inv n (book_of (st, P))" and "require_auth env a = (Ok () :: (CouponEngineError, unit) result)"
    and "unat (coupon_get_nonce st a) + 1 < 2 ^ 64"
  shows "\<exists>st'. claim_credits env a b (coupon_get_nonce st a) st = Ok (bk_accrued (book_of (st, P)) (b, a), st')"
proof -
  let ?n = "coupon_get_nonce st a" and ?B = "book_of (st, P)"
  obtain st0 where st0: "coupon_consume_nonce env a ?n st = Ok st0"
    using assms(4) by (simp add: coupon_consume_nonce_def Let_def add_word_def)
  note nonce = coupon_consume_nonce_Ok [OF st0, of P]
  have reads: "unwrap_or (pget (cpn_accrued st0) (b, a)) 0 = bk_accrued ?B (b, a)" "cpn_bond_credit_type st0 b = bk_types ?B b"
    using nonce by (simp_all add: book_reads [where P = P])
  show ?thesis
  proof (cases "0 < bk_accrued ?B (b, a)")
    case True
    from kinds_claimable [OF book_invD(2,3) [OF assms(2)] True] obtain ct where
      ct: "bk_types ?B b = Some ct" "claimable ct (bk_bucket ?B (b, a, Carbon)) (bk_bucket ?B (b, a, Biodiversity)) (bk_accrued ?B (b, a))"
      by blast
    with claim_breakdown_total [of "book_of (st0, P)" b ct a "bk_accrued ?B (b, a)" st0 P env] nonce
      sane_fits [OF typed_sane [OF assms(1)], of P "(b, a)"]
    obtain c y st1 where 1: "claim_breakdown env b a (Some ct) (bk_accrued ?B (b, a)) st0 = Ok (c, y, st1)" by auto
    obtain st2 where "clear_types env b a (Some ct) (st1\<lparr>cpn_accrued := coupon_write env (cpn_accrued st1) (b, a) 0\<rparr>) = Ok st2"
      by (cases ct) (simp_all add: clear_types_def)
    with 1 True ct assms(3) st0 reads show ?thesis by (simp add: claim_credits_def Let_def)
  next
    case False
    with assms(3) st0 reads show ?thesis by (simp add: claim_credits_def Let_def)
  qed
qed

lemma claim_clears:
  assumes "claim_credits env a b n st = Ok (v, st')" and "coupon_typed (st, P)" and "book_inv m (book_of (st, P))"
  shows "bk_accrued (book_of (st', P)) (b, a) = 0 \<and> (\<forall>c. bk_bucket (book_of (st', P)) (b, a, c) = 0)"
proof -
  let ?B = "book_of (st, P)" and ?x = "bk_accrued (book_of (st, P)) (b, a)"
  note inv = book_invD [OF assms(3)]
  from claim_credits_book [OF assms(1,2) refl refl] obtain B1 e where B1: "book_of (st', P) = bk_note e B1"
    "if 0 < ?x then \<exists>ct. bk_types ?B b = Some ct \<and>
        claimable ct (bk_bucket ?B (b, a, Carbon)) (bk_bucket ?B (b, a, Biodiversity)) ?x \<and> B1 = bk_wipe b a ct (bk_spend a ?B)
      else B1 = bk_spend a ?B" by blast
  have other: "bk_bucket ?B (b, a, Basket) = 0" "bk_bucket ?B (b, a, BlueCarbon) = 0" using inv(2) by (simp_all add: bk_split_def)
  have acc: "?x = bk_bucket ?B (b, a, Carbon) + bk_bucket ?B (b, a, Biodiversity)" "0 \<le> bk_bucket ?B (b, a, c)" for c
    using inv(2) by (simp_all add: bk_split_def)
  have "bk_accrued B1 (b, a) = 0 \<and> bk_bucket B1 (b, a, c) = 0" for c
  proof (cases "0 < ?x")
    case True
    with B1(2) obtain ct where "bk_types ?B b = Some ct" "B1 = bk_wipe b a ct (bk_spend a ?B)" by auto
    with kindsD(1) [OF inv(3), of b ct a] other show ?thesis by (cases ct; cases c) (auto simp: bk_wipe_def)
  next
    case False
    with acc(1) acc(2) [of Carbon] acc(2) [of Biodiversity] have "bk_bucket ?B (b, a, Carbon) = 0" "bk_bucket ?B (b, a, Biodiversity) = 0"
      by linarith+
    with False B1(2) acc(1) other show ?thesis by (cases c) auto
  qed
  with B1(1) show ?thesis by (simp add: bk_note_def)
qed

text \<open>
  C37. A holder can always claim: with its authorisation and its current nonce the call succeeds,
  whatever happened before, and returns exactly the accrued credits; afterwards the combined balance and
  both buckets are zero, so a second claim returns nothing.
\<close>

theorem coupon_claim_pays_all:
  assumes "coupon_start n s0" and "run (coupon_step overflow_checks) s0 ls (st, P)" and "n + length ls + 1 < 2 ^ 64"
    and "overflow_checks env" and "require_auth env a = (Ok () :: (CouponEngineError, unit) result)"
  shows "\<exists>st'. claim_credits env a b (coupon_get_nonce st a) st = Ok (unwrap_or (pget (cpn_accrued st) (b, a)) 0, st') \<and>
    unwrap_or (pget (cpn_accrued st') (b, a)) 0 = 0 \<and> (\<forall>c. unwrap_or (pget (cpn_accrued_by_type st') (b, a, c)) 0 = 0)"
proof -
  from assms(3) have len: "n + length ls < 2 ^ 64" by simp
  note reach = coupon_reachable [OF assms(1,2) len]
  have "unat (coupon_get_nonce st a) + 1 < 2 ^ 64" using coupon_nonce_le [OF assms(1,2) len, of a] assms(3) by simp
  from claim_succeeds [OF reach assms(5) this] obtain st'
    where st': "claim_credits env a b (coupon_get_nonce st a) st = Ok (bk_accrued (book_of (st, P)) (b, a), st')" by blast
  note zero = claim_clears [OF st' reach]
  have "unwrap_or (pget (cpn_accrued_by_type st') (b, a, c)) 0 = 0" for c
    using zero by (cases c) (auto simp: book_reads [where P = P])
  with st' zero show ?thesis by (simp add: book_reads [where P = P])
qed


lemma fold_pay_accrued:
  "bk_accrued (fold (bk_pay b i ct s) pays B) (b', h) = bk_accrued B (b', h) +
     (if b' = b then \<Sum>p\<leftarrow>filter (\<lambda>p. fst p = h) pays. carbon_share ct s (snd p) + bio_share ct s (snd p) else 0)"
proof (induction pays arbitrary: B)
  case (Cons p pays)
  have "bk_accrued (bk_pay b i ct s p B) (b', h) = bk_accrued B (b', h) +
      (if b' = b \<and> fst p = h then carbon_share ct s (snd p) + bio_share ct s (snd p) else 0)"
    by (auto simp: bk_pay_def bk_credit_def)
  with Cons show ?case by simp
qed simp

lemma fold_pay_paid:
  "bk_paid (fold (bk_pay b i ct s) pays B) k \<longleftrightarrow> bk_paid B k \<or> (\<exists>p\<in>set pays. k = (b, i, fst p))"
  by (induction pays arbitrary: B) (auto simp: bk_pay_def)

lemma payable_fresh: "p \<in> set (payable paid hs) \<Longrightarrow> \<not> paid (fst p)"
  by (induction paid hs rule: payable.induct) (auto split: if_splits)

lemma payable_distinct: "distinct (map fst (payable paid hs))"
  by (induction paid hs rule: payable.induct) (auto simp: fun_upd_def dest: payable_fresh)

lemma bk_distribution_pays:
  assumes "bk_distribution a b i holders last_batch B B2"
  shows "\<exists>ct s pays. bk_types B b = Some ct \<and> pays = payable (\<lambda>h. bk_paid B (b, i, h)) holders \<and>
    (case bk_batches B (b, i) of Some s' \<Rightarrow> s = s'
     | None \<Rightarrow> \<exists>r c y subs. 0 \<le> c \<and> 0 \<le> y \<and> fits_type ct c y \<and> s = fresh_batch r c y subs) \<and>
    bk_accrued B2 = bk_accrued (fold (bk_pay b i ct s) pays (bk_spend a B)) \<and>
    bk_paid B2 = bk_paid (fold (bk_pay b i ct s) pays (bk_spend a B))"
proof -
  from assms obtain ct s subs done0 pays m1 m2 s1 info where
    D: "bk_types B b = Some ct" "pays = payable (\<lambda>h. bk_paid B (b, i, h)) holders"
      "case bk_batches B (b, i) of
         Some s' \<Rightarrow> s = s' \<and> bk_progress B (b, i) = Some (subs, done0)
       | None \<Rightarrow> (\<exists>rid c y. 0 \<le> c \<and> 0 \<le> y \<and> fits_type ct c y \<and> s = fresh_batch rid c y subs) \<and> done0 = 0"
    and B2: "let B1 = (fold (bk_pay b i ct s) pays (bk_spend a B))\<lparr>bk_batches := m1, bk_progress := m2\<rparr>
      in B2 = (if last_batch then bk_close b i s1 info B1 else B1)"
    unfolding bk_distribution_def Let_def by (cases last_batch) (simp_all only: if_True if_False, blast+)
  have "bk_accrued B2 = bk_accrued (fold (bk_pay b i ct s) pays (bk_spend a B))"
    "bk_paid B2 = bk_paid (fold (bk_pay b i ct s) pays (bk_spend a B))"
    using B2 by (simp_all add: Let_def bk_close_def bk_note_def)
  moreover have "case bk_batches B (b, i) of Some s' \<Rightarrow> s = s'
     | None \<Rightarrow> \<exists>r c y subs. 0 \<le> c \<and> 0 \<le> y \<and> fits_type ct c y \<and> s = fresh_batch r c y subs"
    using D(3) by (cases "bk_batches B (b, i)") auto
  ultimately show ?thesis using D(1,2) by blast
qed

text \<open>
  C38. A distribution pays in proportion and pays nobody twice. A successful batch credits each listed
  holder that has a positive balance and was not paid for this period before, once, with
  \<open>rate \<times> balance / FIXED_POINT\<close> of each kind, where the rates are those of the open batch or, for the first
  batch, \<open>credits \<times> FIXED_POINT / total_subscribed\<close>; every other balance is unchanged, and exactly these
  holders are marked as paid.
\<close>

theorem distribution_pro_rata:
  assumes "coupon_typed (st, P)" and "overflow_checks env"
    and "distribute_coupon env a b i holders rid n is_final st P = Ok (res, st', P')"
  shows "\<exists>ct s pays. cpn_bond_credit_type st b = Some ct \<and>
    pays = payable (\<lambda>h. phas (cpn_holder_distributed st) (b, i, h)) holders \<and> distinct (map fst pays) \<and>
    (case pget (cpn_batch_state st) (b, i) of Some s' \<Rightarrow> s = s'
     | None \<Rightarrow> \<exists>r c y subs. 0 \<le> c \<and> 0 \<le> y \<and> fits_type ct c y \<and> s = fresh_batch r c y subs) \<and>
    (\<forall>b' h. unwrap_or (pget (cpn_accrued st') (b', h)) 0 = unwrap_or (pget (cpn_accrued st) (b', h)) 0 +
      (if b' = b then \<Sum>p\<leftarrow>filter (\<lambda>p. fst p = h) pays. carbon_share ct s (snd p) + bio_share ct s (snd p) else 0)) \<and>
    (\<forall>k. phas (cpn_holder_distributed st') k \<longleftrightarrow>
      phas (cpn_holder_distributed st) k \<or> (\<exists>p\<in>set pays. k = (b, i, fst p)))"
proof -
  let ?B = "book_of (st, P)" and ?B' = "book_of (st', P')"
  from bk_distribution_pays distribute_coupon_book [OF assms(3,2,1)] obtain ct s pays where
    D: "bk_types ?B b = Some ct" "pays = payable (\<lambda>h. bk_paid ?B (b, i, h)) holders"
      "case bk_batches ?B (b, i) of Some s' \<Rightarrow> s = s'
       | None \<Rightarrow> \<exists>r c y subs. 0 \<le> c \<and> 0 \<le> y \<and> fits_type ct c y \<and> s = fresh_batch r c y subs"
    and acc: "bk_accrued ?B' = bk_accrued (fold (bk_pay b i ct s) pays (bk_spend a ?B))"
    and paid: "bk_paid ?B' = bk_paid (fold (bk_pay b i ct s) pays (bk_spend a ?B))" by blast
  have "distinct (map fst pays)" using payable_distinct D(2) by blast
  moreover have "\<forall>b' h. bk_accrued ?B' (b', h) = bk_accrued ?B (b', h) +
      (if b' = b then \<Sum>p\<leftarrow>filter (\<lambda>p. fst p = h) pays. carbon_share ct s (snd p) + bio_share ct s (snd p) else 0)"
    by (simp add: acc fold_pay_accrued)
  moreover have "\<forall>k. bk_paid ?B' k \<longleftrightarrow> bk_paid ?B k \<or> (\<exists>p\<in>set pays. k = (b, i, fst p))"
    unfolding paid fold_pay_paid by (simp add: bk_spend_def)
  ultimately show ?thesis using D
    unfolding book_reads [where P = P and st = st] book_reads [where P = P' and st = st'] by blast
qed

lemma book_step_periods:
  assumes "book_step B l B'" and "bk_closed B" and "bk_periods B k = Some info"
  shows "bk_periods B' k = Some info"
  using assms(1)
proof (cases rule: book_step.cases)
  case (b_distribute n' a b i holders last_batch now)
  from assms(2,3) have "pi_distributed info" by (cases k) (auto simp: bk_closed_def)
  with b_distribute(3) assms(3) show ?thesis
    unfolding bk_distribution_def by (cases last_batch) (auto simp: fold_pay_keeps bk_close_def bk_note_def)
next
  case (b_claim n' a x b B1 e now)
  with assms(3) show ?thesis by (auto simp: bk_wipe_def split: if_splits)
qed (use assms(3) in simp_all)

lemma book_run_periods:
  assumes "run book_step B ls B'" and "book_inv n B" and "n + length ls < 2 ^ 64" and "bk_periods B k = Some info"
  shows "bk_periods B' k = Some info"
  using assms
proof (induction rule: run.induct)
  case (run_snoc s ls t l u)
  then have "book_inv (n + length ls) t" by (intro coupon_book.inv_run) simp_all
  from book_step_periods [OF run_snoc.hyps(2) book_invD(6) [OF this]] run_snoc show ?case by simp
qed simp

text \<open>
  C39. A settled period is final: once a period of a bond has been settled, no sequence of calls, to the
  engine or to the contracts it reads, changes or removes its record, and it is not distributed again.
\<close>

theorem settled_period_final:
  assumes "coupon_start n s0" and "run (coupon_step overflow_checks) s0 ls (st, P)"
    and "run (coupon_step overflow_checks) (st, P) ls' (st', P')" and "n + length ls + length ls' < 2 ^ 64"
    and "pget (cpn_period_info st) (b, i) = Some info"
  shows "pget (cpn_period_info st') (b, i) = Some info \<and>
    distribute_coupon env a b i holders rid nonce is_final st' P' \<noteq> Ok (res, st'', P'')"
proof -
  from assms(4) have len: "n + length ls < 2 ^ 64" by simp
  note reach = coupon_reachable [OF assms(1,2) len]
  have run: "run book_step (book_of (st, P)) ls' (book_of (st', P'))"
    by (rule coupon_book.run_refines [OF assms(3) reach(1)])
  from book_run_periods [OF run reach(2), of "(b, i)" info] assms(4,5)
  have keep: "bk_periods (book_of (st', P')) (b, i) = Some info" by (simp add: book_reads [where P = P])
  have "pi_distributed info"
    using book_invD(6) [OF reach(2)] assms(5) by (auto simp: bk_closed_def book_reads [where P = P])
  with keep show ?thesis
    by (auto simp: distribute_coupon_def result_simps book_reads [where P = P'] elim!: distribute_coupon_OkE
        dest!: coupon_consume_nonce_Ok [where P = P'])
qed

text \<open>
  A deduction is exact. When the registered caller authorises it, a positive amount that the bucket
  of the credit type covers is always deducted, from that bucket and from the combined balance and from
  nothing else, and the remaining combined balance is returned; a BlueCarbon amount comes from the Carbon
  bucket.
\<close>

theorem deduct_exact:
  assumes "coupon_start n s0" and "run (coupon_step overflow_checks) s0 ls (st, P)" and "n + length ls < 2 ^ 64"
    and "cpn_deduct_caller st = Some d" and "require_auth env d = (Ok () :: (CouponEngineError, unit) result)"
    and "0 < x" and "x \<le> unwrap_or (pget (cpn_accrued_by_type st) (b, h, storage_type c)) 0"
  shows "\<exists>st'. deduct_credits env b h x c st = Ok (unwrap_or (pget (cpn_accrued st) (b, h)) 0 - x, st') \<and>
    amounts (cpn_accrued st') = (amounts (cpn_accrued st))((b, h) := unwrap_or (pget (cpn_accrued st) (b, h)) 0 - x) \<and>
    amounts (cpn_accrued_by_type st') = (amounts (cpn_accrued_by_type st))
      ((b, h, storage_type c) := unwrap_or (pget (cpn_accrued_by_type st) (b, h, storage_type c)) 0 - x) \<and>
    cpn_events st' = cpn_events st @ [credits_deducted b h x c]"
proof -
  note reach = coupon_reachable [OF assms(1-3)]
  let ?B = "book_of (st, P)"
  note split = book_invD(2) [OF reach(2), unfolded bk_split_def]
  have x: "x \<le> bk_bucket ?B (b, h, storage_type c)" using assms(7) by (simp add: book_reads [where P = P])
  have "bk_bucket ?B (b, h, storage_type c) \<le> bk_accrued ?B (b, h)"
    using split x assms(6) by (cases c) (auto simp: storage_type_def)
  with x have le: "x \<le> bk_accrued ?B (b, h)" by simp
  have fits: "fits_i128 (bk_accrued ?B (b, h))" by (rule sane_fits [OF typed_sane [OF reach(1)]])
  have f1: "fits_i128 (bk_accrued ?B (b, h) - x)"
    by (rule fits_i128_between [OF fits_i128_zero fits]) (use le assms(6) in simp_all)
  have f2: "fits_i128 (bk_bucket ?B (b, h, storage_type c) - x)"
    by (rule fits_i128_between [OF fits_i128_zero fits])
      (use x assms(6) \<open>bk_bucket ?B (b, h, storage_type c) \<le> bk_accrued ?B (b, h)\<close> in simp_all)
  note reads = book_reads [where P = P and st = st]
  show ?thesis
    using assms(4-6) x le unfolding reads
    by (simp add: deduct_credits_def ok_or_def Let_def reads arith_i128_fits [OF f1] arith_i128_fits [OF f2] coupon_publish_def)
qed


lemma sample_coupon_start: "coupon_start 1 (sample_engine, sample_peers)"
proof -
  have ids: "inv_ids 1 (ledger_of ((issuer_constructor (Address 0))\<lparr>iss_bond_count := Some 1,
       iss_configs := [1 \<mapsto> (sample_config, 4096)],
       iss_states := [1 \<mapsto> (\<lparr>bs_total_subscribed = 500, bs_status = Active, bs_created_at = 5\<rparr>, 4096)],
       iss_balances := [(1, Address 1) \<mapsto> (300, 4096), (1, Address 2) \<mapsto> (200, 4096)],
       iss_bond_list := [() \<mapsto> ([1], 4096)]\<rparr>))"
    by (auto simp: inv_ids_def ledger_of_def pget_def dom_def)
  show ?thesis unfolding coupon_start_def prod.case
    by (intro conjI exI [of _ "Address 0"] exI [of _ "Address 40"] exI [of _ "Address 41"] exI [of _ "Address 42"])
      (use ids in \<open>auto simp: sample_peers_def sound_reports_def sound_report_def pget_def\<close>)
qed

lemmas coupon_exec = checked_env_def sample_env_def sample_peers_def coupon_constructor_def register_bond_def
  distribute_coupon_def claim_credits_def deduct_credits_def register_deduct_caller_def open_batch_def resume_batch_def
  close_period_def coupon_consume_nonce_def coupon_get_nonce_def coupon_set_nonce_def coupon_require_admin_def
  coupon_publish_def coupon_write_def coupon_extend_ttl_def invoke_get_bond_def invoke_total_subscribed_def
  invoke_get_report_def invoke_status_by_hash_def get_bond_def total_subscribed_def get_report_def
  get_project_status_by_hash_def read_project_def read_persistent_def registry_bump_instance_def extend_bond_ttl_def
  pext_or_trap_def orc_bump_def call_env_def contract_at_def report_totals_def per_token_def pay_holder_def pay_single_def
  holder_share_def accrue_credits_def add_undistributed_def storage_type_def claim_breakdown_def
  clear_types_def clear_accrued_def accrued_credits_by_type_def read_refresh_ttl_def FIXED_POINT_def CREDIT_DIVISOR_def
  require_auth_def Let_def ok_or_def add_word_def arith_i128_def checked_i128_def fits_i128_def i128_min_def i128_max_def
  phas_def pset_def pget_def pext_def premove_def sample_config_def signed_divide_int_def issuer_constructor_def
  oracle_constructor_def registry_constructor_def bump_persistent_def

lemma sample_coupon_calls:
  "\<exists>st1 P1 st2 r3 st3 P3.
     register_bond (checked_env 30) (Address 0) 1 (replicate 32 1) 0 sample_engine sample_peers = Ok (st1, P1) \<and>
     register_deduct_caller (checked_env 31) (Address 0) (Address 8) 1 st1 = Ok st2 \<and>
     distribute_coupon (checked_env 32) (Address 0) 1 0 [(Address 1, 300), (Address 2, 200)] 7 2 True st2 P1 = Ok (r3, st3, P3) \<and>
     unwrap_or (pget (cpn_accrued st3) (1, Address 1)) 0 = 600 \<and>
     unwrap_or (pget (cpn_accrued_by_type st3) (1, Address 2, Carbon)) 0 = 400 \<and>
     unwrap_or (pget (cpn_undistributed_total st3) 1) 0 = 1 \<and> cpn_deduct_caller st3 = Some (Address 8) \<and>
     coupon_get_nonce st3 (Address 1) = 0"
  by (simp add: coupon_exec word_le_nat_alt word_less_nat_alt)

lemma sample_coupon_run:
  "\<exists>st2 P1 r3 st3 P3. coupon_typed (st2, P1) \<and>
     distribute_coupon (checked_env 32) (Address 0) 1 0 [(Address 1, 300), (Address 2, 200)] 7 2 True st2 P1 = Ok (r3, st3, P3) \<and>
     run (coupon_step overflow_checks) (sample_engine, sample_peers) coupon_labels (st3, P3) \<and>
     unwrap_or (pget (cpn_accrued st3) (1, Address 1)) 0 = 600 \<and>
     unwrap_or (pget (cpn_accrued_by_type st3) (1, Address 2, Carbon)) 0 = 400 \<and>
     unwrap_or (pget (cpn_undistributed_total st3) 1) 0 = 1 \<and> cpn_deduct_caller st3 = Some (Address 8) \<and>
     coupon_get_nonce st3 (Address 1) = 0 \<and> (\<exists>info. pget (cpn_period_info st3) (1, 0) = Some info)"
proof -
  have env: "overflow_checks (checked_env t)" "timestamp (checked_env t) = t" for t by (simp_all add: checked_env_def)
  from sample_coupon_calls obtain st1 P1 st2 r3 st3 P3
    where 1: "register_bond (checked_env 30) (Address 0) 1 (replicate 32 1) 0 sample_engine sample_peers = Ok (st1, P1)"
      and 2: "register_deduct_caller (checked_env 31) (Address 0) (Address 8) 1 st1 = Ok st2"
      and 3: "distribute_coupon (checked_env 32) (Address 0) 1 0 [(Address 1, 300), (Address 2, 200)] 7 2 True st2 P1 = Ok (r3, st3, P3)"
      and v: "unwrap_or (pget (cpn_accrued st3) (1, Address 1)) 0 = 600"
        "unwrap_or (pget (cpn_accrued_by_type st3) (1, Address 2, Carbon)) 0 = 400"
        "unwrap_or (pget (cpn_undistributed_total st3) 1) 0 = 1" "cpn_deduct_caller st3 = Some (Address 8)"
        "coupon_get_nonce st3 (Address 1) = 0" by blast
  let ?step = "coupon_step overflow_checks"
  have s1: "?step (sample_engine, sample_peers) (30, Some (Address 0, 0)) (st1, P1)"
    using step_register_bond [where E = overflow_checks, OF env(1) 1] by (simp add: env)
  have s2: "?step (st1, P1) (31, Some (Address 0, 1)) (st2, P1)"
    using step_register_deduct_caller [where E = overflow_checks, OF env(1) 2, of P1] by (simp add: env)
  have s3: "?step (st2, P1) (32, Some (Address 0, 2)) (st3, P3)"
    using step_distribute_coupon [where E = overflow_checks, OF env(1) 3] by (simp add: env)
  have r: "run ?step (sample_engine, sample_peers) coupon_labels (st3, P3)"
    by (rule run_Cons [where step = ?step, OF s1], rule run_Cons [where step = ?step, OF s2],
        rule run_Cons [where step = ?step, OF s3], rule run_refl)
  have t: "coupon_typed (st2, P1)"
    using coupon_book.wt_step [OF s2 coupon_book.wt_step [OF s1 coupon_start_typed [OF sample_coupon_start]]] .
  have "\<exists>info. pget (cpn_period_info st3) (1, 0) = Some info"
    using distribute_coupon_book [OF 3 env(1) t] unfolding bk_distribution_def
    by (auto simp: book_reads [where P = P3] bk_close_def bk_note_def)
  with r t 3 v show ?thesis by blast
qed

theorem coupon_books_balance_witness:
  "\<exists>(st :: coupon_engine) (P :: peers). run (coupon_step overflow_checks) (sample_engine, sample_peers) coupon_labels (st, P) \<and>
     map_total (pget (cpn_accrued st)) (of_bond 1) =
       (\<Sum>e\<leftarrow>cpn_events st. credit_flow 1 e) + in_flight (pget (cpn_batch_state st)) 1 \<and>
     1 = left_over (pget (cpn_period_info st)) 1 - (\<Sum>e\<leftarrow>cpn_events st. swept_flow 1 e)"
proof -
  from sample_coupon_run obtain st P where r: "run (coupon_step overflow_checks) (sample_engine, sample_peers) coupon_labels (st, P)"
    and u: "unwrap_or (pget (cpn_undistributed_total st) 1) 0 = 1" by blast
  from coupon_books_balance [OF sample_coupon_start r, of 1] r u show ?thesis by auto
qed

theorem coupon_never_overpays_witness:
  "\<exists>(st :: coupon_engine) (P :: peers) (info :: PeriodInfo).
     run (coupon_step overflow_checks) (sample_engine, sample_peers) coupon_labels (st, P) \<and>
     pget (cpn_period_info st) (1, 0) = Some info \<and> 0 \<le> pi_total_credits_earned info \<and> 0 \<le> pi_undistributed info \<and>
     600 = unwrap_or (pget (cpn_accrued_by_type st) (1, Address 1, Carbon)) 0 +
       unwrap_or (pget (cpn_accrued_by_type st) (1, Address 1, Biodiversity)) 0"
proof -
  from sample_coupon_run obtain st P info where r: "run (coupon_step overflow_checks) (sample_engine, sample_peers) coupon_labels (st, P)"
    and u: "unwrap_or (pget (cpn_accrued st) (1, Address 1)) 0 = 600" "pget (cpn_period_info st) (1, 0) = Some info" by blast
  from coupon_never_overpays [OF sample_coupon_start r, of 1] r u show ?thesis
    by (intro exI [of _ st] exI [of _ P] exI [of _ info]) auto
qed

theorem coupon_claim_pays_all_witness:
  "\<exists>(st :: coupon_engine) (st' :: coupon_engine). claim_credits (checked_env 40) (Address 1) 1 0 st = Ok (600, st') \<and>
     unwrap_or (pget (cpn_accrued st') (1, Address 1)) 0 = 0"
proof -
  from sample_coupon_run obtain st P where r: "run (coupon_step overflow_checks) (sample_engine, sample_peers) coupon_labels (st, P)"
    and u: "unwrap_or (pget (cpn_accrued st) (1, Address 1)) 0 = 600" "coupon_get_nonce st (Address 1) = 0" by blast
  from coupon_claim_pays_all [OF sample_coupon_start r, of "checked_env 40" "Address 1" 1] u show ?thesis
    by (auto simp: checked_env_def sample_env_def require_auth_def)
qed

theorem distribution_pro_rata_witness:
  "\<exists>(st :: coupon_engine) (P :: peers) (res :: CouponResult) (st' :: coupon_engine) (P' :: peers).
     distribute_coupon (checked_env 32) (Address 0) 1 0 [(Address 1, 300), (Address 2, 200)] 7 2 True st P = Ok (res, st', P') \<and>
     (\<exists>ct. cpn_bond_credit_type st 1 = Some ct) \<and>
     (\<forall>h. unwrap_or (pget (cpn_accrued st') (2, h)) 0 = unwrap_or (pget (cpn_accrued st) (2, h)) 0)"
proof -
  from sample_coupon_run obtain st P res st' P' where t: "coupon_typed (st, P)"
    and d: "distribute_coupon (checked_env 32) (Address 0) 1 0 [(Address 1, 300), (Address 2, 200)] 7 2 True st P = Ok (res, st', P')"
    by blast
  have "overflow_checks (checked_env 32)" by (simp add: checked_env_def)
  from distribution_pro_rata [OF t this d] have "(\<exists>ct. cpn_bond_credit_type st 1 = Some ct) \<and>
     (\<forall>h. unwrap_or (pget (cpn_accrued st') (2, h)) 0 = unwrap_or (pget (cpn_accrued st) (2, h)) 0)" by fastforce
  with d show ?thesis by blast
qed

theorem settled_period_final_witness:
  "\<exists>(st :: coupon_engine) (P :: peers). (\<exists>info. pget (cpn_period_info st) (1, 0) = Some info) \<and>
     distribute_coupon (checked_env 50) (Address 0) 1 0 [] 7 3 True st P \<noteq>
       Ok (\<lparr>cr_bond_id = 1, cr_period_index = 0, cr_total_credits = 0, cr_holder_count = 0, cr_credits_per_token = 0\<rparr>, st, P)"
proof -
  from sample_coupon_run obtain st P info where r: "run (coupon_step overflow_checks) (sample_engine, sample_peers) coupon_labels (st, P)"
    and u: "pget (cpn_period_info st) (1, 0) = Some info" by blast
  from settled_period_final [OF sample_coupon_start r run_refl, of 1 0 info] u show ?thesis
    by (intro exI [of _ st] exI [of _ P]) simp
qed

theorem deduct_exact_witness:
  "\<exists>(st :: coupon_engine) (v :: int) (st' :: coupon_engine). deduct_credits (checked_env 40) 1 (Address 2) 150 BlueCarbon st = Ok (v, st') \<and>
     unwrap_or (pget (cpn_accrued_by_type st') (1, Address 2, Carbon)) 0 = 250"
proof -
  from sample_coupon_run obtain st P where r: "run (coupon_step overflow_checks) (sample_engine, sample_peers) coupon_labels (st, P)"
    and u: "unwrap_or (pget (cpn_accrued_by_type st) (1, Address 2, Carbon)) 0 = 400" "cpn_deduct_caller st = Some (Address 8)" by blast
  have auth: "require_auth (checked_env 40) (Address 8) = (Ok () :: (CouponEngineError, unit) result)"
    by (simp add: checked_env_def sample_env_def require_auth_def)
  from deduct_exact [OF sample_coupon_start r _ u(2) auth, of 150 1 "Address 2" BlueCarbon] u(1)
  obtain v st' where "deduct_credits (checked_env 40) 1 (Address 2) 150 BlueCarbon st = Ok (v, st')"
    and "amounts (cpn_accrued_by_type st') = (amounts (cpn_accrued_by_type st))((1, Address 2, Carbon) := 250)"
    by (auto simp: storage_type_def)
  moreover from this(2) have "unwrap_or (pget (cpn_accrued_by_type st') (1, Address 2, Carbon)) 0 = 250"
    by (metis amounts_def fun_upd_same)
  ultimately show ?thesis by blast
qed

end
