(* ===== verification/Calendar.thy ===== *)
theory Calendar
  imports Prelude
begin

text \<open>
  The vintage year of a certificate: \<^verbatim>\<open>year_from_timestamp\<close> of \<^verbatim>\<open>contracts/credit-retirement/src/lib.rs\<close>, a
  closed formula over days, and its equivalence with counting the days of the Gregorian calendar year
  by year.
\<close>

section \<open>The formula and the calendar\<close>

definition SECONDS_PER_DAY :: u64 where
  "SECONDS_PER_DAY = 86400"

text \<open>
  The intermediate values of \<^verbatim>\<open>year_from_timestamp\<close> are \<^verbatim>\<open>i64\<close>; a \<open>u64\<close> number of seconds is fewer than
  \<open>2 ^ 48\<close> days, so none of them leaves that range. The last cast keeps the low 32 bits.
\<close>

definition year_from_timestamp :: "u64 \<Rightarrow> u32" where
  "year_from_timestamp ts =
     (let days = uint (ts div SECONDS_PER_DAY);
          shifted = days + 719468;
          era = shifted div 146097;
          day_of_era = shifted mod 146097;
          year_of_era = (day_of_era - day_of_era sdiv 1460 + day_of_era sdiv 36524 - day_of_era sdiv 146096) sdiv 365;
          year = year_of_era + era * 400;
          day_of_year = day_of_era - (365 * year_of_era + year_of_era sdiv 4 - year_of_era sdiv 100);
          shifted_month = (5 * day_of_year + 2) sdiv 153;
          month = (if shifted_month < 10 then shifted_month + 3 else shifted_month - 9);
          year = (if month \<le> 2 then year + 1 else year)
      in of_int year)"

definition leap_year :: "nat \<Rightarrow> bool" where
  "leap_year y \<longleftrightarrow> 4 dvd y \<and> \<not> 100 dvd y \<or> 400 dvd y"

definition year_length :: "nat \<Rightarrow> nat" where
  "year_length y = (if leap_year y then 366 else 365)"

text \<open>The year that the \<open>d\<close>-th day, counted from the first of January of year \<open>y\<close>, falls in.\<close>

function civil_year :: "nat \<Rightarrow> nat \<Rightarrow> nat" where
  "civil_year y d = (if d < year_length y then y else civil_year (Suc y) (d - year_length y))"
  by pat_completeness auto
termination by (relation "measure snd") (auto simp: year_length_def split: if_splits)

text \<open>
  Days from the first of March of year 0 to the first of March of year \<open>y\<close>, and to the first of January
  of year \<open>y\<close>.
\<close>

definition march1 :: "int \<Rightarrow> int" where
  "march1 y = 365 * y + y div 4 - y div 100 + y div 400"

definition jan1 :: "int \<Rightarrow> int" where
  "jan1 y = march1 (y - 1) + 306"

text \<open>
  The quotient that \<^verbatim>\<open>year_from_timestamp\<close> divides by 365, and the first day of each year of an era of
  400 years, counted from the first of March.
\<close>

definition era_quotient :: "int \<Rightarrow> int" where
  "era_quotient x = x - x div 1460 + x div 36524 - x div 146096"

definition era_start :: "int \<Rightarrow> int" where
  "era_start y = (if y = 400 then 146097 else 365 * y + y div 4 - y div 100)"

section \<open>Days and years\<close>

declare civil_year.simps [simp del]

lemma div_step: "0 < k \<Longrightarrow> (y :: int) div k = (y - 1) div k + (if k dvd y then 1 else 0)"
proof -
  assume "0 < k"
  show ?thesis
  proof (cases "k dvd y")
    case True
    then obtain q where q: "y = k * q" ..
    have "(k * q - 1) div k = q - 1" using \<open>0 < k\<close> by (intro int_div_pos_eq [of _ _ _ "k - 1"]) (auto simp: algebra_simps)
    with True q \<open>0 < k\<close> show ?thesis by simp
  next
    case False
    define q where "q = y div k" define r where "r = y mod k"
    have y: "y = k * q + r" "0 \<le> r" "r < k" using \<open>0 < k\<close> by (simp_all add: q_def r_def)
    have "r \<noteq> 0" using False by (auto simp: r_def)
    with y \<open>0 < k\<close> have "(y - 1) div k = q" by (intro int_div_pos_eq [of _ _ _ "r - 1"]) auto
    with False show ?thesis by (simp add: q_def)
  qed
qed

lemma div_step_nat: "0 < k \<Longrightarrow> int y div int k = (int y - 1) div int k + (if k dvd y then 1 else 0)"
  using div_step [of "int k" "int y"] by (simp only: int_dvd_int_iff of_nat_0_less_iff)

lemma leap_dvd: "400 dvd y \<Longrightarrow> 100 dvd (y :: nat)" "100 dvd y \<Longrightarrow> 4 dvd y"
  by (rule dvd_trans [of 100 400], simp, assumption) (rule dvd_trans [of 4 100], simp, assumption)

lemma march1_step: "march1 (int y) = march1 (int y - 1) + int (year_length y)"
proof -
  define a b c where "a = (int y - 1) div 4" and "b = (int y - 1) div 100" and "c = (int y - 1) div 400"
  have d: "int y div 4 = a + (if 4 dvd y then 1 else 0)" "int y div 100 = b + (if 100 dvd y then 1 else 0)"
    "int y div 400 = c + (if 400 dvd y then 1 else 0)"
    using div_step_nat [of 4 y] div_step_nat [of 100 y] div_step_nat [of 400 y]
    by (simp_all only: a_def b_def c_def of_nat_numeral zero_less_numeral)
  have "march1 (int y) = 365 * int y + (a + (if 4 dvd y then 1 else 0)) - (b + (if 100 dvd y then 1 else 0)) +
      (c + (if 400 dvd y then 1 else 0))" by (simp only: march1_def d)
  moreover have "march1 (int y - 1) = 365 * int y - 365 + a - b + c"
    by (simp only: march1_def a_def b_def c_def right_diff_distrib mult_1_right)
  moreover have "int (year_length y) = 365 + ((if 4 dvd y then 1 else 0) - (if 100 dvd y then 1 else 0) + (if 400 dvd y then 1 else 0))"
    using leap_dvd [of y] by (simp only: year_length_def leap_year_def split: if_splits) auto
  ultimately show ?thesis by linarith
qed

lemma jan1_step: "jan1 (int (Suc y)) = jan1 (int y) + int (year_length y)"
  using march1_step [of y] by (simp add: jan1_def)

lemma jan1_mono: "y \<le> z \<Longrightarrow> jan1 (int y) \<le> jan1 (int z)"
  by (induction z rule: nat_induct_at_least [of y, case_names base step]) (simp_all add: jan1_step del: of_nat_Suc)

lemma civil_year_bounds:
  "jan1 (int (civil_year y d)) \<le> jan1 (int y) + int d \<and> jan1 (int y) + int d < jan1 (int (Suc (civil_year y d)))"
proof (induction y d rule: civil_year.induct)
  case (1 y d)
  show ?case
  proof (cases "d < year_length y")
    case True
    then show ?thesis by (simp add: civil_year.simps [of y d] jan1_step del: of_nat_Suc)
  next
    case False
    with 1 show ?thesis by (simp add: civil_year.simps [of y d] jan1_step del: of_nat_Suc)
  qed
qed

lemma civil_year_unique:
  assumes "jan1 (int z) \<le> jan1 (int y) + int d" and "jan1 (int y) + int d < jan1 (int (Suc z))"
  shows "civil_year y d = z"
proof (rule ccontr)
  assume "civil_year y d \<noteq> z"
  then have "Suc (civil_year y d) \<le> z \<or> Suc z \<le> civil_year y d" by linarith
  then show False
    using civil_year_bounds [of y d] assms jan1_mono [of "Suc (civil_year y d)" z] jan1_mono [of "Suc z" "civil_year y d"]
    by auto
qed

text \<open>
  The quotient grows with the day, so it is enough to look at the first and the last day of each of
  the 400 years of an era.
\<close>

lemma step_arith:
  fixes x a b c :: int
  assumes "a' = a + (if P then 1 else 0)" and "b' = b + (if Q then 1 else 0)" and "c' = c + (if R then 1 else 0)" and "R \<Longrightarrow> Q"
  shows "x - a + b - c \<le> x + 1 - a' + b' - c'"
  using assms by auto

lemma div_step_Suc: "0 < k \<Longrightarrow> (x + 1 :: int) div k = x div k + (if k dvd x + 1 then 1 else 0)"
  using div_step [of k "x + 1"] by (simp only: add_diff_cancel_right')

lemma era_quotient_step: "era_quotient x \<le> era_quotient (x + 1)"
  unfolding era_quotient_def
proof (rule step_arith [OF div_step_Suc div_step_Suc div_step_Suc])
  show "(36524 :: int) dvd x + 1" if "146096 dvd x + 1" by (rule dvd_trans [OF _ that]) simp
qed simp_all

lemma era_quotient_mono: "x \<le> y \<Longrightarrow> era_quotient x \<le> era_quotient y"
proof (induction y rule: int_ge_induct)
  case (step i)
  then show ?case using era_quotient_step [of i] by linarith
qed simp

lemma era_years: "\<forall>y \<in> set [0..399]. 365 * y \<le> era_quotient (era_start y) \<and> era_quotient (era_start (y + 1) - 1) < 365 * (y + 1)"
  by code_simp

lemma era_find:
  assumes "0 \<le> x" and "x < era_start (int m)" and "m \<le> 400"
  shows "\<exists>y. 0 \<le> y \<and> y < int m \<and> era_start y \<le> x \<and> x < era_start (y + 1)"
  using assms
proof (induction m)
  case 0
  then show ?case by (simp add: era_start_def)
next
  case (Suc m)
  show ?case
  proof (cases "x < era_start (int m)")
    case True
    with Suc obtain y where "0 \<le> y" "y < int m" "era_start y \<le> x" "x < era_start (y + 1)" by auto
    then show ?thesis by (intro exI [of _ y]) simp
  next
    case False
    with Suc.prems show ?thesis by (intro exI [of _ "int m"]) (simp add: add.commute)
  qed
qed

lemma year_of_era:
  assumes "0 \<le> x" and "x < 146097"
  shows "\<exists>y. 0 \<le> y \<and> y < 400 \<and> era_quotient x div 365 = y \<and> era_start y \<le> x \<and> x < era_start (y + 1)"
proof -
  have "x < era_start (int 400)" using assms(2) by (simp add: era_start_def)
  from era_find [OF assms(1) this] obtain y where y: "0 \<le> y" "y < 400" "era_start y \<le> x" "x < era_start (y + 1)" by auto
  then have "y \<in> set [0..399]" by simp
  with era_years have "365 * y \<le> era_quotient (era_start y)" "era_quotient (era_start (y + 1) - 1) < 365 * (y + 1)" by blast+
  moreover have "era_quotient (era_start y) \<le> era_quotient x" "era_quotient x \<le> era_quotient (era_start (y + 1) - 1)"
    using y by (simp_all add: era_quotient_mono)
  ultimately have "365 * y \<le> era_quotient x" "era_quotient x < 365 * (y + 1)" by linarith+
  then have "era_quotient x div 365 = y" by (intro int_div_pos_eq [of _ _ _ "era_quotient x - 365 * y"]) auto
  with y show ?thesis by blast
qed

lemma march1_parts: "y div 4 = a \<Longrightarrow> y div 100 = b \<Longrightarrow> y div 400 = c \<Longrightarrow> march1 y = 365 * y + a - b + c"
  by (simp only: march1_def)

lemma march1_era:
  assumes "0 \<le> y" and "y \<le> 400"
  shows "march1 (y + e * 400) = 146097 * e + era_start y"
proof (cases "y = 400")
  case True
  have "(400 + e * 400) div 4 = e * 100 + 100" by (rule int_div_pos_eq [of _ _ _ 0]) simp_all
  moreover have "(400 + e * 400) div 100 = e * 4 + 4" by (rule int_div_pos_eq [of _ _ _ 0]) simp_all
  moreover have "(400 + e * 400) div 400 = e + 1" by (rule int_div_pos_eq [of _ _ _ 0]) simp_all
  ultimately have "march1 (400 + e * 400) = 365 * (400 + e * 400) + (e * 100 + 100) - (e * 4 + 4) + (e + 1)" by (rule march1_parts)
  also have "\<dots> = 146097 * e + 146097" by simp
  finally show ?thesis by (simp only: True era_start_def if_True refl)
next
  case False
  define a b where "a = y div 4" and "b = y div 100"
  have "(y + e * 400) div 4 = a + e * 100"
    unfolding a_def by (rule int_div_pos_eq [of _ _ _ "y mod 4"]) (simp_all add: algebra_simps)
  moreover have "(y + e * 400) div 100 = b + e * 4"
    unfolding b_def by (rule int_div_pos_eq [of _ _ _ "y mod 100"]) (simp_all add: algebra_simps)
  moreover have "(y + e * 400) div 400 = e"
    by (rule int_div_pos_eq [of _ _ _ y]) (use assms False in \<open>simp_all add: algebra_simps\<close>)
  ultimately have "march1 (y + e * 400) = 365 * (y + e * 400) + (a + e * 100) - (b + e * 4) + e" by (rule march1_parts)
  also have "\<dots> = 146097 * e + (365 * y + a - b)" by simp
  finally show ?thesis by (simp only: False era_start_def if_False a_def b_def)
qed

lemma month_split:
  fixes doy :: int
  assumes "0 \<le> doy" and "doy \<le> 365" and "sm = (5 * doy + 2) div 153"
  shows "(if sm < 10 then sm + 3 else sm - 9) \<le> 2 \<longleftrightarrow> 306 \<le> doy"
  unfolding assms(3) using assms(1,2) by auto

lemma days_of_timestamp: "uint (ts div SECONDS_PER_DAY) = int (unat ts div 86400)"
proof -
  have "unat SECONDS_PER_DAY = 86400" by (simp add: SECONDS_PER_DAY_def)
  then show ?thesis unfolding uint_nat unat_div by (rule arg_cong)
qed

lemma jan1_1970: "jan1 1970 = 719468"
  by (simp add: jan1_def march1_def)

lemma march1_gap:
  assumes "0 \<le> z"
  shows "march1 (z + 1) \<le> march1 z + 366" and "march1 z + 365 \<le> march1 (z + 1)"
proof -
  have "march1 (z + 1) = march1 z + int (year_length (nat (z + 1)))"
    using march1_step [of "nat (z + 1)"] assms by simp
  moreover have "365 \<le> year_length (nat (z + 1))" "year_length (nat (z + 1)) \<le> 366" by (simp_all add: year_length_def)
  ultimately show "march1 (z + 1) \<le> march1 z + 366" "march1 z + 365 \<le> march1 (z + 1)" by linarith+
qed

text \<open>Counting from the first of March, the calendar year changes on day 306.\<close>

lemma civil_year_march:
  assumes "1 \<le> z" and "march1 z \<le> int d + 719468" and "int d + 719468 < march1 (z + 1)"
  shows "int (civil_year 1970 d) = (if 306 \<le> int d + 719468 - march1 z then z + 1 else z)"
proof -
  have gap: "march1 (z - 1) + 365 \<le> march1 z" using march1_gap(2) [of "z - 1"] assms(1) by simp
  let ?Y = "if 306 \<le> int d + 719468 - march1 z then z + 1 else z"
  have Y: "int (nat ?Y) = ?Y" using assms(1) by simp
  have "civil_year 1970 d = nat ?Y"
  proof (rule civil_year_unique)
    show "jan1 (int (nat ?Y)) \<le> jan1 (int 1970) + int d"
      unfolding Y using assms(2) gap by (simp add: jan1_1970) (simp add: jan1_def)
    show "jan1 (int 1970) + int d < jan1 (int (Suc (nat ?Y)))"
      using assms(1,3) Y by (simp add: jan1_1970) (simp add: jan1_def algebra_simps)
  qed
  with Y show ?thesis by simp
qed

text \<open>
  C24. The vintage year on a certificate is the calendar year: for every timestamp, the year that
  \<^verbatim>\<open>year_from_timestamp\<close> computes in constant time is the one found by counting the days from 1970
  year by year, with 366 days in the years divisible by 4 except those divisible by 100 and not by 400;
  only its low 32 bits are kept.
\<close>

theorem vintage_year_gregorian: "year_from_timestamp ts = of_nat (civil_year 1970 (unat ts div 86400))"
proof -
  define days where "days = uint (ts div SECONDS_PER_DAY)"
  have days: "days = int (unat ts div 86400)" unfolding days_def by (rule days_of_timestamp)
  define e where "e = (days + 719468) div 146097" define x where "x = (days + 719468) mod 146097"
  have D: "days + 719468 = 146097 * e + x" by (simp only: e_def x_def mult_div_mod_eq)
  have x: "0 \<le> x" "x < 146097" unfolding x_def by (rule pos_mod_sign, simp) (rule pos_mod_bound, simp)
  have e: "0 \<le> e" unfolding e_def days by (subst pos_imp_zdiv_nonneg_iff) simp_all
  obtain y where y: "0 \<le> y" "y < 400" "era_quotient x div 365 = y" "era_start y \<le> x" "x < era_start (y + 1)"
    using year_of_era [OF x] by blast
  have eq: "era_quotient x sdiv 365 = y"
    using y(1,3) pos_imp_zdiv_nonneg_iff [of 365 "era_quotient x"] by (subst sdiv_nonneg) simp_all
  then have q: "(x - x sdiv 1460 + x sdiv 36524 - x sdiv 146096) sdiv 365 = y"
    using x(1) by (simp only: era_quotient_def sdiv_nonneg zero_less_numeral)
  define d where "d = x - era_start y"
  have doy: "x - (365 * y + y sdiv 4 - y sdiv 100) = d"
    using y(1,2) by (simp only: d_def era_start_def sdiv_nonneg zero_less_numeral) simp
  have z: "1 \<le> y + e * 400" using D x(2) y(1) days by linarith
  have m: "march1 (y + e * 400) = 146097 * e + era_start y" "march1 (y + e * 400 + 1) = 146097 * e + era_start (y + 1)"
    using march1_era [of y e] march1_era [of "y + 1" e] y(1,2) by (simp_all add: algebra_simps)
  then have d: "0 \<le> d" "d \<le> 365" using y(4,5) march1_gap(1) [of "y + e * 400"] z by (simp_all add: d_def)
  have yr: "int (civil_year 1970 (unat ts div 86400)) = (if 306 \<le> d then y + e * 400 + 1 else y + e * 400)"
    using civil_year_march [OF z, of "unat ts div 86400"] D y(4,5) m days by (simp add: d_def)
  have sm: "((5 * d + 2) sdiv 153) = (5 * d + 2) div 153" using d(1) by (intro sdiv_nonneg) simp_all
  have "year_from_timestamp ts = of_int (int (civil_year 1970 (unat ts div 86400)))"
    unfolding year_from_timestamp_def Let_def days_def [symmetric] e_def [symmetric] x_def [symmetric] q doy
      sm month_split [OF d refl] yr by (rule refl)
  then show ?thesis by simp
qed

end
