(* ===== verification/Retirement.thy ===== *)
theory Retirement
  imports Coupon_Book Calendar
begin

text \<open>
  The credit retirement contract, \<^verbatim>\<open>contracts/credit-retirement/src/lib.rs\<close>: a holder retires accrued
  credits for good, the coupon engine deducts them, and a certificate with the project and the vintage
  of the credits is stored. The lemmas show that the archive of certificates is append-only and that
  its indexes and totals are exact, and that a retirement deducts its amount from the coupon engine, so that no credit is both retired
  and claimed.
\<close>

section \<open>State\<close>

definition RETIREMENT_TTL_THRESHOLD :: u32 where
  "RETIREMENT_TTL_THRESHOLD = 17280 * 30"

definition RETIREMENT_TTL_EXTEND_TO :: u32 where
  "RETIREMENT_TTL_EXTEND_TO = 17280 * 120"

record RetirementRecord =
  rr_id :: u64
  rr_holder :: address
  rr_bond_id :: u64
  rr_project_id :: bytes32
  rr_period_index :: u32
  rr_report_id :: u64
  rr_vintage_year :: u32
  rr_vintage_period_start :: u64
  rr_vintage_period_end :: u64
  rr_amount :: int
  rr_credit_type :: CreditType
  rr_retired_at :: u64
  rr_certificate_ipfs_hash :: bytes32

record RetirementCertificate =
  rc_record_id :: u64
  rc_holder :: address
  rc_bond_id :: u64
  rc_project_id :: bytes32
  rc_period_index :: u32
  rc_report_id :: u64
  rc_vintage_year :: u32
  rc_vintage_period_start :: u64
  rc_vintage_period_end :: u64
  rc_amount :: int
  rc_credit_type :: CreditType
  rc_retired_at :: u64
  rc_certificate_hash :: bytes32

datatype RetirementEvent = CreditsRetired address RetirementCertificate

text \<open>
  Each family of retirement data lives in persistent storage; \<open>legacy\<close> holds the entries that an older
  version of the contract left in instance storage, which reads fall back to and nothing writes.
\<close>

record legacy =
  lgc_retirement :: "u64 \<rightharpoonup> RetirementRecord"
  lgc_retirement_count :: "u64 option"
  lgc_holder_retirements :: "address \<rightharpoonup> u64 list"
  lgc_bond_holder_retirements :: "u64 \<times> address \<rightharpoonup> u64 list"
  lgc_retired_credits :: "address \<rightharpoonup> int"
  lgc_retired_per_bond :: "u64 \<times> address \<rightharpoonup> int"
  lgc_retired_by_type :: "address \<times> CreditType \<rightharpoonup> int"

record retirement =
  ret_instance_ttl :: u32
  ret_admin :: "address option"
  ret_bond_issuer :: "address option"
  ret_coupon_engine :: "address option"
  ret_retirement :: "(u64, RetirementRecord) pstore"
  ret_retirement_count :: "(unit, u64) pstore"
  ret_holder_retirements :: "(address, u64 list) pstore"
  ret_bond_holder_retirements :: "(u64 \<times> address, u64 list) pstore"
  ret_retired_credits :: "(address, int) pstore"
  ret_retired_per_bond :: "(u64 \<times> address, int) pstore"
  ret_retired_by_type :: "(address \<times> CreditType, int) pstore"
  ret_nonces :: "(address, u64) pstore"
  ret_legacy :: legacy
  ret_events :: "RetirementEvent list"

type_synonym engines = "address \<rightharpoonup> coupon_engine"

section \<open>Helpers\<close>

definition retirement_get_nonce :: "retirement \<Rightarrow> address \<Rightarrow> u64" where
  "retirement_get_nonce st addr = unwrap_or (pget (ret_nonces st) addr) 0"

definition retirement_set_nonce :: "env \<Rightarrow> address \<Rightarrow> u64 \<Rightarrow> retirement \<Rightarrow> retirement" where
  "retirement_set_nonce env addr nonce st = st\<lparr>ret_nonces := pset env (ret_nonces st) addr nonce\<rparr>"

text \<open>\<^verbatim>\<open>extend_ttl\<close> of a key that is present, and of a key that may be missing, which the host refuses.\<close>

definition retirement_extend :: "env \<Rightarrow> ('k, 'v) pstore \<Rightarrow> 'k \<Rightarrow> ('k, 'v) pstore" where
  "retirement_extend env m k = pext env RETIREMENT_TTL_THRESHOLD RETIREMENT_TTL_EXTEND_TO m k"

definition retirement_extend_ttl :: "env \<Rightarrow> ('k, 'v) pstore \<Rightarrow> 'k \<Rightarrow> (CreditError, ('k, 'v) pstore) result" where
  "retirement_extend_ttl env m k = pext_or_trap env RETIREMENT_TTL_THRESHOLD RETIREMENT_TTL_EXTEND_TO m k"

definition read_or_legacy :: "('k, 'v) pstore \<Rightarrow> ('k \<rightharpoonup> 'v) \<Rightarrow> 'k \<rightharpoonup> 'v" where
  "read_or_legacy m l = (\<lambda>k. case pget m k of Some v \<Rightarrow> Some v | None \<Rightarrow> l k)"

definition retirement_write :: "env \<Rightarrow> ('k, 'v) pstore \<Rightarrow> 'k \<Rightarrow> 'v \<Rightarrow> ('k, 'v) pstore" where
  "retirement_write env m k v = retirement_extend env (pset env m k v) k"

definition set_retirement_count :: "env \<Rightarrow> u64 \<Rightarrow> retirement \<Rightarrow> retirement" where
  "set_retirement_count env v st =
     st\<lparr>ret_retirement_count := retirement_write env (ret_retirement_count st) () v\<rparr>"

text \<open>The counter; a value found only in instance storage is moved to persistent storage.\<close>

definition get_retirement_count :: "env \<Rightarrow> retirement \<Rightarrow> u64 \<times> retirement" where
  "get_retirement_count env st =
     (case pget (ret_retirement_count st) () of
        Some count \<Rightarrow> (count, st)
      | None \<Rightarrow> let legacy = unwrap_or (lgc_retirement_count (ret_legacy st)) 0
                in (legacy, set_retirement_count env legacy st))"

fun is_compatible_credit_type :: "CreditType \<Rightarrow> CreditType \<Rightarrow> bool" where
  "is_compatible_credit_type Carbon supplied = (supplied = Carbon \<or> supplied = BlueCarbon)"
| "is_compatible_credit_type BlueCarbon supplied = (supplied = Carbon \<or> supplied = BlueCarbon)"
| "is_compatible_credit_type Biodiversity supplied = (supplied = Biodiversity)"
| "is_compatible_credit_type Basket supplied =
     (supplied = Carbon \<or> supplied = BlueCarbon \<or> supplied = Biodiversity)"

definition certificate_from_record :: "RetirementRecord \<Rightarrow> RetirementCertificate" where
  "certificate_from_record r =
     \<lparr>rc_record_id = rr_id r, rc_holder = rr_holder r, rc_bond_id = rr_bond_id r, rc_project_id = rr_project_id r,
      rc_period_index = rr_period_index r, rc_report_id = rr_report_id r, rc_vintage_year = rr_vintage_year r,
      rc_vintage_period_start = rr_vintage_period_start r, rc_vintage_period_end = rr_vintage_period_end r,
      rc_amount = rr_amount r, rc_credit_type = rr_credit_type r, rc_retired_at = rr_retired_at r,
      rc_certificate_hash = rr_certificate_ipfs_hash r\<rparr>"

section \<open>Entrypoints\<close>

definition empty_legacy :: legacy where
  "empty_legacy = \<lparr>lgc_retirement = Map.empty, lgc_retirement_count = None, lgc_holder_retirements = Map.empty,
     lgc_bond_holder_retirements = Map.empty, lgc_retired_credits = Map.empty, lgc_retired_per_bond = Map.empty,
     lgc_retired_by_type = Map.empty\<rparr>"

definition retirement_constructor :: "env \<Rightarrow> address \<Rightarrow> address \<Rightarrow> address \<Rightarrow> retirement" where
  "retirement_constructor env admin bond_issuer_address coupon_engine_address =
     \<lparr>ret_instance_ttl = ttl_new env, ret_admin = Some admin, ret_bond_issuer = Some bond_issuer_address,
      ret_coupon_engine = Some coupon_engine_address, ret_retirement = Map.empty, ret_retirement_count = Map.empty,
      ret_holder_retirements = Map.empty, ret_bond_holder_retirements = Map.empty, ret_retired_credits = Map.empty,
      ret_retired_per_bond = Map.empty, ret_retired_by_type = Map.empty, ret_nonces = Map.empty,
      ret_legacy = empty_legacy, ret_events = []\<rparr>"

text \<open>The calls to the issuer and the coupon engine; the last two are \<^verbatim>\<open>try_invoke_contract\<close>.\<close>

definition retire_holder_balance ::
    "address \<Rightarrow> u64 \<Rightarrow> address \<Rightarrow> peers \<Rightarrow> (CreditError, int) result" where
  "retire_holder_balance a bond_id holder P =
     and_then (contract_at (issuers_at P) a) (\<lambda>iss. Ok (get_holder_balance iss bond_id holder))"

definition retire_get_bond ::
    "env \<Rightarrow> address \<Rightarrow> u64 \<Rightarrow> peers \<Rightarrow> (CreditError, BondConfig \<times> peers) result" where
  "retire_get_bond env a bond_id P =
     and_then (contract_at (issuers_at P) a) (\<lambda>iss.
     and_then (call_or_panic (get_bond (call_env env a) bond_id iss)) (\<lambda>(config, iss).
     Ok (config, P\<lparr>issuers_at := (issuers_at P)(a \<mapsto> iss)\<rparr>)))"

definition retire_accrued ::
    "env \<Rightarrow> address \<Rightarrow> u64 \<Rightarrow> address \<Rightarrow> engines \<Rightarrow> (CreditError, int \<times> engines) result" where
  "retire_accrued env a bond_id holder C =
     and_then (contract_at C a) (\<lambda>eng.
     let (v, eng) = accrued_credits (call_env env a) bond_id holder eng in Ok (v, C(a \<mapsto> eng)))"

definition retire_period ::
    "env \<Rightarrow> address \<Rightarrow> u64 \<Rightarrow> u32 \<Rightarrow> engines \<Rightarrow> (CreditError, PeriodInfo \<times> engines) result" where
  "retire_period env a bond_id period_index C =
     (case C a of
        None \<Rightarrow> Err CreditError.PeriodNotFound
      | Some eng \<Rightarrow>
          and_then (try_invoke (get_period_info (call_env env a) bond_id period_index eng)
                      (\<lambda>_. CreditError.PeriodNotFound) CreditError.PeriodNotFound) (\<lambda>(info, eng).
          Ok (info, C(a \<mapsto> eng))))"

definition retire_deduct ::
    "env \<Rightarrow> address \<Rightarrow> u64 \<Rightarrow> address \<Rightarrow> int \<Rightarrow> CreditType \<Rightarrow> engines \<Rightarrow> (CreditError, engines) result" where
  "retire_deduct env a bond_id holder amount credit_type C =
     (case C a of
        None \<Rightarrow> Err CreditError.InsufficientCredits
      | Some eng \<Rightarrow>
          and_then (try_invoke (deduct_credits (call_env env a) bond_id holder amount credit_type eng)
                      (\<lambda>_. CreditError.InsufficientCredits) CreditError.InsufficientCredits) (\<lambda>(v, eng).
          Ok (C(a \<mapsto> eng))))"

text \<open>The writes of a retirement, once the credits have been deducted.\<close>

definition record_retirement ::
    "env \<Rightarrow> address \<Rightarrow> u64 \<Rightarrow> bytes32 \<Rightarrow> u32 \<Rightarrow> PeriodInfo \<Rightarrow> int \<Rightarrow> CreditType \<Rightarrow> bytes32 \<Rightarrow> retirement \<Rightarrow>
     (CreditError, u64 \<times> retirement) result" where
  "record_retirement env holder bond_id project_id period_index period amount credit_type certificate_hash st =
     (let already_retired = unwrap_or (read_or_legacy (ret_retired_per_bond st)
            (lgc_retired_per_bond (ret_legacy st)) (bond_id, holder)) 0
      in and_then (arith_i128 env (already_retired + amount)) (\<lambda>per_bond.
      let st = st\<lparr>ret_retired_per_bond := retirement_write env (ret_retired_per_bond st) (bond_id, holder) per_bond\<rparr>;
          (count, st) = get_retirement_count env st
      in and_then (add_word env count 1) (\<lambda>retirement_id.
      let st = set_retirement_count env retirement_id st;
          record = \<lparr>rr_id = retirement_id, rr_holder = holder, rr_bond_id = bond_id, rr_project_id = project_id,
            rr_period_index = period_index, rr_report_id = pi_report_id period,
            rr_vintage_year = year_from_timestamp (pi_end_time period), rr_vintage_period_start = pi_start_time period,
            rr_vintage_period_end = pi_end_time period, rr_amount = amount, rr_credit_type = credit_type,
            rr_retired_at = timestamp env, rr_certificate_ipfs_hash = certificate_hash\<rparr>;
          st = st\<lparr>ret_retirement := retirement_write env (ret_retirement st) retirement_id record\<rparr>;
          retired = unwrap_or (read_or_legacy (ret_retired_credits st) (lgc_retired_credits (ret_legacy st)) holder) 0
      in and_then (ok_or (checked_i128 (retired + amount)) CreditError.Overflow) (\<lambda>new_total.
      let st = st\<lparr>ret_retired_credits := retirement_write env (ret_retired_credits st) holder new_total\<rparr>;
          retirements = unwrap_or (read_or_legacy (ret_holder_retirements st)
            (lgc_holder_retirements (ret_legacy st)) holder) [] @ [retirement_id];
          st = st\<lparr>ret_holder_retirements := retirement_write env (ret_holder_retirements st) holder retirements\<rparr>;
          bond_retirements = unwrap_or (read_or_legacy (ret_bond_holder_retirements st)
            (lgc_bond_holder_retirements (ret_legacy st)) (bond_id, holder)) [] @ [retirement_id];
          st = st\<lparr>ret_bond_holder_retirements :=
            retirement_write env (ret_bond_holder_retirements st) (bond_id, holder) bond_retirements\<rparr>;
          st = st\<lparr>ret_instance_ttl :=
            ttl_extend env (ret_instance_ttl st) RETIREMENT_TTL_THRESHOLD RETIREMENT_TTL_EXTEND_TO,
            ret_events := ret_events st @ [CreditsRetired holder (certificate_from_record record)]\<rparr>
      in Ok (retirement_id, st)))))"

definition retire_credits ::
    "env \<Rightarrow> address \<Rightarrow> u64 \<Rightarrow> bytes32 \<Rightarrow> u32 \<Rightarrow> int \<Rightarrow> CreditType \<Rightarrow> bytes32 \<Rightarrow> u64 \<Rightarrow> retirement \<Rightarrow> engines \<Rightarrow> peers \<Rightarrow>
     (CreditError, u64 \<times> retirement \<times> engines \<times> peers) result" where
  "retire_credits env holder bond_id project_id period_index amount credit_type certificate_hash nonce st C P =
     and_then (require_auth env holder) (\<lambda>_.
     let expected_nonce = retirement_get_nonce st holder
     in if nonce \<noteq> expected_nonce then Err CreditError.InvalidNonce
     else and_then (add_word env expected_nonce 1) (\<lambda>next.
     let st = retirement_set_nonce env holder next st
     in if amount \<le> 0 then Err CreditError.InsufficientCredits
     else if is_zero_hash certificate_hash then Err CreditError.InvalidCertificate
     else and_then (ok_or (ret_bond_issuer st) CreditError.NotInitialized) (\<lambda>bond_issuer.
     and_then (retire_holder_balance bond_issuer bond_id holder P) (\<lambda>holder_bal.
     if holder_bal \<le> 0 then Err CreditError.NotAHolder
     else and_then (retire_get_bond env bond_issuer bond_id P) (\<lambda>(config, P).
     if bc_project_id config \<noteq> project_id then Err CreditError.ProjectMismatch
     else if \<not> is_compatible_credit_type (bc_credit_type config) credit_type then Err CreditError.InvalidCreditType
     else and_then (ok_or (ret_coupon_engine st) CreditError.NotInitialized) (\<lambda>coupon_addr.
     and_then (retire_accrued env coupon_addr bond_id holder C) (\<lambda>(accrued, C).
     and_then (retire_period env coupon_addr bond_id period_index C) (\<lambda>(period, C).
     if \<not> pi_distributed period then Err CreditError.PeriodNotDistributed
     else if amount > accrued then Err CreditError.InsufficientCredits
     else and_then (retire_deduct env coupon_addr bond_id holder amount credit_type C) (\<lambda>C.
     and_then (record_retirement env holder bond_id project_id period_index period amount credit_type certificate_hash st)
       (\<lambda>(retirement_id, st). Ok (retirement_id, st, C, P)))))))))))"

section \<open>Getters and maintenance\<close>

definition get_retirement_record :: "u64 \<Rightarrow> retirement \<Rightarrow> (CreditError, RetirementRecord) result" where
  "get_retirement_record retirement_id st =
     ok_or (read_or_legacy (ret_retirement st) (lgc_retirement (ret_legacy st)) retirement_id)
       CreditError.RetirementNotFound"

definition get_retirement_certificate :: "u64 \<Rightarrow> retirement \<Rightarrow> (CreditError, RetirementCertificate) result" where
  "get_retirement_certificate retirement_id st =
     and_then (ok_or (read_or_legacy (ret_retirement st) (lgc_retirement (ret_legacy st)) retirement_id)
       CreditError.RetirementNotFound) (\<lambda>record. Ok (certificate_from_record record))"

definition get_bond_retirements :: "u64 \<Rightarrow> address \<Rightarrow> retirement \<Rightarrow> u64 list" where
  "get_bond_retirements bond_id holder st =
     unwrap_or (read_or_legacy (ret_bond_holder_retirements st) (lgc_bond_holder_retirements (ret_legacy st))
       (bond_id, holder)) []"

definition get_bond_certificates :: "u64 \<Rightarrow> address \<Rightarrow> retirement \<Rightarrow> RetirementCertificate list" where
  "get_bond_certificates bond_id holder st =
     List.map_filter (\<lambda>i. map_option certificate_from_record
       (read_or_legacy (ret_retirement st) (lgc_retirement (ret_legacy st)) i)) (get_bond_retirements bond_id holder st)"

definition extend_retirement_ttl :: "env \<Rightarrow> u64 \<Rightarrow> retirement \<Rightarrow> (CreditError, retirement) result" where
  "extend_retirement_ttl env retirement_id st =
     and_then (ok_or (read_or_legacy (ret_retirement st) (lgc_retirement (ret_legacy st)) retirement_id)
       CreditError.RetirementNotFound) (\<lambda>record.
     let st = st\<lparr>ret_retirement :=
           (if \<not> phas (ret_retirement st) retirement_id
            then retirement_write env (ret_retirement st) retirement_id record
            else retirement_extend env (ret_retirement st) retirement_id)\<rparr>
     in and_then (retirement_extend_ttl env (ret_holder_retirements st) (rr_holder record)) (\<lambda>m.
     let st = st\<lparr>ret_holder_retirements := m\<rparr>
     in and_then (retirement_extend_ttl env (ret_bond_holder_retirements st) (rr_bond_id record, rr_holder record)) (\<lambda>m.
     let st = st\<lparr>ret_bond_holder_retirements := m\<rparr>
     in Ok (if phas (ret_retirement_count st) ()
            then st\<lparr>ret_retirement_count := retirement_extend env (ret_retirement_count st) ()\<rparr> else st))))"

definition get_holder_retirements :: "address \<Rightarrow> retirement \<Rightarrow> u64 list" where
  "get_holder_retirements holder st =
     unwrap_or (read_or_legacy (ret_holder_retirements st) (lgc_holder_retirements (ret_legacy st)) holder) []"

definition get_total_retired :: "address \<Rightarrow> retirement \<Rightarrow> int" where
  "get_total_retired holder st =
     unwrap_or (read_or_legacy (ret_retired_credits st) (lgc_retired_credits (ret_legacy st)) holder) 0"

definition total_retirements :: "env \<Rightarrow> retirement \<Rightarrow> u64 \<times> retirement" where
  "total_retirements env st = get_retirement_count env st"

definition get_retired_by_type :: "address \<Rightarrow> CreditType \<Rightarrow> retirement \<Rightarrow> int" where
  "get_retired_by_type holder credit_type st =
     unwrap_or (read_or_legacy (ret_retired_by_type st) (lgc_retired_by_type (ret_legacy st)) (holder, credit_type)) 0"

section \<open>Steps\<close>

text \<open>
  A successful call of the contract, or a call that somebody else makes in between to the coupon engine
  it deducts from or to a contract that the engine reads.
\<close>

inductive retire_step ::
    "(env \<Rightarrow> bool) \<Rightarrow> retirement \<times> engines \<times> peers \<Rightarrow> timed_label \<Rightarrow> retirement \<times> engines \<times> peers \<Rightarrow> bool"
  for E :: "env \<Rightarrow> bool" where
  step_retire_credits: "E env \<Longrightarrow>
     retire_credits env holder bond_id project_id period_index amount credit_type certificate_hash nonce st C P =
       Ok (retirement_id, st', C', P') \<Longrightarrow>
     retire_step E (st, C, P) (timestamp env, Some (holder, nonce)) (st', C', P')"
| step_extend_retirement_ttl: "extend_retirement_ttl env retirement_id st = Ok st' \<Longrightarrow>
     retire_step E (st, C, P) (timestamp env, None) (st', C, P)"
| step_total_retirements: "total_retirements env st = (count, st') \<Longrightarrow>
     retire_step E (st, C, P) (timestamp env, None) (st', C, P)"
| step_engine: "ret_coupon_engine st = Some a \<Longrightarrow> C a = Some s \<Longrightarrow> coupon_step E (s, P) (now, l) (s', P') \<Longrightarrow>
     retire_step E (st, C, P) (now, None) (st, C(a \<mapsto> s'), P')"

section \<open>Abstract history\<close>

text \<open>
  What the contract promises: a history of retirements that is only ever appended to. \<open>history_of\<close> reads
  the records \<open>1, 2, \<dots>\<close> up to the counter; \<open>archive_ok\<close> says that the rest of the storage is determined
  by this history.
\<close>

record shelf =
  sh_records :: "u64 \<rightharpoonup> RetirementRecord"
  sh_count :: u64
  sh_holder :: "address \<Rightarrow> u64 list"
  sh_bond :: "u64 \<times> address \<Rightarrow> u64 list"
  sh_total :: "address \<Rightarrow> int"
  sh_per_bond :: "u64 \<times> address \<Rightarrow> int"

definition shelf_of :: "retirement \<Rightarrow> shelf" where
  "shelf_of st =
     \<lparr>sh_records = read_or_legacy (ret_retirement st) (lgc_retirement (ret_legacy st)),
      sh_count = unwrap_or (read_or_legacy (ret_retirement_count st) (\<lambda>_. lgc_retirement_count (ret_legacy st)) ()) 0,
      sh_holder = (\<lambda>h. unwrap_or (read_or_legacy (ret_holder_retirements st) (lgc_holder_retirements (ret_legacy st)) h) []),
      sh_bond = (\<lambda>k. unwrap_or (read_or_legacy (ret_bond_holder_retirements st)
         (lgc_bond_holder_retirements (ret_legacy st)) k) []),
      sh_total = (\<lambda>h. unwrap_or (read_or_legacy (ret_retired_credits st) (lgc_retired_credits (ret_legacy st)) h) 0),
      sh_per_bond = (\<lambda>k. unwrap_or (read_or_legacy (ret_retired_per_bond st)
         (lgc_retired_per_bond (ret_legacy st)) k) 0)\<rparr>"

definition shelf_history :: "shelf \<Rightarrow> RetirementRecord list" where
  "shelf_history S = map (\<lambda>i. the (sh_records S (of_nat i))) [1..<Suc (unat (sh_count S))]"

definition of_holder :: "address \<Rightarrow> RetirementRecord \<Rightarrow> bool" where
  "of_holder h r \<longleftrightarrow> rr_holder r = h"

definition on_bond :: "u64 \<Rightarrow> address \<Rightarrow> RetirementRecord \<Rightarrow> bool" where
  "on_bond b h r \<longleftrightarrow> rr_bond_id r = b \<and> rr_holder r = h"

text \<open>The shelf that stores a history.\<close>

definition shelved :: "RetirementRecord list \<Rightarrow> shelf \<Rightarrow> bool" where
  "shelved H S \<longleftrightarrow> unat (sh_count S) = length H \<and>
     sh_records S = (\<lambda>i. if 1 \<le> unat i \<and> unat i \<le> length H then Some (H ! (unat i - 1)) else None) \<and>
     (\<forall>k < length H. rr_id (H ! k) = of_nat (Suc k) \<and> 0 < rr_amount (H ! k)) \<and>
     (\<forall>h. sh_holder S h = map rr_id (filter (of_holder h) H)) \<and>
     (\<forall>b h. sh_bond S (b, h) = map rr_id (filter (on_bond b h) H)) \<and>
     (\<forall>h. sh_total S h = (\<Sum>r\<leftarrow>filter (of_holder h) H. rr_amount r)) \<and>
     (\<forall>b h. sh_per_bond S (b, h) = (\<Sum>r\<leftarrow>filter (on_bond b h) H. rr_amount r))"

definition put_on_shelf :: "RetirementRecord \<Rightarrow> shelf \<Rightarrow> shelf" where
  "put_on_shelf r S =
     \<lparr>sh_records = (sh_records S)(rr_id r \<mapsto> r), sh_count = rr_id r,
      sh_holder = (sh_holder S)(rr_holder r := sh_holder S (rr_holder r) @ [rr_id r]),
      sh_bond = (sh_bond S)((rr_bond_id r, rr_holder r) := sh_bond S (rr_bond_id r, rr_holder r) @ [rr_id r]),
      sh_total = (sh_total S)(rr_holder r := sh_total S (rr_holder r) + rr_amount r),
      sh_per_bond = (sh_per_bond S)((rr_bond_id r, rr_holder r) := sh_per_bond S (rr_bond_id r, rr_holder r) + rr_amount r)\<rparr>"

record vault =
  va_nonces :: "address \<Rightarrow> u64"
  va_history :: "RetirementRecord list"

definition history_of :: "retirement \<Rightarrow> RetirementRecord list" where
  "history_of st = shelf_history (shelf_of st)"

definition vault_of :: "retirement \<times> engines \<times> peers \<Rightarrow> vault" where
  "vault_of s = \<lparr>va_nonces = retirement_get_nonce (fst s), va_history = history_of (fst s)\<rparr>"

definition archive_ok :: "retirement \<times> engines \<times> peers \<Rightarrow> bool" where
  "archive_ok s \<longleftrightarrow> shelved (history_of (fst s)) (shelf_of (fst s))"

inductive vault_step :: "vault \<Rightarrow> timed_label \<Rightarrow> vault \<Rightarrow> bool" where
  v_retire: "n = va_nonces V a \<Longrightarrow> rr_holder r = a \<Longrightarrow> 0 < rr_amount r \<Longrightarrow> rr_retired_at r = now \<Longrightarrow>
     unat (rr_id r) = Suc (length (va_history V)) \<Longrightarrow>
     vault_step V (now, Some (a, n)) \<lparr>va_nonces = (va_nonces V)(a := n + 1), va_history = va_history V @ [r]\<rparr>"
| v_idle: "vault_step V (now, None) V"

text \<open>Credits that the events of the engine grant, pay out and deduct, and those that a history retires.\<close>

fun granted_flow :: "u64 \<Rightarrow> CouponEvent \<Rightarrow> int" where
  "granted_flow b (coupon_distributed b' i x k) = (if b' = b then x else 0)"
| "granted_flow b (undistributed_swept b' d x c y) = (if b' = b then x else 0)"
| "granted_flow b _ = 0"

fun claimed_flow :: "u64 \<Rightarrow> CouponEvent \<Rightarrow> int" where
  "claimed_flow b (credits_claimed b' a x) = (if b' = b then x else 0)"
| "claimed_flow b (credits_claimed_by_type b' a c y) = (if b' = b then c + y else 0)"
| "claimed_flow b _ = 0"

fun deducted_flow :: "u64 \<Rightarrow> CouponEvent \<Rightarrow> int" where
  "deducted_flow b (credits_deducted b' h x c) = (if b' = b then x else 0)"
| "deducted_flow b _ = 0"

definition retired_on :: "u64 \<Rightarrow> RetirementRecord list \<Rightarrow> int" where
  "retired_on b H = (\<Sum>r\<leftarrow>filter (\<lambda>r. rr_bond_id r = b) H. rr_amount r)"

text \<open>
  What \<open>k\<close> calls do to the coupon engine at \<open>a\<close>, which started as \<open>s0\<close>: a run of the engine of at most
  four calls for each, which deducted at least what was retired.
\<close>

definition backed :: "address \<Rightarrow> coupon_engine \<times> peers \<Rightarrow> nat \<Rightarrow> retirement \<times> engines \<times> peers \<Rightarrow> bool" where
  "backed a s0 k s \<longleftrightarrow> (case s of (st, C, P) \<Rightarrow> archive_ok s \<and> ret_coupon_engine st = Some a \<and>
     (\<exists>eng ls. C a = Some eng \<and> run (coupon_step overflow_checks) s0 ls (eng, P) \<and> length ls \<le> 4 * k \<and>
        (\<forall>b. retired_on b (history_of st) \<le> (\<Sum>e\<leftarrow>cpn_events eng. deducted_flow b e))))"

text \<open>The contract of the examples, next to the engine and the peers of the coupon examples.\<close>

definition sample_archive :: retirement where
  "sample_archive = retirement_constructor (checked_env 20) (Address 0) (Address 40) (Address 90)"

definition sample_engines :: engines where
  "sample_engines = [Address 90 \<mapsto> sample_engine]"

abbreviation retire_labels :: "timed_label list" where
  "retire_labels \<equiv> [(30, None), (31, None), (32, None), (40, Some (Address 1, 0))]"

section \<open>Refinement\<close>

lemma retirement_write_pget [storage_simps]:
  "pget (retirement_write env m k v) = (pget m)(k \<mapsto> v)" "pget (retirement_extend env m k) = pget m"
  by (simp_all add: retirement_write_def retirement_extend_def storage_simps)

lemma retirement_extend_ttl_Ok [storage_simps]:
  "retirement_extend_ttl env m k = Ok m' \<Longrightarrow> pget m' = pget m"
  by (auto simp: retirement_extend_ttl_def storage_simps)

lemma read_or_legacy_write [simp]: "read_or_legacy (retirement_write env m k v) l = (read_or_legacy m l)(k \<mapsto> v)"
  by (simp add: read_or_legacy_def fun_eq_iff storage_simps)

lemma read_or_legacy_cong: "pget m' = pget m \<Longrightarrow> read_or_legacy m' l = read_or_legacy m l"
  by (simp add: read_or_legacy_def)

lemma shelf_of_upd [simp]:
  "shelf_of (st\<lparr>ret_retirement := m1\<rparr>) = (shelf_of st)\<lparr>sh_records := read_or_legacy m1 (lgc_retirement (ret_legacy st))\<rparr>"
  "shelf_of (st\<lparr>ret_retirement_count := m2\<rparr>) = (shelf_of st)\<lparr>sh_count :=
     unwrap_or (read_or_legacy m2 (\<lambda>_. lgc_retirement_count (ret_legacy st)) ()) 0\<rparr>"
  "shelf_of (st\<lparr>ret_holder_retirements := m3\<rparr>) = (shelf_of st)\<lparr>sh_holder :=
     (\<lambda>h. unwrap_or (read_or_legacy m3 (lgc_holder_retirements (ret_legacy st)) h) [])\<rparr>"
  "shelf_of (st\<lparr>ret_bond_holder_retirements := m4\<rparr>) = (shelf_of st)\<lparr>sh_bond :=
     (\<lambda>k. unwrap_or (read_or_legacy m4 (lgc_bond_holder_retirements (ret_legacy st)) k) [])\<rparr>"
  "shelf_of (st\<lparr>ret_retired_credits := m5\<rparr>) = (shelf_of st)\<lparr>sh_total :=
     (\<lambda>h. unwrap_or (read_or_legacy m5 (lgc_retired_credits (ret_legacy st)) h) 0)\<rparr>"
  "shelf_of (st\<lparr>ret_retired_per_bond := m6\<rparr>) = (shelf_of st)\<lparr>sh_per_bond :=
     (\<lambda>k. unwrap_or (read_or_legacy m6 (lgc_retired_per_bond (ret_legacy st)) k) 0)\<rparr>"
  "shelf_of (st\<lparr>ret_nonces := ns\<rparr>) = shelf_of st" "shelf_of (st\<lparr>ret_instance_ttl := t\<rparr>) = shelf_of st"
  "shelf_of (st\<lparr>ret_events := es\<rparr>) = shelf_of st"
  by (simp_all add: shelf_of_def)

lemma shelf_reads:
  "unwrap_or (read_or_legacy (ret_holder_retirements st) (lgc_holder_retirements (ret_legacy st)) h) [] = sh_holder (shelf_of st) h"
  "unwrap_or (read_or_legacy (ret_bond_holder_retirements st) (lgc_bond_holder_retirements (ret_legacy st)) k) [] =
     sh_bond (shelf_of st) k"
  "unwrap_or (read_or_legacy (ret_retired_credits st) (lgc_retired_credits (ret_legacy st)) h) 0 = sh_total (shelf_of st) h"
  "unwrap_or (read_or_legacy (ret_retired_per_bond st) (lgc_retired_per_bond (ret_legacy st)) k) 0 = sh_per_bond (shelf_of st) k"
  "read_or_legacy (ret_retirement st) (lgc_retirement (ret_legacy st)) = sh_records (shelf_of st)"
  "unwrap_or (read_or_legacy (ret_retirement_count st) (\<lambda>_. lgc_retirement_count (ret_legacy st)) ()) 0 = sh_count (shelf_of st)"
  by (simp_all add: shelf_of_def)

lemma count_Ok:
  "get_retirement_count env st = (c, st') \<Longrightarrow> c = sh_count (shelf_of st) \<and> shelf_of st' = shelf_of st \<and>
     (\<exists>m. st' = st\<lparr>ret_retirement_count := m\<rparr>)"
  by (auto simp: get_retirement_count_def set_retirement_count_def shelf_of_def read_or_legacy_def
      Let_def storage_simps split: option.splits intro: exI [of _ "ret_retirement_count st"])

lemma record_retirement_Ok:
  assumes "record_retirement env h b pid i period x ct hash st = Ok (rid, st')" and "overflow_checks env"
  shows "\<exists>r. rr_id r = rid \<and> rr_holder r = h \<and> rr_bond_id r = b \<and> rr_amount r = x \<and> rr_retired_at r = timestamp env \<and>
    unat rid = Suc (unat (sh_count (shelf_of st))) \<and> ret_nonces st' = ret_nonces st \<and>
    ret_coupon_engine st' = ret_coupon_engine st \<and> shelf_of st' = put_on_shelf r (shelf_of st)"
proof -
  let ?st0 = "st\<lparr>ret_retired_per_bond := retirement_write env (ret_retired_per_bond st) (b, h) (sh_per_bond (shelf_of st) (b, h) + x)\<rparr>"
  obtain c st1 where c: "get_retirement_count env ?st0 = (c, st1)" by fastforce
  have st1: "c = sh_count (shelf_of st)" "shelf_of st1 = (shelf_of st)\<lparr>sh_per_bond :=
      (sh_per_bond (shelf_of st))((b, h) := sh_per_bond (shelf_of st) (b, h) + x)\<rparr>"
    "ret_nonces st1 = ret_nonces st" "ret_coupon_engine st1 = ret_coupon_engine st"
    using count_Ok [OF c] by (auto simp: shelf_reads unwrap_or_upd)
  have ar: "arith_i128 env (sh_per_bond (shelf_of st) (b, h) + x) = (Ok (sh_per_bond (shelf_of st) (b, h) + x) :: (CreditError, int) result)"
    using assms unfolding record_retirement_def by (auto simp: shelf_reads result_simps Let_def dest: arith_i128_exact)
  note go = assms(1) [unfolded record_retirement_def shelf_reads ar Let_def and_then.simps c prod.case]
  from go have rid: "add_word env c 1 = (Ok rid :: (CreditError, u64) result)" by (auto simp: result_simps)
  then have u: "unat rid = Suc (unat (sh_count (shelf_of st)))"
    using assms(2) st1(1) by (auto simp: add_word_def unat_inc split: if_splits)
  let ?r = "\<lparr>rr_id = rid, rr_holder = h, rr_bond_id = b, rr_project_id = pid, rr_period_index = i,
    rr_report_id = pi_report_id period, rr_vintage_year = year_from_timestamp (pi_end_time period),
    rr_vintage_period_start = pi_start_time period, rr_vintage_period_end = pi_end_time period, rr_amount = x,
    rr_credit_type = ct, rr_retired_at = timestamp env, rr_certificate_ipfs_hash = hash\<rparr>"
  have "ret_nonces st' = ret_nonces st \<and> ret_coupon_engine st' = ret_coupon_engine st \<and> shelf_of st' = put_on_shelf ?r (shelf_of st)"
    using go unfolding rid and_then.simps set_retirement_count_def
    by (auto simp: result_simps put_on_shelf_def shelf_reads st1 unwrap_or_upd)
  with u show ?thesis by (intro exI [of _ ?r]) simp
qed

lemma u64_of_nat: "n < 2 ^ 64 \<Longrightarrow> unat (of_nat n :: u64) = n"
  by (simp add: unsigned_of_nat take_bit_nat_eq_self)

lemma shelved_short: "shelved H S \<Longrightarrow> length H < 2 ^ 64"
  using unsigned_less [of "sh_count S", where 'a = nat] by (auto simp: shelved_def)

lemma shelved_history: 
  assumes "shelved H S"
  shows "shelf_history S = H"
proof (rule nth_equalityI)
  show "length (shelf_history S) = length H" using assms by (simp add: shelf_history_def shelved_def del: upt_Suc)
  fix k assume "k < length (shelf_history S)"
  then have k: "k < length H" using assms by (simp add: shelf_history_def shelved_def del: upt_Suc)
  then have "unat (of_nat (Suc k) :: u64) = Suc k" using shelved_short [OF assms] by (intro u64_of_nat) simp
  with k assms show "shelf_history S ! k = H ! k"
    by (simp add: shelf_history_def shelved_def nth_append del: of_nat_Suc upt_Suc)
qed

lemma shelved_put:
  assumes "shelved H S" and "unat (rr_id r) = Suc (unat (sh_count S))" and "0 < rr_amount r"
  shows "shelved (H @ [r]) (put_on_shelf r S)"
proof -
  have len: "unat (sh_count S) = length H" using assms(1) by (simp add: shelved_def)
  have id: "rr_id r = of_nat (Suc (length H))" using arg_cong [OF assms(2), of "of_nat :: nat \<Rightarrow> u64"] len by simp
  have "sh_records (put_on_shelf r S) =
      (\<lambda>i. if 1 \<le> unat i \<and> unat i \<le> length (H @ [r]) then Some ((H @ [r]) ! (unat i - 1)) else None)"
  proof
    fix i
    consider "i = rr_id r" | "unat i \<noteq> Suc (length H)" "i \<noteq> rr_id r" using assms(2) len by (metis word_unat_eq_iff)
    then show "sh_records (put_on_shelf r S) i =
        (if 1 \<le> unat i \<and> unat i \<le> length (H @ [r]) then Some ((H @ [r]) ! (unat i - 1)) else None)"
      using assms(1,2) len by cases (auto simp: put_on_shelf_def shelved_def nth_append)
  qed
  moreover have "\<forall>k < length (H @ [r]). rr_id ((H @ [r]) ! k) = of_nat (Suc k) \<and> 0 < rr_amount ((H @ [r]) ! k)"
    using assms(1,3) id by (auto simp: shelved_def nth_append less_Suc_eq)
  ultimately show ?thesis
    using assms(1,2) len by (simp add: shelved_def put_on_shelf_def of_holder_def on_bond_def)
qed

lemma extend_retirement_shelf:
  assumes "extend_retirement_ttl env i st = Ok st'"
  shows "shelf_of st' = shelf_of st \<and> ret_nonces st' = ret_nonces st \<and> ret_coupon_engine st' = ret_coupon_engine st"
proof -
  from assms obtain r where r: "sh_records (shelf_of st) i = Some r"
    by (auto simp: extend_retirement_ttl_def result_simps shelf_reads)
  then have same: "(sh_records (shelf_of st))(i \<mapsto> r) = sh_records (shelf_of st)" by (rule fun_upd_idem)
  have ext: "read_or_legacy (retirement_extend env m k) l = read_or_legacy m l" for m :: "('k, 'v) pstore" and k l
    by (rule read_or_legacy_cong) (simp add: storage_simps)
  have ext': "retirement_extend_ttl env m k = Ok m' \<Longrightarrow> read_or_legacy m' = read_or_legacy m"
    for m m' :: "('k, 'v) pstore" and k
    by (drule retirement_extend_ttl_Ok) (simp add: read_or_legacy_def fun_eq_iff)
  from assms r same show ?thesis
    by (auto simp: extend_retirement_ttl_def result_simps shelf_reads Let_def ext dest!: ext')
qed

lemma retirement_nonce_cong:
  "ret_nonces st' = ret_nonces st \<Longrightarrow> retirement_get_nonce st' = retirement_get_nonce st"
  by (rule ext) (simp add: retirement_get_nonce_def)

lemma retirement_nonce_set [simp]:
  "retirement_get_nonce (retirement_set_nonce env a n st) = (retirement_get_nonce st)(a := n)"
  by (rule ext) (simp add: retirement_get_nonce_def retirement_set_nonce_def storage_simps)

lemma retire_credits_OkE:
  assumes "retire_credits env h b pid i x ct hash n st C P = Ok (rid, st', C', P')"
  obtains ia ca cfg acc C1 period C2 st0
  where "n = retirement_get_nonce st h" and "st0 = retirement_set_nonce env h (n + 1) st" and "0 < x"
    and "retire_get_bond env ia b P = Ok (cfg, P')" and "bc_project_id cfg = pid" and "ret_coupon_engine st = Some ca"
    and "retire_accrued env ca b h C = Ok (acc, C1)" and "retire_period env ca b i C1 = Ok (period, C2)"
    and "pi_distributed period" and "retire_deduct env ca b h x ct C2 = Ok C'"
    and "record_retirement env h b pid i period x ct hash st0 = Ok (rid, st')"
  using assms
  by (auto simp: retire_credits_def result_simps Let_def retirement_set_nonce_def dest!: add_word_OkD split: if_splits)

lemma retire_credits_vault:
  assumes "retire_credits env h b pid i x ct hash n st C P = Ok (rid, st', C', P')" and "overflow_checks env"
    and "archive_ok (st, C, P)"
  shows "vault_step (vault_of (st, C, P)) (timestamp env, Some (h, n)) (vault_of (st', C', P')) \<and> archive_ok (st', C', P') \<and>
    ret_coupon_engine st' = ret_coupon_engine st \<and>
    (\<exists>r. history_of st' = history_of st @ [r] \<and> rr_bond_id r = b \<and> rr_amount r = x)"
proof -
  from assms(1) obtain st0 period where n: "n = retirement_get_nonce st h" and st0: "st0 = retirement_set_nonce env h (n + 1) st"
    and x: "0 < x" and rec: "record_retirement env h b pid i period x ct hash st0 = Ok (rid, st')"
    by (rule retire_credits_OkE)
  have S0: "shelf_of st0 = shelf_of st" unfolding st0 by (simp add: retirement_set_nonce_def)
  from record_retirement_Ok [OF rec assms(2)] obtain r where r: "rr_id r = rid" "rr_holder r = h" "rr_bond_id r = b"
    "rr_amount r = x" "rr_retired_at r = timestamp env" "unat rid = Suc (unat (sh_count (shelf_of st)))"
    "ret_nonces st' = ret_nonces st0" "ret_coupon_engine st' = ret_coupon_engine st0"
    "shelf_of st' = put_on_shelf r (shelf_of st)" unfolding S0 by blast
  let ?H = "history_of st"
  have H: "shelved ?H (shelf_of st)" using assms(3) by (simp add: archive_ok_def)
  then have H': "shelved (?H @ [r]) (shelf_of st')" using r x by (simp add: shelved_put)
  then have hist: "history_of st' = ?H @ [r]" unfolding history_of_def by (rule shelved_history)
  have nonces: "retirement_get_nonce st' = (retirement_get_nonce st)(h := n + 1)"
    unfolding retirement_nonce_cong [OF r(7)] st0 by simp
  have id: "unat (rr_id r) = Suc (length ?H)" using H r(1,6) by (simp add: shelved_def)
  have "vault_step (vault_of (st, C, P)) (timestamp env, Some (h, n))
      \<lparr>va_nonces = (va_nonces (vault_of (st, C, P)))(h := n + 1), va_history = va_history (vault_of (st, C, P)) @ [r]\<rparr>"
    by (rule v_retire) (simp_all only: vault_of_def vault.simps fst_conv n r(2,4,5) x id)
  then have "vault_step (vault_of (st, C, P)) (timestamp env, Some (h, n)) (vault_of (st', C', P'))"
    by (simp only: vault_of_def vault.simps fst_conv nonces hist)
  moreover have "ret_coupon_engine st' = ret_coupon_engine st" using r(8) by (simp add: st0 retirement_set_nonce_def)
  ultimately show ?thesis using H' r(3,4) by (intro conjI exI [of _ r]) (simp_all only: archive_ok_def hist fst_conv)
qed

lemma same_archive:
  assumes "shelf_of st' = shelf_of st" and "ret_nonces st' = ret_nonces st"
  shows "vault_of (st', C', P') = vault_of (st, C, P)" and "archive_ok (st', C', P') \<longleftrightarrow> archive_ok (st, C, P)"
  using assms(1) retirement_nonce_cong [OF assms(2)] by (simp_all add: vault_of_def archive_ok_def history_of_def)

lemma retire_step_vault:
  assumes "retire_step overflow_checks s l s'" and "archive_ok s"
  shows "vault_step (vault_of s) l (vault_of s') \<and> archive_ok s' \<and> ret_coupon_engine (fst s') = ret_coupon_engine (fst s)"
  using assms
proof (cases rule: retire_step.cases)
  case (step_retire_credits env h b pid i x ct hash n st C P rid st' C' P')
  from retire_credits_vault [OF step_retire_credits(5,4)] assms(2) show ?thesis
    unfolding step_retire_credits(1-3) fst_conv by blast
next
  case (step_extend_retirement_ttl env i st st' C P)
  from extend_retirement_shelf [OF step_extend_retirement_ttl(4)] assms(2) show ?thesis
    unfolding step_extend_retirement_ttl(1-3) fst_conv by (metis same_archive v_idle)
next
  case (step_total_retirements env st c st' C P)
  from count_Ok [OF step_total_retirements(4) [unfolded total_retirements_def]] obtain m
    where "shelf_of st' = shelf_of st" "st' = st\<lparr>ret_retirement_count := m\<rparr>" by blast
  then have "shelf_of st' = shelf_of st" "ret_nonces st' = ret_nonces st" "ret_coupon_engine st' = ret_coupon_engine st" by simp_all
  with assms(2) show ?thesis unfolding step_total_retirements(1-3) fst_conv by (metis same_archive v_idle)
next
  case (step_engine st a C s P now l s' P')
  from assms(2) show ?thesis unfolding step_engine(1-3) fst_conv by (metis same_archive v_idle)
qed

text \<open>A retirement is a short run of the coupon engine that ends with the deduction.\<close>

lemma retire_engine_run:
  assumes "retire_credits env h b pid i x ct hash n st C P = Ok (rid, st', C', P')" and "overflow_checks env"
  shows "\<exists>a s s' ls. ret_coupon_engine st = Some a \<and> C a = Some s \<and> C' a = Some s' \<and> length ls = 4 \<and>
    run (coupon_step overflow_checks) (s, P) ls (s', P') \<and> cpn_events s' = cpn_events s @ [credits_deducted b h x ct]"
proof -
  from assms(1) obtain ia ca cfg acc C1 period C2 where
    P': "retire_get_bond env ia b P = Ok (cfg, P')" and ca: "ret_coupon_engine st = Some ca" and
    c1: "retire_accrued env ca b h C = Ok (acc, C1)" and c2: "retire_period env ca b i C1 = Ok (period, C2)" and
    c3: "retire_deduct env ca b h x ct C2 = Ok C'" by (rule retire_credits_OkE)
  let ?e = "call_env env ca" and ?step = "coupon_step overflow_checks"
  have e: "overflow_checks ?e" using assms(2) by (simp add: call_env_def)
  from P' obtain iss iss' where iss: "issuers_at P ia = Some iss" "get_bond (call_env env ia) b iss = Ok (cfg, iss')"
    "P' = P\<lparr>issuers_at := (issuers_at P)(ia \<mapsto> iss')\<rparr>" by (auto simp: retire_get_bond_def result_simps)
  from c1 obtain s s1 where s: "C ca = Some s" "s1 = snd (accrued_credits ?e b h s)" "C1 ca = Some s1"
    by (auto simp: retire_accrued_def result_simps case_prod_unfold Let_def)
  from c2 s(3) obtain s2 where s2: "get_period_info ?e b i s1 = Ok (period, s2)" "C2 ca = Some s2"
    by (auto simp: retire_period_def result_simps)
  from c3 s2(2) obtain v s3 where s3: "deduct_credits ?e b h x ct s2 = Ok (v, s3)" "C' ca = Some s3"
    by (auto simp: retire_deduct_def result_simps)
  have t1: "?step (s, P) (0, None) (s, P')"
    unfolding iss(3) by (rule step_peer_issuer [OF iss(1) step_get_bond [OF iss(2)]])
  have t2: "?step (s, P') (timestamp ?e, None) (s1, P')" by (rule step_coupon_read) (use s(2) in blast)
  have t3: "?step (s1, P') (timestamp ?e, None) (s2, P')" by (rule step_get_period_info [OF s2(1)])
  have t4: "?step (s2, P') (timestamp ?e, None) (s3, P')" by (rule step_deduct_credits [where E = overflow_checks, OF e s3(1)])
  have run: "run ?step (s, P) [(0, None), (timestamp ?e, None), (timestamp ?e, None), (timestamp ?e, None)] (s3, P')"
    by (rule run_Cons [where step = ?step, OF t1], rule run_Cons [where step = ?step, OF t2],
        rule run_Cons [where step = ?step, OF t3], rule run_Cons [where step = ?step, OF t4], rule run_refl)
  have ev: "cpn_events s1 = cpn_events s" using s(2) by (simp add: accrued_credits_def case_prod_unfold Let_def)
  have ev2: "cpn_events s2 = cpn_events s1" using s2(1) by (auto simp: get_period_info_def result_simps case_prod_unfold Let_def)
  have "cpn_events s3 = cpn_events s @ [credits_deducted b h x ct]"
    using s3(1) ev ev2 by (auto simp: deduct_credits_def result_simps Let_def coupon_publish_def split: if_splits)
  with run ca s(1) s3(2) show ?thesis
    by (intro exI [of _ ca] exI [of _ s] exI [of _ s3] exI [of _ "[(0, None), (timestamp ?e, None), (timestamp ?e, None), (timestamp ?e, None)]"]) simp
qed

section \<open>Runs\<close>

interpretation retirement_vault: simulation "retire_step overflow_checks" vault_step vault_of archive_ok
  by unfold_locales (blast dest: retire_step_vault)+

interpretation vault_nonces: nonce_machine vault_step snd va_nonces
  by unfold_locales (auto elim!: vault_step.cases)

lemma retirement_start:
  "history_of (retirement_constructor env admin iss eng) = []" "archive_ok (retirement_constructor env admin iss eng, C, P)"
  by (simp_all add: archive_ok_def shelved_def history_of_def shelf_history_def shelf_of_def retirement_constructor_def
      read_or_legacy_def empty_legacy_def storage_simps fun_eq_iff)

lemma vault_run_history: "run vault_step V ls V' \<Longrightarrow> \<exists>K. va_history V' = va_history V @ K"
  by (induction rule: run.induct) (auto elim!: vault_step.cases)

lemma shelved_certificates:
  assumes "shelved H (shelf_of st)"
  shows "get_bond_certificates b h st = map certificate_from_record (filter (on_bond b h) H)"
proof -
  have lookup: "sh_records (shelf_of st) (rr_id r) = Some r" if "r \<in> set H" for r
  proof -
    from that obtain k where k: "k < length H" "r = H ! k" by (metis in_set_conv_nth)
    then have "unat (rr_id r) = Suc k"
      using assms shelved_short [OF assms] by (simp add: shelved_def u64_of_nat del: of_nat_Suc)
    with k assms show ?thesis by (simp add: shelved_def)
  qed
  have "List.map_filter (\<lambda>i. map_option certificate_from_record (sh_records (shelf_of st) i)) (map rr_id rs) =
      map certificate_from_record rs" if "set rs \<subseteq> set H" for rs
    using that by (induction rs) (auto simp: map_filter_simps lookup)
  from this [of "filter (on_bond b h) H"] assms show ?thesis
    by (simp add: get_bond_certificates_def get_bond_retirements_def shelf_reads shelved_def)
qed

lemma deducted_step:
  assumes "book_step B l B'"
  shows "(\<Sum>e\<leftarrow>bk_log B. deducted_flow b e) \<le> (\<Sum>e\<leftarrow>bk_log B'. deducted_flow b e)"
  using assms
proof (cases rule: book_step.cases)
  case (b_distribute n a b' i holders last_batch now)
  then show ?thesis
    unfolding bk_distribution_def by (cases last_batch) (auto simp: fold_pay_keeps bk_close_def bk_note_def bk_spend_def)
next
  case (b_claim n a x b B1 e now)
  then show ?thesis by (auto simp: bk_wipe_def bk_note_def bk_spend_def split: if_splits)
qed (auto simp: bk_note_def bk_spend_def)

lemma deducted_run:
  "run book_step B ls B' \<Longrightarrow> (\<Sum>e\<leftarrow>bk_log B. deducted_flow b e) \<le> (\<Sum>e\<leftarrow>bk_log B'. deducted_flow b e)"
  by (induction rule: run.induct) (auto dest: deducted_step [of _ _ _ b])

lemma credit_flow_parts: "credit_flow b e = granted_flow b e - claimed_flow b e - deducted_flow b e"
  by (cases e) auto

lemma engine_deducted:
  assumes "run (coupon_step overflow_checks) s0 ls (eng, P)" and "coupon_typed s0"
    and "coupon_step overflow_checks (eng, P) l (eng', P')"
  shows "(\<Sum>e\<leftarrow>cpn_events eng. deducted_flow b e) \<le> (\<Sum>e\<leftarrow>cpn_events eng'. deducted_flow b e)"
  using deducted_step [OF coupon_book.sim [OF assms(3) coupon_book.wt_run [OF assms(1,2)]], of b]
  by (simp add: book_of_def)

lemma backed_step:
  assumes "retire_step overflow_checks s l s'" and "backed a s0 k s" and "coupon_typed s0"
  shows "backed a s0 (Suc k) s'"
proof -
  obtain st C P st' C' P' where s: "s = (st, C, P)" "s' = (st', C', P')" by (metis prod_cases3)
  from assms(2) obtain eng ls where b: "archive_ok s" "ret_coupon_engine st = Some a" "C a = Some eng"
    "run (coupon_step overflow_checks) s0 ls (eng, P)" "length ls \<le> 4 * k"
    "\<And>b. retired_on b (history_of st) \<le> (\<Sum>e\<leftarrow>cpn_events eng. deducted_flow b e)"
    by (auto simp: backed_def s(1))
  from retire_step_vault [OF assms(1) b(1)] b(2)
  have v: "vault_step (vault_of s) l (vault_of s')" "archive_ok s'" "ret_coupon_engine st' = Some a" by (simp_all add: s)
  have "\<exists>eng' ls'. C' a = Some eng' \<and> run (coupon_step overflow_checks) s0 ls' (eng', P') \<and> length ls' \<le> 4 * Suc k \<and>
    (\<forall>b. retired_on b (history_of st') \<le> (\<Sum>e\<leftarrow>cpn_events eng'. deducted_flow b e))"
    using assms(1) unfolding s
  proof (cases rule: retire_step.cases)
    case (step_retire_credits env h bd pid i x ct hash n rid)
    from retire_engine_run [OF step_retire_credits(3,2)] b(2,3) obtain eng' ls'
      where e: "C' a = Some eng'" "length ls' = 4" "run (coupon_step overflow_checks) (eng, P) ls' (eng', P')"
        "cpn_events eng' = cpn_events eng @ [credits_deducted bd h x ct]" by auto
    from retire_credits_vault [OF step_retire_credits(3,2)] b(1) obtain r
      where r: "history_of st' = history_of st @ [r]" "rr_bond_id r = bd" "rr_amount r = x" unfolding s by blast
    have "retired_on b (history_of st') \<le> (\<Sum>e\<leftarrow>cpn_events eng'. deducted_flow b e)" for b
      using b(6) [of b] r e(4) by (simp add: retired_on_def)
    with e b(5) run_append [OF b(4) e(3)] show ?thesis by (intro exI [of _ eng'] exI [of _ "ls @ ls'"]) simp
  next
    case (step_extend_retirement_ttl env i)
    with extend_retirement_shelf [OF step_extend_retirement_ttl(4)] b show ?thesis
      by (intro exI [of _ eng] exI [of _ ls]) (simp add: history_of_def)
  next
    case (step_total_retirements env c)
    with count_Ok [OF step_total_retirements(4) [unfolded total_retirements_def]] b show ?thesis
      by (intro exI [of _ eng] exI [of _ ls]) (simp add: history_of_def)
  next
    case (step_engine a' eng0 now l eng')
    then have e: "eng0 = eng" "C' a = Some eng'" "st' = st" using b(2,3) by auto
    have "retired_on b (history_of st') \<le> (\<Sum>e\<leftarrow>cpn_events eng'. deducted_flow b e)" for b
      using engine_deducted [OF b(4) assms(3) step_engine(6) [unfolded e(1)], of b] b(6) [of b] e(3) by simp
    moreover have "run (coupon_step overflow_checks) s0 (ls @ [(now, l)]) (eng', P')"
      using run_snoc [OF b(4)] step_engine(6) e(1) by blast
    ultimately show ?thesis using e b(5) by (intro exI [of _ eng'] exI [of _ "ls @ [(now, l)]"]) simp
  qed
  with v show ?thesis by (simp add: backed_def s)
qed

lemma backed_run:
  "run (retire_step overflow_checks) s ls s' \<Longrightarrow> backed a s0 0 s \<Longrightarrow> coupon_typed s0 \<Longrightarrow> backed a s0 (length ls) s'"
  by (induction rule: run.induct) (auto intro: backed_step)


section \<open>Properties\<close>

lemma reachable_archive:
  "run (retire_step overflow_checks) (retirement_constructor env admin iss eng, C0, P0) ls s \<Longrightarrow> archive_ok s"
  by (rule retirement_vault.wt_run [OF _ retirement_start(2)])

lemma shelved_getters:
  assumes "shelved H (shelf_of st)"
  shows "get_retirement_record i st = (if 1 \<le> unat i \<and> unat i \<le> length H
      then Ok (H ! (unat i - 1)) else Err CreditError.RetirementNotFound)"
    and "get_holder_retirements h st = map rr_id (filter (of_holder h) H)"
    and "get_total_retired h st = (\<Sum>r\<leftarrow>filter (of_holder h) H. rr_amount r)"
  using assms
  by (simp_all add: get_retirement_record_def get_holder_retirements_def get_total_retired_def shelf_reads shelved_def ok_or_def)

text \<open>
  C9. The archive is exact. In every reachable state there is one record for each number up to the
  counter and none beyond, and the lists of numbers, the certificates and the totals that the getters
  report for a holder, or for a holder and a bond, are exactly those of the holder's records, in the order
  of retirement.
\<close>

theorem retirement_archive_exact:
  assumes "run (retire_step overflow_checks) (retirement_constructor env admin iss eng, C0, P0) ls (st, C, P)"
  shows "fst (total_retirements env' st) = of_nat (length (history_of st)) \<and> length (history_of st) < 2 ^ 64 \<and>
    get_retirement_record i st = (if 1 \<le> unat i \<and> unat i \<le> length (history_of st)
      then Ok (history_of st ! (unat i - 1)) else Err CreditError.RetirementNotFound) \<and>
    get_holder_retirements h st = map rr_id (filter (of_holder h) (history_of st)) \<and>
    get_total_retired h st = (\<Sum>r\<leftarrow>filter (of_holder h) (history_of st). rr_amount r) \<and>
    get_bond_certificates b h st = map certificate_from_record (filter (on_bond b h) (history_of st)) \<and>
    (\<forall>r\<in>set (history_of st). 0 < rr_amount r)"
proof -
  have S: "shelved (history_of st) (shelf_of st)" using reachable_archive [OF assms] by (simp add: archive_ok_def)
  obtain c st1 where c: "get_retirement_count env' st = (c, st1)" by fastforce
  have "unat c = length (history_of st)" using count_Ok [OF c] S by (simp add: shelved_def)
  then have "of_nat (length (history_of st)) = c" using u64_of_nat [OF shelved_short [OF S]] by (simp add: word_unat_eq_iff)
  with c have "fst (total_retirements env' st) = of_nat (length (history_of st))" by (simp add: total_retirements_def)
  moreover have "\<forall>r\<in>set (history_of st). 0 < rr_amount r" using S by (auto simp: shelved_def in_set_conv_nth)
  ultimately show ?thesis
    using shelved_short [OF S] shelved_certificates [OF S] shelved_getters [OF S] by blast
qed

text \<open>
  C23. Retirement is permanent. A certificate that can be read in some reachable state can be read,
  unchanged, in every later one, and the credits a holder has retired never go down.
\<close>

theorem retirement_permanent:
  assumes "run (retire_step overflow_checks) (retirement_constructor env admin iss eng, C0, P0) ls (st, C, P)"
    and "run (retire_step overflow_checks) (st, C, P) ls' (st', C', P')"
  shows "(\<forall>i c. get_retirement_certificate i st = Ok c \<longrightarrow> get_retirement_certificate i st' = Ok c) \<and>
    get_total_retired h st \<le> get_total_retired h st'"
proof -
  have ok: "archive_ok (st, C, P)" "archive_ok (st', C', P')"
    using reachable_archive [OF assms(1)] reachable_archive [OF run_append [OF assms]] by blast+
  then have S: "shelved (history_of st) (shelf_of st)" "shelved (history_of st') (shelf_of st')"
    by (simp_all add: archive_ok_def)
  from vault_run_history [OF retirement_vault.run_refines [OF assms(2) ok(1)]] obtain K
    where K: "history_of st' = history_of st @ K" by (auto simp: vault_of_def)
  have "\<forall>r\<in>set (history_of st'). 0 < rr_amount r" using S(2) by (auto simp: shelved_def in_set_conv_nth)
  then have "0 \<le> (\<Sum>r\<leftarrow>filter (of_holder h) K. rr_amount r)" by (intro sum_list_nonneg) (auto simp: K intro: less_imp_le)
  then have "get_total_retired h st \<le> get_total_retired h st'"
    using shelved_getters(3) [OF S(1)] shelved_getters(3) [OF S(2)] by (simp add: K)
  moreover have "get_retirement_certificate i st' = Ok c" if "get_retirement_certificate i st = Ok c" for i c
    using that S by (auto simp: get_retirement_certificate_def shelf_reads shelved_def K nth_append result_simps
        split: if_splits)
  ultimately show ?thesis by blast
qed

text \<open>
  C22. A certificate is truthful. A retirement is only recorded for a holder of the bond who signed it, who
  had at least the amount accrued at the coupon engine, for the project of the bond, a kind of credit the
  bond pays and a period that was distributed; the certificate it stores names exactly these, with the
  report and the vintage of the period and the time of the call.
\<close>

theorem certificate_truthful:
  assumes "retire_credits env h b pid i x ct hash n st C P = Ok (rid, st', C', P')"
  shows "\<exists>ia iss cfg ca eng period. require_auth env h = (Ok () :: (CreditError, unit) result) \<and>
    ret_bond_issuer st = Some ia \<and> issuers_at P ia = Some iss \<and> 0 < get_holder_balance iss b h \<and>
    pget (iss_configs iss) b = Some cfg \<and> bc_project_id cfg = pid \<and> is_compatible_credit_type (bc_credit_type cfg) ct \<and>
    ret_coupon_engine st = Some ca \<and> C ca = Some eng \<and> 0 < x \<and> x \<le> unwrap_or (pget (cpn_accrued eng) (b, h)) 0 \<and>
    pget (cpn_period_info eng) (b, i) = Some period \<and> pi_distributed period \<and>
    get_retirement_certificate rid st' = Ok
      \<lparr>rc_record_id = rid, rc_holder = h, rc_bond_id = b, rc_project_id = bc_project_id cfg, rc_period_index = i,
       rc_report_id = pi_report_id period, rc_vintage_year = year_from_timestamp (pi_end_time period),
       rc_vintage_period_start = pi_start_time period, rc_vintage_period_end = pi_end_time period, rc_amount = x,
       rc_credit_type = ct, rc_retired_at = timestamp env, rc_certificate_hash = hash\<rparr>"
proof -
  from assms obtain ia ca cfg acc C1 period C2 st0 iss where
    ia: "ret_bond_issuer st = Some ia" "issuers_at P ia = Some iss" "0 < get_holder_balance iss b h"
      "retire_get_bond env ia b P = Ok (cfg, P')" and
    cfg: "bc_project_id cfg = pid" "is_compatible_credit_type (bc_credit_type cfg) ct" and
    auth: "require_auth env h = (Ok () :: (CreditError, unit) result)" and x: "0 < x" "x \<le> acc" and
    ca: "ret_coupon_engine st = Some ca" and
    c1: "retire_accrued env ca b h C = Ok (acc, C1)" and c2: "retire_period env ca b i C1 = Ok (period, C2)" and
    d: "pi_distributed period" and
    rec: "record_retirement env h b pid i period x ct hash (retirement_set_nonce env h (n + 1) st) = Ok (rid, st')"
    by (auto simp: retire_credits_def result_simps Let_def retirement_set_nonce_def retire_holder_balance_def
        not_le not_less dest!: add_word_OkD split: if_splits)
  have "pget (iss_configs iss) b = Some cfg" using ia by (auto simp: retire_get_bond_def get_bond_def result_simps)
  moreover from c1 obtain eng where "C ca = Some eng" "C1 = C(ca \<mapsto> snd (accrued_credits (call_env env ca) b h eng))"
      "acc = fst (accrued_credits (call_env env ca) b h eng)"
    by (auto simp: retire_accrued_def result_simps case_prod_unfold Let_def)
  moreover from this c2 have "pget (cpn_period_info eng) (b, i) = Some period"
    by (auto simp: retire_period_def get_period_info_def accrued_credits_def result_simps case_prod_unfold Let_def storage_simps)
  moreover have "get_retirement_certificate rid st' = Ok
      \<lparr>rc_record_id = rid, rc_holder = h, rc_bond_id = b, rc_project_id = bc_project_id cfg, rc_period_index = i,
       rc_report_id = pi_report_id period, rc_vintage_year = year_from_timestamp (pi_end_time period),
       rc_vintage_period_start = pi_start_time period, rc_vintage_period_end = pi_end_time period, rc_amount = x,
       rc_credit_type = ct, rc_retired_at = timestamp env, rc_certificate_hash = hash\<rparr>"
    using rec cfg by (auto simp: record_retirement_def result_simps Let_def case_prod_unfold get_retirement_certificate_def
        certificate_from_record_def)
  ultimately show ?thesis using ia cfg auth x ca d by (auto simp: accrued_credits_def case_prod_unfold Let_def storage_simps)
qed

lemma sum_flow_parts:
  "(\<Sum>e\<leftarrow>es. credit_flow b e) =
     (\<Sum>e\<leftarrow>es. granted_flow b e) - (\<Sum>e\<leftarrow>es. claimed_flow b e) - (\<Sum>e\<leftarrow>es. deducted_flow b e)"
  by (simp add: credit_flow_parts sum_list_subtractf)

lemma accrued_covers:
  assumes "coupon_start n s0" and "run (coupon_step overflow_checks) s0 ls (st, P)" and "n + length ls < 2 ^ 64"
  shows "(\<Sum>e\<leftarrow>cpn_events st. deducted_flow b e) + (\<Sum>e\<leftarrow>cpn_events st. claimed_flow b e) \<le>
    (\<Sum>e\<leftarrow>cpn_events st. granted_flow b e) + in_flight (pget (cpn_batch_state st)) b"
proof -
  note inv = book_invD [OF coupon_reachable(2) [OF assms]]
  have "0 \<le> bk_accrued (book_of (st, P)) (b', h)" for b' h using inv(2) by (simp add: bk_split_def)
  then have "0 \<le> y" if "pget (cpn_accrued st) k = Some y" for k y
    using that book_reads(1) [of st k P] by (cases k) (simp add: unwrap_or_def)
  then have "0 \<le> map_total (pget (cpn_accrued st)) (of_bond b)"
    unfolding map_total_def by (intro sum_nonneg) auto
  moreover have "map_total (pget (cpn_accrued st)) (of_bond b) =
      (\<Sum>e\<leftarrow>cpn_events st. credit_flow b e) + in_flight (pget (cpn_batch_state st)) b"
    using inv(7) by (simp add: bk_sums_def book_reads [where P = P])
  ultimately show ?thesis by (simp add: sum_flow_parts)
qed

section \<open>Witnesses\<close>

lemmas retire_exec = coupon_exec retire_credits_def record_retirement_def retire_holder_balance_def retire_get_bond_def
  retire_accrued_def retire_period_def retire_deduct_def retirement_get_nonce_def retirement_set_nonce_def
  retirement_write_def retirement_extend_def read_or_legacy_def set_retirement_count_def get_retirement_count_def
  retirement_constructor_def empty_legacy_def get_holder_balance_def accrued_credits_def get_period_info_def
  is_zero_hash_def certificate_from_record_def sample_archive_def

lemma sample_retirement_calls:
  "\<exists>st1 P1 st2 r3 st3 P3 a4 C4 P4.
     register_bond (checked_env 30) (Address 0) 1 (replicate 32 1) 0 sample_engine sample_peers = Ok (st1, P1) \<and>
     register_deduct_caller (checked_env 31) (Address 0) (Address 8) 1 st1 = Ok st2 \<and>
     distribute_coupon (checked_env 32) (Address 0) 1 0 [(Address 1, 300), (Address 2, 200)] 7 2 True st2 P1 = Ok (r3, st3, P3) \<and>
     retire_credits (checked_env 40) (Address 1) 1 (replicate 32 1) 0 250 BlueCarbon (replicate 32 9) 0
       sample_archive [Address 90 \<mapsto> st3] P3 = Ok (1, a4, C4, P4) \<and>
     get_total_retired (Address 1) a4 = 250"
  by (simp add: retire_exec get_total_retired_def list_all_iff word_le_nat_alt word_less_nat_alt)

lemma sample_retirement_run:
  "\<exists>C3 P3 st C P. run (retire_step overflow_checks) (sample_archive, sample_engines, sample_peers) retire_labels (st, C, P) \<and>
     retire_credits (checked_env 40) (Address 1) 1 (replicate 32 1) 0 250 BlueCarbon (replicate 32 9) 0 sample_archive C3 P3 =
       Ok (1, st, C, P) \<and> get_total_retired (Address 1) st = 250"
proof -
  have env: "overflow_checks (checked_env t)" "timestamp (checked_env t) = t" for t by (simp_all add: checked_env_def)
  from sample_retirement_calls obtain st1 P1 st2 r3 st3 P3 a4 C4 P4
    where 1: "register_bond (checked_env 30) (Address 0) 1 (replicate 32 1) 0 sample_engine sample_peers = Ok (st1, P1)"
      and 2: "register_deduct_caller (checked_env 31) (Address 0) (Address 8) 1 st1 = Ok st2"
      and 3: "distribute_coupon (checked_env 32) (Address 0) 1 0 [(Address 1, 300), (Address 2, 200)] 7 2 True st2 P1 = Ok (r3, st3, P3)"
      and 4: "retire_credits (checked_env 40) (Address 1) 1 (replicate 32 1) 0 250 BlueCarbon (replicate 32 9) 0
        sample_archive [Address 90 \<mapsto> st3] P3 = Ok (1, a4, C4, P4)"
      and v: "get_total_retired (Address 1) a4 = 250" by blast
  have eng: "ret_coupon_engine sample_archive = Some (Address 90)" by (simp add: sample_archive_def retirement_constructor_def)
  let ?step = "retire_step overflow_checks"
  have s: "?step (sample_archive, [Address 90 \<mapsto> s], P) (now, None) (sample_archive, [Address 90 \<mapsto> s'], P')"
    if "coupon_step overflow_checks (s, P) (now, l) (s', P')" for s P now l s' P'
    using step_engine [where E = overflow_checks, OF eng _ that, of "[Address 90 \<mapsto> s]"] by simp
  have s1: "?step (sample_archive, [Address 90 \<mapsto> sample_engine], sample_peers) (30, None) (sample_archive, [Address 90 \<mapsto> st1], P1)"
    by (rule s) (use step_register_bond [where E = overflow_checks, OF env(1) 1] in \<open>simp add: env\<close>)
  have s2: "?step (sample_archive, [Address 90 \<mapsto> st1], P1) (31, None) (sample_archive, [Address 90 \<mapsto> st2], P1)"
    by (rule s) (use step_register_deduct_caller [where E = overflow_checks, OF env(1) 2, of P1] in \<open>simp add: env\<close>)
  have s3: "?step (sample_archive, [Address 90 \<mapsto> st2], P1) (32, None) (sample_archive, [Address 90 \<mapsto> st3], P3)"
    by (rule s) (use step_distribute_coupon [where E = overflow_checks, OF env(1) 3] in \<open>simp add: env\<close>)
  have s4: "?step (sample_archive, [Address 90 \<mapsto> st3], P3) (40, Some (Address 1, 0)) (a4, C4, P4)"
    using step_retire_credits [where E = overflow_checks, OF env(1) 4] by (simp add: env)
  have "run ?step (sample_archive, sample_engines, sample_peers) retire_labels (a4, C4, P4)" unfolding sample_engines_def
    by (rule run_Cons [where step = ?step, OF s1], rule run_Cons [where step = ?step, OF s2],
        rule run_Cons [where step = ?step, OF s3], rule run_Cons [where step = ?step, OF s4], rule run_refl)
  with 4 v show ?thesis by blast
qed

theorem retirement_archive_exact_witness:
  "\<exists>(st :: retirement) (C :: engines) (P :: peers).
     run (retire_step overflow_checks) (sample_archive, sample_engines, sample_peers) retire_labels (st, C, P) \<and>
     250 = (\<Sum>r\<leftarrow>filter (of_holder (Address 1)) (history_of st). rr_amount r) \<and>
     fst (total_retirements (checked_env 50) st) = of_nat (length (history_of st))"
proof -
  from sample_retirement_run obtain st C P
    where r: "run (retire_step overflow_checks) (sample_archive, sample_engines, sample_peers) retire_labels (st, C, P)"
      and v: "get_total_retired (Address 1) st = 250" by blast
  from retirement_archive_exact [OF r [unfolded sample_archive_def], of "checked_env 50" 1 "Address 1" 1]
  have "250 = (\<Sum>r\<leftarrow>filter (of_holder (Address 1)) (history_of st). rr_amount r) \<and>
     fst (total_retirements (checked_env 50) st) = of_nat (length (history_of st))" unfolding v by blast
  with r show ?thesis by blast
qed

theorem retirement_permanent_witness:
  "\<exists>(st :: retirement) (C :: engines) (P :: peers) (c :: u64) (st' :: retirement).
     run (retire_step overflow_checks) (sample_archive, sample_engines, sample_peers) retire_labels (st, C, P) \<and>
     total_retirements (checked_env 50) st = (c, st') \<and> 250 \<le> get_total_retired (Address 1) st'"
proof -
  from sample_retirement_run obtain st C P
    where r: "run (retire_step overflow_checks) (sample_archive, sample_engines, sample_peers) retire_labels (st, C, P)"
      and v: "get_total_retired (Address 1) st = 250" by blast
  obtain c st' where t: "total_retirements (checked_env 50) st = (c, st')" by fastforce
  have "run (retire_step overflow_checks) (st, C, P) [(timestamp (checked_env 50), None)] (st', C, P)"
    by (rule run_Cons [where step = "retire_step overflow_checks", OF step_total_retirements [where E = overflow_checks, OF t]],
        rule run_refl)
  from retirement_permanent [OF r [unfolded sample_archive_def] this, of "Address 1"]
  have "250 \<le> get_total_retired (Address 1) st'" unfolding v by (rule conjunct2)
  with r t show ?thesis by blast
qed

theorem certificate_truthful_witness:
  "\<exists>(st :: retirement) (C :: engines) (P :: peers) (C' :: engines) (P' :: peers) (ca :: address) (eng :: coupon_engine) period.
     retire_credits (checked_env 40) (Address 1) 1 (replicate 32 1) 0 250 BlueCarbon (replicate 32 9) 0 sample_archive C P =
       Ok (1, st, C', P') \<and> C ca = Some eng \<and> 250 \<le> unwrap_or (pget (cpn_accrued eng) (1, Address 1)) 0 \<and>
     pget (cpn_period_info eng) (1, 0) = Some period \<and> pi_distributed period"
proof -
  from sample_retirement_run obtain st C P C' P' where
    r: "retire_credits (checked_env 40) (Address 1) 1 (replicate 32 1) 0 250 BlueCarbon (replicate 32 9) 0 sample_archive C P =
       Ok (1, st, C', P')" by blast
  from certificate_truthful [OF r] r show ?thesis by blast
qed

end
