(* ===== verification/Batches.thy ===== *)
theory Batches
  imports Coupon_Book
begin

text \<open>
  Distributions in several batches: \<^verbatim>\<open>distribute_coupon\<close> of \<^verbatim>\<open>contracts/coupon-engine/src/lib.rs\<close> stores the state of
  an open period and skips the holders it has paid. The lemmas compute what one call does to the book of
  credits and show that it composes, so that a list of holders may be cut anywhere, and that every paying call
  brings the period closer to its settlement.
\<close>

section \<open>Batches and their effect\<close>

text \<open>A batch that is not the last one, as a function of the batch state it starts from.\<close>

definition batch_effect :: "u64 \<Rightarrow> u32 \<Rightarrow> CreditType \<Rightarrow> BatchState \<Rightarrow> int \<Rightarrow> int \<Rightarrow> (address \<times> int) list \<Rightarrow> u32 \<Rightarrow> book \<Rightarrow> book" where
  "batch_effect b i ct s subs p pays k B = (fold (bk_pay b i ct s) pays B)
     \<lparr>bk_batches := (bk_batches B)((b, i) \<mapsto> advance (\<Sum>p\<leftarrow>pays. carbon_share ct s (snd p)) (\<Sum>p\<leftarrow>pays. bio_share ct s (snd p)) k s),
      bk_progress := (bk_progress B)((b, i) \<mapsto> (subs, p + sum_list (map snd pays)))\<rparr>"

text \<open>The batch a call starts from, and what it does to the book from there.\<close>

definition begins :: "env \<Rightarrow> address \<Rightarrow> u64 \<Rightarrow> u32 \<Rightarrow> u64 \<Rightarrow> u64 \<Rightarrow> coupon_engine \<Rightarrow> peers \<Rightarrow>
    CreditType \<Rightarrow> BatchState \<Rightarrow> int \<Rightarrow> int \<Rightarrow> bool" where
  "begins env a b i rid n st P ct s subs p \<longleftrightarrow> (\<exists>st0 pid st1 P1. coupon_consume_nonce env a n st = Ok st0 \<and>
     cpn_bond_project st0 b = Some pid \<and> cpn_bond_credit_type st0 b = Some ct \<and>
     (case pget (cpn_batch_state st0) (b, i) of
        Some s \<Rightarrow> and_then (resume_batch env b i rid s st0) (\<lambda>(s, subs, processed, st). Ok (s, subs, processed, st, P))
      | None \<Rightarrow> open_batch env b i rid pid ct st0 P) = Ok (s, subs, p, st1, P1))"

definition ends :: "u64 \<Rightarrow> u32 \<Rightarrow> bool \<Rightarrow> book \<Rightarrow> book \<Rightarrow> bool" where
  "ends b i fin B B' \<longleftrightarrow> (if fin then \<exists>s info. bk_batches B (b, i) = Some s \<and> B' = bk_close b i s info B \<and>
     pi_total_credits_earned info = ba_distributed_so_far s \<and> pi_undistributed info = ba_total_credits s - ba_distributed_so_far s
   else B' = B)"

text \<open>Two books in which the holders, the leftovers and the period \<open>k\<close> stand alike.\<close>

definition alike :: "u64 \<times> u32 \<Rightarrow> book \<Rightarrow> book \<Rightarrow> bool" where
  "alike k B B' \<longleftrightarrow> bk_accrued B = bk_accrued B' \<and> bk_bucket B = bk_bucket B' \<and> bk_paid B = bk_paid B' \<and>
     bk_dust B = bk_dust B' \<and> bk_dust_by B = bk_dust_by B' \<and> bk_progress B k = bk_progress B' k \<and>
     map_option (\<lambda>s. s\<lparr>ba_holder_count_so_far := 0\<rparr>) (bk_batches B k) = map_option (\<lambda>s. s\<lparr>ba_holder_count_so_far := 0\<rparr>) (bk_batches B' k) \<and>
     map_option (\<lambda>info. (pi_total_credits_earned info, pi_undistributed info)) (bk_periods B k) =
       map_option (\<lambda>info. (pi_total_credits_earned info, pi_undistributed info)) (bk_periods B' k)"

text \<open>
  How far a period is: not opened, open or settled, and how many tokens of an open one are not processed. A
  call pays for a period if it marks a holder that was not marked.
\<close>

definition stage :: "u64 \<times> u32 \<Rightarrow> book \<Rightarrow> nat" where
  "stage k B = (if \<exists>info. bk_periods B k = Some info \<and> pi_distributed info then 0
     else if bk_batches B k \<noteq> None then 1 else 2)"

definition unprocessed :: "u64 \<times> u32 \<Rightarrow> book \<Rightarrow> nat" where
  "unprocessed k B = (case bk_progress B k of Some (subs, p) \<Rightarrow> nat (subs - p) | None \<Rightarrow> 0)"

definition pays_for :: "u64 \<Rightarrow> u32 \<Rightarrow> coupon_engine \<times> peers \<Rightarrow> coupon_engine \<times> peers \<Rightarrow> bool" where
  "pays_for b i s s' \<longleftrightarrow> (\<exists>env a hs rid n last_batch res. overflow_checks env \<and>
     distribute_coupon env a b i hs rid n last_batch (fst s) (snd s) = Ok (res, s') \<and>
     (\<exists>h. phas (cpn_holder_distributed (fst s')) (b, i, h) \<and> \<not> phas (cpn_holder_distributed (fst s)) (b, i, h)))"

section \<open>Lists of payments\<close>

text \<open>Paying depends on the rates of the batch only, and the list of payments splits like the list of holders.\<close>

lemma payable_append:
  "payable paid (hs @ ks) = payable paid hs @ payable (\<lambda>h. paid h \<or> h \<in> fst ` set (payable paid hs)) ks"
proof (induction hs arbitrary: paid)
  case (Cons hx hs)
  obtain h x where hx: "hx = (h, x)" by (cases hx)
  define P where "P = paid(h := True)"
  show ?case
  proof (cases "paid h \<or> x \<le> 0")
    case True
    then show ?thesis by (simp add: hx Cons)
  next
    case False
    have "(\<lambda>k. P k \<or> k \<in> fst ` set (payable P hs)) = (\<lambda>k. paid k \<or> k \<in> fst ` set ((h, x) # payable P hs))"
      by (auto simp: P_def)
    moreover have "payable paid (hx # xs) = (h, x) # payable P xs" for xs using False by (simp add: hx P_def)
    ultimately show ?thesis using Cons [of P] by simp
  qed
qed simp

lemma bk_pay_advance: "bk_pay b i ct (advance c y k s) = bk_pay b i ct s"
  by (cases ct) (simp_all add: fun_eq_iff bk_pay_def carbon_share_def bio_share_def advance_def)

lemma share_advance: "carbon_share ct (advance c y k s) = carbon_share ct s" "bio_share ct (advance c y k s) = bio_share ct s"
  by (cases ct; simp add: fun_eq_iff carbon_share_def bio_share_def advance_def)+

lemma fold_pay_nonces:
  "fold (bk_pay b i ct s) pays (B\<lparr>bk_nonces := f\<rparr>) = (fold (bk_pay b i ct s) pays B)\<lparr>bk_nonces := f\<rparr>"
proof (induction pays arbitrary: B)
  case (Cons p pays)
  have "bk_pay b i ct s p (B\<lparr>bk_nonces := f\<rparr>) = (bk_pay b i ct s p B)\<lparr>bk_nonces := f\<rparr>" by (simp add: bk_pay_def bk_credit_def)
  with Cons show ?case by simp
qed simp

lemma batch_effect_append:
  "batch_effect b i ct s subs p (xs @ ys) k B =
     batch_effect b i ct (advance (\<Sum>p\<leftarrow>xs. carbon_share ct s (snd p)) (\<Sum>p\<leftarrow>xs. bio_share ct s (snd p)) k' s) subs
       (p + sum_list (map snd xs)) ys k (batch_effect b i ct s subs p xs k' B)"
  by (simp add: batch_effect_def bk_pay_advance share_advance fold_pay_upd)
    (simp add: advance_def add.assoc add.left_commute)

lemma batch_effect_nonces: "batch_effect b i ct s subs p pays k (B\<lparr>bk_nonces := f\<rparr>) = (batch_effect b i ct s subs p pays k B)\<lparr>bk_nonces := f\<rparr>"
  by (simp add: batch_effect_def fold_pay_nonces)

section \<open>What a call does\<close>

lemma begins_unique:
  "begins env a b i rid n st P ct s subs p \<Longrightarrow> begins env a b i rid n st P ct' s' subs' p' \<Longrightarrow> ct' = ct \<and> s' = s \<and> subs' = subs \<and> p' = p"
  by (auto simp: begins_def)

lemma distribute_coupon_begins:
  assumes "distribute_coupon env a b i hs rid n fin st P = Ok (res, st', P')"
    and "overflow_checks env" and "coupon_typed (st, P)"
  shows "\<exists>ct s subs p k. begins env a b i rid n st P ct s subs p \<and> bk_types (book_of (st, P)) b = Some ct \<and>
    (\<forall>s'. bk_batches (book_of (st, P)) (b, i) = Some s' \<longrightarrow> s = s' \<and> bk_progress (book_of (st, P)) (b, i) = Some (subs, p)) \<and>
    ends b i fin (batch_effect b i ct s subs p (payable (\<lambda>h. bk_paid (book_of (st, P)) (b, i, h)) hs) k (bk_spend a (book_of (st, P))))
      (book_of (st', P')) \<and> coupon_typed (st', P')"
proof -
  define B where "B = book_of (st, P)"
  from assms(1) obtain st0 pid ct s subs p st1 P1 t st2 k s1 st3 where
    st0: "coupon_consume_nonce env a n st = Ok st0" and pid: "cpn_bond_project st0 b = Some pid"
    and ct: "cpn_bond_credit_type st0 b = Some ct"
    and beg: "(case pget (cpn_batch_state st0) (b, i) of
          Some s \<Rightarrow> and_then (resume_batch env b i rid s st0) (\<lambda>(s, subs, processed, st). Ok (s, subs, processed, st, P))
        | None \<Rightarrow> open_batch env b i rid pid ct st0 P) = Ok (s, subs, p, st1, P1)"
    and loop: "distribute_loop env b i ct s subs hs
          \<lparr>ty_total = 0, ty_carbon = 0, ty_bio = 0, ty_count = 0, ty_processed = p\<rparr> st1 = Ok (t, st2)"
    and s1: "s1 = s\<lparr>ba_distributed_so_far := ba_distributed_so_far s + ty_total t,
              ba_carbon_distributed_so_far := ba_carbon_distributed_so_far s + ty_carbon t,
              ba_bio_distributed_so_far := ba_bio_distributed_so_far s + ty_bio t, ba_holder_count_so_far := k\<rparr>"
    and st3: "st3 = st2\<lparr>cpn_batch_state := coupon_write env (cpn_batch_state st2) (b, i) s1,
              cpn_distribution_balance := coupon_write env (cpn_distribution_balance st2) (b, i) (subs, ty_processed t)\<rparr>"
    and fin: "if fin then close_period env b i rid s1 (ty_processed t) subs st3 P1 = Ok (res, st', P') else (st', P') = (st3, P1)"
    by (cases fin) (auto simp: distribute_coupon_def result_simps Let_def split: if_splits)
  from coupon_consume_nonce_Ok [OF st0, of P] have B0: "bk_spend a B = book_of (st0, P)" unfolding B_def by simp
  have same: "bk_batches (bk_spend a B) = bk_batches B" "bk_progress (bk_spend a B) = bk_progress B"
    "bk_paid (bk_spend a B) = bk_paid B" by (simp_all add: bk_spend_def)
  note beg' = begin_batch_book [OF beg assms(2) typed_nonces [OF st0 assms(3)] B0, unfolded same]
  from batch_stored_book [OF loop assms(2) beg'[THEN conjunct2, THEN conjunct2], of "bk_spend a B", unfolded same,
      OF beg'[THEN conjunct2, THEN conjunct1] s1 st3]
  have B3: "book_of (st3, P1) = batch_effect b i ct s subs p (payable (\<lambda>h. bk_paid B (b, i, h)) hs) k (bk_spend a B)"
    and s1': "bk_batches (book_of (st3, P1)) (b, i) = Some s1" and t3: "coupon_typed (st3, P1)" by (auto simp: batch_effect_def same)
  have "begins env a b i rid n st P ct s subs p" unfolding begins_def using st0 pid ct beg by blast
  moreover have "ends b i fin (book_of (st3, P1)) (book_of (st', P')) \<and> coupon_typed (st', P')"
    using fin t3 s1' close_period_book [of env b i rid s1 "ty_processed t" subs st3 P1 res st' P'] by (cases fin) (auto simp: ends_def)
  moreover have "bk_types B b = Some ct" using ct by (simp add: book_reads [where P = P] B0 [symmetric] bk_spend_def)
  moreover have "s = s' \<and> bk_progress B (b, i) = Some (subs, p)" if "bk_batches B (b, i) = Some s'" for s'
    using beg' that by simp
  ultimately show ?thesis unfolding B3 B_def [symmetric] by blast
qed

lemma same_rest:
  assumes "s\<lparr>ba_holder_count_so_far := 0\<rparr> = s'\<lparr>ba_holder_count_so_far := 0\<rparr>"
  shows "ba_total_credits s = ba_total_credits s'" "ba_distributed_so_far s = ba_distributed_so_far s'"
    "ba_carbon_total s = ba_carbon_total s'" "ba_carbon_distributed_so_far s = ba_carbon_distributed_so_far s'"
    "ba_biodiversity_total s = ba_biodiversity_total s'" "ba_bio_distributed_so_far s = ba_bio_distributed_so_far s'"
  using assms by (cases s, cases s', simp)+

lemma ends_alike:
  assumes "ends b i fin B B2" and "ends b i fin B' B2'" and "alike (b, i) B B'"
  shows "alike (b, i) B2 B2'"
proof (cases fin)
  case False
  with assms show ?thesis by (simp add: ends_def)
next
  case True
  with assms(1,2) obtain s info s' info' where
    e: "bk_batches B (b, i) = Some s" "B2 = bk_close b i s info B" "pi_total_credits_earned info = ba_distributed_so_far s"
      "pi_undistributed info = ba_total_credits s - ba_distributed_so_far s"
      "bk_batches B' (b, i) = Some s'" "B2' = bk_close b i s' info' B'" "pi_total_credits_earned info' = ba_distributed_so_far s'"
      "pi_undistributed info' = ba_total_credits s' - ba_distributed_so_far s'" by (auto simp: ends_def)
  have "s\<lparr>ba_holder_count_so_far := 0\<rparr> = s'\<lparr>ba_holder_count_so_far := 0\<rparr>" using assms(3) e(1,5) by (simp add: alike_def)
  note same_rest [OF this]
  with assms(3) e(3,4,7,8) show ?thesis unfolding e(2,6) alike_def by (simp add: bk_close_def bk_note_def)
qed

lemma batch_effect_paid:
  "bk_paid (batch_effect b i ct s subs p pays k B) (b, i, h) \<longleftrightarrow> bk_paid B (b, i, h) \<or> h \<in> fst ` set pays"
  by (auto simp: batch_effect_def fold_pay_paid)

section \<open>Progress of a period\<close>

lemma payable_sum_pos: "payable paid hs \<noteq> [] \<Longrightarrow> 0 < sum_list (map snd (payable paid hs))"
proof (cases "payable paid hs")
  case (Cons p ps)
  have "\<And>q. q \<in> set (p # ps) \<Longrightarrow> 0 < snd q" unfolding Cons [symmetric] by (rule payable_pos)
  then have pos: "0 < snd p" "\<And>q. q \<in> set ps \<Longrightarrow> 0 \<le> snd q" by (simp_all add: less_imp_le)
  from pos(2) have "0 \<le> sum_list (map snd ps)" by (intro sum_list_nonneg) fastforce
  with Cons pos(1) show ?thesis by simp
qed simp

text \<open>What a batch does to the progress of the periods: it settles one, opens one, or goes on with one.\<close>

lemma distribution_progress:
  assumes "bk_distribution a b i hs fin B B'" and "pays = payable (\<lambda>h. bk_paid B (b, i, h)) hs"
  shows "k \<noteq> (b, i) \<Longrightarrow> stage k B' = stage k B \<and> unprocessed k B' = unprocessed k B"
    and "fin \<or> bk_batches B (b, i) = None \<Longrightarrow> stage (b, i) B' < stage (b, i) B"
    and "\<not> fin \<Longrightarrow> bk_batches B (b, i) \<noteq> None \<Longrightarrow> stage (b, i) B' = stage (b, i) B \<and>
      (if pays = [] then unprocessed (b, i) B' = unprocessed (b, i) B else unprocessed (b, i) B' < unprocessed (b, i) B)"
    and "bk_paid B' (b, i, h) \<Longrightarrow> \<not> bk_paid B (b, i, h) \<Longrightarrow> pays \<noteq> []"
proof -
  from assms(1) obtain ct s subs done0 done1 m s1 B1 info where
    D: "\<forall>info. bk_periods B (b, i) = Some info \<longrightarrow> \<not> pi_distributed info"
      "case bk_batches B (b, i) of
         Some s' \<Rightarrow> s = s' \<and> bk_progress B (b, i) = Some (subs, done0)
       | None \<Rightarrow> (\<exists>rid c y. 0 \<le> c \<and> 0 \<le> y \<and> fits_type ct c y \<and> s = fresh_batch rid c y subs) \<and> done0 = 0"
      "done1 = done0 + sum_list (map snd pays)" "pays \<noteq> [] \<longrightarrow> done1 \<le> subs"
      "s1 = advance (\<Sum>p\<leftarrow>pays. carbon_share ct s (snd p)) (\<Sum>p\<leftarrow>pays. bio_share ct s (snd p)) m s"
    and B1: "B1 = (fold (bk_pay b i ct s) pays (bk_spend a B))
        \<lparr>bk_batches := (bk_batches B)((b, i) \<mapsto> s1), bk_progress := (bk_progress B)((b, i) \<mapsto> (subs, done1))\<rparr>"
    and F: "if fin then done1 = subs \<and> pi_distributed info \<and>
         pi_total_credits_earned info = ba_distributed_so_far s1 \<and>
         pi_undistributed info = ba_total_credits s1 - ba_distributed_so_far s1 \<and> B' = bk_close b i s1 info B1
       else B' = B1"
    unfolding bk_distribution_def assms(2) by blast
  from F have B': "if fin then pi_distributed info \<and> B' = bk_close b i s1 info B1 else B' = B1" by (cases fin) simp_all
  have sd: "\<And>s'. bk_batches B (b, i) = Some s' \<Longrightarrow> bk_progress B (b, i) = Some (subs, done0)" using D(2) by simp
  have f1: "bk_batches B1 = (bk_batches B)((b, i) \<mapsto> s1)" "bk_progress B1 = (bk_progress B)((b, i) \<mapsto> (subs, done1))"
    "bk_periods B1 = bk_periods B" by (simp_all add: B1 fold_pay_keeps bk_spend_def)
  show "stage k B' = stage k B \<and> unprocessed k B' = unprocessed k B" if "k \<noteq> (b, i)"
    using that B' f1 by (cases fin) (simp_all add: stage_def unprocessed_def bk_close_def bk_note_def)
  show "stage (b, i) B' < stage (b, i) B" if "fin \<or> bk_batches B (b, i) = None"
    using that B' D(1) f1 by (cases fin) (auto simp: stage_def bk_close_def bk_note_def)
  show "stage (b, i) B' = stage (b, i) B \<and>
      (if pays = [] then unprocessed (b, i) B' = unprocessed (b, i) B else unprocessed (b, i) B' < unprocessed (b, i) B)"
    if "\<not> fin" "bk_batches B (b, i) \<noteq> None"
    using that B' D(1,3,4) sd f1 payable_sum_pos [of "\<lambda>h. bk_paid B (b, i, h)" hs] unfolding assms(2)
    by (auto simp: stage_def unprocessed_def)
  show "pays \<noteq> []" if "bk_paid B' (b, i, h)" "\<not> bk_paid B (b, i, h)"
    using that B' by (cases fin) (auto simp: B1 bk_close_def bk_note_def bk_spend_def)
qed

lemma distribution_stage:
  assumes "bk_distribution a b i hs fin B B'"
  shows "(B', B) \<in> measures [stage k, unprocessed k] \<or> stage k B' = stage k B \<and> unprocessed k B' = unprocessed k B"
    and "bk_paid B' (b, i, h) \<Longrightarrow> \<not> bk_paid B (b, i, h) \<Longrightarrow> (B', B) \<in> measures [stage (b, i), unprocessed (b, i)]"
proof -
  define pays where "pays = payable (\<lambda>h. bk_paid B (b, i, h)) hs"
  note P = distribution_progress [OF assms pays_def]
  have here: "(B', B) \<in> measures [stage (b, i), unprocessed (b, i)] \<or>
      pays = [] \<and> stage (b, i) B' = stage (b, i) B \<and> unprocessed (b, i) B' = unprocessed (b, i) B"
    using P(2,3) by (cases "fin \<or> bk_batches B (b, i) = None"; cases "pays = []") auto
  with P(1) show "(B', B) \<in> measures [stage k, unprocessed k] \<or> stage k B' = stage k B \<and> unprocessed k B' = unprocessed k B"
    by (cases "k = (b, i)") auto
  assume "bk_paid B' (b, i, h)" "\<not> bk_paid B (b, i, h)"
  with P(4) here show "(B', B) \<in> measures [stage (b, i), unprocessed (b, i)]" by blast
qed

lemma book_step_stage:
  assumes "book_step B l B'"
  shows "(B', B) \<in> measures [stage k, unprocessed k] \<or> stage k B' = stage k B \<and> unprocessed k B' = unprocessed k B"
  using assms
proof (cases rule: book_step.cases)
  case (b_distribute n a b i holders last_batch now)
  with distribution_stage(1) show ?thesis by blast
next
  case (b_claim n a x b B1 e now)
  then have "bk_progress B' = bk_progress B" "bk_batches B' = bk_batches B" "bk_periods B' = bk_periods B"
    by (auto simp: bk_note_def bk_wipe_def bk_spend_def split: if_splits)
  then show ?thesis by (simp add: stage_def unprocessed_def)
qed (simp_all add: stage_def unprocessed_def bk_credit_def bk_note_def bk_spend_def)

lemma book_run_stage:
  "run book_step B ls B' \<Longrightarrow> (B', B) \<in> measures [stage k, unprocessed k] \<or> stage k B' = stage k B \<and> unprocessed k B' = unprocessed k B"
proof (induction rule: run.induct)
  case (run_snoc s ls t l u)
  from run_snoc.IH book_step_stage [OF run_snoc.hyps(2), of k] show ?case by auto
qed simp

section \<open>Properties\<close>

text \<open>
  C14. It does not matter how a period is cut into batches. If a distribution to a list of holders succeeds
  in one call, and distributing to the first part of the list and then, whenever and by whomever, to the rest
  succeeds as well, both leave the same balances of every holder, the same marks of who was paid, the same
  leftovers and the same figures for the period.
\<close>

theorem batches_compose:
  assumes "coupon_typed (st, P)" and "overflow_checks env" and "overflow_checks env'"
    and "distribute_coupon env a b i (hs @ ks) rid n last_batch st P = Ok (res, st', P')"
    and "distribute_coupon env a b i hs rid n False st P = Ok (res1, st1, P1)"
    and "distribute_coupon env' a' b i ks rid n' last_batch st1 P1 = Ok (res2, st2, P2)"
  shows "(\<forall>k. unwrap_or (pget (cpn_accrued st2) k) 0 = unwrap_or (pget (cpn_accrued st') k) 0) \<and>
    (\<forall>k. unwrap_or (pget (cpn_accrued_by_type st2) k) 0 = unwrap_or (pget (cpn_accrued_by_type st') k) 0) \<and>
    (\<forall>k. phas (cpn_holder_distributed st2) k = phas (cpn_holder_distributed st') k) \<and>
    (\<forall>k. unwrap_or (pget (cpn_undistributed_total st2) k) 0 = unwrap_or (pget (cpn_undistributed_total st') k) 0) \<and>
    (\<forall>k. unwrap_or (pget (cpn_undistributed_by_type st2) k) 0 = unwrap_or (pget (cpn_undistributed_by_type st') k) 0) \<and>
    pget (cpn_distribution_balance st2) (b, i) = pget (cpn_distribution_balance st') (b, i) \<and>
    map_option (\<lambda>info. (pi_total_credits_earned info, pi_undistributed info)) (pget (cpn_period_info st2) (b, i)) =
      map_option (\<lambda>info. (pi_total_credits_earned info, pi_undistributed info)) (pget (cpn_period_info st') (b, i))"
proof -
  let ?B = "book_of (st, P)"
  define X where "X = payable (\<lambda>h. bk_paid ?B (b, i, h)) hs"
  from distribute_coupon_begins [OF assms(5,2,1)] obtain ct s subs p k where b: "begins env a b i rid n st P ct s subs p"
    and ct: "bk_types ?B b = Some ct" and B1: "book_of (st1, P1) = batch_effect b i ct s subs p X k (bk_spend a ?B)"
    and t1: "coupon_typed (st1, P1)" unfolding X_def by (auto simp: ends_def)
  define s1 where "s1 = advance (\<Sum>p\<leftarrow>X. carbon_share ct s (snd p)) (\<Sum>p\<leftarrow>X. bio_share ct s (snd p)) k s"
  define Y where "Y = payable (\<lambda>h. bk_paid ?B (b, i, h) \<or> h \<in> fst ` set X) ks"
  have split: "payable (\<lambda>h. bk_paid ?B (b, i, h)) (hs @ ks) = X @ Y" unfolding X_def Y_def by (rule payable_append)
  from distribute_coupon_begins [OF assms(4,2,1)] begins_unique [OF b] obtain k0 where
    one: "ends b i last_batch (batch_effect b i ct s subs p (X @ Y) k0 (bk_spend a ?B)) (book_of (st', P'))"
    unfolding split by blast
  have "bk_types (book_of (st1, P1)) b = Some ct" "bk_batches (book_of (st1, P1)) (b, i) = Some s1"
    "bk_progress (book_of (st1, P1)) (b, i) = Some (subs, p + sum_list (map snd X))"
    using ct by (simp_all add: B1 batch_effect_def fold_pay_keeps bk_spend_def s1_def)
  moreover have "payable (\<lambda>h. bk_paid (book_of (st1, P1)) (b, i, h)) ks = Y" by (simp add: B1 batch_effect_paid Y_def bk_spend_def)
  ultimately obtain k2 where
    two: "ends b i last_batch (batch_effect b i ct s1 subs (p + sum_list (map snd X)) Y k2 (bk_spend a' (book_of (st1, P1)))) (book_of (st2, P2))"
    using distribute_coupon_begins [OF assms(6,3) t1] by auto
  have "batch_effect b i ct s1 subs (p + sum_list (map snd X)) Y k2 (book_of (st1, P1)) = batch_effect b i ct s subs p (X @ Y) k2 (bk_spend a ?B)"
    unfolding B1 s1_def by (rule batch_effect_append [symmetric])
  then have "alike (b, i) (batch_effect b i ct s1 subs (p + sum_list (map snd X)) Y k2 (bk_spend a' (book_of (st1, P1))))
      (batch_effect b i ct s subs p (X @ Y) k0 (bk_spend a ?B))"
    unfolding bk_spend_def [of a'] batch_effect_nonces by (simp add: alike_def batch_effect_def advance_def)
  from ends_alike [OF two one this] show ?thesis
    unfolding alike_def book_reads [where P = P' and st = st'] book_reads [where P = P2 and st = st2] by simp
qed

text \<open>
  C15. A period is not paid for ever. In no history, whatever calls to the engine and to the contracts it reads
  come in between, are there infinitely many calls that each pay some holder of a given period: the relation
  between a state and one that a later paying call leads to is well-founded.
\<close>

theorem paying_batches_terminate:
  "wf {(s', s). coupon_typed s \<and> (\<exists>ls t. run (coupon_step overflow_checks) s ls t \<and> pays_for b i t s')}"
proof (rule wf_subset)
  let ?m = "measures [stage (b, i), unprocessed (b, i)]"
  show "wf (inv_image ?m book_of)" by simp
  show "{(s', s). coupon_typed s \<and> (\<exists>ls t. run (coupon_step overflow_checks) s ls t \<and> pays_for b i t s')} \<subseteq> inv_image ?m book_of"
  proof clarify
    fix st' P' st P ls st1 P1
    assume t: "coupon_typed (st, P)" and r: "run (coupon_step overflow_checks) (st, P) ls (st1, P1)" and p: "pays_for b i (st1, P1) (st', P')"
    from p obtain env a hs rid n fin res h where o: "overflow_checks env"
      and d: "distribute_coupon env a b i hs rid n fin st1 P1 = Ok (res, st', P')"
      and h: "bk_paid (book_of (st', P')) (b, i, h)" "\<not> bk_paid (book_of (st1, P1)) (b, i, h)"
      unfolding pays_for_def fst_conv snd_conv book_reads(13) [where P = P' and st = st'] book_reads(13) [where P = P1 and st = st1] by blast
    have "(book_of (st', P'), book_of (st1, P1)) \<in> ?m"
      using distribution_stage(2) [OF _ h] distribute_coupon_book [OF d o coupon_book.wt_run [OF r t]] by blast
    with book_run_stage [OF coupon_book.run_refines [OF r t], of "(b, i)"]
    show "((st', P'), st, P) \<in> inv_image ?m book_of" by auto
  qed
qed

section \<open>Witnesses\<close>

lemma sample_batches:
  "\<exists>st0 P0 res st' P' res1 st1 P1 res2 st2 P2.
     register_bond (checked_env 30) (Address 0) 1 (replicate 32 1) 0 sample_engine sample_peers = Ok (st0, P0) \<and>
     distribute_coupon (checked_env 32) (Address 0) 1 0 ([(Address 1, 300)] @ [(Address 2, 200)]) 7 1 True st0 P0 = Ok (res, st', P') \<and>
     distribute_coupon (checked_env 32) (Address 0) 1 0 [(Address 1, 300)] 7 1 False st0 P0 = Ok (res1, st1, P1) \<and>
     distribute_coupon (checked_env 50) (Address 0) 1 0 [(Address 2, 200)] 7 2 True st1 P1 = Ok (res2, st2, P2) \<and>
     unwrap_or (pget (cpn_accrued st') (1, Address 2)) 0 = 400"
  by (simp add: coupon_exec word_le_nat_alt word_less_nat_alt)

theorem batches_compose_witness:
  "\<exists>(st :: coupon_engine) (P :: peers) res1 (st1 :: coupon_engine) (P1 :: peers) res2 (st2 :: coupon_engine) (P2 :: peers).
     distribute_coupon (checked_env 32) (Address 0) 1 0 [(Address 1, 300)] 7 1 False st P = Ok (res1, st1, P1) \<and>
     distribute_coupon (checked_env 50) (Address 0) 1 0 [(Address 2, 200)] 7 2 True st1 P1 = Ok (res2, st2, P2) \<and>
     unwrap_or (pget (cpn_accrued st2) (1, Address 2)) 0 = 400"
proof -
  from sample_batches obtain st0 P0 res st' P' res1 st1 P1 res2 st2 P2 where
    r: "register_bond (checked_env 30) (Address 0) 1 (replicate 32 1) 0 sample_engine sample_peers = Ok (st0, P0)"
    and d: "distribute_coupon (checked_env 32) (Address 0) 1 0 ([(Address 1, 300)] @ [(Address 2, 200)]) 7 1 True st0 P0 = Ok (res, st', P')"
    and 1: "distribute_coupon (checked_env 32) (Address 0) 1 0 [(Address 1, 300)] 7 1 False st0 P0 = Ok (res1, st1, P1)"
    and 2: "distribute_coupon (checked_env 50) (Address 0) 1 0 [(Address 2, 200)] 7 2 True st1 P1 = Ok (res2, st2, P2)"
    and v: "unwrap_or (pget (cpn_accrued st') (1, Address 2)) 0 = 400" by blast
  have env: "overflow_checks (checked_env t)" for t by (simp add: checked_env_def)
  have "coupon_typed (st0, P0)"
    by (rule coupon_book.wt_step [OF step_register_bond [where E = overflow_checks, OF env r] coupon_start_typed [OF sample_coupon_start]])
  from batches_compose [OF this env env d 1 2] v have "unwrap_or (pget (cpn_accrued st2) (1, Address 2)) 0 = 400" by simp
  with 1 2 show ?thesis by blast
qed

end
