(* ===== verification/Settlement.thy ===== *)
theory Settlement
  imports Coupon_Book
begin

text \<open>
  A whole period settled in one call: the bond issuer's holder list, handed to \<^verbatim>\<open>distribute_coupon\<close> of
  \<^verbatim>\<open>contracts/coupon-engine/src/lib.rs\<close> as the first and last batch of a period. The lemmas follow the call through
  its guards, the loop over the holders and the closing of the period and show that each part succeeds; the
  balances of the list add up to the subscribed total by the invariant of the issuer.
\<close>

section \<open>Room for a batch\<close>

text \<open>What the payments of a batch are worth, and the room the loop needs for them in every number it keeps.\<close>

definition earned :: "CreditType \<Rightarrow> BatchState \<Rightarrow> (address \<times> int) list \<Rightarrow> int" where
  "earned ct s pays = (\<Sum>p\<leftarrow>pays. carbon_share ct s (snd p) + bio_share ct s (snd p))"

definition room :: "CreditType \<Rightarrow> BatchState \<Rightarrow> u64 \<Rightarrow> int \<Rightarrow> (address \<times> int) list \<Rightarrow> tally \<Rightarrow> book \<Rightarrow> bool" where
  "room ct s b subs pays t B \<longleftrightarrow>
     (\<forall>p\<in>set pays. 0 < snd p \<and> fits_i128 (ba_credits_per_token s * snd p) \<and> fits_i128 (ba_carbon_per_token s * snd p) \<and>
        fits_i128 (ba_biodiversity_per_token s * snd p)) \<and>
     0 \<le> ty_carbon t \<and> 0 \<le> ty_bio t \<and> ty_total t = ty_carbon t + ty_bio t \<and> ty_total t + earned ct s pays \<le> i128_max \<and>
     0 \<le> ty_processed t \<and> ty_processed t + sum_list (map snd pays) \<le> subs \<and> subs \<le> i128_max \<and>
     (\<forall>h. bk_accrued B (b, h) + earned ct s pays \<le> i128_max) \<and> bk_split B \<and>
     unat (ty_count t) + length pays < 2 ^ 32"

text \<open>A holder is marked as paid for a period only if the period has been opened.\<close>

definition paid_open :: "book \<Rightarrow> bool" where
  "paid_open B \<longleftrightarrow> (\<forall>b i h. bk_paid B (b, i, h) \<longrightarrow> bk_batches B (b, i) \<noteq> None \<or> bk_periods B (b, i) \<noteq> None)"

text \<open>What the first batch of a period finds: a verified report on the bond's project, and the bond.\<close>

definition reported ::
    "env \<Rightarrow> u64 \<Rightarrow> u64 \<Rightarrow> bytes32 \<Rightarrow> Report \<Rightarrow> issuer \<Rightarrow> int \<Rightarrow> coupon_engine \<Rightarrow> peers \<Rightarrow> bool" where
  "reported env b rid pid r iss subs st P \<longleftrightarrow>
     (\<exists>oa orc. cpn_oracle_consumer st = Some oa \<and> oracles_at P oa = Some orc \<and> pget (orc_reports orc) rid = Some r) \<and>
     rp_status r = Verified \<and> rp_project_metadata_hash r = pid \<and>
     (\<exists>ia iss'. cpn_bond_issuer st = Some ia \<and> issuers_at P ia = Some iss \<and>
        total_subscribed (call_env env ia) b iss = Ok (subs, iss'))"

text \<open>A period settled for \<open>c\<close> carbon and \<open>y\<close> biodiversity credits, with the balances of \<open>B\<close>.\<close>

definition settled_with :: "u64 \<Rightarrow> u32 \<Rightarrow> int \<Rightarrow> int \<Rightarrow> book \<Rightarrow> book \<Rightarrow> bool" where
  "settled_with b i c y B B' \<longleftrightarrow> bk_accrued B' = bk_accrued B \<and> (\<exists>info. bk_periods B' (b, i) = Some info \<and> pi_distributed info \<and>
     pi_total_credits_earned info + pi_undistributed info = c + y \<and> 0 \<le> pi_undistributed info)"

section \<open>The loop over the holders\<close>

lemma share_nonneg:
  assumes "0 \<le> ba_credits_per_token s" and "0 \<le> ba_carbon_per_token s" and "0 \<le> ba_biodiversity_per_token s" and "0 < x"
  shows "0 \<le> carbon_share ct s x" "0 \<le> bio_share ct s x"
  using assms by (cases ct; simp add: carbon_share_def bio_share_def pos_imp_zdiv_nonneg_iff)+

lemma split_bucket_le:
  "bk_split B \<Longrightarrow> c = Carbon \<or> c = Biodiversity \<Longrightarrow> 0 \<le> bk_bucket B (b, h, c) \<and> bk_bucket B (b, h, c) \<le> bk_accrued B (b, h)"
  by (auto simp: bk_split_def)

lemma accrue_succeeds:
  assumes "bk_split (book_of (st, P))" and "c = Carbon \<or> c = Biodiversity" and "0 \<le> x"
    and "bk_accrued (book_of (st, P)) (b, h) + x \<le> i128_max"
  shows "\<exists>st'. accrue_credits env b h c x st = Ok st'"
proof -
  from split_bucket_le [OF assms(1,2), of b h] assms(3,4)
  have "fits_i128 (bk_bucket (book_of (st, P)) (b, h, c) + x)" "fits_i128 (bk_accrued (book_of (st, P)) (b, h) + x)"
    by (auto intro!: fits_nonneg)
  then show ?thesis
    by (simp add: accrue_credits_def Let_def book_reads [where P = P] ok_or_def checked_i128_def)
qed

lemma holder_share_value: "fits_i128 (r * x) \<Longrightarrow> 0 \<le> r \<Longrightarrow> 0 < x \<Longrightarrow> holder_share env r x = Ok (r * x div FIXED_POINT)"
  by (simp add: holder_share_def arith_i128_def sdiv_nonneg)

lemma pay_single_succeeds:
  assumes "v = ba_credits_per_token s * x div FIXED_POINT" and "fits_i128 (ba_credits_per_token s * x)"
    and "0 \<le> ba_credits_per_token s" and "0 < x" and "bk_split (book_of (st, P))" and "kind = Carbon \<or> kind = Biodiversity"
    and "0 \<le> ty_carbon t" and "0 \<le> ty_bio t" and "ty_total t = ty_carbon t + ty_bio t" and "ty_total t + v \<le> i128_max"
    and "bk_accrued (book_of (st, P)) (b, h) + v \<le> i128_max" and "unat (ty_count t) + 1 < 2 ^ 32"
  shows "\<exists>t' st'. pay_single env b kind s h x t st = Ok (t', st') \<and> unat (ty_count t') \<le> unat (ty_count t) + 1"
proof -
  have v: "0 \<le> v" using assms(1,3,4) by (simp add: pos_imp_zdiv_nonneg_iff)
  from accrue_succeeds [OF assms(5,6) v assms(11)] obtain st' where "accrue_credits env b h kind v st = Ok st'" by blast
  moreover have "fits_i128 (ty_total t + v)" "fits_i128 (ty_carbon t + v)" "fits_i128 (ty_bio t + v)"
    using v assms(7-10) by (auto intro!: fits_nonneg)
  moreover have "add_word env (ty_count t) 1 = (Ok (ty_count t + 1) :: (CouponEngineError, u32) result)"
    using assms(12) by (simp add: add_word_def)
  ultimately show ?thesis
    using holder_share_value [OF assms(2-4)] unat_inc_le [of "ty_count t"]
    by (auto simp: pay_single_def assms(1) [symmetric] ok_or_def checked_i128_def)
qed

lemma pay_basket_succeeds:
  assumes "c = ba_carbon_per_token s * x div FIXED_POINT" and "y = ba_biodiversity_per_token s * x div FIXED_POINT"
    and "fits_i128 (ba_carbon_per_token s * x)" and "fits_i128 (ba_biodiversity_per_token s * x)"
    and "0 \<le> ba_carbon_per_token s" and "0 \<le> ba_biodiversity_per_token s" and "0 < x" and "bk_split (book_of (st, P))"
    and "0 \<le> ty_carbon t" and "0 \<le> ty_bio t" and "ty_total t = ty_carbon t + ty_bio t" and "ty_total t + (c + y) \<le> i128_max"
    and "bk_accrued (book_of (st, P)) (b, h) + (c + y) \<le> i128_max" and "unat (ty_count t) + 1 < 2 ^ 32"
    and "sane_amounts (cpn_accrued st)"
  shows "\<exists>t' st'. pay_basket env b s h x t st = Ok (t', st') \<and> unat (ty_count t') \<le> unat (ty_count t) + 1"
proof -
  have pos: "0 \<le> c" "0 \<le> y" using assms(1,2,5-7) by (simp_all add: pos_imp_zdiv_nonneg_iff)
  have a1: "bk_accrued (book_of (st, P)) (b, h) + c \<le> i128_max" using assms(13) pos by simp
  from accrue_succeeds [OF assms(8) _ pos(1) a1] obtain st1 where 1: "accrue_credits env b h Carbon c st = Ok st1" by blast
  note b1 = accrue_book [OF 1 assms(15), of P, THEN conjunct1]
  have "bk_split (book_of (st1, P))" unfolding b1 using assms(8) pos by (intro credit_split_nonneg) simp_all
  moreover have "bk_accrued (book_of (st1, P)) (b, h) + y \<le> i128_max" using assms(13) unfolding b1 by (simp add: bk_credit_def)
  ultimately obtain st2 where 2: "accrue_credits env b h Biodiversity y st1 = Ok st2"
    using accrue_succeeds [OF _ _ pos(2)] by blast
  have "bk_accrued (book_of (st, P)) (b, h) + y \<le> i128_max" using assms(13) pos by simp
  from accrue_succeeds [OF assms(8) _ pos(2) this] obtain st3 where 3: "accrue_credits env b h Biodiversity y st = Ok st3" by blast
  have "0 \<le> bk_accrued (book_of (st, P)) (b, h)" using assms(8) by (simp add: bk_split_def)
  then have "fits_i128 (ty_total t + (c + y))" "fits_i128 (ty_carbon t + c)" "fits_i128 (ty_bio t + y)" "fits_i128 (c + y)"
    using pos assms(9-13) by (auto intro!: fits_nonneg)
  moreover have "add_word env (ty_count t) 1 = (Ok (ty_count t + 1) :: (CouponEngineError, u32) result)"
    using assms(14) by (simp add: add_word_def)
  ultimately show ?thesis
    using holder_share_value [OF assms(3,5,7)] holder_share_value [OF assms(4,6,7)] 1 2 3 unat_inc_le [of "ty_count t"]
    by (auto simp: pay_basket_def assms(1,2) [symmetric] ok_or_def checked_i128_def Let_def)
qed

lemma earned_Cons [simp]: "earned ct s (p # pays) = carbon_share ct s (snd p) + bio_share ct s (snd p) + earned ct s pays"
  by (simp add: earned_def)

lemma earned_nonneg:
  assumes "0 \<le> ba_credits_per_token s" and "0 \<le> ba_carbon_per_token s" and "0 \<le> ba_biodiversity_per_token s"
    and "\<And>p. p \<in> set pays \<Longrightarrow> 0 < snd p"
  shows "0 \<le> earned ct s pays"
  unfolding earned_def using assms(4) by (intro sum_list_nonneg) (auto intro!: add_nonneg_nonneg share_nonneg [OF assms(1-3)])

lemma pay_holder_succeeds:
  assumes "room ct s b subs ((h, x) # pays) t (book_of (st, P))" and "sane_amounts (cpn_accrued st)"
    and "0 \<le> ba_credits_per_token s" and "0 \<le> ba_carbon_per_token s" and "0 \<le> ba_biodiversity_per_token s"
  shows "\<exists>t' st'. pay_holder env b ct s h x (t\<lparr>ty_processed := q\<rparr>) st = Ok (t', st') \<and> unat (ty_count t') \<le> unat (ty_count t) + 1"
proof -
  note rm = assms(1) [unfolded room_def, simplified]
  have "0 \<le> earned ct s pays" using rm by (intro earned_nonneg [OF assms(3-5)]) auto
  with rm have x: "0 < x" and f: "fits_i128 (ba_credits_per_token s * x)" "fits_i128 (ba_carbon_per_token s * x)"
      "fits_i128 (ba_biodiversity_per_token s * x)" and sp: "bk_split (book_of (st, P))"
    and t: "0 \<le> ty_carbon t" "0 \<le> ty_bio t" "ty_total t = ty_carbon t + ty_bio t"
    and tot: "ty_total t + (carbon_share ct s x + bio_share ct s x) \<le> i128_max"
    and acc: "bk_accrued (book_of (st, P)) (b, h) + (carbon_share ct s x + bio_share ct s x) \<le> i128_max"
    and cnt: "unat (ty_count t) + 1 < 2 ^ 32"
    by (auto simp: add.assoc dest: spec [of _ h])
  let ?t = "t\<lparr>ty_processed := q\<rparr>"
  note single = pay_single_succeeds [OF refl f(1) assms(3) x sp, of _ ?t b h env]
  note basket = pay_basket_succeeds [OF refl refl f(2,3) assms(4,5) x sp, of ?t b h env]
  from tot acc t cnt assms(2) single [of Carbon] single [of Biodiversity] basket show ?thesis
    by (cases ct) (simp_all add: pay_holder_def carbon_share_def bio_share_def)
qed

lemma room_processed:
  assumes "room ct s b subs (p # pays) t B"
  shows "fits_i128 (ty_processed t + snd p) \<and> ty_processed t + snd p \<le> subs"
proof -
  have "0 \<le> sum_list (map snd pays)" using assms by (intro sum_list_nonneg) (fastforce simp: room_def)
  with assms show ?thesis by (auto simp: room_def intro!: fits_nonneg)
qed

lemma room_step:
  assumes "room ct s b subs (p # pays) t B"
    and "tallied (carbon_share ct s (snd p)) (bio_share ct s (snd p)) (t\<lparr>ty_processed := ty_processed t + snd p\<rparr>) t1"
    and "unat (ty_count t1) \<le> unat (ty_count t) + 1"
    and "0 \<le> ba_credits_per_token s" and "0 \<le> ba_carbon_per_token s" and "0 \<le> ba_biodiversity_per_token s"
  shows "room ct s b subs pays t1 (bk_pay b i ct s p B)"
proof -
  note rm = assms(1) [unfolded room_def, simplified]
  have pos: "0 \<le> carbon_share ct s (snd p)" "0 \<le> bio_share ct s (snd p)"
    using rm share_nonneg [OF assms(4-6)] by auto
  have "bk_split (bk_pay b i ct s p B)"
    using rm pos by (auto simp: bk_pay_def fields_agree intro!: credit_split_nonneg)
  moreover have "bk_accrued (bk_pay b i ct s p B) (b, h) + earned ct s pays \<le> i128_max" for h
  proof -
    have "bk_accrued B (b, h) + (carbon_share ct s (snd p) + bio_share ct s (snd p) + earned ct s pays) \<le> i128_max"
      using rm by blast
    then show ?thesis using pos by (cases p) (auto simp: bk_pay_def bk_credit_def)
  qed
  ultimately show ?thesis using rm pos assms(2,3) by (auto simp: room_def tallied_def)
qed

lemma loop_succeeds:
  assumes "room ct s b subs (payable (\<lambda>h. bk_paid (book_of (st, P)) (b, i, h)) hs) t (book_of (st, P))"
    and "sane_amounts (cpn_accrued st)" and "overflow_checks env"
    and "0 \<le> ba_credits_per_token s" and "0 \<le> ba_carbon_per_token s" and "0 \<le> ba_biodiversity_per_token s"
  shows "\<exists>t' st'. distribute_loop env b i ct s subs hs t st = Ok (t', st')"
  using assms(1,2)
proof (induction hs arbitrary: t st)
  case (Cons hx hs)
  obtain h x where hx: "hx = (h, x)" by (cases hx)
  let ?B = "book_of (st, P)"
  have paid: "phas (cpn_holder_distributed st) = bk_paid ?B" by (rule book_reads)
  consider (again) "bk_paid ?B (b, i, h)" | (zero) "\<not> bk_paid ?B (b, i, h)" "x \<le> 0" | (pay) "\<not> bk_paid ?B (b, i, h)" "0 < x"
    by linarith
  then show ?case
  proof cases
    case again
    define st1 where "st1 = st\<lparr>cpn_holder_distributed := coupon_extend_ttl env (cpn_holder_distributed st) (b, i, h)\<rparr>"
    have eq: "book_of (st1, P) = ?B" unfolding st1_def by (simp add: paid)
    have "\<exists>t' st'. distribute_loop env b i ct s subs hs t st1 = Ok (t', st')"
      by (rule Cons.IH, use Cons.prems again in \<open>simp add: eq hx\<close>) (simp add: st1_def Cons.prems(2))
    with again show ?thesis by (simp add: hx paid st1_def)
  next
    case zero
    with Cons show ?thesis by (simp add: hx paid)
  next
    case pay
    define pays where "pays = payable ((\<lambda>h'. bk_paid ?B (b, i, h'))(h := True)) hs"
    have rm: "room ct s b subs ((h, x) # pays) t ?B" using Cons.prems(1) pay by (simp add: hx pays_def)
    from pay_holder_succeeds [OF this Cons.prems(2) assms(4-6), of env "ty_processed t + x"] obtain t1 st0
      where ph: "pay_holder env b ct s h x (t\<lparr>ty_processed := ty_processed t + x\<rparr>) st = Ok (t1, st0)"
        and cnt: "unat (ty_count t1) \<le> unat (ty_count t) + 1" by blast
    note p = pay_holder_book [OF ph assms(3-6) pay(2) Cons.prems(2), of P]
    define st1 where "st1 = st0\<lparr>cpn_holder_distributed := coupon_write env (cpn_holder_distributed st0) (b, i, h) True\<rparr>"
    have b1: "book_of (st1, P) = bk_pay b i ct s (h, x) ?B"
      unfolding st1_def using p by (simp add: book_reads [where P = P] bk_pay_def bk_credit_def)
    have "(\<lambda>h'. bk_paid (book_of (st1, P)) (b, i, h')) = (\<lambda>h'. bk_paid ?B (b, i, h'))(h := True)"
      by (auto simp: b1 bk_pay_def fun_eq_iff)
    moreover have "room ct s b subs pays t1 (bk_pay b i ct s (h, x) ?B)"
      using room_step [OF rm _ cnt assms(4-6), of i] p by simp
    moreover have "sane_amounts (cpn_accrued st1)" using p by (auto simp: st1_def dest: only_accrued_sane)
    ultimately have "\<exists>t' st'. distribute_loop env b i ct s subs hs t1 st1 = Ok (t', st')"
      using Cons.IH [of st1 t1] by (simp add: pays_def b1)
    moreover have "fits_i128 (ty_processed t + x)" "ty_processed t + x \<le> subs"
      using room_processed [OF rm] by simp_all
    ultimately show ?thesis using pay ph
      by (simp add: hx paid ok_or_def checked_i128_def st1_def)
  qed
qed simp

section \<open>Who is paid\<close>

lemma payable_list:
  "set (payable paid (map (\<lambda>h. (h, f h)) L)) = {(h, f h) | h. h \<in> set L \<and> \<not> paid h \<and> 0 < f h}"
proof (induction L arbitrary: paid)
  case (Cons h L)
  show ?case
  proof (cases "paid h \<or> f h \<le> 0")
    case True
    then show ?thesis by (auto simp: Cons)
  next
    case False
    then show ?thesis by (auto simp: Cons)
  qed
qed simp

lemma payable_one:
  assumes "\<And>h. 0 < f h \<Longrightarrow> h \<in> set L" and "\<And>h. 0 \<le> f h" and "g 0 = (0 :: int)"
  shows "(\<Sum>p\<leftarrow>filter (\<lambda>p. fst p = h) (payable (\<lambda>_. False) (map (\<lambda>h. (h, f h)) L)). g (snd p)) = g (f h)"
proof -
  let ?pays = "payable (\<lambda>_. False) (map (\<lambda>h. (h, f h)) L)"
  have d: "distinct (filter (\<lambda>p. fst p = h) ?pays)"
    using payable_distinct [of "\<lambda>_. False" "map (\<lambda>h. (h, f h)) L"] by (simp add: distinct_map)
  have set: "set (filter (\<lambda>p. fst p = h) ?pays) = (if 0 < f h then {(h, f h)} else {})"
    using assms(1) [of h] unfolding set_filter payable_list by auto
  show ?thesis unfolding sum_list_distinct_conv_sum_set [OF d] set
    using assms(2) [of h] assms(3) by (cases "f h = 0") auto
qed

lemma payable_sum:
  assumes "\<And>h. 0 < f h \<Longrightarrow> h \<in> set L"
  shows "sum_list (map snd (payable (\<lambda>_. False) (map (\<lambda>h. (h, f h)) L))) = (\<Sum>h\<in>{h. 0 < f h}. f h)"
proof -
  let ?pays = "payable (\<lambda>_. False) (map (\<lambda>h. (h, f h)) L)"
  have d: "distinct ?pays" using payable_distinct [of "\<lambda>_. False" "map (\<lambda>h. (h, f h)) L"] by (simp add: distinct_map)
  have "set ?pays = (\<lambda>h. (h, f h)) ` {h. 0 < f h}" using assms by (auto simp: payable_list)
  then have "sum_list (map snd ?pays) = (\<Sum>p\<in>(\<lambda>h. (h, f h)) ` {h. 0 < f h}. snd p)"
    using sum_list_distinct_conv_sum_set [OF d, of snd] by simp
  also have "\<dots> = (\<Sum>h\<in>{h. 0 < f h}. f h)" by (subst sum.reindex) (auto simp: inj_on_def)
  finally show ?thesis .
qed

lemma holder_balances_total:
  assumes "inv_balances (ledger_of iss)"
  shows "(\<Sum>h\<in>{h. 0 < get_holder_balance iss b h}. get_holder_balance iss b h) =
    map_total (pget (iss_balances iss)) (bond_accounts b)"
proof -
  let ?m = "pget (iss_balances iss)" and ?bal = "get_holder_balance iss b"
  have fin: "finite (dom ?m)" and pos: "\<And>a v. ?m (b, a) = Some v \<Longrightarrow> 0 \<le> v"
    using assms by (auto simp: inv_balances_def ledger_of_def)
  have k: "{k \<in> dom ?m. bond_accounts b k} = Pair b ` {h. (b, h) \<in> dom ?m}" by (auto simp: bond_accounts_def)
  have "finite (Pair b ` {h. (b, h) \<in> dom ?m})" using fin by (rule rev_finite_subset) auto
  then have D: "finite {h. (b, h) \<in> dom ?m}" by (rule finite_imageD) (simp add: inj_on_def)
  have "map_total ?m (bond_accounts b) = (\<Sum>h\<in>{h. (b, h) \<in> dom ?m}. the (?m (b, h)))"
    unfolding map_total_def k by (subst sum.reindex) (auto simp: inj_on_def)
  also have "\<dots> = (\<Sum>h\<in>{h. (b, h) \<in> dom ?m}. ?bal h)"
    by (rule sum.cong) (auto simp: get_holder_balance_def)
  also have "\<dots> = (\<Sum>h\<in>{h. 0 < ?bal h}. ?bal h)"
  proof (rule sum.mono_neutral_right [OF D])
    show "{h. 0 < ?bal h} \<subseteq> {h. (b, h) \<in> dom ?m}" by (auto simp: get_holder_balance_def split: option.splits) (metis less_irrefl not_None_eq unwrap_or_def option.simps(4))
    show "\<forall>h\<in>{h. (b, h) \<in> dom ?m} - {h. 0 < ?bal h}. ?bal h = 0"
      using pos by (force simp: get_holder_balance_def)
  qed
  finally show ?thesis by simp
qed

section \<open>The first and the last batch\<close>

lemma paid_open_distribution:
  assumes "bk_distribution a b i holders last_batch B B2" and "paid_open B"
  shows "paid_open B2"
proof -
  from assms(1) obtain ct s pays m2 s1 info where
    B2: "let B1 = (fold (bk_pay b i ct s) pays (bk_spend a B))\<lparr>bk_batches := (bk_batches B)((b, i) \<mapsto> s1), bk_progress := m2\<rparr>
      in B2 = (if last_batch then bk_close b i s1 info B1 else B1)"
    unfolding bk_distribution_def Let_def by (cases last_batch) (simp_all only: if_True if_False, blast+)
  then have "bk_paid B2 = bk_paid (fold (bk_pay b i ct s) pays B)"
    "\<And>k. k \<noteq> (b, i) \<Longrightarrow> bk_batches B2 k = bk_batches B k \<and> bk_periods B2 k = bk_periods B k"
    "bk_batches B2 (b, i) \<noteq> None \<or> bk_periods B2 (b, i) \<noteq> None"
    by (auto simp: Let_def bk_close_def bk_note_def fold_pay_keeps bk_spend_def fold_pay_paid fun_eq_iff)
  note B2 = this
  show ?thesis unfolding paid_open_def
  proof (intro allI impI)
    fix b' i' h
    assume "bk_paid B2 (b', i', h)"
    then have "bk_paid B (b', i', h) \<or> (b', i') = (b, i)" unfolding B2(1) fold_pay_paid by auto
    with assms(2) B2(2) [of "(b', i')"] B2(3) show "bk_batches B2 (b', i') \<noteq> None \<or> bk_periods B2 (b', i') \<noteq> None"
      by (cases "(b', i') = (b, i)") (auto simp: paid_open_def)
  qed
qed

lemma paid_open_step:
  assumes "book_step B l B'" and "paid_open B"
  shows "paid_open B'"
  using assms(1)
proof (cases rule: book_step.cases)
  case (b_distribute n a b i holders last_batch now)
  with paid_open_distribution assms(2) show ?thesis by blast
next
  case (b_claim n a x b B1 e now)
  then have "bk_paid B' = bk_paid B" "bk_batches B' = bk_batches B" "bk_periods B' = bk_periods B"
    by (auto simp: bk_note_def bk_wipe_def bk_spend_def split: if_splits)
  with assms(2) show ?thesis by (simp add: paid_open_def)
qed (use assms(2) in \<open>simp_all add: paid_open_def bk_credit_def bk_note_def bk_spend_def\<close>)

lemma paid_open_run: "run book_step B ls B' \<Longrightarrow> paid_open B \<Longrightarrow> paid_open B'"
  by (induction rule: run.induct) (auto intro: paid_open_step)

lemma coupon_paid_open:
  assumes "coupon_start n s0" and "run (coupon_step overflow_checks) s0 ls s"
  shows "paid_open (book_of s)"
proof -
  have "paid_open (book_of s0)"
    using assms(1) by (auto simp: coupon_start_def paid_open_def book_of_def coupon_constructor_def phas_def storage_simps)
  with coupon_book.run_refines [OF assms(2) coupon_start_typed [OF assms(1)]] show ?thesis by (rule paid_open_run)
qed

lemma per_token_value: "0 \<le> x \<Longrightarrow> x * FIXED_POINT \<le> i128_max \<Longrightarrow> per_token env x subs = Ok (rate x subs)"
proof -
  assume x: "0 \<le> x" "x * FIXED_POINT \<le> i128_max"
  then have p: "0 \<le> x * FIXED_POINT" by (simp add: FIXED_POINT_def)
  with x have "fits_i128 (x * FIXED_POINT)" by (intro fits_nonneg)
  with p show ?thesis by (simp add: per_token_def rate_def arith_i128_def sdiv_nonneg)
qed

lemma open_batch_succeeds:
  assumes "reported env b rid pid r iss subs st P" and "report_totals ct r = Ok (c, y)" and "0 \<le> c" and "0 \<le> y"
    and "(c + y) * FIXED_POINT \<le> i128_max"
  shows "\<exists>st1 P1. open_batch env b i rid pid ct st P = Ok (fresh_batch rid c y subs, subs, 0, st1, P1) \<and>
    cpn_period_count st1 = cpn_period_count st \<and> cpn_oracle_consumer st1 = cpn_oracle_consumer st \<and>
    (\<exists>oa orc. cpn_oracle_consumer st = Some oa \<and> oracles_at P1 oa = Some orc \<and> pget (orc_reports orc) rid = Some r)"
proof -
  from assms(1) obtain oa orc ia iss' where
    h: "cpn_oracle_consumer st = Some oa" "oracles_at P oa = Some orc" "pget (orc_reports orc) rid = Some r"
      "rp_status r = Verified" "rp_project_metadata_hash r = pid" "cpn_bond_issuer st = Some ia" "issuers_at P ia = Some iss"
      "total_subscribed (call_env env ia) b iss = Ok (subs, iss')" by (auto simp: reported_def)
  have m: "c * FIXED_POINT \<le> (c + y) * FIXED_POINT" "y * FIXED_POINT \<le> (c + y) * FIXED_POINT"
      "c + y \<le> (c + y) * FIXED_POINT"
    using assms(3,4) by (auto simp: FIXED_POINT_def)
  have "fits_i128 (c + y)" using m(3) assms(3-5) by (intro fits_nonneg) linarith+
  moreover have "per_token env (c + y) subs = Ok (rate (c + y) subs)" "per_token env c subs = Ok (rate c subs)"
    "per_token env y subs = Ok (rate y subs)"
    using assms(3-5) by (auto intro!: per_token_value order_trans [OF m(1)] order_trans [OF m(2)])
  ultimately show ?thesis using h assms(2)
    by (simp add: open_batch_def invoke_get_report_def invoke_total_subscribed_def get_report_def contract_at_def ok_or_def
        checked_i128_def fresh_batch_def Let_def storage_simps orc_bump_def)
qed

lemma add_undistributed_succeeds:
  "0 \<le> amounts m k \<Longrightarrow> amounts m k + max 0 x \<le> i128_max \<Longrightarrow> \<exists>m'. add_undistributed env m k x = Ok m'"
  by (auto simp: add_undistributed_def ok_or_def checked_i128_def amounts_def max_def fits_nonneg)

lemma close_succeeds:
  assumes "cpn_oracle_consumer st = Some oa" and "oracles_at P oa = Some orc" and "pget (orc_reports orc) rid = Some r"
    and "batch_ok ct s subs p" and "bk_dusts (book_of (st, P))" and "bk_dust (book_of (st, P)) b + ba_total_credits s \<le> i128_max"
    and "unat (unwrap_or (pget (cpn_period_count st) b) 0) + 1 < 2 ^ 32"
  shows "\<exists>res st' P'. close_period env b i rid s subs subs st P = Ok (res, st', P')"
proof -
  let ?B = "book_of (st, P)"
  let ?u = "ba_total_credits s - ba_distributed_so_far s" and ?c = "ba_carbon_total s - ba_carbon_distributed_so_far s"
    and ?y = "ba_biodiversity_total s - ba_bio_distributed_so_far s"
  have le: "0 \<le> ?u" "0 \<le> ?c" "0 \<le> ?y" "?u = ?c + ?y" "?u \<le> ba_total_credits s"
    using batch_within [OF assms(4)] assms(4) by (auto simp: batch_ok_def)
  have dust: "0 \<le> bk_dust_by ?B (b, Carbon)" "0 \<le> bk_dust_by ?B (b, Biodiversity)"
    "bk_dust ?B b = bk_dust_by ?B (b, Carbon) + bk_dust_by ?B (b, Biodiversity)"
    using assms(5) by (auto simp: bk_dusts_def)
  have fits: "fits_i128 ?u" "fits_i128 ?c" "fits_i128 ?y" using le dust assms(6) by (auto intro!: fits_nonneg)
  have am: "amounts (cpn_undistributed_total st) = bk_dust ?B" "amounts (cpn_undistributed_by_type st) = bk_dust_by ?B"
    by (rule book_reads)+
  obtain m1 where 1: "add_undistributed env (cpn_undistributed_total st) b ?u = Ok m1"
    using add_undistributed_succeeds [of "cpn_undistributed_total st" b ?u env] le dust assms(6) by (auto simp: am)
  obtain m2 where 2: "add_undistributed env (cpn_undistributed_by_type st) (b, Carbon) ?c = Ok m2"
    using add_undistributed_succeeds [of "cpn_undistributed_by_type st" "(b, Carbon)" ?c env] le dust assms(6) by (auto simp: am)
  have "amounts m2 (b, Biodiversity) = bk_dust_by ?B (b, Biodiversity)"
    using add_undistributed_amounts [OF 2] by (simp add: am)
  then obtain m3 where 3: "add_undistributed env m2 (b, Biodiversity) ?y = Ok m3"
    using add_undistributed_succeeds [of m2 "(b, Biodiversity)" ?y env] le dust assms(6) by auto
  from fits 1 2 3 assms(1-3,7) show ?thesis
    by (simp add: close_period_def invoke_get_report_def get_report_def contract_at_def ok_or_def checked_i128_def Let_def add_word_def)
qed

text \<open>The state of a batch after all of \<open>pays\<close>, from a fresh one.\<close>

lemma fresh_earned:
  assumes "0 \<le> c" and "0 \<le> y" and "fits_type ct c y" and "\<And>p. p \<in> set pays \<Longrightarrow> 0 < snd p"
    and "sum_list (map snd pays) \<le> subs" and "s = fresh_batch rid c y subs"
  shows "earned ct s pays \<le> c + y"
proof -
  from batch_ok_advance [OF batch_ok_fresh [OF assms(1-3), of rid subs] assms(4) refl, where k = 0] assms(5,6)
  have "batch_ok ct (advance (\<Sum>p\<leftarrow>pays. carbon_share ct s (snd p)) (\<Sum>p\<leftarrow>pays. bio_share ct s (snd p)) 0 s)
      subs (sum_list (map snd pays))" by simp
  from batch_within [OF this] assms(6) show ?thesis
    by (simp add: advance_def fresh_batch_def earned_def sum_list_addf)
qed

lemma rate_fits:
  assumes "0 \<le> x" and "0 < q" and "q \<le> subs" and "x * FIXED_POINT \<le> i128_max"
  shows "fits_i128 (rate x subs * q)"
proof (rule fits_nonneg)
  show "0 \<le> rate x subs * q" using assms(2) rate_nonneg by simp
  have "rate x subs * q \<le> rate x subs * max 0 subs" using assms(3) rate_nonneg by (intro mult_left_mono) simp_all
  also have "\<dots> \<le> x * FIXED_POINT" using assms(1) by (rule rate_bound)
  finally show "rate x subs * q \<le> i128_max" using assms(4) by simp
qed

lemma room_fresh:
  assumes "0 \<le> c" and "0 \<le> y" and "fits_type ct c y" and "\<And>p. p \<in> set pays \<Longrightarrow> 0 < snd p"
    and "sum_list (map snd pays) \<le> subs" and "s = fresh_batch rid c y subs"
    and "(c + y) * FIXED_POINT \<le> i128_max" and "subs \<le> i128_max" and "length pays < 2 ^ 32" and "bk_split B"
    and "\<And>h. bk_accrued B (b, h) + (c + y) \<le> i128_max"
  shows "room ct s b subs pays \<lparr>ty_total = 0, ty_carbon = 0, ty_bio = 0, ty_count = 0, ty_processed = 0\<rparr> B"
proof -
  have e: "earned ct s pays \<le> c + y" by (rule fresh_earned [OF assms(1-6)])
  have x: "c * FIXED_POINT \<le> i128_max" "y * FIXED_POINT \<le> i128_max" "c + y \<le> i128_max"
    using assms(1,2,7) by (auto simp: FIXED_POINT_def)
  have "snd p \<le> sum_list (map snd pays)" if "p \<in> set pays" for p
    using that assms(4) by (intro member_le_sum_list) (auto simp: less_imp_le)
  then have q: "snd p \<le> subs" if "p \<in> set pays" for p using that assms(5) by fastforce
  have acc: "bk_accrued B (b, h) + earned ct s pays \<le> i128_max" for h using assms(11) [of h] e by linarith
  show ?thesis
    unfolding room_def using assms(4-6,8-10) e x acc q rate_fits [OF _ assms(4) q] assms(1,2,7) by (auto simp: fresh_batch_rates)
qed

lemma total_subscribed_Ok:
  "total_subscribed env b iss = Ok (subs, iss') \<Longrightarrow>
     \<exists>cfg bs. pget (iss_configs iss) b = Some cfg \<and> pget (iss_states iss) b = Some bs \<and> subs = bs_total_subscribed bs"
  by (auto simp: total_subscribed_def result_simps)

text \<open>The holder list of the issuer, with the balances, covers the subscribed total exactly.\<close>

lemma holder_list_covers:
  assumes "ledger_inv m (ledger_of iss)" and "total_subscribed env b iss = Ok (subs, iss')"
    and "hs = map (\<lambda>h. (h, get_holder_balance iss b h)) (get_holder_list iss b)"
  shows "sum_list (map snd (payable (\<lambda>_. False) hs)) = subs" and "\<And>h. 0 \<le> get_holder_balance iss b h"
    and "\<And>h. 0 < get_holder_balance iss b h \<Longrightarrow> h \<in> set (get_holder_list iss b)"
proof -
  from total_subscribed_Ok [OF assms(2)] obtain cfg bs where
    b: "pget (iss_states iss) b = Some bs" "pget (iss_configs iss) b = Some cfg" "subs = bs_total_subscribed bs" by blast
  note acc = ledger_accounts [OF assms(1) b(1,2)]
  from acc(4) show "0 \<le> get_holder_balance iss b h" for h .
  show listed: "h \<in> set (get_holder_list iss b)" if "0 < get_holder_balance iss b h" for h
    using assms(1) that unfolding ledger_inv_def inv_holders_def
    by (simp add: balance_def get_holder_balance_def ledger_of_def get_holder_list_def)
  have "sum_list (map snd (payable (\<lambda>_. False) hs)) = map_total (pget (iss_balances iss)) (bond_accounts b)"
    using payable_sum [where f = "get_holder_balance iss b", OF listed] holder_balances_total [of iss b] assms(1)
    by (simp add: assms(3) ledger_inv_def)
  with acc(1) b(3) show "sum_list (map snd (payable (\<lambda>_. False) hs)) = subs" by simp
qed

lemma payable_length: "length (payable paid hs) \<le> length hs"
  by (induction paid hs rule: payable.induct) (auto simp: fun_upd_def)

text \<open>The loop of a first batch whose holders cover the subscribed total.\<close>

lemma whole_loop:
  assumes "0 \<le> c" and "0 \<le> y" and "fits_type ct c y" and "(c + y) * FIXED_POINT \<le> i128_max" and "subs \<le> i128_max"
    and "s = fresh_batch rid c y subs" and "pays = payable (\<lambda>_. False) hs" and "sum_list (map snd pays) = subs"
    and "length hs < 2 ^ 32" and "coupon_typed (st1, P1)" and "B1 = book_of (st1, P1)" and "bk_split B1"
    and "\<And>h. bk_accrued B1 (b, h) + (c + y) \<le> i128_max" and "\<And>h. \<not> bk_paid B1 (b, i, h)" and "overflow_checks env"
    and "t0 = \<lparr>ty_total = 0, ty_carbon = 0, ty_bio = 0, ty_count = 0, ty_processed = 0\<rparr>"
  shows "\<exists>t st2. distribute_loop env b i ct s subs hs t0 st1 = Ok (t, st2) \<and> looped ct s subs pays t0 t \<and> only_paid st1 st2 \<and>
    book_of (st2, P1) = fold (bk_pay b i ct s) pays B1"
proof -
  have unpaid: "(\<lambda>h. bk_paid (book_of (st1, P1)) (b, i, h)) = (\<lambda>_. False)" using assms(11,14) by (simp add: fun_eq_iff)
  have pos: "\<And>p. p \<in> set pays \<Longrightarrow> 0 < snd p" unfolding assms(7) by (rule payable_pos)
  have len: "length pays < 2 ^ 32" using assms(7,9) payable_length [of "\<lambda>_. False" hs] by simp
  have "room ct s b subs pays t0 B1"
    unfolding assms(16) by (rule room_fresh [OF assms(1-3) pos eq_refl [OF assms(8)] assms(6,4,5) len assms(12,13)])
  then have room: "room ct s b subs (payable (\<lambda>h. bk_paid (book_of (st1, P1)) (b, i, h)) hs) t0 (book_of (st1, P1))"
    by (simp add: unpaid assms(7,11))
  have rates: "0 \<le> ba_credits_per_token s" "0 \<le> ba_carbon_per_token s" "0 \<le> ba_biodiversity_per_token s"
    by (simp_all add: assms(6) rate_nonneg)
  note sane = typed_sane [OF assms(10)]
  from loop_succeeds [OF room sane assms(15) rates] obtain t st2 where
    l: "distribute_loop env b i ct s subs hs t0 st1 = Ok (t, st2)" by blast
  from distribute_loop_book [OF l assms(15) rates sane, of P1] l show ?thesis by (auto simp: unpaid assms(7,11))
qed

text \<open>The batch as the loop leaves it: everything is processed and nothing exceeds the report.\<close>

lemma whole_batch:
  assumes "0 \<le> c" and "0 \<le> y" and "fits_type ct c y" and "s = fresh_batch rid c y subs" and "\<And>p. p \<in> set pays \<Longrightarrow> 0 < snd p"
    and "sum_list (map snd pays) = subs" and "c + y \<le> i128_max"
    and "looped ct s subs pays \<lparr>ty_total = 0, ty_carbon = 0, ty_bio = 0, ty_count = 0, ty_processed = 0\<rparr> t"
  shows "ty_processed t = subs" and "fits_i128 (ty_total t)" and "fits_i128 (ty_carbon t)" and "fits_i128 (ty_bio t)"
    and "batch_ok ct (s\<lparr>ba_distributed_so_far := ty_total t, ba_carbon_distributed_so_far := ty_carbon t,
      ba_bio_distributed_so_far := ty_bio t, ba_holder_count_so_far := k\<rparr>) subs subs" (is "batch_ok ct ?s1 subs subs")
proof -
  have s1: "?s1 = advance (\<Sum>p\<leftarrow>pays. carbon_share ct s (snd p)) (\<Sum>p\<leftarrow>pays. bio_share ct s (snd p)) k s"
    using assms(8) by (simp add: looped_def advance_def assms(4) fresh_batch_def)
  have "batch_ok ct s subs 0" unfolding assms(4) by (rule batch_ok_fresh [OF assms(1-3)])
  from batch_ok_advance [OF this _ refl, where k = k and pays = pays] assms(5) show ok: "batch_ok ct ?s1 subs subs" by (simp add: s1 assms(6))
  show "ty_processed t = subs" using assms(6,8) by (simp add: looped_def)
  have "ty_carbon t \<le> c" "ty_bio t \<le> y" "ty_total t \<le> c + y" "0 \<le> ty_carbon t" "0 \<le> ty_bio t" "ty_total t = ty_carbon t + ty_bio t"
    using batch_within [OF ok] ok by (simp_all add: batch_ok_def assms(4) fresh_batch_def)
  with assms(1,2,7) show "fits_i128 (ty_total t)" "fits_i128 (ty_carbon t)" "fits_i128 (ty_bio t)"
    by (auto intro!: fits_nonneg)
qed

text \<open>The first and last batch of a period, over holders that cover the subscribed total.\<close>

lemma only_paid_count: "only_paid st st' \<Longrightarrow> cpn_period_count st' = cpn_period_count st \<and> cpn_oracle_consumer st' = cpn_oracle_consumer st"
  by (auto simp: only_paid_def)

lemma whole_close:
  assumes "0 \<le> c" and "0 \<le> y" and "fits_type ct c y" and "(c + y) * FIXED_POINT \<le> i128_max" and "subs \<le> i128_max"
    and "s = fresh_batch rid c y subs" and "pays = payable (\<lambda>_. False) hs" and "sum_list (map snd pays) = subs"
    and "length hs < 2 ^ 32" and "coupon_typed (st1, P1)" and "B1 = book_of (st1, P1)" and "bk_split B1"
    and "\<And>h. bk_accrued B1 (b, h) + (c + y) \<le> i128_max" and "\<And>h. \<not> bk_paid B1 (b, i, h)" and "overflow_checks env"
    and "cpn_oracle_consumer st1 = Some oa" and "oracles_at P1 oa = Some orc" and "pget (orc_reports orc) rid = Some r"
    and "bk_dusts B1" and "bk_dust B1 b + (c + y) \<le> i128_max" and "unat (unwrap_or (pget (cpn_period_count st1) b) 0) + 1 < 2 ^ 32"
    and "t0 = \<lparr>ty_total = 0, ty_carbon = 0, ty_bio = 0, ty_count = 0, ty_processed = 0\<rparr>"
  shows "\<exists>t st2 s1 st3 res st' P'. distribute_loop env b i ct s subs hs t0 st1 = Ok (t, st2) \<and>
    fits_i128 (ty_total t) \<and> fits_i128 (ty_carbon t) \<and> fits_i128 (ty_bio t) \<and> ty_processed t = subs \<and>
    s1 = s\<lparr>ba_distributed_so_far := ty_total t, ba_carbon_distributed_so_far := ty_carbon t,
      ba_bio_distributed_so_far := ty_bio t, ba_holder_count_so_far := ty_count t\<rparr> \<and>
    st3 = st2\<lparr>cpn_batch_state := coupon_write env (cpn_batch_state st2) (b, i) s1,
      cpn_distribution_balance := coupon_write env (cpn_distribution_balance st2) (b, i) (subs, subs)\<rparr> \<and>
    close_period env b i rid s1 subs subs st3 P1 = Ok (res, st', P') \<and> settled_with b i c y (fold (bk_pay b i ct s) pays B1) (book_of (st', P'))"
proof -
  from whole_loop [OF assms(1-15,22)] obtain t st2 where
    l: "distribute_loop env b i ct s subs hs t0 st1 = Ok (t, st2)" "looped ct s subs pays t0 t" "only_paid st1 st2"
    and B2: "book_of (st2, P1) = fold (bk_pay b i ct s) pays B1" by blast
  have pos: "\<And>p. p \<in> set pays \<Longrightarrow> 0 < snd p" unfolding assms(7) by (rule payable_pos)
  have "c + y \<le> (c + y) * FIXED_POINT" using assms(1,2) by (simp add: FIXED_POINT_def)
  with assms(4) have le: "c + y \<le> i128_max" by linarith
  note w = whole_batch [OF assms(1-3,6) pos assms(8) le l(2) [unfolded assms(22)]]
  define s1 where "s1 = s\<lparr>ba_distributed_so_far := ty_total t, ba_carbon_distributed_so_far := ty_carbon t,
      ba_bio_distributed_so_far := ty_bio t, ba_holder_count_so_far := ty_count t\<rparr>"
  define st3 where "st3 = st2\<lparr>cpn_batch_state := coupon_write env (cpn_batch_state st2) (b, i) s1,
      cpn_distribution_balance := coupon_write env (cpn_distribution_balance st2) (b, i) (subs, subs)\<rparr>"
  have B3: "bk_dusts (book_of (st3, P1))" "bk_dust (book_of (st3, P1)) b = bk_dust B1 b"
    using assms(19) by (simp_all add: st3_def B2 fold_pay_keeps bk_dusts_def)
  have o3: "cpn_oracle_consumer st3 = Some oa" "cpn_period_count st3 = cpn_period_count st1"
    using only_paid_count [OF l(3)] assms(16) by (simp_all add: st3_def)
  have tot: "ba_total_credits s1 = c + y" by (simp add: s1_def assms(6) fresh_batch_def)
  have ok: "batch_ok ct s1 subs subs" unfolding s1_def by (rule w(5))
  obtain res st' P' where cl: "close_period env b i rid s1 subs subs st3 P1 = Ok (res, st', P')"
    using close_succeeds [OF o3(1) assms(17,18) ok B3(1), of b env i] assms(20,21) by (auto simp: B3(2) o3(2) tot)
  have "coupon_typed (st3, P1)" unfolding st3_def
    by (rule typed_batch [OF only_paid_typed [OF l(3) assms(10)]]) (simp_all add: s1_def assms(6) rate_nonneg)
  from close_period_book [OF cl this] batch_within [OF ok] have "settled_with b i c y (fold (bk_pay b i ct s) pays B1) (book_of (st', P'))"
    by (auto simp: settled_with_def bk_close_def bk_note_def st3_def B2 tot)
  with cl l(1) w(1-4) s1_def st3_def show ?thesis by blast
qed

text \<open>The state in which the loop of a first batch starts.\<close>

lemma first_batch:
  assumes "coupon_typed (st, P)" and "overflow_checks env" and "unat (coupon_get_nonce st a) + 1 < 2 ^ 64"
    and "reported env b rid pid r iss subs st P" and "report_totals ct r = Ok (c, y)" and "0 \<le> c" and "0 \<le> y"
    and "(c + y) * FIXED_POINT \<le> i128_max" and "B = book_of (st, P)" and "s = fresh_batch rid c y subs"
  shows "\<exists>st0 st1 P1 oa orc. coupon_consume_nonce env a (coupon_get_nonce st a) st = Ok st0 \<and>
    cpn_admin st0 = cpn_admin st \<and> cpn_period_info st0 = cpn_period_info st \<and> cpn_batch_state st0 = cpn_batch_state st \<and>
    cpn_bond_project st0 = cpn_bond_project st \<and> cpn_bond_credit_type st0 = cpn_bond_credit_type st \<and>
    open_batch env b i rid pid ct st0 P = Ok (s, subs, 0, st1, P1) \<and> cpn_period_count st1 = cpn_period_count st \<and>
    cpn_oracle_consumer st1 = Some oa \<and> oracles_at P1 oa = Some orc \<and> pget (orc_reports orc) rid = Some r \<and>
    coupon_typed (st1, P1) \<and> book_of (st1, P1) =
      (bk_spend a B)\<lparr>bk_batches := (bk_batches B)((b, i) \<mapsto> s), bk_progress := (bk_progress B)((b, i) \<mapsto> (subs, 0))\<rparr>"
proof -
  define st0 where "st0 = coupon_set_nonce env a (coupon_get_nonce st a + 1) st"
  have n0: "coupon_consume_nonce env a (coupon_get_nonce st a) st = Ok st0"
    using assms(3) by (simp add: coupon_consume_nonce_def add_word_def st0_def Let_def)
  have same: "cpn_admin st0 = cpn_admin st" "cpn_period_info st0 = cpn_period_info st" "cpn_batch_state st0 = cpn_batch_state st"
    "cpn_bond_project st0 = cpn_bond_project st" "cpn_bond_credit_type st0 = cpn_bond_credit_type st"
    "cpn_period_count st0 = cpn_period_count st" "reported env b rid pid r iss subs st0 P"
    using assms(4) by (simp_all add: st0_def coupon_set_nonce_def reported_def)
  from open_batch_succeeds [OF same(7) assms(5-8), of i] same(6) obtain st1 P1 oa orc
    where o: "open_batch env b i rid pid ct st0 P = Ok (s, subs, 0, st1, P1)" "cpn_period_count st1 = cpn_period_count st"
      "cpn_oracle_consumer st1 = Some oa" "oracles_at P1 oa = Some orc" "pget (orc_reports orc) rid = Some r"
    unfolding assms(10) by auto
  have "book_of (st0, P) = bk_spend a B" using coupon_consume_nonce_Ok [OF n0, of P] by (simp add: assms(9))
  with open_batch_book [OF o(1) assms(2) typed_nonces [OF n0 assms(1)]] have "coupon_typed (st1, P1)"
    "book_of (st1, P1) = (bk_spend a B)\<lparr>bk_batches := (bk_batches B)((b, i) \<mapsto> s), bk_progress := (bk_progress B)((b, i) \<mapsto> (subs, 0))\<rparr>"
    by (simp_all add: bk_spend_def)
  with n0 same o show ?thesis by blast
qed

lemma whole_distribution:
  assumes "coupon_typed (st, P)" and "book_inv m (book_of (st, P))" and "paid_open (book_of (st, P))" and "overflow_checks env"
    and "require_auth env a = (Ok () :: (CouponEngineError, unit) result)" and "cpn_admin st = Some a"
    and "unat (coupon_get_nonce st a) + 1 < 2 ^ 64"
    and "pget (cpn_period_info st) (b, i) = None" and "pget (cpn_batch_state st) (b, i) = None"
    and "cpn_bond_project st b = Some pid" and "cpn_bond_credit_type st b = Some ct"
    and "reported env b rid pid r iss subs st P" and "report_totals ct r = Ok (c, y)" and "0 \<le> c" and "0 \<le> y" and "fits_type ct c y"
    and "(c + y) * FIXED_POINT \<le> i128_max" and "subs \<le> i128_max"
    and "\<And>h. bk_accrued (book_of (st, P)) (b, h) + (c + y) \<le> i128_max" and "bk_dust (book_of (st, P)) b + (c + y) \<le> i128_max"
    and "unat (unwrap_or (pget (cpn_period_count st) b) 0) + 1 < 2 ^ 32" and "length hs < 2 ^ 32"
    and "pays = payable (\<lambda>_. False) hs" and "sum_list (map snd pays) = subs"
  shows "\<exists>res st' P'. distribute_coupon env a b i hs rid (coupon_get_nonce st a) True st P = Ok (res, st', P') \<and>
    settled_with b i c y (fold (bk_pay b i ct (fresh_batch rid c y subs)) pays (book_of (st, P))) (book_of (st', P'))"
proof -
  let ?B = "book_of (st, P)" and ?s = "fresh_batch rid c y subs" and ?n = "coupon_get_nonce st a"
  from first_batch [OF assms(1,4,7,12-15,17) refl refl, of i] obtain st0 st1 P1 oa orc where n0: "coupon_consume_nonce env a ?n st = Ok st0"
    and same: "cpn_admin st0 = cpn_admin st" "cpn_period_info st0 = cpn_period_info st" "cpn_batch_state st0 = cpn_batch_state st"
      "cpn_bond_project st0 = cpn_bond_project st" "cpn_bond_credit_type st0 = cpn_bond_credit_type st"
    and o: "open_batch env b i rid pid ct st0 P = Ok (?s, subs, 0, st1, P1)" "cpn_period_count st1 = cpn_period_count st"
      "cpn_oracle_consumer st1 = Some oa" "oracles_at P1 oa = Some orc" "pget (orc_reports orc) rid = Some r"
    and t1: "coupon_typed (st1, P1)" and B1': "book_of (st1, P1) =
      (bk_spend a ?B)\<lparr>bk_batches := (bk_batches ?B)((b, i) \<mapsto> ?s), bk_progress := (bk_progress ?B)((b, i) \<mapsto> (subs, 0))\<rparr>" by blast
  define B1 where "B1 = book_of (st1, P1)"
  note B1 = B1' [folded B1_def]
  have unpaid: "\<And>h. \<not> bk_paid B1 (b, i, h)"
    using assms(3,8,9) unfolding paid_open_def by (fastforce simp: B1 bk_spend_def book_reads [where P = P])
  have b1: "bk_split B1" "\<And>h. bk_accrued B1 (b, h) + (c + y) \<le> i128_max"
    "bk_dusts B1" "bk_dust B1 b + (c + y) \<le> i128_max"
    using assms(19,20) book_invD(2,4) [OF assms(2)] by (auto simp: B1 bk_spend_def fields_agree bk_dusts_def)
  have pc: "unat (unwrap_or (pget (cpn_period_count st1) b) 0) + 1 < 2 ^ 32" using assms(21) o(2) by simp
  from whole_close [OF assms(14-18) refl assms(23,24,22) t1 B1_def b1(1,2) unpaid assms(4) o(3-5) b1(3,4) pc refl]
  obtain t st2 s1 st3 res st' P' where l: "distribute_loop env b i ct ?s subs hs
        \<lparr>ty_total = 0, ty_carbon = 0, ty_bio = 0, ty_count = 0, ty_processed = 0\<rparr> st1 = Ok (t, st2)"
    and f: "fits_i128 (ty_total t)" "fits_i128 (ty_carbon t)" "fits_i128 (ty_bio t)" "ty_processed t = subs"
    and s1: "s1 = ?s\<lparr>ba_distributed_so_far := ty_total t, ba_carbon_distributed_so_far := ty_carbon t,
      ba_bio_distributed_so_far := ty_bio t, ba_holder_count_so_far := ty_count t\<rparr>"
    and st3: "st3 = st2\<lparr>cpn_batch_state := coupon_write env (cpn_batch_state st2) (b, i) s1,
      cpn_distribution_balance := coupon_write env (cpn_distribution_balance st2) (b, i) (subs, subs)\<rparr>"
    and cl: "close_period env b i rid s1 subs subs st3 P1 = Ok (res, st', P')"
    and fin: "settled_with b i c y (fold (bk_pay b i ct ?s) pays B1) (book_of (st', P'))" by blast
  have zero: "ba_distributed_so_far ?s = 0" "ba_carbon_distributed_so_far ?s = 0" "ba_bio_distributed_so_far ?s = 0"
    "ba_holder_count_so_far ?s = 0" by (simp_all add: fresh_batch_def)
  have "unat (ty_count t) < 2 ^ 32" using unsigned_less [of "ty_count t", where 'a = nat] by simp
  then have "add_word env 0 (ty_count t) = (Ok (ty_count t) :: (CouponEngineError, u32) result)" by (simp add: add_word_def)
  then have "distribute_coupon env a b i hs rid ?n True st P = Ok (res, st', P')"
    using assms(5,6,8-11) n0 same o(1) l f cl zero
    by (simp add: distribute_coupon_def coupon_require_admin_def ok_or_def checked_i128_def Let_def s1 st3)
  moreover have "settled_with b i c y (fold (bk_pay b i ct ?s) pays ?B) (book_of (st', P'))"
    using fin unfolding settled_with_def by (simp add: fun_eq_iff fold_pay_accrued B1 bk_spend_def)
  ultimately show ?thesis by blast
qed

section \<open>Properties\<close>

text \<open>
  C13. A complete holder list settles a period. Take a bond registered with the engine whose holders the
  issuer has on record, a verified report on its project, and a period that was not opened yet. If the
  administrator passes the issuer's own holder list with the current balances as one final batch, the call
  succeeds, unless a number leaves its machine range: the period is settled, what was distributed and what
  is left over add up to the credits of the report, and every holder is credited exactly once in proportion
  to the balance, although the list may name a holder more than once.
\<close>

theorem complete_list_settles:
  assumes "coupon_start n s0" and "run (coupon_step overflow_checks) s0 ls (st, P)" and "n + Suc (length ls) < 2 ^ 64"
    and "run issuer_step (issuer_constructor issuer_admin) li iss" and "length li < 2 ^ 64"
    and "overflow_checks env" and "require_auth env a = (Ok () :: (CouponEngineError, unit) result)" and "cpn_admin st = Some a"
    and "pget (cpn_period_info st) (b, i) = None" and "pget (cpn_batch_state st) (b, i) = None"
    and "cpn_bond_project st b = Some pid" and "cpn_bond_credit_type st b = Some ct"
    and "reported env b rid pid r iss subs st P" and "report_totals ct r = Ok (c, y)"
    and "(c + y) * FIXED_POINT \<le> i128_max" and "subs \<le> i128_max" and "length (get_holder_list iss b) < 2 ^ 32"
    and "\<forall>h. unwrap_or (pget (cpn_accrued st) (b, h)) 0 + (c + y) \<le> i128_max"
    and "unwrap_or (pget (cpn_undistributed_total st) b) 0 + (c + y) \<le> i128_max"
    and "unat (unwrap_or (pget (cpn_period_count st) b) 0) + 1 < 2 ^ 32"
  shows "\<exists>res st' P' info. distribute_coupon env a b i
      (map (\<lambda>h. (h, get_holder_balance iss b h)) (get_holder_list iss b)) rid (coupon_get_nonce st a) True st P = Ok (res, st', P') \<and>
    pget (cpn_period_info st') (b, i) = Some info \<and> pi_distributed info \<and>
    pi_total_credits_earned info + pi_undistributed info = c + y \<and> 0 \<le> pi_undistributed info \<and>
    (\<forall>h. unwrap_or (pget (cpn_accrued st') (b, h)) 0 = unwrap_or (pget (cpn_accrued st) (b, h)) 0 +
       (rate c subs * get_holder_balance iss b h div FIXED_POINT + rate y subs * get_holder_balance iss b h div FIXED_POINT))"
proof -
  let ?B = "book_of (st, P)" and ?f = "get_holder_balance iss b" and ?s = "fresh_batch rid c y subs"
  let ?hs = "map (\<lambda>h. (h, ?f h)) (get_holder_list iss b)"
  note reach = coupon_reachable [OF assms(1,2)] coupon_paid_open [OF assms(1,2)]
  have nonce: "unat (coupon_get_nonce st a) + 1 < 2 ^ 64" using coupon_nonce_le [OF assms(1,2), of a] assms(3) by simp
  from assms(13) reach(1) assms(3) have "sound_report r" by (fastforce simp: reported_def coupon_typed_def sound_reports_def)
  with assms(14) have cy: "0 \<le> c" "0 \<le> y" "fits_type ct c y" by (auto dest: report_totals_Ok)
  from assms(13) obtain e iss' where "total_subscribed e b iss = Ok (subs, iss')" by (auto simp: reported_def)
  note cover = holder_list_covers [OF issuer_reachable_inv [OF assms(4,5)] this refl]
  have len: "length ?hs < 2 ^ 32" using assms(17) by simp
  have acc: "\<And>h. bk_accrued ?B (b, h) + (c + y) \<le> i128_max" "bk_dust ?B b + (c + y) \<le> i128_max"
    using assms(18,19) by (simp_all add: book_reads [where P = P])
  from whole_distribution [OF reach(1) reach(2) reach(3) assms(6-8) nonce assms(9-14) cy assms(15,16) acc assms(20) len refl cover(1)]
    assms(3) obtain res st' P' where d: "distribute_coupon env a b i ?hs rid (coupon_get_nonce st a) True st P = Ok (res, st', P')"
    and w: "settled_with b i c y (fold (bk_pay b i ct ?s) (payable (\<lambda>_. False) ?hs) ?B) (book_of (st', P'))" by auto
  have "bk_accrued (book_of (st', P')) (b, h) = bk_accrued ?B (b, h) +
      (rate c subs * ?f h div FIXED_POINT + rate y subs * ?f h div FIXED_POINT)" for h
    using w payable_one [where f = ?f and h = h and g = "\<lambda>x. rate c subs * x div FIXED_POINT + rate y subs * x div FIXED_POINT", OF cover(3,2)]
    by (simp add: settled_with_def fold_pay_accrued batch_shares [OF batch_ok_fresh [OF cy, of rid subs]])
  then have "unwrap_or (pget (cpn_accrued st') (b, h)) 0 = unwrap_or (pget (cpn_accrued st) (b, h)) 0 +
      (rate c subs * ?f h div FIXED_POINT + rate y subs * ?f h div FIXED_POINT)" for h
    unfolding book_reads(1) [where P = P and st = st] book_reads(1) [where P = P' and st = st'] .
  with d w show ?thesis
    unfolding settled_with_def book_reads(10) [where P = P' and st = st', symmetric] by blast
qed

section \<open>Witnesses\<close>

lemma sample_holders:
  "\<exists>li i4 i5 i6. run issuer_step (issuer_constructor (Address 0)) li i4 \<and> run issuer_step (issuer_constructor (Address 0)) (li @ [None]) i5 \<and> length li = 4 \<and>
     get_bond (call_env (checked_env 30) (Address 40)) 1 i4 = Ok (sample_config, i5) \<and>
     total_subscribed (call_env (checked_env 40) (Address 40)) 1 i5 = Ok (300, i6) \<and>
     get_holder_list i5 1 = [Address 1, Address 2, Address 1] \<and> get_holder_balance i5 1 (Address 1) = 300"
proof -
  have "\<exists>i1 i2 i3 i4 i5 i6.
     issue_bond (sample_env 10) (Address 0) sample_config 0 (issuer_constructor (Address 0)) = Ok (1, i1) \<and>
     subscribe (sample_env 20) (Address 1) 1 300 0 i1 = Ok i2 \<and>
     transfer (sample_env 20) (Address 1) (Address 2) 1 300 1 i2 = Ok i3 \<and>
     transfer (sample_env 20) (Address 2) (Address 1) 1 300 0 i3 = Ok i4 \<and>
     get_bond (call_env (checked_env 30) (Address 40)) 1 i4 = Ok (sample_config, i5) \<and>
     total_subscribed (call_env (checked_env 40) (Address 40)) 1 i5 = Ok (300, i6) \<and>
     get_holder_list i5 1 = [Address 1, Address 2, Address 1] \<and> get_holder_balance i5 1 (Address 1) = 300"
    by (simp add: issuer_exec get_holder_list_def get_holder_balance_def get_bond_def total_subscribed_def call_env_def checked_env_def)
  then obtain i1 i2 i3 i4 i5 i6 where
    c: "issue_bond (sample_env 10) (Address 0) sample_config 0 (issuer_constructor (Address 0)) = Ok (1, i1)"
      "subscribe (sample_env 20) (Address 1) 1 300 0 i1 = Ok i2" "transfer (sample_env 20) (Address 1) (Address 2) 1 300 1 i2 = Ok i3"
      "transfer (sample_env 20) (Address 2) (Address 1) 1 300 0 i3 = Ok i4"
    and g: "get_bond (call_env (checked_env 30) (Address 40)) 1 i4 = Ok (sample_config, i5)"
    and v: "total_subscribed (call_env (checked_env 40) (Address 40)) 1 i5 = Ok (300, i6)"
      "get_holder_list i5 1 = [Address 1, Address 2, Address 1]" "get_holder_balance i5 1 (Address 1) = 300" by blast
  let ?li = "[Some (Address 0, 0), Some (Address 1, 0), Some (Address 1, 1), Some (Address 2, 0)] :: call_label list"
  have r: "run issuer_step (issuer_constructor (Address 0)) ?li i4"
    using c by (blast intro: run_Cons run_refl step_issue_bond step_subscribe step_transfer)
  have "run issuer_step (issuer_constructor (Address 0)) (?li @ [None]) i5"
    by (rule run_snoc [where step = issuer_step, OF r step_get_bond [OF g]])
  with r g v show ?thesis by (intro exI [of _ ?li]) auto
qed

lemma sample_registration:
  assumes "get_bond (call_env (checked_env 30) (Address 40)) 1 i4 = Ok (sample_config, i5)"
    and "P0 = sample_peers\<lparr>issuers_at := [Address 40 \<mapsto> i4]\<rparr>"
  shows "\<exists>st P r. register_bond (checked_env 30) (Address 0) 1 (replicate 32 1) 0 sample_engine P0 = Ok (st, P) \<and>
    cpn_admin st = Some (Address 0) \<and> cpn_period_info st = Map.empty \<and> cpn_batch_state st = Map.empty \<and>
    cpn_bond_project st 1 = Some (replicate 32 1) \<and> cpn_bond_credit_type st 1 = Some Carbon \<and>
    cpn_accrued st = Map.empty \<and> cpn_undistributed_total st = Map.empty \<and> cpn_period_count st = Map.empty \<and>
    cpn_oracle_consumer st = Some (Address 41) \<and> cpn_bond_issuer st = Some (Address 40) \<and>
    issuers_at P (Address 40) = Some i5 \<and> map_option (\<lambda>orc. pget (orc_reports orc) 7) (oracles_at P (Address 41)) = Some (Some r) \<and>
    rp_status r = Verified \<and> rp_project_metadata_hash r = replicate 32 1 \<and> report_totals Carbon r = Ok (1001, 0)"
proof -
  have cfg: "bc_project_id sample_config = replicate 32 1" "bc_credit_type sample_config = Carbon" by (simp_all add: sample_config_def)
  have env: "overflow_checks (checked_env 30)" "require_auth (checked_env 30) (Address 0) = (Ok () :: (CouponEngineError, unit) result)"
    by (simp_all add: checked_env_def sample_env_def require_auth_def)
  show ?thesis unfolding assms(2) register_bond_def invoke_get_bond_def
    using assms(1) cfg env
    by (simp add: coupon_consume_nonce_def coupon_get_nonce_def coupon_set_nonce_def coupon_require_admin_def coupon_constructor_def
        invoke_status_by_hash_def get_project_status_by_hash_def read_project_def read_persistent_def registry_bump_instance_def
        registry_constructor_def contract_at_def sample_peers_def ok_or_def Let_def add_word_def coupon_publish_def
        bump_persistent_def pget_def pset_def pext_def report_totals_def CREDIT_DIVISOR_def signed_divide_int_def)
qed

theorem complete_list_settles_witness:
  "\<exists>(st :: coupon_engine) (P :: peers) (iss :: issuer) res (st' :: coupon_engine) (P' :: peers).
     distribute_coupon (checked_env 40) (Address 0) 1 0
       (map (\<lambda>h. (h, get_holder_balance iss 1 h)) [Address 1, Address 2, Address 1]) 7 (coupon_get_nonce st (Address 0)) True st P =
       Ok (res, st', P') \<and>
     unwrap_or (pget (cpn_accrued st') (1, Address 1)) 0 = 1000"
proof -
  from sample_holders obtain li i4 i5 i6 where r4: "run issuer_step (issuer_constructor (Address 0)) li i4" and len: "length li = 4"
    and r5: "run issuer_step (issuer_constructor (Address 0)) (li @ [None]) i5"
    and g: "get_bond (call_env (checked_env 30) (Address 40)) 1 i4 = Ok (sample_config, i5)"
    and v: "total_subscribed (call_env (checked_env 40) (Address 40)) 1 i5 = Ok (300, i6)"
      "get_holder_list i5 1 = [Address 1, Address 2, Address 1]" "get_holder_balance i5 1 (Address 1) = 300" by blast
  define P0 where "P0 = sample_peers\<lparr>issuers_at := [Address 40 \<mapsto> i4]\<rparr>"
  from sample_registration [OF g P0_def] obtain st P r where
    reg: "register_bond (checked_env 30) (Address 0) 1 (replicate 32 1) 0 sample_engine P0 = Ok (st, P)"
    and st: "cpn_admin st = Some (Address 0)" "cpn_period_info st = Map.empty" "cpn_batch_state st = Map.empty"
      "cpn_bond_project st 1 = Some (replicate 32 1)" "cpn_bond_credit_type st 1 = Some Carbon" "cpn_accrued st = Map.empty"
      "cpn_undistributed_total st = Map.empty" "cpn_period_count st = Map.empty"
    and rp: "reported (checked_env 40) 1 7 (replicate 32 1) r i5 300 st P" and rt: "report_totals Carbon r = Ok (1001, 0)"
    using v(1) by (auto simp: reported_def)
  have "ledger_inv (length li) (ledger_of i4)" using issuer_reachable_inv [OF r4] len by simp
  then have "inv_ids 4 (ledger_of i4)" by (simp add: ledger_inv_def len)
  moreover have "\<forall>a orc. oracles_at P0 a = Some orc \<longrightarrow> sound_reports orc"
    using sample_coupon_start by (auto simp: coupon_start_def P0_def)
  ultimately have start: "coupon_start 4 (sample_engine, P0)" unfolding coupon_start_def prod.case
    by (intro conjI exI [of _ "Address 0"] exI [of _ "Address 40"] exI [of _ "Address 41"] exI [of _ "Address 42"]) (auto simp: P0_def)
  have env: "overflow_checks (checked_env t)" "timestamp (checked_env t) = t"
    "require_auth (checked_env t) (Address 0) = (Ok () :: (CouponEngineError, unit) result)" for t
    by (simp_all add: checked_env_def sample_env_def require_auth_def)
  have "coupon_step overflow_checks (sample_engine, P0) (30, Some (Address 0, 0)) (st, P)"
    using step_register_bond [where E = overflow_checks, OF env(1) reg] by (simp add: env)
  then have run: "run (coupon_step overflow_checks) (sample_engine, P0) [(30, Some (Address 0, 0))] (st, P)"
    using run_Cons [where step = "coupon_step overflow_checks", OF _ run_refl] by blast
  have none: "pget Map.empty k = None" for k :: 'k by (simp add: pget_def)
  from complete_list_settles [OF start run _ r5 _ env(1,3) st(1) _ _ st(4,5) rp rt, of 0] v(2,3) len obtain res st' P'
    where d: "distribute_coupon (checked_env 40) (Address 0) 1 0 (map (\<lambda>h. (h, get_holder_balance i5 1 h)) [Address 1, Address 2, Address 1])
        7 (coupon_get_nonce st (Address 0)) True st P = Ok (res, st', P')"
      and u: "unwrap_or (pget (cpn_accrued st') (1, Address 1)) 0 = rate 1001 300 * 300 div FIXED_POINT"
    by (auto simp: st none pget_def FIXED_POINT_def i128_max_def)
  have "unwrap_or (pget (cpn_accrued st') (1, Address 1)) 0 = 1000" unfolding u by (simp add: rate_def FIXED_POINT_def)
  with d show ?thesis by blast
qed

end
