(* ===== verification/Governance.thy ===== *)
theory Governance
  imports Registry
begin

text \<open>
  The governance contract, \<^verbatim>\<open>contracts/governance/src/lib.rs\<close>: a fixed set of signers proposes calls to other
  contracts, votes on them and, after a timelock, has them executed, provided that the contract and the
  method are on an allowlist which is itself only changed by an executed proposal. The contracts that a
  proposal calls are not known to this one: their effect is the parameter \<open>invoke\<close> of \<open>execute\<close>. The
  lemmas show that nothing is executed without enough distinct approvals, the timelock and the allowlist.
\<close>

section \<open>State\<close>

definition DEFAULT_TIMELOCK_SECONDS :: u64 where
  "DEFAULT_TIMELOCK_SECONDS = 172800"

definition DEFAULT_PROPOSAL_TTL_SECONDS :: u64 where
  "DEFAULT_PROPOSAL_TTL_SECONDS = 2592000"

definition GOVERNANCE_TTL_THRESHOLD :: u32 where
  "GOVERNANCE_TTL_THRESHOLD = 17280"

definition GOVERNANCE_TTL_EXTEND_TO :: u32 where
  "GOVERNANCE_TTL_EXTEND_TO = 2073600"

definition STORAGE_VERSION_PERSISTENT :: u32 where
  "STORAGE_VERSION_PERSISTENT = 1"

definition MAX_ALLOWED_CALLS :: u32 where
  "MAX_ALLOWED_CALLS = 64"

definition SELF_METHOD_SET_ALLOWED_CALLS :: symbol where
  "SELF_METHOD_SET_ALLOWED_CALLS = ''set_allowed_calls''"

record AllowedCall =
  ac_contract :: address
  ac_function :: symbol

text \<open>
  \<^verbatim>\<open>Val\<close>, the host's dynamically typed value, as far as arguments of proposals are concerned. A vector
  is decoded element by element when it is read, so its elements may be of any type.
\<close>

datatype val =
  AddressVal address | U64Val u64 | U32Val u32 | SymbolVal symbol | StringVal string | BytesVal bytes32
| CallVal AllowedCall | VecVal "val list" | OtherVal nat

datatype ProposalStatus = Pending | Queued | Executed | Rejected | Cancelled | Expired

record Proposal =
  pr_id :: u64
  pr_proposer :: address
  pr_target :: address
  pr_method :: symbol
  pr_args :: "val list"
  pr_description :: symbol
  pr_status :: ProposalStatus
  pr_approval_count :: u32
  pr_veto_count :: u32
  pr_created_at :: u64
  pr_expires_at :: u64
  pr_queued_at :: u64
  pr_executed_at :: u64
  pr_timelock_seconds :: u64

datatype GovernanceEvent =
  allowed_calls_set u32 address
| proposal_created u64 address address
| vote_cast u64 address ProposalStatus
| proposal_rejected u64 address
| proposal_cancelled u64 address
| proposal_executed u64 address

text \<open>
  \<open>old_storage\<close> holds what an earlier version of the contract left in instance storage; reads fall back to
  it.
\<close>

record old_storage =
  old_proposals :: "u64 \<rightharpoonup> Proposal"
  old_proposal_count :: "u64 option"
  old_votes :: "u64 \<times> address \<rightharpoonup> VoteChoice"
  old_nonces :: "address \<rightharpoonup> u64"

record governance =
  gov_instance_ttl :: u32
  gov_signers :: "address list option"
  gov_threshold :: "u32 option"
  gov_timelock_seconds :: "u64 option"
  gov_storage_version :: "u32 option"
  gov_proposals :: "(u64, Proposal) pstore"
  gov_proposal_count :: "(unit, u64) pstore"
  gov_votes :: "(u64 \<times> address, VoteChoice) pstore"
  gov_nonces :: "(address, u64) pstore"
  gov_nonce_initialized :: "(address, bool) pstore"
  gov_allowed_calls :: "(unit, AllowedCall list) pstore"
  gov_old :: old_storage
  gov_events :: "GovernanceEvent list"

section \<open>Helpers\<close>

definition storage_version :: "governance \<Rightarrow> u32" where
  "storage_version st = unwrap_or (gov_storage_version st) 0"

definition gov_extend :: "env \<Rightarrow> ('k, 'v) pstore \<Rightarrow> 'k \<Rightarrow> ('k, 'v) pstore" where
  "gov_extend env m k = pext env GOVERNANCE_TTL_THRESHOLD GOVERNANCE_TTL_EXTEND_TO m k"

definition gov_write :: "env \<Rightarrow> ('k, 'v) pstore \<Rightarrow> 'k \<Rightarrow> 'v \<Rightarrow> ('k, 'v) pstore" where
  "gov_write env m k v = gov_extend env (pset env m k v) k"

definition write_nonce :: "env \<Rightarrow> address \<Rightarrow> u64 \<Rightarrow> governance \<Rightarrow> governance" where
  "write_nonce env addr nonce st =
     st\<lparr>gov_nonces := gov_write env (gov_nonces st) addr nonce,
        gov_nonce_initialized := gov_write env (gov_nonce_initialized st) addr True\<rparr>"

definition has_nonce_marker :: "env \<Rightarrow> address \<Rightarrow> governance \<Rightarrow> bool \<times> governance" where
  "has_nonce_marker env addr st =
     (if phas (gov_nonce_initialized st) addr
      then (True, st\<lparr>gov_nonce_initialized := gov_extend env (gov_nonce_initialized st) addr\<rparr>)
      else (False, st))"

definition governance_get_nonce :: "env \<Rightarrow> address \<Rightarrow> governance \<Rightarrow> (GovernanceError, u64 \<times> governance) result" where
  "governance_get_nonce env addr st =
     (case pget (gov_nonces st) addr of
        Some nonce \<Rightarrow> Ok (nonce, st\<lparr>gov_nonces := gov_extend env (gov_nonces st) addr\<rparr>)
      | None \<Rightarrow>
     (case old_nonces (gov_old st) addr of
        Some nonce \<Rightarrow> Ok (nonce, write_nonce env addr nonce st)
      | None \<Rightarrow>
          let (marker, st) = has_nonce_marker env addr st
          in if marker then Err GovernanceError.NonceArchived else Ok (0, st)))"

definition governance_set_nonce :: "env \<Rightarrow> address \<Rightarrow> u64 \<Rightarrow> governance \<Rightarrow> governance" where
  "governance_set_nonce env addr nonce st = write_nonce env addr nonce st"

definition check_nonce :: "env \<Rightarrow> address \<Rightarrow> u64 \<Rightarrow> governance \<Rightarrow> (GovernanceError, governance) result" where
  "check_nonce env addr nonce st =
     and_then (governance_get_nonce env addr st) (\<lambda>(current, st).
     if nonce \<noteq> current then Err GovernanceError.InvalidNonce
     else and_then (add_word env nonce 1) (\<lambda>next.
     let st = governance_set_nonce env addr next st
     in Ok (st\<lparr>gov_instance_ttl :=
          ttl_extend env (gov_instance_ttl st) GOVERNANCE_TTL_THRESHOLD GOVERNANCE_TTL_EXTEND_TO\<rparr>)))"

definition require_signer :: "address \<Rightarrow> governance \<Rightarrow> (GovernanceError, unit) result" where
  "require_signer caller st =
     and_then (ok_or (gov_signers st) GovernanceError.NotInitialized) (\<lambda>signers.
     if caller \<notin> set signers then Err GovernanceError.NotSigner else Ok ())"

definition is_expired :: "env \<Rightarrow> Proposal \<Rightarrow> bool" where
  "is_expired env proposal \<longleftrightarrow> timestamp env \<ge> pr_expires_at proposal"

definition read_proposal :: "env \<Rightarrow> u64 \<Rightarrow> governance \<Rightarrow> Proposal option \<times> governance" where
  "read_proposal env proposal_id st =
     (case pget (gov_proposals st) proposal_id of
        Some proposal \<Rightarrow> (Some proposal, st\<lparr>gov_proposals := gov_extend env (gov_proposals st) proposal_id\<rparr>)
      | None \<Rightarrow> (old_proposals (gov_old st) proposal_id, st))"

definition write_proposal :: "env \<Rightarrow> u64 \<Rightarrow> Proposal \<Rightarrow> governance \<Rightarrow> governance" where
  "write_proposal env proposal_id proposal st =
     st\<lparr>gov_proposals := gov_write env (gov_proposals st) proposal_id proposal\<rparr>"

definition read_proposal_count :: "governance \<Rightarrow> u64" where
  "read_proposal_count st =
     (case pget (gov_proposal_count st) () of
        Some count \<Rightarrow> count
      | None \<Rightarrow> unwrap_or (old_proposal_count (gov_old st)) 0)"

definition write_proposal_count :: "env \<Rightarrow> u64 \<Rightarrow> governance \<Rightarrow> governance" where
  "write_proposal_count env count st =
     st\<lparr>gov_proposal_count := gov_write env (gov_proposal_count st) () count\<rparr>"

definition read_vote :: "env \<Rightarrow> u64 \<Rightarrow> address \<Rightarrow> governance \<Rightarrow> VoteChoice option \<times> governance" where
  "read_vote env proposal_id voter st =
     (case pget (gov_votes st) (proposal_id, voter) of
        Some choice \<Rightarrow> (Some choice, st\<lparr>gov_votes := gov_extend env (gov_votes st) (proposal_id, voter)\<rparr>)
      | None \<Rightarrow> (old_votes (gov_old st) (proposal_id, voter), st))"

definition write_vote :: "env \<Rightarrow> u64 \<Rightarrow> address \<Rightarrow> VoteChoice \<Rightarrow> governance \<Rightarrow> governance" where
  "write_vote env proposal_id voter choice st =
     st\<lparr>gov_votes := gov_write env (gov_votes st) (proposal_id, voter) choice\<rparr>"

definition bump_allowed_calls_ttl :: "env \<Rightarrow> governance \<Rightarrow> governance" where
  "bump_allowed_calls_ttl env st = st\<lparr>gov_allowed_calls := gov_extend env (gov_allowed_calls st) ()\<rparr>"

definition read_allowed_calls :: "env \<Rightarrow> governance \<Rightarrow> AllowedCall list \<times> governance" where
  "read_allowed_calls env st =
     (if phas (gov_allowed_calls st) ()
      then let st = bump_allowed_calls_ttl env st in (unwrap_or (pget (gov_allowed_calls st) ()) [], st)
      else ([], st))"

fun contains_call :: "AllowedCall list \<Rightarrow> address \<Rightarrow> symbol \<Rightarrow> bool" where
  "contains_call [] contract function = False"
| "contains_call (call # calls) contract function =
     (if ac_contract call = contract \<and> ac_function call = function then True
      else contains_call calls contract function)"

text \<open>The loop of \<^verbatim>\<open>write_allowed_calls\<close>: decoding an element may fail.\<close>

fun decode_call :: "val \<Rightarrow> AllowedCall option" where
  "decode_call (CallVal call) = Some call"
| "decode_call _ = None"

fun dedup_calls :: "val list \<Rightarrow> AllowedCall list \<Rightarrow> (GovernanceError, AllowedCall list) result" where
  "dedup_calls [] deduped = Ok deduped"
| "dedup_calls (v # vs) deduped =
     and_then (ok_or (decode_call v) GovernanceError.InvalidCallArgs) (\<lambda>call.
     dedup_calls vs (if \<not> contains_call deduped (ac_contract call) (ac_function call)
                     then deduped @ [call] else deduped))"

definition write_allowed_calls :: "env \<Rightarrow> val list \<Rightarrow> governance \<Rightarrow> (GovernanceError, u32 \<times> governance) result" where
  "write_allowed_calls env calls st =
     (if length calls > unat MAX_ALLOWED_CALLS then Err GovernanceError.InvalidCallArgs
      else and_then (dedup_calls calls []) (\<lambda>deduped.
      let st = st\<lparr>gov_allowed_calls := pset env (gov_allowed_calls st) () deduped\<rparr>;
          st = bump_allowed_calls_ttl env st
      in Ok (of_nat (length deduped), st)))"

definition is_executable_call :: "env \<Rightarrow> address \<Rightarrow> symbol \<Rightarrow> governance \<Rightarrow> bool \<times> governance" where
  "is_executable_call env target method st =
     (if target = current_contract env then (method = SELF_METHOD_SET_ALLOWED_CALLS, st)
      else let (calls, st) = read_allowed_calls env st in (contains_call calls target method, st))"

definition gov_publish :: "GovernanceEvent \<Rightarrow> governance \<Rightarrow> governance" where
  "gov_publish e st = st\<lparr>gov_events := gov_events st @ [e]\<rparr>"

definition apply_set_allowed_calls ::
    "env \<Rightarrow> address \<Rightarrow> val list \<Rightarrow> u64 \<Rightarrow> governance \<Rightarrow> (GovernanceError, governance) result" where
  "apply_set_allowed_calls env caller calls nonce st =
     (if caller \<noteq> current_contract env then Err GovernanceError.Unauthorized
      else and_then (check_nonce env caller nonce st) (\<lambda>st.
      and_then (write_allowed_calls env calls st) (\<lambda>(stored, st).
      Ok (gov_publish (allowed_calls_set stored caller) st))))"

text \<open>\<^verbatim>\<open>try_from_val\<close> of the argument types.\<close>

fun as_address :: "val \<Rightarrow> address option" where
  "as_address (AddressVal a) = Some a"
| "as_address _ = None"

fun as_vec :: "val \<Rightarrow> val list option" where
  "as_vec (VecVal vs) = Some vs"
| "as_vec _ = None"

fun as_u64 :: "val \<Rightarrow> u64 option" where
  "as_u64 (U64Val n) = Some n"
| "as_u64 _ = None"

definition dispatch_self_call :: "env \<Rightarrow> symbol \<Rightarrow> val list \<Rightarrow> governance \<Rightarrow> (GovernanceError, governance) result" where
  "dispatch_self_call env method args st =
     (if method \<noteq> SELF_METHOD_SET_ALLOWED_CALLS then Err GovernanceError.UnauthorizedCall
      else if length args \<noteq> 3 then Err GovernanceError.InvalidCallArgs
      else and_then (ok_or (as_address (args ! 0)) GovernanceError.InvalidCallArgs) (\<lambda>caller.
      and_then (ok_or (as_vec (args ! 1)) GovernanceError.InvalidCallArgs) (\<lambda>calls.
      and_then (ok_or (as_u64 (args ! 2)) GovernanceError.InvalidCallArgs) (\<lambda>nonce.
      apply_set_allowed_calls env caller calls nonce st))))"

section \<open>Entrypoints\<close>

definition empty_old :: old_storage where
  "empty_old = \<lparr>old_proposals = Map.empty, old_proposal_count = None, old_votes = Map.empty, old_nonces = Map.empty\<rparr>"

text \<open>The constructor asserts, so that a refused deployment traps.\<close>

definition governance_constructor ::
    "env \<Rightarrow> address list \<Rightarrow> u32 \<Rightarrow> u64 \<Rightarrow> val list \<Rightarrow> (GovernanceError, governance) result" where
  "governance_constructor env signers threshold timelock_seconds allowed_calls =
     (if signers = [] then Trap
      else if \<not> (threshold > 0 \<and> unat threshold \<le> length signers) then Trap
      else if \<not> (\<forall>i < length signers. \<forall>j \<in> {Suc i..<length signers}. signers ! i \<noteq> signers ! j) then Trap
      else let st = \<lparr>gov_instance_ttl = ttl_new env, gov_signers = Some signers, gov_threshold = Some threshold,
             gov_timelock_seconds = Some timelock_seconds, gov_storage_version = None, gov_proposals = Map.empty,
             gov_proposal_count = Map.empty, gov_votes = Map.empty, gov_nonces = Map.empty,
             gov_nonce_initialized = Map.empty, gov_allowed_calls = Map.empty, gov_old = empty_old, gov_events = []\<rparr>
      in case write_allowed_calls env allowed_calls st of Ok (stored, st) \<Rightarrow> Ok st | _ \<Rightarrow> Trap)"

definition propose ::
    "env \<Rightarrow> address \<Rightarrow> address \<Rightarrow> symbol \<Rightarrow> val list \<Rightarrow> symbol \<Rightarrow> u64 \<Rightarrow> governance \<Rightarrow>
     (GovernanceError, u64 \<times> governance) result" where
  "propose env caller target method args description nonce st =
     and_then (require_auth env caller) (\<lambda>_.
     and_then (check_nonce env caller nonce st) (\<lambda>st.
     and_then (require_signer caller st) (\<lambda>_.
     let (executable, st) = is_executable_call env target method st
     in if \<not> executable then Err GovernanceError.UnauthorizedCall
     else and_then (add_word env (read_proposal_count st) 1) (\<lambda>proposal_id.
     let st = write_proposal_count env proposal_id st;
         proposal = \<lparr>pr_id = proposal_id, pr_proposer = caller, pr_target = target, pr_method = method,
           pr_args = args, pr_description = description, pr_status = ProposalStatus.Pending,
           pr_approval_count = 0, pr_veto_count = 0, pr_created_at = timestamp env,
           pr_expires_at = saturating_add_u64 (timestamp env) DEFAULT_PROPOSAL_TTL_SECONDS,
           pr_queued_at = 0, pr_executed_at = 0,
           pr_timelock_seconds = unwrap_or (gov_timelock_seconds st) DEFAULT_TIMELOCK_SECONDS\<rparr>;
         st = write_proposal env proposal_id proposal st
     in Ok (proposal_id, gov_publish (proposal_created proposal_id target caller) st)))))"

definition vote_approve ::
    "env \<Rightarrow> address \<Rightarrow> u64 \<Rightarrow> u64 \<Rightarrow> governance \<Rightarrow> (GovernanceError, governance) result" where
  "vote_approve env caller proposal_id nonce st =
     and_then (require_auth env caller) (\<lambda>_.
     and_then (check_nonce env caller nonce st) (\<lambda>st.
     and_then (require_signer caller st) (\<lambda>_.
     let (found, st) = read_proposal env proposal_id st
     in and_then (ok_or found GovernanceError.ProposalNotFound) (\<lambda>proposal.
     if pr_status proposal \<noteq> ProposalStatus.Pending then Err GovernanceError.NotPending
     else if is_expired env proposal then Err GovernanceError.ProposalExpired
     else let (vote, st) = read_vote env proposal_id caller st
     in if vote \<noteq> None then Err GovernanceError.AlreadyVoted
     else let st = write_vote env proposal_id caller Approve st;
              threshold = unwrap_or (gov_threshold st) 1
     in and_then (add_word env (pr_approval_count proposal) 1) (\<lambda>approvals.
     let proposal = proposal\<lparr>pr_approval_count := approvals\<rparr>;
         proposal = (if pr_approval_count proposal \<ge> threshold
           then proposal\<lparr>pr_status := ProposalStatus.Queued, pr_queued_at := timestamp env\<rparr> else proposal);
         st = write_proposal env proposal_id proposal st
     in Ok (gov_publish (vote_cast proposal_id caller (pr_status proposal)) st))))))"

definition vote_veto ::
    "env \<Rightarrow> address \<Rightarrow> u64 \<Rightarrow> u64 \<Rightarrow> governance \<Rightarrow> (GovernanceError, governance) result" where
  "vote_veto env caller proposal_id nonce st =
     and_then (require_auth env caller) (\<lambda>_.
     and_then (check_nonce env caller nonce st) (\<lambda>st.
     and_then (require_signer caller st) (\<lambda>_.
     let (found, st) = read_proposal env proposal_id st
     in and_then (ok_or found GovernanceError.ProposalNotFound) (\<lambda>proposal.
     if pr_status proposal \<noteq> ProposalStatus.Pending then Err GovernanceError.NotPending
     else if is_expired env proposal then Err GovernanceError.ProposalExpired
     else let (vote, st) = read_vote env proposal_id caller st
     in if vote \<noteq> None then Err GovernanceError.AlreadyVoted
     else let st = write_vote env proposal_id caller Veto st;
              threshold = unwrap_or (gov_threshold st) 1
     in and_then (add_word env (pr_veto_count proposal) 1) (\<lambda>vetoes.
     let proposal = proposal\<lparr>pr_veto_count := vetoes\<rparr>;
         proposal = (if pr_veto_count proposal \<ge> threshold
           then proposal\<lparr>pr_status := ProposalStatus.Rejected\<rparr> else proposal);
         st = write_proposal env proposal_id proposal st
     in Ok (gov_publish (proposal_rejected proposal_id caller) st))))))"

definition cancel ::
    "env \<Rightarrow> address \<Rightarrow> u64 \<Rightarrow> u64 \<Rightarrow> governance \<Rightarrow> (GovernanceError, governance) result" where
  "cancel env caller proposal_id nonce st =
     and_then (require_auth env caller) (\<lambda>_.
     and_then (check_nonce env caller nonce st) (\<lambda>st.
     and_then (require_signer caller st) (\<lambda>_.
     let (found, st) = read_proposal env proposal_id st
     in and_then (ok_or found GovernanceError.ProposalNotFound) (\<lambda>proposal.
     if pr_status proposal \<noteq> ProposalStatus.Pending then Err GovernanceError.NotPending
     else let st = write_proposal env proposal_id (proposal\<lparr>pr_status := ProposalStatus.Cancelled\<rparr>) st
     in Ok (gov_publish (proposal_cancelled proposal_id caller) st)))))"

text \<open>
  \<open>invoke env' target method args w\<close> is the host's \<^verbatim>\<open>invoke_contract\<close>: the state of the other contracts after
  the call, or \<open>None\<close> when the call fails, which aborts the execution.
\<close>

type_synonym 'w invocation = "env \<Rightarrow> address \<Rightarrow> symbol \<Rightarrow> val list \<Rightarrow> 'w \<Rightarrow> 'w option"

definition execute ::
    "'w invocation \<Rightarrow> env \<Rightarrow> address \<Rightarrow> u64 \<Rightarrow> u64 \<Rightarrow> governance \<Rightarrow> 'w \<Rightarrow> (GovernanceError, governance \<times> 'w) result" where
  "execute invoke env caller proposal_id nonce st w =
     and_then (require_auth env caller) (\<lambda>_.
     and_then (check_nonce env caller nonce st) (\<lambda>st.
     let (found, st) = read_proposal env proposal_id st
     in and_then (ok_or found GovernanceError.ProposalNotFound) (\<lambda>proposal.
     if pr_status proposal \<noteq> ProposalStatus.Queued then Err GovernanceError.NotQueued
     else if is_expired env proposal then Err GovernanceError.ProposalExpired
     else if timestamp env < saturating_add_u64 (pr_queued_at proposal) (pr_timelock_seconds proposal)
     then Err GovernanceError.TimelockNotElapsed
     else and_then
       (if pr_target proposal = current_contract env
        then and_then (dispatch_self_call env (pr_method proposal) (pr_args proposal) st) (\<lambda>st. Ok (st, w))
        else let (calls, st) = read_allowed_calls env st
          in if \<not> contains_call calls (pr_target proposal) (pr_method proposal) then Err GovernanceError.UnauthorizedCall
          else (case invoke (call_env env (pr_target proposal)) (pr_target proposal) (pr_method proposal) (pr_args proposal) w of
                  None \<Rightarrow> Trap | Some w \<Rightarrow> Ok (st, w))) (\<lambda>(st, w).
     let proposal = proposal\<lparr>pr_status := ProposalStatus.Executed, pr_executed_at := timestamp env\<rparr>;
         st = write_proposal env proposal_id proposal st
     in Ok (gov_publish (proposal_executed proposal_id (pr_target proposal)) st, w)))))"

definition set_allowed_calls ::
    "env \<Rightarrow> address \<Rightarrow> val list \<Rightarrow> u64 \<Rightarrow> governance \<Rightarrow> (GovernanceError, governance) result" where
  "set_allowed_calls env caller calls nonce st =
     and_then (require_auth env caller) (\<lambda>_. apply_set_allowed_calls env caller calls nonce st)"

definition get_allowed_calls :: "env \<Rightarrow> governance \<Rightarrow> AllowedCall list \<times> governance" where
  "get_allowed_calls env st = read_allowed_calls env st"

definition is_call_allowed :: "env \<Rightarrow> address \<Rightarrow> symbol \<Rightarrow> governance \<Rightarrow> bool \<times> governance" where
  "is_call_allowed env contract function st =
     (let (calls, st) = read_allowed_calls env st in (contains_call calls contract function, st))"

text \<open>The loop of \<^verbatim>\<open>migrate_storage\<close> over the proposal numbers.\<close>

fun migrate_loop :: "env \<Rightarrow> u64 list \<Rightarrow> u64 \<Rightarrow> governance \<Rightarrow> u64 \<times> governance" where
  "migrate_loop env [] migrated st = (migrated, st)"
| "migrate_loop env (i # ids) migrated st =
     (if pget (gov_proposals st) i \<noteq> None then migrate_loop env ids migrated st
      else case old_proposals (gov_old st) i of
        None \<Rightarrow> migrate_loop env ids migrated st
      | Some proposal \<Rightarrow> migrate_loop env ids (migrated + 1) (write_proposal env i proposal st))"

definition migrate_storage :: "env \<Rightarrow> address \<Rightarrow> governance \<Rightarrow> (GovernanceError, u64 \<times> governance) result" where
  "migrate_storage env caller st =
     and_then (require_auth env caller) (\<lambda>_.
     and_then (require_signer caller st) (\<lambda>_.
     if storage_version st \<ge> STORAGE_VERSION_PERSISTENT then Ok (0, st)
     else let (migrated, st) =
            (case old_proposal_count (gov_old st) of
               None \<Rightarrow> (0, st)
             | Some count \<Rightarrow>
                 let st = (if pget (gov_proposal_count st) () = None then write_proposal_count env count st else st)
                 in migrate_loop env (map of_nat [1..<Suc (unat count)]) 0 st)
     in Ok (migrated, st\<lparr>gov_storage_version := Some STORAGE_VERSION_PERSISTENT\<rparr>)))"

section \<open>Getters\<close>

definition get_proposal :: "env \<Rightarrow> u64 \<Rightarrow> governance \<Rightarrow> (GovernanceError, Proposal \<times> governance) result" where
  "get_proposal env proposal_id st =
     (let (found, st) = read_proposal env proposal_id st
      in and_then (ok_or found GovernanceError.ProposalNotFound) (\<lambda>proposal. Ok (proposal, st)))"

definition get_vote :: "env \<Rightarrow> u64 \<Rightarrow> address \<Rightarrow> governance \<Rightarrow> VoteChoice option \<times> governance" where
  "get_vote env proposal_id signer st = read_vote env proposal_id signer st"

definition proposal_count :: "governance \<Rightarrow> u64" where
  "proposal_count st = read_proposal_count st"

definition get_signers :: "governance \<Rightarrow> address list" where
  "get_signers st = unwrap_or (gov_signers st) []"

definition get_threshold :: "governance \<Rightarrow> u32" where
  "get_threshold st = unwrap_or (gov_threshold st) 1"

definition get_timelock :: "governance \<Rightarrow> u64" where
  "get_timelock st = unwrap_or (gov_timelock_seconds st) DEFAULT_TIMELOCK_SECONDS"

definition is_signer :: "address \<Rightarrow> governance \<Rightarrow> bool" where
  "is_signer a st = (case gov_signers st of None \<Rightarrow> False | Some signers \<Rightarrow> a \<in> set signers)"

section \<open>Steps\<close>

text \<open>
  A successful call of the contract, or whatever happens to the other contracts meanwhile. \<open>governed self\<close>
  is the environment of a call to the contract deployed at \<open>self\<close>: nobody can sign for \<open>self\<close>, since the
  contract implements no \<^verbatim>\<open>__check_auth\<close>, and it is not called by itself, since the host forbids re-entry.
\<close>

definition governed :: "address \<Rightarrow> env \<Rightarrow> bool" where
  "governed self env \<longleftrightarrow> overflow_checks env \<and> current_contract env = self \<and> \<not> has_signed env self self \<and> invoker env \<noteq> Some self"

inductive gov_step :: "(env \<Rightarrow> bool) \<Rightarrow> 'w invocation \<Rightarrow> governance \<times> 'w \<Rightarrow> timed_label \<Rightarrow> governance \<times> 'w \<Rightarrow> bool"
  for E :: "env \<Rightarrow> bool" and invoke :: "'w invocation" where
  step_propose: "E env \<Longrightarrow> propose env caller target method args description nonce st = Ok (i, st') \<Longrightarrow>
     gov_step E invoke (st, w) (timestamp env, Some (caller, nonce)) (st', w)"
| step_vote_approve: "E env \<Longrightarrow> vote_approve env caller i nonce st = Ok st' \<Longrightarrow>
     gov_step E invoke (st, w) (timestamp env, Some (caller, nonce)) (st', w)"
| step_vote_veto: "E env \<Longrightarrow> vote_veto env caller i nonce st = Ok st' \<Longrightarrow>
     gov_step E invoke (st, w) (timestamp env, Some (caller, nonce)) (st', w)"
| step_cancel: "E env \<Longrightarrow> cancel env caller i nonce st = Ok st' \<Longrightarrow>
     gov_step E invoke (st, w) (timestamp env, Some (caller, nonce)) (st', w)"
| step_execute: "E env \<Longrightarrow> execute invoke env caller i nonce st w = Ok (st', w') \<Longrightarrow>
     gov_step E invoke (st, w) (timestamp env, Some (caller, nonce)) (st', w')"
| step_set_allowed_calls: "E env \<Longrightarrow> set_allowed_calls env caller calls nonce st = Ok st' \<Longrightarrow>
     gov_step E invoke (st, w) (timestamp env, Some (caller, nonce)) (st', w)"
| step_migrate_storage: "E env \<Longrightarrow> migrate_storage env caller st = Ok (migrated, st') \<Longrightarrow>
     gov_step E invoke (st, w) (timestamp env, None) (st', w)"
| step_get_proposal: "get_proposal env i st = Ok (p, st') \<Longrightarrow>
     gov_step E invoke (st, w) (timestamp env, None) (st', w)"
| step_get_vote: "get_vote env i a st = (choice, st') \<Longrightarrow>
     gov_step E invoke (st, w) (timestamp env, None) (st', w)"
| step_get_allowed_calls: "get_allowed_calls env st = (calls, st') \<Longrightarrow>
     gov_step E invoke (st, w) (timestamp env, None) (st', w)"
| step_is_call_allowed: "is_call_allowed env contract function st = (allowed, st') \<Longrightarrow>
     gov_step E invoke (st, w) (timestamp env, None) (st', w)"
| step_world: "gov_step E invoke (st, w) (now, None) (st, w')"

section \<open>Abstract council\<close>

text \<open>
  What the contract promises: signers decide on numbered proposals. The two storages of the code are one,
  lifetimes are gone, and a call either changes the council as one of the rules below says or leaves it alone.
\<close>

record council =
  co_signers :: "address list"
  co_threshold :: nat
  co_timelock :: u64
  co_nonces :: "address \<Rightarrow> u64"
  co_proposals :: "u64 \<rightharpoonup> Proposal"
  co_count :: u64
  co_votes :: "u64 \<times> address \<rightharpoonup> VoteChoice"
  co_allowed :: "AllowedCall list"

definition council_of :: "governance \<times> 'w \<Rightarrow> council" where
  "council_of s = (case s of (st, w) \<Rightarrow>
     \<lparr>co_signers = get_signers st, co_threshold = unat (get_threshold st), co_timelock = get_timelock st,
      co_nonces = (\<lambda>a. unwrap_or ((old_nonces (gov_old st) ++ pget (gov_nonces st)) a) 0),
      co_proposals = old_proposals (gov_old st) ++ pget (gov_proposals st), co_count = read_proposal_count st,
      co_votes = old_votes (gov_old st) ++ pget (gov_votes st),
      co_allowed = unwrap_or (pget (gov_allowed_calls st) ()) []\<rparr>)"

definition co_spend :: "address \<Rightarrow> council \<Rightarrow> council" where
  "co_spend a C = C\<lparr>co_nonces := (co_nonces C)(a := co_nonces C a + 1)\<rparr>"

definition callable :: "address \<Rightarrow> AllowedCall list \<Rightarrow> address \<Rightarrow> symbol \<Rightarrow> bool" where
  "callable self allowed target method \<longleftrightarrow>
     (if target = self then method = SELF_METHOD_SET_ALLOWED_CALLS
      else \<lparr>ac_contract = target, ac_function = method\<rparr> \<in> set allowed)"

definition expiry :: "u64 \<Rightarrow> u64" where
  "expiry now = saturating_add_u64 now DEFAULT_PROPOSAL_TTL_SECONDS"

definition fresh_proposal :: "u64 \<Rightarrow> address \<Rightarrow> address \<Rightarrow> symbol \<Rightarrow> val list \<Rightarrow> symbol \<Rightarrow> u64 \<Rightarrow> u64 \<Rightarrow> Proposal" where
  "fresh_proposal i a target method args description now timelock =
     \<lparr>pr_id = i, pr_proposer = a, pr_target = target, pr_method = method, pr_args = args, pr_description = description,
      pr_status = ProposalStatus.Pending, pr_approval_count = 0, pr_veto_count = 0, pr_created_at = now,
      pr_expires_at = expiry now, pr_queued_at = 0, pr_executed_at = 0, pr_timelock_seconds = timelock\<rparr>"

fun tally_vote :: "nat \<Rightarrow> u64 \<Rightarrow> VoteChoice \<Rightarrow> Proposal \<Rightarrow> Proposal" where
  "tally_vote threshold now Approve p =
     (let p = p\<lparr>pr_approval_count := pr_approval_count p + 1\<rparr>
      in if threshold \<le> unat (pr_approval_count p)
         then p\<lparr>pr_status := ProposalStatus.Queued, pr_queued_at := now\<rparr> else p)"
| "tally_vote threshold now Veto p =
     (let p = p\<lparr>pr_veto_count := pr_veto_count p + 1\<rparr>
      in if threshold \<le> unat (pr_veto_count p) then p\<lparr>pr_status := ProposalStatus.Rejected\<rparr> else p)"

fun votes_for :: "VoteChoice \<Rightarrow> Proposal \<Rightarrow> u32" where
  "votes_for Approve p = pr_approval_count p"
| "votes_for Veto p = pr_veto_count p"

definition due :: "u64 \<Rightarrow> Proposal \<Rightarrow> bool" where
  "due now p \<longleftrightarrow> pr_status p = ProposalStatus.Queued \<and> now < pr_expires_at p \<and>
     saturating_add_u64 (pr_queued_at p) (pr_timelock_seconds p) \<le> now"

inductive council_step :: "address \<Rightarrow> council \<Rightarrow> timed_label \<Rightarrow> council \<Rightarrow> bool" for self :: address where
  c_propose: "n = co_nonces C a \<Longrightarrow> a \<in> set (co_signers C) \<Longrightarrow> callable self (co_allowed C) target method \<Longrightarrow>
     unat i = Suc (unat (co_count C)) \<Longrightarrow>
     p = fresh_proposal i a target method args description now (co_timelock C) \<Longrightarrow>
     council_step self C (now, Some (a, n)) ((co_spend a C)\<lparr>co_count := i, co_proposals := (co_proposals C)(i \<mapsto> p)\<rparr>)"
| c_vote: "n = co_nonces C a \<Longrightarrow> a \<in> set (co_signers C) \<Longrightarrow> co_proposals C i = Some p \<Longrightarrow>
     pr_status p = ProposalStatus.Pending \<Longrightarrow> now < pr_expires_at p \<Longrightarrow> co_votes C (i, a) = None \<Longrightarrow>
     Suc (unat (votes_for choice p)) < 2 ^ 32 \<Longrightarrow>
     council_step self C (now, Some (a, n)) ((co_spend a C)\<lparr>co_votes := (co_votes C)((i, a) \<mapsto> choice),
       co_proposals := (co_proposals C)(i \<mapsto> tally_vote (co_threshold C) now choice p)\<rparr>)"
| c_cancel: "n = co_nonces C a \<Longrightarrow> a \<in> set (co_signers C) \<Longrightarrow> co_proposals C i = Some p \<Longrightarrow>
     pr_status p = ProposalStatus.Pending \<Longrightarrow>
     council_step self C (now, Some (a, n))
       ((co_spend a C)\<lparr>co_proposals := (co_proposals C)(i \<mapsto> p\<lparr>pr_status := ProposalStatus.Cancelled\<rparr>)\<rparr>)"
| c_execute: "n = co_nonces C a \<Longrightarrow> co_proposals C i = Some p \<Longrightarrow> due now p \<Longrightarrow>
     pr_target p \<noteq> self \<Longrightarrow> callable self (co_allowed C) (pr_target p) (pr_method p) \<Longrightarrow>
     council_step self C (now, Some (a, n)) ((co_spend a C)\<lparr>co_proposals :=
       (co_proposals C)(i \<mapsto> p\<lparr>pr_status := ProposalStatus.Executed, pr_executed_at := now\<rparr>)\<rparr>)"
| c_reconfigure: "n = co_nonces C a \<Longrightarrow> a \<noteq> self \<Longrightarrow> co_proposals C i = Some p \<Longrightarrow> due now p \<Longrightarrow>
     pr_target p = self \<Longrightarrow> pr_method p = SELF_METHOD_SET_ALLOWED_CALLS \<Longrightarrow>
     pr_args p = [AddressVal self, VecVal (map CallVal calls), U64Val (co_nonces C self)] \<Longrightarrow>
     length calls \<le> 64 \<Longrightarrow> set allowed = set calls \<Longrightarrow> distinct allowed \<Longrightarrow>
     council_step self C (now, Some (a, n)) ((co_spend self (co_spend a C))\<lparr>co_allowed := allowed, co_proposals :=
       (co_proposals C)(i \<mapsto> p\<lparr>pr_status := ProposalStatus.Executed, pr_executed_at := now\<rparr>)\<rparr>)"
| c_read: "council_step self C (now, None) C"

text \<open>
  The invariant: proposals are numbered from 1; the counts of a proposal are those of its recorded votes,
  all cast by signers; and its status is the one the votes and the clock justify.
\<close>

definition voters :: "council \<Rightarrow> u64 \<Rightarrow> VoteChoice \<Rightarrow> address set" where
  "voters C i choice = {a. co_votes C (i, a) = Some choice}"

definition status_ok :: "nat \<Rightarrow> Proposal \<Rightarrow> bool" where
  "status_ok threshold p \<longleftrightarrow> (case pr_status p of
     ProposalStatus.Pending \<Rightarrow> unat (pr_approval_count p) < threshold \<and> unat (pr_veto_count p) < threshold
   | ProposalStatus.Queued \<Rightarrow> threshold \<le> unat (pr_approval_count p) \<and> pr_queued_at p < pr_expires_at p
   | ProposalStatus.Executed \<Rightarrow> threshold \<le> unat (pr_approval_count p) \<and> pr_queued_at p < pr_expires_at p \<and>
       saturating_add_u64 (pr_queued_at p) (pr_timelock_seconds p) \<le> pr_executed_at p \<and> pr_executed_at p < pr_expires_at p
   | ProposalStatus.Rejected \<Rightarrow> threshold \<le> unat (pr_veto_count p)
   | ProposalStatus.Cancelled \<Rightarrow> unat (pr_approval_count p) < threshold \<and> unat (pr_veto_count p) < threshold
   | ProposalStatus.Expired \<Rightarrow> False)"

definition proposal_ok :: "council \<Rightarrow> u64 \<Rightarrow> Proposal \<Rightarrow> bool" where
  "proposal_ok C i p \<longleftrightarrow> pr_id p = i \<and> pr_proposer p \<in> set (co_signers C) \<and>
     pr_expires_at p = expiry (pr_created_at p) \<and> pr_timelock_seconds p = co_timelock C \<and>
     unat (pr_approval_count p) = card (voters C i Approve) \<and> unat (pr_veto_count p) = card (voters C i Veto) \<and>
     status_ok (co_threshold C) p"

definition chamber_ok :: "council \<Rightarrow> bool" where
  "chamber_ok C \<longleftrightarrow> distinct (co_signers C) \<and> 1 \<le> co_threshold C \<and> co_threshold C \<le> length (co_signers C)"

definition numbered :: "nat \<Rightarrow> council \<Rightarrow> bool" where
  "numbered n C \<longleftrightarrow> unat (co_count C) \<le> n \<and>
     (\<forall>i. co_proposals C i \<noteq> None \<longleftrightarrow> 1 \<le> unat i \<and> unat i \<le> unat (co_count C))"

definition votes_ok :: "council \<Rightarrow> bool" where
  "votes_ok C \<longleftrightarrow> (\<forall>i a c. co_votes C (i, a) = Some c \<longrightarrow> a \<in> set (co_signers C) \<and> co_proposals C i \<noteq> None)"

definition allowlist_ok :: "council \<Rightarrow> bool" where
  "allowlist_ok C \<longleftrightarrow> distinct (co_allowed C) \<and> length (co_allowed C) \<le> 64"

definition council_inv :: "nat \<Rightarrow> council \<Rightarrow> bool" where
  "council_inv n C \<longleftrightarrow> chamber_ok C \<and> numbered n C \<and> votes_ok C \<and>
     (\<forall>i p. co_proposals C i = Some p \<longrightarrow> proposal_ok C i p) \<and> allowlist_ok C"

text \<open>What a proposal proposes, and the ways its status may go.\<close>

definition terms :: "Proposal \<Rightarrow> u64 \<times> address \<times> address \<times> symbol \<times> val list \<times> symbol \<times> u64 \<times> u64 \<times> u64" where
  "terms p = (pr_id p, pr_proposer p, pr_target p, pr_method p, pr_args p, pr_description p, pr_created_at p,
     pr_expires_at p, pr_timelock_seconds p)"

fun closed_status :: "ProposalStatus \<Rightarrow> bool" where
  "closed_status ProposalStatus.Pending = False"
| "closed_status ProposalStatus.Queued = False"
| "closed_status _ = True"

fun moves :: "ProposalStatus \<Rightarrow> ProposalStatus \<Rightarrow> bool" where
  "moves ProposalStatus.Pending s = (s \<noteq> ProposalStatus.Expired)"
| "moves ProposalStatus.Queued s = (s = ProposalStatus.Queued \<or> s = ProposalStatus.Executed)"
| "moves s s' = (s' = s)"

text \<open>
  The contracts of the examples: the council is the administrator of a project registry with one pending
  project, and may approve and reject projects there.
\<close>

definition gov_env :: "u64 \<Rightarrow> env" where
  "gov_env now = (sample_env now)\<lparr>current_contract := Address 99, has_signed := (\<lambda>a _. a \<noteq> Address 99), overflow_checks := True\<rparr>"

fun registry_calls :: "(address \<rightharpoonup> registry) invocation" where
  "registry_calls env target method args W =
     (case (W target, args) of
        (Some reg, [AddressVal caller, U64Val project_id, U64Val nonce]) \<Rightarrow>
          (case (if method = ''approve_project'' then approve_project env caller project_id nonce reg
                 else if method = ''reject_project'' then reject_project env caller project_id nonce reg else Trap) of
             Ok reg \<Rightarrow> Some (W(target \<mapsto> reg))
           | _ \<Rightarrow> None)
      | _ \<Rightarrow> None)"

definition sample_world :: "address \<rightharpoonup> registry" where
  "sample_world = [Address 42 \<mapsto> (registry_constructor (sample_env 5) (Address 99))\<lparr>
     reg_projects := [project_id_to_bytes 1 \<mapsto> (\<lparr>pj_id = 1, pj_owner = Address 9, pj_metadata_ipfs_hash = replicate 32 1,
       pj_name = ''n'', pj_status = ProjectStatus.Pending, pj_methodology = ''m'', pj_country = ''c''\<rparr>, 4096)]\<rparr>]"

definition sample_call :: AllowedCall where
  "sample_call = \<lparr>ac_contract = Address 42, ac_function = ''approve_project''\<rparr>"

abbreviation sample_council :: "(GovernanceError, governance) result" where
  "sample_council \<equiv> governance_constructor (gov_env 10) [Address 1, Address 2, Address 3] 2 100 [CallVal sample_call]"

abbreviation gov_labels :: "timed_label list" where
  "gov_labels \<equiv> [(20, Some (Address 1, 0)), (21, Some (Address 1, 1)), (22, Some (Address 2, 0))]"

definition sample_old :: old_storage where
  "sample_old = \<lparr>old_proposals = [1 \<mapsto> fresh_proposal 1 (Address 1) (Address 42) ''approve_project'' [] ''d'' 5 100],
     old_proposal_count = Some 1, old_votes = Map.empty, old_nonces = Map.empty\<rparr>"

text \<open>The request of a call by anybody but the contract at \<open>self\<close>.\<close>

definition outside :: "address \<Rightarrow> timed_label \<Rightarrow> call_label" where
  "outside self l = (case snd l of Some (a, n) \<Rightarrow> if a = self then None else Some (a, n) | None \<Rightarrow> None)"

text \<open>Proposals and a clock that has reached \<open>t\<close>.\<close>

definition clocked :: "u64 \<Rightarrow> council \<Rightarrow> bool" where
  "clocked t C \<longleftrightarrow> (\<forall>i p. co_proposals C i = Some p \<longrightarrow> pr_created_at p \<le> t \<and>
     (pr_status p = ProposalStatus.Queued \<longrightarrow> pr_created_at p \<le> pr_queued_at p))"

section \<open>Refinement\<close>

lemma gov_write_pget [storage_simps]:
  "pget (gov_write env m k v) = (pget m)(k \<mapsto> v)" "pget (gov_extend env m k) = pget m"
  by (simp_all add: gov_write_def gov_extend_def storage_simps)

lemma council_of_same:
  assumes "gov_signers st' = gov_signers st" "gov_threshold st' = gov_threshold st"
    "gov_timelock_seconds st' = gov_timelock_seconds st" "pget (gov_nonces st') = pget (gov_nonces st)"
    "pget (gov_proposals st') = pget (gov_proposals st)" "pget (gov_proposal_count st') = pget (gov_proposal_count st)"
    "pget (gov_votes st') = pget (gov_votes st)" "pget (gov_allowed_calls st') = pget (gov_allowed_calls st)"
    "gov_old st' = gov_old st"
  shows "council_of (st', w') = council_of (st, w)"
  using assms by (simp add: council_of_def get_signers_def get_threshold_def get_timelock_def read_proposal_count_def
      cong: option.case_cong)

lemma council_of_upd [simp]:
  "council_of (write_proposal env i p st, w) = (council_of (st, w))\<lparr>co_proposals := (co_proposals (council_of (st, w)))(i \<mapsto> p)\<rparr>"
  "council_of (write_vote env i a c st, w) = (council_of (st, w))\<lparr>co_votes := (co_votes (council_of (st, w)))((i, a) \<mapsto> c)\<rparr>"
  "council_of (write_proposal_count env n st, w) = (council_of (st, w))\<lparr>co_count := n\<rparr>"
  "council_of (write_nonce env a m st, w) = (council_of (st, w))\<lparr>co_nonces := (co_nonces (council_of (st, w)))(a := m)\<rparr>"
  "council_of (gov_publish e st, w) = council_of (st, w)"
  "council_of (st\<lparr>gov_instance_ttl := t\<rparr>, w) = council_of (st, w)"
  "council_of (st\<lparr>gov_storage_version := v\<rparr>, w) = council_of (st, w)"
  "council_of (bump_allowed_calls_ttl env st, w) = council_of (st, w)"
  by (simp_all add: council_of_def write_proposal_def write_vote_def write_proposal_count_def write_nonce_def gov_publish_def
      bump_allowed_calls_ttl_def get_signers_def get_threshold_def get_timelock_def read_proposal_count_def storage_simps
      fun_eq_iff unwrap_or_def cong: option.case_cong)

lemma read_proposal_council:
  assumes "read_proposal env i st = (found, st')"
  shows "found = co_proposals (council_of (st, w)) i \<and> council_of (st', w) = council_of (st, w)"
proof (cases "pget (gov_proposals st) i")
  case None
  with assms show ?thesis by (auto simp: read_proposal_def council_of_def map_add_def)
next
  case (Some p)
  with assms have "found = Some p" "st' = st\<lparr>gov_proposals := gov_extend env (gov_proposals st) i\<rparr>"
    by (simp_all add: read_proposal_def)
  moreover from this(2) have "council_of (st', w) = council_of (st, w)" by (auto intro!: council_of_same simp: storage_simps)
  ultimately show ?thesis using Some by (simp add: council_of_def)
qed

lemma read_vote_council:
  assumes "read_vote env i a st = (found, st')"
  shows "found = co_votes (council_of (st, w)) (i, a) \<and> council_of (st', w) = council_of (st, w)"
proof (cases "pget (gov_votes st) (i, a)")
  case None
  with assms show ?thesis by (auto simp: read_vote_def council_of_def map_add_def)
next
  case (Some p)
  with assms have "found = Some p" "st' = st\<lparr>gov_votes := gov_extend env (gov_votes st) (i, a)\<rparr>"
    by (simp_all add: read_vote_def)
  moreover from this(2) have "council_of (st', w) = council_of (st, w)" by (auto intro!: council_of_same simp: storage_simps)
  ultimately show ?thesis using Some by (simp add: council_of_def)
qed

lemma read_allowed_council:
  assumes "read_allowed_calls env st = (calls, st')"
  shows "calls = co_allowed (council_of (st, w)) \<and> council_of (st', w) = council_of (st, w)"
proof (cases "phas (gov_allowed_calls st) ()")
  case True
  with assms show ?thesis
    by (auto simp: read_allowed_calls_def Let_def council_of_def bump_allowed_calls_ttl_def storage_simps
        get_signers_def get_threshold_def get_timelock_def read_proposal_count_def cong: option.case_cong)
next
  case False
  with assms show ?thesis by (auto simp: read_allowed_calls_def council_of_def phas_def pget_def unwrap_or_def split: option.splits)
qed

lemma check_nonce_council:
  assumes "check_nonce env a n st = Ok st'"
  shows "n = co_nonces (council_of (st, w)) a \<and> council_of (st', w) = co_spend a (council_of (st, w))"
proof -
  from assms obtain st1 where g: "governance_get_nonce env a st = Ok (n, st1)"
    and st': "st' = (write_nonce env a (n + 1) st1)\<lparr>gov_instance_ttl :=
      ttl_extend env (gov_instance_ttl (write_nonce env a (n + 1) st1)) GOVERNANCE_TTL_THRESHOLD GOVERNANCE_TTL_EXTEND_TO\<rparr>"
    by (auto simp: check_nonce_def result_simps governance_set_nonce_def Let_def dest!: add_word_OkD split: if_splits)
  have n: "n = co_nonces (council_of (st, w)) a"
    using g by (auto simp: governance_get_nonce_def council_of_def unwrap_or_def map_add_def has_nonce_marker_def
        split: option.splits if_splits)
  have "council_of (st1, w) = council_of (st, w)"
  proof (cases "pget (gov_nonces st) a")
    case (Some m)
    then show ?thesis using g by (auto simp: governance_get_nonce_def storage_simps intro: council_of_same)
  next
    case None
    show ?thesis
    proof (cases "old_nonces (gov_old st) a")
      case (Some m)
      then have "st1 = write_nonce env a n st" using g None by (auto simp: governance_get_nonce_def)
      with n show ?thesis by simp
    next
      case none: None
      then show ?thesis using g None
        by (auto simp: governance_get_nonce_def has_nonce_marker_def storage_simps intro: council_of_same split: if_splits)
    qed
  qed
  with n show ?thesis by (simp add: st' co_spend_def)
qed

lemma write_vote_threshold [simp]: "gov_threshold (write_vote env i a c st) = gov_threshold st"
  by (simp add: write_vote_def)

lemma write_count_timelock [simp]: "gov_timelock_seconds (write_proposal_count env i st) = gov_timelock_seconds st"
  by (simp add: write_proposal_count_def)

lemmas entry_Ok = Let_def case_prod_unfold and_then_Ok ok_or_Ok guarded_Ok result.inject not_not

lemma require_signer_Ok: "require_signer a st = Ok u \<longleftrightarrow> a \<in> set (co_signers (council_of (st, w)))"
  by (auto simp: require_signer_def result_simps council_of_def get_signers_def unwrap_or_def split: option.splits)

lemma contains_call_iff: "contains_call calls a f \<longleftrightarrow> \<lparr>ac_contract = a, ac_function = f\<rparr> \<in> set calls"
proof (induction calls)
  case (Cons c calls)
  then show ?case by (cases c) auto
qed simp

lemma executable_council:
  assumes "is_executable_call env target method st = (ok, st')"
  shows "ok = callable (current_contract env) (co_allowed (council_of (st, w))) target method \<and>
    council_of (st', w) = council_of (st, w)"
proof -
  obtain calls st1 where r: "read_allowed_calls env st = (calls, st1)" by fastforce
  with read_allowed_council [OF r, of w] assms show ?thesis
    by (auto simp: is_executable_call_def callable_def contains_call_iff split: if_splits)
qed

lemma propose_council:
  assumes "propose env a target method args d n st = Ok (i, st')" and "governed self env"
  shows "council_step self (council_of (st, w)) (timestamp env, Some (a, n)) (council_of (st', w))"
proof -
  from assms(1) [unfolded propose_def entry_Ok prod.inject] obtain st1
    where 1: "check_nonce env a n st = Ok st1" and 2: "require_signer a st1 = Ok ()"
      and 3: "fst (is_executable_call env target method st1)"
      and 4: "add_word env (read_proposal_count (snd (is_executable_call env target method st1))) 1 = (Ok i :: (GovernanceError, u64) result)"
      and 5: "st' = gov_publish (proposal_created i target a) (write_proposal env i
        (fresh_proposal i a target method args d (timestamp env) (get_timelock (snd (is_executable_call env target method st1))))
        (write_proposal_count env i (snd (is_executable_call env target method st1))))"
    by (auto simp: fresh_proposal_def expiry_def get_timelock_def)
  obtain st2 where e: "is_executable_call env target method st1 = (True, st2)" using 3 by (metis eq_fst_iff)
  note 4 = 4 [unfolded e snd_conv] and st' = 5 [unfolded e snd_conv] and 3 = e
  let ?C = "council_of (st, w)"
  note c1 = check_nonce_council [OF 1, of w] and c3 = executable_council [OF 3, of w]
  have C2: "council_of (st2, w) = co_spend a ?C" using c1 c3 by simp
  have "unat i = Suc (unat (read_proposal_count st2))"
    using 4 assms(2) by (auto simp: add_word_def governed_def unat_inc split: if_splits)
  moreover have "read_proposal_count st2 = co_count ?C" "get_timelock st2 = co_timelock ?C"
    using arg_cong [OF C2, of co_count] arg_cong [OF C2, of co_timelock] by (simp_all add: council_of_def co_spend_def)
  moreover have "a \<in> set (co_signers ?C)" using 2 c1 by (simp add: require_signer_Ok [where w = w] co_spend_def)
  moreover have "callable self (co_allowed ?C) target method"
    using c1 c3 assms(2) by (simp add: co_spend_def governed_def)
  ultimately show ?thesis
    using c1 c_propose [of n ?C a self target "method" i "fresh_proposal i a target method args d (timestamp env) (co_timelock ?C)"
        args d "timestamp env"]
    by (simp add: st' C2 co_spend_def)
qed

lemma vote_council:
  assumes "check_nonce env a n st = Ok st1" and "require_signer a st1 = Ok ()" and "read_proposal env i st1 = (Some p, st2)"
    and "pr_status p = ProposalStatus.Pending" and "\<not> is_expired env p" and "read_vote env i a st2 = (None, st3)"
    and "p' = tally_vote (unat (get_threshold st3)) (timestamp env) choice p"
    and "Suc (unat (votes_for choice p)) < 2 ^ 32"
    and "st' = gov_publish e (write_proposal env i p' (write_vote env i a choice st3))"
  shows "council_step self (council_of (st, w)) (timestamp env, Some (a, n)) (council_of (st', w))"
proof -
  let ?C = "council_of (st, w)"
  note c1 = check_nonce_council [OF assms(1), of w] and c2 = read_proposal_council [OF assms(3), of w]
    and c3 = read_vote_council [OF assms(6), of w]
  have C3: "council_of (st3, w) = co_spend a ?C" using c1 c2 c3 by simp
  then have thr: "unat (get_threshold st3) = co_threshold ?C"
    using arg_cong [OF C3, of co_threshold] by (simp add: council_of_def co_spend_def)
  have "a \<in> set (co_signers ?C)" using assms(2) c1 by (simp add: require_signer_Ok [where w = w] co_spend_def)
  moreover have "co_proposals ?C i = Some p" "co_votes ?C (i, a) = None" using c1 c2 c3 by (simp_all add: co_spend_def)
  moreover have "timestamp env < pr_expires_at p" using assms(5) by (simp add: is_expired_def not_le)
  ultimately show ?thesis
    using c1 c_vote [of n ?C a i p "timestamp env" choice self] assms(4,8)
    by (simp add: assms(7,9) C3 thr co_spend_def)
qed

lemma vote_approve_council:
  assumes "vote_approve env a i n st = Ok st'" and "governed self env"
  shows "council_step self (council_of (st, w)) (timestamp env, Some (a, n)) (council_of (st', w))"
proof -
  from assms(1) [unfolded vote_approve_def entry_Ok] obtain st1 p approvals e
    where 1: "check_nonce env a n st = Ok st1" "require_signer a st1 = Ok ()"
      and r: "fst (read_proposal env i st1) = Some p" and 2: "pr_status p = ProposalStatus.Pending" "\<not> is_expired env p"
      and v: "fst (read_vote env i a (snd (read_proposal env i st1))) = None"
      and 3: "add_word env (pr_approval_count p) 1 = (Ok approvals :: (GovernanceError, u32) result)"
      and st': "st' = gov_publish e (write_proposal env i
        (if approvals \<ge> get_threshold (snd (read_vote env i a (snd (read_proposal env i st1))))
         then p\<lparr>pr_approval_count := approvals, pr_status := ProposalStatus.Queued, pr_queued_at := timestamp env\<rparr> else p\<lparr>pr_approval_count := approvals\<rparr>)
        (write_vote env i a Approve (snd (read_vote env i a (snd (read_proposal env i st1))))))"
    by (auto simp: get_threshold_def simp del: not_None_eq split del: if_split cong: if_cong)
  from r obtain st2 where r: "read_proposal env i st1 = (Some p, st2)" by (metis eq_fst_iff)
  from v obtain st3 where v: "read_vote env i a st2 = (None, st3)" unfolding r snd_conv by (metis eq_fst_iff)
  from 3 assms(2) have c: "approvals = pr_approval_count p + 1" "Suc (unat (votes_for Approve p)) < 2 ^ 32"
    by (auto simp: add_word_def governed_def split: if_splits)
  have "st' = gov_publish e (write_proposal env i (tally_vote (unat (get_threshold st3)) (timestamp env) Approve p)
      (write_vote env i a Approve st3))" unfolding st' r snd_conv v by (simp add: c(1) word_le_nat_alt)
  from vote_council [OF 1 r 2 v refl c(2) this] show ?thesis .
qed

lemma vote_veto_council:
  assumes "vote_veto env a i n st = Ok st'" and "governed self env"
  shows "council_step self (council_of (st, w)) (timestamp env, Some (a, n)) (council_of (st', w))"
proof -
  from assms(1) [unfolded vote_veto_def entry_Ok] obtain st1 p vetoes e
    where 1: "check_nonce env a n st = Ok st1" "require_signer a st1 = Ok ()"
      and r: "fst (read_proposal env i st1) = Some p" and 2: "pr_status p = ProposalStatus.Pending" "\<not> is_expired env p"
      and v: "fst (read_vote env i a (snd (read_proposal env i st1))) = None"
      and 3: "add_word env (pr_veto_count p) 1 = (Ok vetoes :: (GovernanceError, u32) result)"
      and st': "st' = gov_publish e (write_proposal env i
        (if vetoes \<ge> get_threshold (snd (read_vote env i a (snd (read_proposal env i st1))))
         then p\<lparr>pr_veto_count := vetoes, pr_status := ProposalStatus.Rejected\<rparr> else p\<lparr>pr_veto_count := vetoes\<rparr>)
        (write_vote env i a Veto (snd (read_vote env i a (snd (read_proposal env i st1))))))"
    by (auto simp: get_threshold_def simp del: not_None_eq split del: if_split cong: if_cong)
  from r obtain st2 where r: "read_proposal env i st1 = (Some p, st2)" by (metis eq_fst_iff)
  from v obtain st3 where v: "read_vote env i a st2 = (None, st3)" unfolding r snd_conv by (metis eq_fst_iff)
  from 3 assms(2) have c: "vetoes = pr_veto_count p + 1" "Suc (unat (votes_for Veto p)) < 2 ^ 32"
    by (auto simp: add_word_def governed_def split: if_splits)
  have "st' = gov_publish e (write_proposal env i (tally_vote (unat (get_threshold st3)) (timestamp env) Veto p)
      (write_vote env i a Veto st3))" unfolding st' r snd_conv v by (simp add: c(1) word_le_nat_alt)
  from vote_council [OF 1 r 2 v refl c(2) this] show ?thesis .
qed

lemma cancel_council:
  assumes "cancel env a i n st = Ok st'"
  shows "council_step self (council_of (st, w)) (timestamp env, Some (a, n)) (council_of (st', w))"
proof -
  from assms [unfolded cancel_def entry_Ok] obtain st1 p e
    where 1: "check_nonce env a n st = Ok st1" "require_signer a st1 = Ok ()"
      and r: "fst (read_proposal env i st1) = Some p" and st: "pr_status p = ProposalStatus.Pending"
      and st': "st' = gov_publish e (write_proposal env i (p\<lparr>pr_status := ProposalStatus.Cancelled\<rparr>) (snd (read_proposal env i st1)))"
    by auto
  from r obtain st2 where r: "read_proposal env i st1 = (Some p, st2)" by (metis eq_fst_iff)
  note st' = st' [unfolded r snd_conv] and 2 = r st
  let ?C = "council_of (st, w)"
  note c1 = check_nonce_council [OF 1(1), of w] and c2 = read_proposal_council [OF 2(1), of w]
  have "a \<in> set (co_signers ?C)" using 1(2) c1 by (simp add: require_signer_Ok [where w = w] co_spend_def)
  moreover have "co_proposals ?C i = Some p" using c1 c2 by (simp add: co_spend_def)
  ultimately show ?thesis
    using c1 c2 c_cancel [of n ?C a i p self "timestamp env"] 2(2) by (simp add: st' co_spend_def)
qed

text \<open>The allowlist: decoding and removing duplicates.\<close>

lemma dedup_calls_Ok:
  assumes "dedup_calls vs acc = Ok calls" and "distinct acc"
  shows "\<exists>cs. vs = map CallVal cs \<and> set calls = set acc \<union> set cs \<and> distinct calls \<and> length calls \<le> length acc + length vs"
  using assms
proof (induction vs acc rule: dedup_calls.induct)
  case (2 v vs acc)
  from "2.prems"(1) obtain c where v: "v = CallVal c" by (cases v) (auto simp: ok_or_def)
  let ?acc = "if \<not> contains_call acc (ac_contract c) (ac_function c) then acc @ [c] else acc"
  have in_acc: "contains_call acc (ac_contract c) (ac_function c) \<longleftrightarrow> c \<in> set acc"
    by (cases c) (simp add: contains_call_iff)
  have "dedup_calls vs ?acc = Ok calls" using "2.prems"(1) v by (simp add: ok_or_def)
  moreover have "distinct ?acc" using "2.prems"(2) in_acc by simp
  ultimately obtain cs where "vs = map CallVal cs" "set calls = set ?acc \<union> set cs" "distinct calls"
    "length calls \<le> length ?acc + length vs" using "2.IH" [of c] v by (auto simp: ok_or_def)
  then show ?case using in_acc by (intro exI [of _ "c # cs"]) (auto simp: v split: if_splits)
qed simp

lemma write_allowed_council:
  assumes "write_allowed_calls env vs st = Ok (k, st')"
  shows "\<exists>cs allowed. vs = map CallVal cs \<and> set allowed = set cs \<and> distinct allowed \<and> length cs \<le> 64 \<and>
    length allowed \<le> 64 \<and> council_of (st', w) = (council_of (st, w))\<lparr>co_allowed := allowed\<rparr>"
proof -
  from assms obtain allowed where d: "dedup_calls vs [] = Ok allowed" and len: "length vs \<le> 64"
    and st': "st' = bump_allowed_calls_ttl env (st\<lparr>gov_allowed_calls := pset env (gov_allowed_calls st) () allowed\<rparr>)"
    by (auto simp: write_allowed_calls_def result_simps Let_def MAX_ALLOWED_CALLS_def split: if_splits)
  have "council_of (st', w) = (council_of (st, w))\<lparr>co_allowed := allowed\<rparr>"
    by (simp add: st') (simp add: council_of_def get_signers_def get_threshold_def get_timelock_def read_proposal_count_def
        storage_simps cong: option.case_cong)
  moreover from dedup_calls_Ok [OF d] obtain cs where "vs = map CallVal cs" "set allowed = set cs" "distinct allowed"
    "length allowed \<le> length vs" by auto
  ultimately show ?thesis using len by (intro exI [of _ cs] exI [of _ allowed]) simp
qed

lemma governed_auth: "governed self env \<Longrightarrow> require_auth env a = Ok u \<Longrightarrow> a \<noteq> self"
  by (auto simp: governed_def require_auth_def split: if_splits)

lemma dispatch_self_council:
  assumes "dispatch_self_call env method args st = Ok st'" and "current_contract env = self"
  shows "\<exists>calls allowed. method = SELF_METHOD_SET_ALLOWED_CALLS \<and>
    args = [AddressVal self, VecVal (map CallVal calls), U64Val (co_nonces (council_of (st, w)) self)] \<and>
    length calls \<le> 64 \<and> set allowed = set calls \<and> distinct allowed \<and>
    council_of (st', w) = (co_spend self (council_of (st, w)))\<lparr>co_allowed := allowed\<rparr>"
proof -
  from assms(1) [unfolded dispatch_self_call_def apply_set_allowed_calls_def entry_Ok] obtain calls nonce st1
    where m: "method = SELF_METHOD_SET_ALLOWED_CALLS" and len: "length args = 3"
      and args: "as_address (args ! 0) = Some self" "as_vec (args ! 1) = Some calls" "as_u64 (args ! 2) = Some nonce"
      and 1: "check_nonce env self nonce st = Ok st1"
      and 2: "\<exists>k st2. write_allowed_calls env calls st1 = Ok (k, st2) \<and> st' = gov_publish (allowed_calls_set k self) st2"
    unfolding assms(2) by auto
  have "v = AddressVal a" if "as_address v = Some a" for v a using that by (cases v) auto
  moreover have "v = VecVal vs" if "as_vec v = Some vs" for v vs using that by (cases v) auto
  moreover have "v = U64Val n" if "as_u64 v = Some n" for v n using that by (cases v) auto
  ultimately have "args = [AddressVal self, VecVal calls, U64Val nonce]"
    using len args by (intro nth_equalityI) (auto simp: less_Suc_eq numeral_3_eq_3 numeral_2_eq_2)
  moreover note c1 = check_nonce_council [OF 1, of w]
  moreover from 2 write_allowed_council [where w = w] obtain cs allowed where "calls = map CallVal cs" "set allowed = set cs"
    "distinct allowed" "length cs \<le> 64" "council_of (st', w) = (council_of (st1, w))\<lparr>co_allowed := allowed\<rparr>"
    by (metis council_of_upd(5))
  ultimately show ?thesis using m by (intro exI [of _ cs] exI [of _ allowed]) simp
qed

lemma execute_council:
  assumes "execute invoke env a i n st w = Ok (st', w')" and "governed self env"
  shows "council_step self (council_of (st, w)) (timestamp env, Some (a, n)) (council_of (st', w'))"
proof -
  from assms(1) [unfolded execute_def entry_Ok] obtain st1 p st3 e
    where au: "require_auth env a = (Ok () :: (GovernanceError, unit) result)" and 1: "check_nonce env a n st = Ok st1"
      and r: "fst (read_proposal env i st1) = Some p" and q: "pr_status p = ProposalStatus.Queued" "\<not> is_expired env p"
        "\<not> timestamp env < saturating_add_u64 (pr_queued_at p) (pr_timelock_seconds p)"
      and 3: "(if pr_target p = current_contract env
        then and_then (dispatch_self_call env (pr_method p) (pr_args p) (snd (read_proposal env i st1))) (\<lambda>st. Ok (st, w))
        else if \<not> contains_call (fst (read_allowed_calls env (snd (read_proposal env i st1)))) (pr_target p) (pr_method p)
        then Err GovernanceError.UnauthorizedCall
        else (case invoke (call_env env (pr_target p)) (pr_target p) (pr_method p) (pr_args p) w of
                None \<Rightarrow> Trap | Some w \<Rightarrow> Ok (snd (read_allowed_calls env (snd (read_proposal env i st1))), w))) = Ok (st3, w')"
      and st': "st' = gov_publish e (write_proposal env i (p\<lparr>pr_status := ProposalStatus.Executed, pr_executed_at := timestamp env\<rparr>) st3)"
    by (auto split del: if_split)
  from r obtain st2 where r: "read_proposal env i st1 = (Some p, st2)" by (metis eq_fst_iff)
  note 3 = 3 [unfolded r snd_conv]
  obtain calls st2' where ra: "read_allowed_calls env st2 = (calls, st2')" by fastforce
  let ?C = "council_of (st, w)"
  note c1 = check_nonce_council [OF 1, of w] and c2 = read_proposal_council [OF r, of w]
    and ca = read_allowed_council [OF ra]
  have any: "council_of (s, w') = council_of (s, w)" for s by (simp add: council_of_def)
  have due: "due (timestamp env) p" using q by (simp add: due_def is_expired_def not_le not_less)
  have p: "co_proposals ?C i = Some p" using c1 c2 by (simp add: co_spend_def)
  have self: "current_contract env = self" using assms(2) by (simp add: governed_def)
  show ?thesis
  proof (cases "pr_target p = self")
    case True
    with 3 self have "dispatch_self_call env (pr_method p) (pr_args p) st2 = Ok st3" by (auto simp: result_simps)
    from dispatch_self_council [OF this self, of w] c1 c2 governed_auth [OF assms(2) au]
    obtain calls allowed where d: "pr_method p = SELF_METHOD_SET_ALLOWED_CALLS"
      "pr_args p = [AddressVal self, VecVal (map CallVal calls), U64Val (co_nonces ?C self)]"
      "length calls \<le> 64" "set allowed = set calls" "distinct allowed"
      "council_of (st3, w) = (co_spend self (co_spend a ?C))\<lparr>co_allowed := allowed\<rparr>"
      by (auto simp: co_spend_def)
    show ?thesis using c1
        c_reconfigure [OF _ governed_auth [OF assms(2) au] p due True d(1-5), of n]
      by (simp add: st' any d(6) co_spend_def)
  next
    case False
    with 3 self have "contains_call calls (pr_target p) (pr_method p)" and st3: "st3 = st2'"
      by (auto simp: ra split: if_splits option.splits)
    then have "callable self (co_allowed ?C) (pr_target p) (pr_method p)"
      using ca [of w] c1 c2 False by (simp add: callable_def contains_call_iff co_spend_def)
    with c1 c2 ca [of w] c_execute [OF _ p due False, of n a] show ?thesis
      by (simp add: st' st3 any co_spend_def)
  qed
qed

lemma migrate_loop_council:
  "migrate_loop env ids k st = (k', st') \<Longrightarrow> council_of (st', w) = council_of (st, w)"
proof (induction env ids k st rule: migrate_loop.induct)
  case (2 env i ids k st)
  show ?case
  proof (cases "pget (gov_proposals st) i = None \<and> old_proposals (gov_old st) i \<noteq> None")
    case True
    then obtain p where p: "old_proposals (gov_old st) i = Some p" "pget (gov_proposals st) i = None" by auto
    then have "co_proposals (council_of (st, w)) i = Some p" by (simp add: council_of_def map_add_def)
    then have "council_of (write_proposal env i p st, w) = council_of (st, w)" by (simp add: fun_upd_idem)
    moreover have "council_of (st', w) = council_of (write_proposal env i p st, w)" using 2 p by simp
    ultimately show ?thesis by simp
  next
    case False
    with 2 show ?thesis by (auto split: if_splits option.splits)
  qed
qed simp

lemma migrate_council:
  assumes "migrate_storage env a st = Ok (k, st')"
  shows "council_of (st', w) = council_of (st, w)"
proof (cases "storage_version st \<ge> STORAGE_VERSION_PERSISTENT \<or> old_proposal_count (gov_old st) = None")
  case True
  with assms show ?thesis by (auto simp: migrate_storage_def result_simps split: if_splits)
next
  case False
  then obtain count where c: "old_proposal_count (gov_old st) = Some count" by auto
  let ?st = "if pget (gov_proposal_count st) () = None then write_proposal_count env count st else st"
  obtain k' st1 where l: "migrate_loop env (map of_nat [1..<Suc (unat count)]) 0 ?st = (k', st1)" by fastforce
  with False c assms have st': "st' = st1\<lparr>gov_storage_version := Some STORAGE_VERSION_PERSISTENT\<rparr>"
    by (auto simp: migrate_storage_def result_simps Let_def simp del: upt_Suc split: if_splits)
  have "council_of (?st, w) = council_of (st, w)"
    using c by (auto simp: council_of_def read_proposal_count_def write_proposal_count_def storage_simps
        get_signers_def get_threshold_def get_timelock_def)
  then show ?thesis using migrate_loop_council [OF l, of w] by (simp add: st')
qed

lemma gov_step_council:
  assumes "gov_step (governed self) invoke s l s'"
  shows "council_step self (council_of s) l (council_of s')"
  using assms
proof (cases rule: gov_step.cases)
  case (step_set_allowed_calls env a calls n st st' w)
  then have "a \<noteq> self" "a = current_contract env"
    by (auto simp: set_allowed_calls_def apply_set_allowed_calls_def result_simps dest: governed_auth split: if_splits)
  with step_set_allowed_calls show ?thesis by (simp add: governed_def)
next
  case (step_get_proposal env i st p st' w)
  obtain f st1 where r: "read_proposal env i st = (f, st1)" by fastforce
  with step_get_proposal read_proposal_council [OF r, of w] c_read show ?thesis
    by (auto simp: get_proposal_def result_simps)
next
  case (step_get_vote env i a st c st' w)
  with read_vote_council [of env i a st c st' w] c_read show ?thesis by (simp add: get_vote_def)
next
  case (step_get_allowed_calls env st c st' w)
  with read_allowed_council [of env st c st' w] c_read show ?thesis by (simp add: get_allowed_calls_def)
next
  case (step_is_call_allowed env a f st ok st' w)
  obtain c st1 where r: "read_allowed_calls env st = (c, st1)" by fastforce
  with step_is_call_allowed read_allowed_council [OF r, of w] c_read show ?thesis
    by (simp add: is_call_allowed_def)
next
  case (step_migrate_storage env a st k st' w)
  with migrate_council [OF step_migrate_storage(5), of w] c_read show ?thesis by simp
next
  case (step_world st w now w')
  have "council_of (st, w') = council_of (st, w)" by (simp add: council_of_def)
  with step_world c_read show ?thesis by simp
qed (auto intro: propose_council vote_approve_council vote_veto_council cancel_council execute_council)

section \<open>Invariant\<close>

lemma voters_cast:
  "co_votes C (i, a) = None \<Longrightarrow> voters (C\<lparr>co_votes := (co_votes C)((i, a) \<mapsto> c)\<rparr>) j d =
     (if j = i \<and> d = c then insert a (voters C j d) else voters C j d)"
  by (auto simp: voters_def)

lemma council_invD:
  assumes "council_inv n C"
  shows "chamber_ok C" "numbered n C" "votes_ok C" "co_proposals C i = Some p \<Longrightarrow> proposal_ok C i p" "allowlist_ok C"
  using assms by (simp_all add: council_inv_def)

lemma voters_finite: "council_inv n C \<Longrightarrow> finite (voters C i c)"
  by (rule finite_subset [of _ "set (co_signers C)"]) (use council_invD(3) [of n C] in \<open>unfold voters_def votes_ok_def, blast+\<close>)

lemma proposal_ok_cong:
  "co_signers C' = co_signers C \<Longrightarrow> co_timelock C' = co_timelock C \<Longrightarrow> co_threshold C' = co_threshold C \<Longrightarrow>
   (\<And>c. voters C' i c = voters C i c) \<Longrightarrow> proposal_ok C' i p = proposal_ok C i p"
  by (simp add: proposal_ok_def)

lemma co_spend_keeps [simp]:
  "co_signers (co_spend a C) = co_signers C" "co_threshold (co_spend a C) = co_threshold C"
  "co_timelock (co_spend a C) = co_timelock C" "co_proposals (co_spend a C) = co_proposals C"
  "co_count (co_spend a C) = co_count C" "co_votes (co_spend a C) = co_votes C" "co_allowed (co_spend a C) = co_allowed C"
  by (simp_all add: co_spend_def)

text \<open>Changing one proposal, and nothing else that the invariant is about.\<close>

lemma inv_replace:
  assumes "council_inv n C" and "co_proposals C i \<noteq> None" and "proposal_ok C i p"
    and "distinct allowed" and "length allowed \<le> 64"
    and "C' = C\<lparr>co_nonces := ns, co_proposals := (co_proposals C)(i \<mapsto> p), co_allowed := allowed\<rparr>"
  shows "council_inv (Suc n) C'"
proof -
  have ok: "proposal_ok C' j q = proposal_ok C j q" for j q by (rule proposal_ok_cong) (simp_all add: assms(6) voters_def)
  have "proposal_ok C' j q" if "co_proposals C' j = Some q" for j q
    using that assms(3) council_invD(4) [OF assms(1)] unfolding ok by (auto simp: assms(6) split: if_splits)
  moreover have "numbered (Suc n) C'" using council_invD(2) [OF assms(1)] assms(2) by (auto simp: numbered_def assms(6))
  moreover have "votes_ok C'" using council_invD(3) [OF assms(1)] by (auto simp: votes_ok_def assms(6))
  ultimately show ?thesis using council_invD(1) [OF assms(1)] assms(4,5)
    unfolding council_inv_def by (simp add: chamber_ok_def allowlist_ok_def assms(6))
qed

lemma tally_ok:
  assumes "proposal_ok C i p" and "pr_status p = ProposalStatus.Pending" and "now < pr_expires_at p"
    and "a \<notin> voters C i c" and "finite (voters C i c)" and "Suc (unat (votes_for c p)) < 2 ^ 32"
    and "voters C' i c = insert a (voters C i c)" and "\<And>d. d \<noteq> c \<Longrightarrow> voters C' i d = voters C i d"
    and "co_signers C' = co_signers C" "co_timelock C' = co_timelock C" "co_threshold C' = co_threshold C"
  shows "proposal_ok C' i (tally_vote (co_threshold C) now c p)"
  using assms
  by (cases c) (auto simp: proposal_ok_def status_ok_def Let_def unat_inc card_insert_if)

lemma council_inv_step:
  assumes "council_step self C l C'" and "council_inv n C"
  shows "council_inv (Suc n) C'"
  using assms(1)
proof (cases rule: council_step.cases)
  case (c_propose m a target meth i p args d now)
  note inv = council_invD [OF assms(2)]
  have fresh: "co_proposals C i = None" using inv(2) c_propose(6) unfolding numbered_def by (metis Suc_n_not_le_n)
  then have none: "voters C i c = {}" for c using inv(3) unfolding voters_def votes_ok_def by blast
  have ok: "proposal_ok C' j q = proposal_ok C j q" for j q by (rule proposal_ok_cong) (simp_all add: c_propose(2) voters_def)
  have "proposal_ok C i p" using inv(1) c_propose(4) none
    by (auto simp: c_propose(7) fresh_proposal_def proposal_ok_def status_ok_def chamber_ok_def)
  then have "proposal_ok C' j q" if "co_proposals C' j = Some q" for j q
    using that inv(4) unfolding ok by (auto simp: c_propose(2) split: if_splits)
  moreover have "numbered (Suc n) C'" using inv(2) c_propose(6)
    by (auto simp: numbered_def c_propose(2) word_unat_eq_iff le_Suc_eq)
  moreover have "votes_ok C'" using inv(3) by (auto simp: votes_ok_def c_propose(2))
  ultimately show ?thesis using inv(1,5)
    unfolding council_inv_def by (simp add: chamber_ok_def allowlist_ok_def c_propose(2))
next
  case (c_vote m a i p now choice)
  note inv = council_invD [OF assms(2)]
  have fin: "finite (voters C i choice)" by (rule voters_finite [OF assms(2)])
  let ?q = "tally_vote (co_threshold C) now choice p"
  have v: "voters C' j d = (if j = i \<and> d = choice then insert a (voters C j d) else voters C j d)" for j d
    using c_vote(8) by (auto simp: c_vote(2) voters_def)
  have same: "proposal_ok C' j q = proposal_ok C j q" if "j \<noteq> i" for j q
    by (rule proposal_ok_cong) (simp_all add: c_vote(2) that voters_def)
  have new: "a \<notin> voters C i choice" using c_vote(8) by (simp add: voters_def)
  have "proposal_ok C' i ?q"
    by (rule tally_ok [OF inv(4) [OF c_vote(5)] c_vote(6,7) new fin c_vote(9)]) (simp_all add: v, simp_all add: c_vote(2))
  then have "proposal_ok C' j q" if "co_proposals C' j = Some q" for j q
    using that inv(4) same by (cases "j = i") (auto simp: c_vote(2))
  moreover have "numbered (Suc n) C'" using inv(2) c_vote(5) by (auto simp: numbered_def c_vote(2))
  moreover have "votes_ok C'" using inv(3) c_vote(4,5) by (auto simp: votes_ok_def c_vote(2))
  ultimately show ?thesis using inv(1,5)
    unfolding council_inv_def by (simp add: chamber_ok_def allowlist_ok_def c_vote(2))
next
  case (c_cancel m a i p now)
  note inv = council_invD [OF assms(2)]
  have "proposal_ok C i (p\<lparr>pr_status := ProposalStatus.Cancelled\<rparr>)"
    using inv(4) [OF c_cancel(5)] c_cancel(6) by (simp add: proposal_ok_def status_ok_def)
  with assms(2) inv(5) c_cancel show ?thesis
    by (intro inv_replace [where C = C and i = i]) (auto simp: allowlist_ok_def co_spend_def)
next
  case (c_execute m a i p now)
  note inv = council_invD [OF assms(2)]
  have "proposal_ok C i (p\<lparr>pr_status := ProposalStatus.Executed, pr_executed_at := now\<rparr>)"
    using inv(4) [OF c_execute(4)] c_execute(5) by (auto simp: proposal_ok_def status_ok_def due_def)
  with assms(2) inv(5) c_execute show ?thesis
    by (intro inv_replace [where C = C and i = i]) (auto simp: allowlist_ok_def co_spend_def)
next
  case (c_reconfigure m a i p now calls allowed)
  note inv = council_invD [OF assms(2)]
  have "proposal_ok C i (p\<lparr>pr_status := ProposalStatus.Executed, pr_executed_at := now\<rparr>)"
    using inv(4) [OF c_reconfigure(5)] c_reconfigure(6) by (auto simp: proposal_ok_def status_ok_def due_def)
  moreover have "length allowed \<le> 64" using c_reconfigure by (metis card_length distinct_card le_trans)
  moreover have "C' = C\<lparr>co_nonces := co_nonces C', co_proposals := (co_proposals C)(i \<mapsto> p\<lparr>pr_status := ProposalStatus.Executed,
      pr_executed_at := now\<rparr>), co_allowed := allowed\<rparr>"
    by (rule council.equality) (simp_all add: c_reconfigure(2))
  ultimately show ?thesis using c_reconfigure(5) c_reconfigure(12) by (intro inv_replace [OF assms(2)]) simp_all
next
  case (c_read now)
  with assms(2) show ?thesis by (simp add: council_inv_def numbered_def)
qed

interpretation chamber: simulated_machine "gov_step (governed self) invoke" "council_step self" council_of "\<lambda>_. True" council_inv
  for self invoke
  by unfold_locales (auto intro: gov_step_council council_inv_step)

interpretation council_nonces: nonce_machine "council_step self" "outside self" "\<lambda>C a. if a = self then 0 else co_nonces C a" for self
proof unfold_locales
  fix C l C' a n
  assume s: "council_step self C l C'" and r: "outside self l = Some (a, n)"
  from r have "snd l = Some (a, n)" "a \<noteq> self" by (auto simp: outside_def split: option.splits if_splits)
  with s show "(if a = self then 0 else co_nonces C a) = n \<and>
      (\<lambda>b. if b = self then 0 else co_nonces C' b) = (\<lambda>b. if b = self then 0 else co_nonces C b)(a := n + 1)"
    by (cases rule: council_step.cases) (auto simp: co_spend_def fun_eq_iff)
next
  fix C l C'
  assume s: "council_step self C l C'" and r: "outside self l = None"
  then show "(\<lambda>b. if b = self then 0 else co_nonces C' b) = (\<lambda>b. if b = self then 0 else co_nonces C b)"
    by (cases rule: council_step.cases) (auto simp: outside_def co_spend_def fun_eq_iff split: if_splits)
qed

lemma pairwise_distinct:
  "(\<forall>i < length xs. \<forall>j \<in> {Suc i..<length xs}. xs ! i \<noteq> xs ! j) \<longleftrightarrow> distinct xs"
  by (auto simp: distinct_conv_nth) (metis Suc_leI atLeastLessThan_iff nat_neq_iff)

lemma constructor_council:
  assumes "governance_constructor env signers threshold timelock calls = Ok st"
  shows "council_inv 0 (council_of (st, w))" "co_signers (council_of (st, w)) = signers"
    "co_threshold (council_of (st, w)) = unat threshold" "co_timelock (council_of (st, w)) = timelock"
proof -
  let ?st0 = "\<lparr>gov_instance_ttl = ttl_new env, gov_signers = Some signers, gov_threshold = Some threshold,
    gov_timelock_seconds = Some timelock, gov_storage_version = None, gov_proposals = Map.empty,
    gov_proposal_count = Map.empty, gov_votes = Map.empty, gov_nonces = Map.empty,
    gov_nonce_initialized = Map.empty, gov_allowed_calls = Map.empty, gov_old = empty_old, gov_events = []\<rparr>"
  from assms obtain k where w: "write_allowed_calls env calls ?st0 = Ok (k, st)"
    and ne: "0 < threshold" "unat threshold \<le> length signers"
    and dist: "distinct signers"
    unfolding governance_constructor_def pairwise_distinct Let_def by (auto split: if_splits result.splits)
  from write_allowed_council [OF w, of w] obtain allowed where a: "distinct allowed" "length allowed \<le> 64"
    "council_of (st, w) = (council_of (?st0, w))\<lparr>co_allowed := allowed\<rparr>" by blast
  have C0: "council_of (?st0, w) = \<lparr>co_signers = signers, co_threshold = unat threshold, co_timelock = timelock,
     co_nonces = (\<lambda>_. 0), co_proposals = Map.empty, co_count = 0, co_votes = Map.empty, co_allowed = []\<rparr>"
    by (simp add: council_of_def get_signers_def get_threshold_def get_timelock_def read_proposal_count_def empty_old_def
        storage_simps)
  have "1 \<le> unat threshold" using ne(1) by (simp add: word_less_nat_alt)
  with a dist ne(2) show "council_inv 0 (council_of (st, w))" by (auto simp: C0 council_inv_def chamber_ok_def numbered_def votes_ok_def allowlist_ok_def)
  show "co_signers (council_of (st, w)) = signers" "co_threshold (council_of (st, w)) = unat threshold"
    "co_timelock (council_of (st, w)) = timelock" by (simp_all add: a C0)
qed

section \<open>Properties\<close>

lemma council_reads:
  "fst (read_proposal env i st) = co_proposals (council_of (st, w)) i"
  "fst (get_vote env i a st) = co_votes (council_of (st, w)) (i, a)"
  "fst (get_allowed_calls env st) = co_allowed (council_of (st, w))"
  using read_proposal_council [of env i st _ _ w] read_vote_council [of env i a st _ _ w] read_allowed_council [of env st _ _ w]
  by (metis prod.collapse get_vote_def get_allowed_calls_def)+

lemma council_fixed:
  assumes "run (council_step self) C ls C'"
  shows "co_signers C' = co_signers C \<and> co_threshold C' = co_threshold C \<and> co_timelock C' = co_timelock C"
  using assms by (induction rule: run.induct) (auto elim!: council_step.cases)

lemma council_reachable:
  assumes "governance_constructor env0 signers threshold timelock calls = Ok st0"
    and "run (gov_step (governed self) invoke) (st0, w0) ls (st, w)" and "length ls < 2 ^ 64"
  shows "council_inv (length ls) (council_of (st, w))" "co_signers (council_of (st, w)) = signers"
    "co_threshold (council_of (st, w)) = unat threshold" "co_timelock (council_of (st, w)) = timelock"
  using chamber.conc.inv_run [OF assms(2), of 0] constructor_council [OF assms(1), of w0] assms(3)
    council_fixed [OF chamber.run_refines [OF assms(2)]] by simp_all

lemma quorum:
  assumes "council_inv n C" and "co_proposals C i = Some p" and "pr_status p = ProposalStatus.Queued"
  shows "co_threshold C \<le> card {a \<in> set (co_signers C). co_votes C (i, a) = Some Approve}"
proof -
  have "voters C i Approve = {a \<in> set (co_signers C). co_votes C (i, a) = Some Approve}"
    using council_invD(3) [OF assms(1)] by (auto simp: voters_def votes_ok_def)
  with council_invD(4) [OF assms(1,2)] assms(3) show ?thesis by (simp add: proposal_ok_def status_ok_def)
qed

lemma execute_effect:
  assumes "execute invoke env a i n st w = Ok (st', w')" and "current_contract env = self"
  shows "\<exists>p. co_proposals (council_of (st, w)) i = Some p \<and> due (timestamp env) p \<and>
    (if pr_target p = self then pr_method p = SELF_METHOD_SET_ALLOWED_CALLS \<and> w' = w
     else \<lparr>ac_contract = pr_target p, ac_function = pr_method p\<rparr> \<in> set (co_allowed (council_of (st, w))) \<and>
       invoke (call_env env (pr_target p)) (pr_target p) (pr_method p) (pr_args p) w = Some w')"
proof -
  from assms(1) [unfolded execute_def entry_Ok] obtain st1 p st3
    where 1: "check_nonce env a n st = Ok st1"
      and r: "fst (read_proposal env i st1) = Some p" and q: "pr_status p = ProposalStatus.Queued" "\<not> is_expired env p"
        "\<not> timestamp env < saturating_add_u64 (pr_queued_at p) (pr_timelock_seconds p)"
      and 3: "(if pr_target p = current_contract env
        then and_then (dispatch_self_call env (pr_method p) (pr_args p) (snd (read_proposal env i st1))) (\<lambda>st. Ok (st, w))
        else if \<not> contains_call (fst (read_allowed_calls env (snd (read_proposal env i st1)))) (pr_target p) (pr_method p)
        then Err GovernanceError.UnauthorizedCall
        else (case invoke (call_env env (pr_target p)) (pr_target p) (pr_method p) (pr_args p) w of
                None \<Rightarrow> Trap | Some w \<Rightarrow> Ok (snd (read_allowed_calls env (snd (read_proposal env i st1))), w))) = Ok (st3, w')"
    by (auto split del: if_split)
  let ?C = "council_of (st, w)"
  have c1: "council_of (st1, w) = co_spend a ?C" using check_nonce_council [OF 1, of w] by simp
  obtain st2 where r2: "read_proposal env i st1 = (Some p, st2)" using r by (metis eq_fst_iff)
  note c2 = read_proposal_council [OF r2, of w]
  have allowed: "fst (read_allowed_calls env st2) = co_allowed ?C"
    using council_reads(3) [of env st2 w] c1 c2 by (simp add: get_allowed_calls_def)
  have "co_proposals ?C i = Some p" using c1 c2 by simp
  moreover have "due (timestamp env) p" using q by (simp add: due_def is_expired_def not_le not_less)
  moreover have "if pr_target p = self then pr_method p = SELF_METHOD_SET_ALLOWED_CALLS \<and> w' = w
     else \<lparr>ac_contract = pr_target p, ac_function = pr_method p\<rparr> \<in> set (co_allowed ?C) \<and>
       invoke (call_env env (pr_target p)) (pr_target p) (pr_method p) (pr_args p) w = Some w'"
    using 3 assms(2) allowed unfolding r2 snd_conv
    by (auto simp: result_simps dispatch_self_call_def contains_call_iff split: if_splits option.splits)
  ultimately show ?thesis by blast
qed

text \<open>
  C4. Nothing is executed without a quorum. Whatever calls were made before, a successful execution is
  that of a proposal which at least as many distinct signers approved as the threshold demands, whose
  timelock has passed since it was queued and which has not expired; it either calls the proposed method
  of the proposed contract with the proposed arguments, a pair on the current allowlist, or it
  reconfigures the allowlist and calls nobody.
\<close>

theorem execution_needs_quorum:
  assumes "governance_constructor env0 signers threshold timelock calls = Ok st0"
    and "run (gov_step (governed self) invoke) (st0, w0) ls (st, w)" and "length ls < 2 ^ 64"
    and "governed self env" and "execute invoke env a i n st w = Ok (st', w')"
  shows "\<exists>p. fst (read_proposal env i st) = Some p \<and> pr_status p = ProposalStatus.Queued \<and>
    unat threshold \<le> card {s \<in> set signers. fst (get_vote env i s st) = Some Approve} \<and>
    saturating_add_u64 (pr_queued_at p) timelock \<le> timestamp env \<and> timestamp env < pr_expires_at p \<and>
    (if pr_target p = self then pr_method p = SELF_METHOD_SET_ALLOWED_CALLS \<and> w' = w
     else \<lparr>ac_contract = pr_target p, ac_function = pr_method p\<rparr> \<in> set (fst (get_allowed_calls env st)) \<and>
       invoke (call_env env (pr_target p)) (pr_target p) (pr_method p) (pr_args p) w = Some w')"
proof -
  note reach = council_reachable [OF assms(1-3)]
  have "current_contract env = self" using assms(4) by (simp add: governed_def)
  from execute_effect [OF assms(5) this] obtain p where p: "co_proposals (council_of (st, w)) i = Some p"
    "due (timestamp env) p"
    "if pr_target p = self then pr_method p = SELF_METHOD_SET_ALLOWED_CALLS \<and> w' = w
     else \<lparr>ac_contract = pr_target p, ac_function = pr_method p\<rparr> \<in> set (co_allowed (council_of (st, w))) \<and>
       invoke (call_env env (pr_target p)) (pr_target p) (pr_method p) (pr_args p) w = Some w'" by blast
  have "pr_timelock_seconds p = timelock" using council_invD(4) [OF reach(1) p(1)] reach(4) by (simp add: proposal_ok_def)
  with p quorum [OF reach(1) p(1)] show ?thesis
    by (intro exI [of _ p]) (simp add: due_def council_reads [where w = w] reach(2,3))
qed

text \<open>
  C25. The allowlist is changed by governance only, and stays small. Between the calls of a history, the
  list of permitted calls changes only when a proposal to the contract itself is executed that the
  threshold of signers approved, and then to the calls that proposal lists; it never holds a pair twice nor
  more than 64 pairs.
\<close>

theorem allowlist_by_proposal_only:
  assumes "governance_constructor env0 signers threshold timelock calls = Ok st0"
    and "run (gov_step (governed self) invoke) (st0, w0) ls (st, w)" and "Suc (length ls) < 2 ^ 64"
    and "gov_step (governed self) invoke (st, w) l (st', w')"
  shows "distinct (fst (get_allowed_calls env st')) \<and> length (fst (get_allowed_calls env st')) \<le> 64 \<and>
    (fst (get_allowed_calls env st') = fst (get_allowed_calls env st) \<or>
     (\<exists>i p cs n. fst (read_proposal env i st) = Some p \<and> pr_status p = ProposalStatus.Queued \<and> pr_target p = self \<and>
       pr_method p = SELF_METHOD_SET_ALLOWED_CALLS \<and> pr_args p = [AddressVal self, VecVal (map CallVal cs), U64Val n] \<and>
       set (fst (get_allowed_calls env st')) = set cs \<and>
       unat threshold \<le> card {s \<in> set signers. fst (get_vote env i s st) = Some Approve}))"
proof -
  from assms(3) have len: "length ls < 2 ^ 64" by simp
  note reach = council_reachable [OF assms(1,2) len]
  let ?C = "council_of (st, w)" and ?C' = "council_of (st', w')"
  have step: "council_step self ?C l ?C'" by (rule gov_step_council [OF assms(4)])
  have ok: "allowlist_ok ?C'" using council_invD(5) [OF council_inv_step [OF step reach(1)]] .
  from step have "co_allowed ?C' = co_allowed ?C \<or> (\<exists>i p cs n. co_proposals ?C i = Some p \<and>
      pr_status p = ProposalStatus.Queued \<and> pr_target p = self \<and> pr_method p = SELF_METHOD_SET_ALLOWED_CALLS \<and>
      pr_args p = [AddressVal self, VecVal (map CallVal cs), U64Val n] \<and> set (co_allowed ?C') = set cs)"
    by (cases rule: council_step.cases) (simp_all add: due_def, blast)
  then have "co_allowed ?C' = co_allowed ?C \<or> (\<exists>i p cs n. co_proposals ?C i = Some p \<and>
      pr_status p = ProposalStatus.Queued \<and> pr_target p = self \<and> pr_method p = SELF_METHOD_SET_ALLOWED_CALLS \<and>
      pr_args p = [AddressVal self, VecVal (map CallVal cs), U64Val n] \<and> set (co_allowed ?C') = set cs \<and>
      unat threshold \<le> card {s \<in> set signers. co_votes ?C (i, s) = Some Approve})"
    using quorum [OF reach(1)] unfolding reach(2,3) by blast
  with ok show ?thesis
    unfolding council_reads [where w = w and st = st] council_reads [where w = w' and st = st'] allowlist_ok_def by blast
qed

text \<open>Proposals along a run.\<close>

lemma moves_refl [simp]: "moves s s"
  by (cases s) simp_all

lemma moves_trans: "moves s t \<Longrightarrow> moves t u \<Longrightarrow> moves s u"
  by (cases s; cases t) auto

lemma step_proposal:
  assumes "council_step self C l C'" and "co_proposals C i = Some p" and "numbered n C"
  shows "\<exists>p'. co_proposals C' i = Some p' \<and> terms p' = terms p \<and> moves (pr_status p) (pr_status p') \<and>
    (closed_status (pr_status p) \<longrightarrow> p' = p)"
  using assms(1)
proof (cases rule: council_step.cases)
  case (c_propose m a target meth j q args d now)
  have "j \<noteq> i" using assms(2,3) c_propose(6) unfolding numbered_def by (metis Suc_n_not_le_n option.distinct(1))
  with c_propose assms(2) show ?thesis by simp
next
  case (c_vote m a j q now choice)
  with assms(2) show ?thesis by (cases choice) (auto simp: Let_def terms_def)
next
  case (c_cancel m a j q now)
  with assms(2) show ?thesis by (auto simp: terms_def)
next
  case (c_execute m a j q now)
  with assms(2) show ?thesis by (auto simp: terms_def due_def)
next
  case (c_reconfigure m a j q now cs allowed)
  with assms(2) show ?thesis by (auto simp: terms_def due_def)
next
  case (c_read now)
  with assms(2) show ?thesis by simp
qed

lemma step_vote: "council_step self C l C' \<Longrightarrow> co_votes C k = Some c \<Longrightarrow> co_votes C' k = Some c"
  by (erule council_step.cases) auto

lemma run_proposal:
  assumes "run (council_step self) C ls C'" and "council_inv n C" and "n + length ls < 2 ^ 64" and "co_proposals C i = Some p"
  shows "\<exists>p'. co_proposals C' i = Some p' \<and> terms p' = terms p \<and> moves (pr_status p) (pr_status p') \<and>
    (closed_status (pr_status p) \<longrightarrow> p' = p)"
  using assms
proof (induction rule: run.induct)
  case (run_refl C)
  then show ?case by auto
next
  case (run_snoc C ls T l U)
  then obtain q where q: "co_proposals T i = Some q" "terms q = terms p" "moves (pr_status p) (pr_status q)"
    "closed_status (pr_status p) \<longrightarrow> q = p" by auto
  have "council_inv (n + length ls) T" using run_snoc by (intro chamber.inv_run) auto
  from step_proposal [OF run_snoc.hyps(2) q(1) council_invD(2) [OF this]] q show ?case
    using moves_trans [of "pr_status p" "pr_status q"] by fastforce
qed

text \<open>A successful execution finds the proposal queued and leaves it marked as executed.\<close>

lemma execute_marks:
  assumes "execute invoke env a i n st w = Ok (st', w')"
  shows "\<exists>p. fst (read_proposal env' i st) = Some p \<and> pr_status p = ProposalStatus.Queued \<and>
    fst (read_proposal env' i st') = Some (p\<lparr>pr_status := ProposalStatus.Executed, pr_executed_at := timestamp env\<rparr>)"
proof -
  from assms [unfolded execute_def entry_Ok] obtain st1 p st3 e
    where 1: "check_nonce env a n st = Ok st1" and r: "fst (read_proposal env i st1) = Some p"
      and q: "pr_status p = ProposalStatus.Queued"
      and st': "st' = gov_publish e (write_proposal env i (p\<lparr>pr_status := ProposalStatus.Executed, pr_executed_at := timestamp env\<rparr>) st3)"
    by (auto split del: if_split)
  have "co_proposals (council_of (st, w)) i = Some p"
    using r check_nonce_council [OF 1, of w] council_reads(1) [of env i st1 w] by (simp add: co_spend_def)
  with q show ?thesis by (simp add: council_reads [where w = w] st')
qed

text \<open>
  C40. A proposal keeps its terms and its decision. Later calls change neither who proposed what and until
  when, nor a vote that was cast; a pending proposal may be queued, rejected or cancelled, a queued one
  executed, and an executed, rejected or cancelled proposal never changes again. An execution succeeds for a
  queued proposal only and marks it as executed, so that nothing is executed twice.
\<close>

theorem proposal_decided_once:
  assumes "governance_constructor env0 signers threshold timelock calls = Ok st0"
    and "run (gov_step (governed self) invoke) (st0, w0) ls (st, w)"
    and "run (gov_step (governed self) invoke) (st, w) ls' (st', w')" and "length ls + length ls' < 2 ^ 64"
    and "fst (read_proposal env i st) = Some p"
  shows "(\<exists>p'. fst (read_proposal env i st') = Some p' \<and> terms p' = terms p \<and> moves (pr_status p) (pr_status p') \<and>
      (closed_status (pr_status p) \<longrightarrow> p' = p)) \<and>
    (\<forall>a c. fst (get_vote env i a st) = Some c \<longrightarrow> fst (get_vote env i a st') = Some c) \<and>
    (\<forall>env' a n st1 w1. execute invoke env' a i n st w = Ok (st1, w1) \<longrightarrow> pr_status p = ProposalStatus.Queued \<and>
      fst (read_proposal env i st1) = Some (p\<lparr>pr_status := ProposalStatus.Executed, pr_executed_at := timestamp env'\<rparr>))"
proof -
  from assms(4) have len: "length ls < 2 ^ 64" by simp
  note reach = council_reachable [OF assms(1,2) len]
  have run: "run (council_step self) (council_of (st, w)) ls' (council_of (st', w'))"
    by (rule chamber.run_refines [OF assms(3)]) simp
  then have "co_votes (council_of (st, w)) k = Some c \<Longrightarrow> co_votes (council_of (st', w')) k = Some c" for k c
    by (induction rule: run.induct) (auto dest: step_vote)
  moreover have "pr_status p = ProposalStatus.Queued \<and>
      fst (read_proposal env i st1) = Some (p\<lparr>pr_status := ProposalStatus.Executed, pr_executed_at := timestamp env'\<rparr>)"
    if "execute invoke env' a i n st w = Ok (st1, w1)" for env' a n st1 w1
    using execute_marks [OF that, of env] assms(5) by auto
  ultimately show ?thesis using run_proposal [OF run reach(1) assms(4)] assms(5)
    unfolding council_reads [where w = w and st = st] council_reads [where w = w' and st = st'] by blast
qed

lemma migrate_loop_copies:
  assumes "migrate_loop env ids k st = (k', st')"
  shows "gov_old st' = gov_old st \<and> (\<forall>i. pget (gov_proposals st') i = (if i \<in> set ids then (old_proposals (gov_old st) ++ pget (gov_proposals st)) i
       else pget (gov_proposals st) i))"
  using assms
proof (induction env ids k st rule: migrate_loop.induct)
  case (2 env i ids k st)
  show ?case
  proof (cases "pget (gov_proposals st) i = None \<and> old_proposals (gov_old st) i \<noteq> None")
    case True
    then obtain p where p: "old_proposals (gov_old st) i = Some p" "pget (gov_proposals st) i = None" by auto
    with 2 have "migrate_loop env ids (k + 1) (write_proposal env i p st) = (k', st')" by simp
    with 2(3) p have "gov_old st' = gov_old (write_proposal env i p st) \<and>
        (\<forall>j. pget (gov_proposals st') j = (if j \<in> set ids
          then (old_proposals (gov_old (write_proposal env i p st)) ++ pget (gov_proposals (write_proposal env i p st))) j
          else pget (gov_proposals (write_proposal env i p st)) j))" by simp
    with p show ?thesis by (auto simp: write_proposal_def storage_simps map_add_def)
  next
    case False
    with 2 show ?thesis by (auto simp: map_add_def split: if_splits option.splits)
  qed
qed simp

text \<open>
  C26. Migrating the storage is invisible and complete. On any state, whatever an older version left in
  instance storage, a migration changes no answer about proposals, votes, their number or the allowlist;
  afterwards the proposals up to the old counter are read from persistent storage, so that the old copies
  are not needed any more; and migrating again changes nothing and reports zero.
\<close>

theorem migration_invisible:
  assumes "migrate_storage env a st = Ok (k, st')"
  shows "fst (read_proposal env' i st') = fst (read_proposal env' i st) \<and> fst (get_vote env' i b st') = fst (get_vote env' i b st) \<and>
    proposal_count st' = proposal_count st \<and> fst (get_allowed_calls env' st') = fst (get_allowed_calls env' st) \<and>
    (storage_version st < STORAGE_VERSION_PERSISTENT \<longrightarrow>
      (\<forall>j count. old_proposal_count (gov_old st) = Some count \<and> 1 \<le> unat j \<and> unat j \<le> unat count \<longrightarrow>
        pget (gov_proposals st') j = fst (read_proposal env' j st))) \<and>
    migrate_storage env a st' = Ok (0, st')"
proof -
  have same: "council_of (st', ()) = council_of (st, ())" by (rule migrate_council [OF assms])
  then have count: "proposal_count st' = proposal_count st"
    using arg_cong [OF same, of co_count] by (simp add: council_of_def proposal_count_def)
  let ?st = "\<lambda>count. if pget (gov_proposal_count st) () = None then write_proposal_count env count st else st"
  have auth: "require_auth env a = (Ok () :: (GovernanceError, unit) result)" "require_signer a st = Ok ()"
    using assms by (auto simp: migrate_storage_def result_simps)
  have result: "(if storage_version st \<ge> STORAGE_VERSION_PERSISTENT then st' = st
      else case old_proposal_count (gov_old st) of
        None \<Rightarrow> st' = st\<lparr>gov_storage_version := Some STORAGE_VERSION_PERSISTENT\<rparr>
      | Some count \<Rightarrow> st' = snd (migrate_loop env (map of_nat [1..<Suc (unat count)]) 0 (?st count))
          \<lparr>gov_storage_version := Some STORAGE_VERSION_PERSISTENT\<rparr>)"
    using assms by (auto simp: migrate_storage_def result_simps Let_def case_prod_unfold simp del: upt_Suc
        split: if_splits option.splits)
  have old: "gov_old (?st count) = gov_old st \<and>
      gov_proposals (?st count) = gov_proposals st" for count
    by (simp add: write_proposal_count_def)
  have loop: "\<forall>j\<in>set ids. pget (gov_proposals (snd (migrate_loop env ids 0 (?st count)))) j = co_proposals (council_of (st, ())) j"
    for ids count
    using migrate_loop_copies [OF prod.collapse [symmetric], of env ids 0 "?st count"] old [of count] by (simp add: council_of_def)
  have "pget (gov_proposals st') j = co_proposals (council_of (st, ())) j"
    if "storage_version st < STORAGE_VERSION_PERSISTENT" "old_proposal_count (gov_old st) = Some count" "1 \<le> unat j" "unat j \<le> unat count"
    for j count
  proof -
    let ?ids = "map of_nat [1..<Suc (unat count)] :: u64 list"
    have j: "j \<in> set ?ids"
      using that(3,4) by (auto simp: image_iff simp del: upt_Suc intro!: bexI [of _ "unat j"])
    moreover have "st' = snd (migrate_loop env ?ids 0 (?st count))\<lparr>gov_storage_version := Some STORAGE_VERSION_PERSISTENT\<rparr>"
      using result that(1,2) by (simp only: not_le [symmetric] if_False option.case)
    moreover have "gov_proposals (x\<lparr>gov_storage_version := v\<rparr>) = gov_proposals x" for x :: governance and v by simp
    ultimately show ?thesis using loop [of ?ids count, THEN bspec, OF j] by (simp only:)
  qed
  moreover have "migrate_storage env a st' = Ok (0, st')"
  proof -
    have "require_signer a st' = Ok ()" using auth(2) same by (simp add: require_signer_Ok [where w = "()"])
    moreover have "storage_version st' \<ge> STORAGE_VERSION_PERSISTENT"
      using result by (auto simp: storage_version_def simp del: upt_Suc split: if_splits option.splits)
    ultimately show ?thesis using auth(1) by (simp add: migrate_storage_def)
  qed
  ultimately show ?thesis using same count by (simp add: council_reads [where w = "()"])
qed

section \<open>The timelock and the life of a proposal\<close>

lemma clocked_step:
  assumes "council_step self C l C'" and "clocked t C" and "t \<le> fst l"
  shows "clocked (fst l) C'"
  using assms(1)
proof (cases rule: council_step.cases)
  case (c_vote m a i p now choice)
  with assms(2,3) show ?thesis
    by (cases choice) (auto simp: clocked_def Let_def split: if_splits intro: order_trans)
qed (use assms(2,3) in \<open>auto simp: clocked_def fresh_proposal_def due_def split: if_splits intro: order_trans\<close>)

lemma clocked_run:
  assumes "run (council_step self) C ls C'" and "clocked 0 C" and "sorted (map fst ls)"
  shows "clocked (if ls = [] then 0 else fst (last ls)) C'"
  using assms
proof (induction rule: run.induct)
  case (run_refl s)
  then show ?case by simp
next
  case (run_snoc s ls t l u)
  then have "(if ls = [] then 0 else fst (last ls)) \<le> fst l" by (auto simp: sorted_append)
  with run_snoc clocked_step [OF run_snoc.hyps(2)] show ?case by (simp add: sorted_append)
qed

text \<open>
  C21. A timelock as long as the life of a proposal stops governance for good. If the contract is
  deployed with a timelock of 30 days or more, which the constructor accepts, then in no history with a
  clock that does not go backwards can any proposal be executed, not even one that would reconfigure the
  contract: when its timelock has passed, a proposal has expired.
\<close>

theorem long_timelock_blocks_execution:
  assumes "governance_constructor env0 signers threshold timelock calls = Ok st0"
    and "DEFAULT_PROPOSAL_TTL_SECONDS \<le> timelock"
    and "run (gov_step (governed self) invoke) (st0, w0) ls (st, w)" and "length ls < 2 ^ 64" and "sorted (map fst ls)"
    and "governed self env"
  shows "execute invoke env a i n st w \<noteq> Ok r"
proof
  assume ex: "execute invoke env a i n st w = Ok r"
  obtain st' w' where r: "r = (st', w')" by (cases r)
  note reach = council_reachable [OF assms(1,3,4)]
  have "current_contract env = self" using assms(6) by (simp add: governed_def)
  from execute_effect [OF ex [unfolded r] this] obtain p where p: "co_proposals (council_of (st, w)) i = Some p"
    "due (timestamp env) p" by blast
  have "co_proposals (council_of (st0, w0)) = Map.empty"
    using council_invD(2) [OF constructor_council(1) [OF assms(1)], of w0] by (auto simp: numbered_def fun_eq_iff)
  then have "clocked 0 (council_of (st0, w0))" by (simp add: clocked_def)
  from clocked_run [OF chamber.run_refines [OF assms(3)] this assms(5)] p have "pr_created_at p \<le> pr_queued_at p"
    by (simp add: clocked_def due_def)
  then have "expiry (pr_created_at p) \<le> saturating_add_u64 (pr_queued_at p) timelock"
    unfolding expiry_def using assms(2) by (rule saturating_add_mono)
  moreover have "timestamp env < expiry (pr_created_at p)" "saturating_add_u64 (pr_queued_at p) timelock \<le> timestamp env"
    using council_invD(4) [OF reach(1) p(1)] p(2) reach(4) by (auto simp: due_def proposal_ok_def)
  ultimately show False by (meson leD order_trans)
qed

section \<open>Witnesses\<close>

lemmas gov_exec = gov_env_def sample_world_def sample_call_def write_allowed_calls_def
  bump_allowed_calls_ttl_def gov_extend_def gov_write_def propose_def vote_approve_def execute_def check_nonce_def
  governance_get_nonce_def governance_set_nonce_def write_nonce_def has_nonce_marker_def require_signer_def
  is_executable_call_def read_allowed_calls_def read_proposal_count_def write_proposal_count_def write_proposal_def
  read_proposal_def read_vote_def write_vote_def is_expired_def saturating_add_u64_def gov_publish_def
  DEFAULT_PROPOSAL_TTL_SECONDS_def MAX_ALLOWED_CALLS_def SELF_METHOD_SET_ALLOWED_CALLS_def call_env_def empty_old_def
  registry_exec

lemma gov_env_governed: "governed (Address 99) (gov_env now)" "timestamp (gov_env now) = now"
  by (simp_all add: governed_def gov_env_def sample_env_def)

lemma sample_gov_calls:
  "\<exists>st0 st1 st2 st3 p st4 W. sample_council = Ok st0 \<and>
     propose (gov_env 20) (Address 1) (Address 42) ''approve_project'' [AddressVal (Address 99), U64Val 1, U64Val 0] ''d'' 0 st0 =
       Ok (1, st1) \<and>
     vote_approve (gov_env 21) (Address 1) 1 1 st1 = Ok st2 \<and> vote_approve (gov_env 22) (Address 2) 1 0 st2 = Ok st3 \<and>
     fst (read_proposal (gov_env 200) 1 st3) = Some p \<and>
     execute registry_calls (gov_env 200) (Address 5) 1 0 st3 sample_world = Ok (st4, W)"
  unfolding governance_constructor_def pairwise_distinct
  by (simp add: gov_exec word_le_nat_alt word_less_nat_alt)

lemma sample_gov_run:
  "\<exists>st0 st1 st3 p st4 W. sample_council = Ok st0 \<and>
     gov_step (governed (Address 99)) registry_calls (st0, sample_world) (20, Some (Address 1, 0)) (st1, sample_world) \<and>
     run (gov_step (governed (Address 99)) registry_calls) (st0, sample_world) gov_labels (st3, sample_world) \<and>
     fst (read_proposal (gov_env 200) 1 st3) = Some p \<and>
     execute registry_calls (gov_env 200) (Address 5) 1 0 st3 sample_world = Ok (st4, W) \<and>
     gov_step (governed (Address 99)) registry_calls (st3, sample_world) (200, Some (Address 5, 0)) (st4, W)"
proof -
  let ?step = "gov_step (governed (Address 99)) registry_calls"
  note env = gov_env_governed
  from sample_gov_calls obtain st0 st1 st2 st3 p st4 W
    where 0: "sample_council = Ok st0" and
      1: "propose (gov_env 20) (Address 1) (Address 42) ''approve_project'' [AddressVal (Address 99), U64Val 1, U64Val 0] ''d'' 0 st0 =
        Ok (1, st1)" and 2: "vote_approve (gov_env 21) (Address 1) 1 1 st1 = Ok st2"
      and 3: "vote_approve (gov_env 22) (Address 2) 1 0 st2 = Ok st3" and p: "fst (read_proposal (gov_env 200) 1 st3) = Some p"
      and 4: "execute registry_calls (gov_env 200) (Address 5) 1 0 st3 sample_world = Ok (st4, W)" by blast
  have s1: "?step (st0, sample_world) (20, Some (Address 1, 0)) (st1, sample_world)"
    using step_propose [where E = "governed (Address 99)", OF env(1) 1] by (simp add: env)
  have s2: "?step (st1, sample_world) (21, Some (Address 1, 1)) (st2, sample_world)"
    using step_vote_approve [where E = "governed (Address 99)", OF env(1) 2] by (simp add: env)
  have s3: "?step (st2, sample_world) (22, Some (Address 2, 0)) (st3, sample_world)"
    using step_vote_approve [where E = "governed (Address 99)", OF env(1) 3] by (simp add: env)
  have s4: "?step (st3, sample_world) (200, Some (Address 5, 0)) (st4, W)"
    using step_execute [where E = "governed (Address 99)", OF env(1) 4] by (simp add: env)
  have "run ?step (st0, sample_world) gov_labels (st3, sample_world)"
    by (rule run_Cons [where step = ?step, OF s1], rule run_Cons [where step = ?step, OF s2],
        rule run_Cons [where step = ?step, OF s3], rule run_refl)
  with 0 s1 p 4 s4 show ?thesis by blast
qed

theorem execution_needs_quorum_witness:
  "\<exists>(st :: governance) (st' :: governance) (W :: address \<rightharpoonup> registry) (p :: Proposal).
     execute registry_calls (gov_env 200) (Address 5) 1 0 st sample_world = Ok (st', W) \<and>
     fst (read_proposal (gov_env 200) 1 st) = Some p \<and> pr_status p = ProposalStatus.Queued \<and>
     2 \<le> card {s \<in> set [Address 1, Address 2, Address 3]. fst (get_vote (gov_env 200) 1 s st) = Some Approve}"
proof -
  from sample_gov_run obtain st0 st p st' W where 0: "sample_council = Ok st0"
    and r: "run (gov_step (governed (Address 99)) registry_calls) (st0, sample_world) gov_labels (st, sample_world)"
    and e: "execute registry_calls (gov_env 200) (Address 5) 1 0 st sample_world = Ok (st', W)" by blast
  have "length gov_labels < 2 ^ 64" by simp
  from execution_needs_quorum [OF 0 r this gov_env_governed(1) e] obtain p
    where p: "fst (read_proposal (gov_env 200) 1 st) = Some p" "pr_status p = ProposalStatus.Queued"
      and q: "unat (2 :: u32) \<le> card {s \<in> set [Address 1, Address 2, Address 3]. fst (get_vote (gov_env 200) 1 s st) = Some Approve}" by blast
  have "unat (2 :: u32) = 2" by simp
  note q = q [unfolded this]
  from e p q show ?thesis by (intro exI conjI)
qed

theorem allowlist_by_proposal_only_witness:
  "\<exists>(st0 :: governance) (st1 :: governance). sample_council = Ok st0 \<and>
     gov_step (governed (Address 99)) registry_calls (st0, sample_world) (20, Some (Address 1, 0)) (st1, sample_world) \<and>
     distinct (fst (get_allowed_calls (gov_env 30) st1)) \<and> length (fst (get_allowed_calls (gov_env 30) st1)) \<le> 64"
proof -
  from sample_gov_run obtain st0 st1 where 0: "sample_council = Ok st0"
    and s: "gov_step (governed (Address 99)) registry_calls (st0, sample_world) (20, Some (Address 1, 0)) (st1, sample_world)" by blast
  have "Suc (length ([] :: timed_label list)) < 2 ^ 64" by simp
  from allowlist_by_proposal_only [OF 0 run_refl this s, of "gov_env 30"] 0 s show ?thesis by blast
qed

theorem proposal_decided_once_witness:
  "\<exists>(st :: governance) (st' :: governance) (W :: address \<rightharpoonup> registry) (p :: Proposal) (p' :: Proposal).
     execute registry_calls (gov_env 200) (Address 5) 1 0 st sample_world = Ok (st', W) \<and>
     fst (read_proposal (gov_env 200) 1 st) = Some p \<and> fst (read_proposal (gov_env 200) 1 st') = Some p' \<and>
     terms p' = terms p \<and> pr_status p = ProposalStatus.Queued \<and> pr_status p' = ProposalStatus.Executed"
proof -
  from sample_gov_run obtain st0 st p st' W where 0: "sample_council = Ok st0"
    and r: "run (gov_step (governed (Address 99)) registry_calls) (st0, sample_world) gov_labels (st, sample_world)"
    and e: "execute registry_calls (gov_env 200) (Address 5) 1 0 st sample_world = Ok (st', W)"
    and p: "fst (read_proposal (gov_env 200) 1 st) = Some p"
    and s: "gov_step (governed (Address 99)) registry_calls (st, sample_world) (200, Some (Address 5, 0)) (st', W)" by blast
  have r': "run (gov_step (governed (Address 99)) registry_calls) (st, sample_world) [(200, Some (Address 5, 0))] (st', W)"
    by (rule run_Cons [where step = "gov_step (governed (Address 99)) registry_calls", OF s], rule run_refl)
  have "length gov_labels + length [(200 :: u64, Some (Address 5, 0 :: u64))] < 2 ^ 64" by simp
  note once = proposal_decided_once [OF 0 r r' this p]
  from once obtain p' where p': "fst (read_proposal (gov_env 200) 1 st') = Some p'" "terms p' = terms p" by blast
  from once e have "pr_status p = ProposalStatus.Queued" and "fst (read_proposal (gov_env 200) 1 st') =
      Some (p\<lparr>pr_status := ProposalStatus.Executed, pr_executed_at := timestamp (gov_env 200)\<rparr>)" by blast+
  with p' have "pr_status p = ProposalStatus.Queued" "pr_status p' = ProposalStatus.Executed" by auto
  with e p p' show ?thesis by blast
qed

theorem migration_invisible_witness:
  "\<exists>(st :: governance) (st' :: governance). migrate_storage (gov_env 30) (Address 1) (st\<lparr>gov_old := sample_old\<rparr>) = Ok (1, st') \<and>
     migrate_storage (gov_env 30) (Address 1) st' = Ok (0, st') \<and> proposal_count st' = 1"
proof -
  have "\<exists>(st :: governance) st'. migrate_storage (gov_env 30) (Address 1) (st\<lparr>gov_old := sample_old\<rparr>) = Ok (1, st') \<and>
      proposal_count (st\<lparr>gov_old := sample_old\<rparr>) = 1"
    by (rule exI [of _ "\<lparr>gov_instance_ttl = 1, gov_signers = Some [Address 1], gov_threshold = Some 1, gov_timelock_seconds = Some 100,
        gov_storage_version = None, gov_proposals = Map.empty, gov_proposal_count = Map.empty, gov_votes = Map.empty,
        gov_nonces = Map.empty, gov_nonce_initialized = Map.empty, gov_allowed_calls = Map.empty, gov_old = sample_old,
        gov_events = []\<rparr>"])
      (simp add: migrate_storage_def sample_old_def storage_version_def STORAGE_VERSION_PERSISTENT_def proposal_count_def gov_exec
        word_le_nat_alt)
  then obtain st st' :: governance where m: "migrate_storage (gov_env 30) (Address 1) (st\<lparr>gov_old := sample_old\<rparr>) = Ok (1, st')"
    and c: "proposal_count (st\<lparr>gov_old := sample_old\<rparr>) = 1" by blast
  from migration_invisible [OF m] m c show ?thesis by metis
qed

theorem long_timelock_blocks_execution_witness:
  "\<exists>(st :: governance). governance_constructor (gov_env 10) [Address 1] 1 2592000 [] = Ok st \<and>
     (\<forall>r. execute registry_calls (gov_env 200) (Address 5) 1 0 st sample_world \<noteq> Ok r)"
proof -
  have "\<exists>st. governance_constructor (gov_env 10) [Address 1] 1 2592000 [] = Ok st"
    unfolding governance_constructor_def pairwise_distinct by (simp add: gov_exec word_less_nat_alt)
  then obtain st where c: "governance_constructor (gov_env 10) [Address 1] 1 2592000 [] = Ok st" by blast
  have "DEFAULT_PROPOSAL_TTL_SECONDS \<le> 2592000" by (simp add: DEFAULT_PROPOSAL_TTL_SECONDS_def)
  from long_timelock_blocks_execution [OF c this run_refl _ _ gov_env_governed(1)] c show ?thesis by fastforce
qed

end
