(* ===== verification/Governed.thy ===== *)
theory Governed
  imports Governance
begin

text \<open>
  The governance contract as the administrator of other contracts: \<^verbatim>\<open>execute\<close> of
  \<^verbatim>\<open>contracts/governance/src/lib.rs\<close> with the contracts it calls as part of one system. The locale
  \<open>administered\<close> states what is needed of a contract, that its privileged changes are made by its
  administrator, and shows once for all such contracts that under governance each of them is the execution
  of a proposal with a quorum.
\<close>

section \<open>Entrypoints by name\<close>

text \<open>
  How the host calls a contract: the entrypoint is found by its name, the arguments are decoded by the
  types of its parameters, and anything else fails; so does a call that returns an error.
\<close>

fun as_u32 :: "val \<Rightarrow> u32 option" where
  "as_u32 (U32Val n) = Some n"
| "as_u32 _ = None"

fun as_symbol :: "val \<Rightarrow> symbol option" where
  "as_symbol (SymbolVal s) = Some s"
| "as_symbol _ = None"

fun as_string :: "val \<Rightarrow> string option" where
  "as_string (StringVal s) = Some s"
| "as_string _ = None"

fun as_bytes :: "val \<Rightarrow> bytes32 option" where
  "as_bytes (BytesVal b) = Some b"
| "as_bytes _ = None"

fun ok_value :: "('e, 'a) result \<Rightarrow> 'a option" where
  "ok_value (Ok x) = Some x"
| "ok_value _ = None"

text \<open>The arguments are taken one after the other, and none may be left over.\<close>

fun arg :: "(val \<Rightarrow> 'a option) \<Rightarrow> ('a \<Rightarrow> val list \<Rightarrow> 'b option) \<Rightarrow> val list \<Rightarrow> 'b option" where
  "arg decode body (v # vs) = Option.bind (decode v) (\<lambda>x. body x vs)"
| "arg decode body [] = None"

fun no_more :: "'b option \<Rightarrow> val list \<Rightarrow> 'b option" where
  "no_more r [] = r"
| "no_more r _ = None"

section \<open>The system\<close>

text \<open>
  The contracts of one kind, with states \<open>'s\<close>, and the rest of the world, \<open>'w\<close>, which a call to one of them
  may change, and whose own reaction to a call, \<open>other\<close>, is arbitrary.
\<close>

type_synonym ('s, 'w) dispatch = "env \<Rightarrow> symbol \<Rightarrow> val list \<Rightarrow> 's \<times> 'w \<Rightarrow> ('s \<times> 'w) option"

definition system_invoke :: "('s, 'w) dispatch \<Rightarrow> 'w invocation \<Rightarrow> ((address \<rightharpoonup> 's) \<times> 'w) invocation" where
  "system_invoke dispatch other env target m args = (\<lambda>(W, w).
     case W target of
       Some s \<Rightarrow> map_option (\<lambda>(s', w'). (W(target \<mapsto> s'), w')) (dispatch env m args (s, w))
     | None \<Rightarrow> map_option (Pair W) (other env target m args w))"

text \<open>
  A step of the system deployed with the governance contract at \<open>g\<close>: a call to it that touches no other
  contract, an execution, a call to one of the contracts, or something else. A call that changes a contract
  is authorised by the caller in its label; nobody signs for the governance contract, so the direct
  calls are those of other callers.
\<close>

inductive system_step ::
    "('s, 'w) dispatch \<Rightarrow> ('s \<times> 'w \<Rightarrow> timed_label \<Rightarrow> 's \<times> 'w \<Rightarrow> bool) \<Rightarrow> address \<Rightarrow> 'w invocation \<Rightarrow>
     governance \<times> (address \<rightharpoonup> 's) \<times> 'w \<Rightarrow> timed_label \<Rightarrow> governance \<times> (address \<rightharpoonup> 's) \<times> 'w \<Rightarrow> bool"
  for dispatch :: "('s, 'w) dispatch" and calls :: "'s \<times> 'w \<Rightarrow> timed_label \<Rightarrow> 's \<times> 'w \<Rightarrow> bool"
    and g :: address and other :: "'w invocation" where
  sys_governance: "gov_step (governed g) (system_invoke dispatch other) (st, W, w) l (st', W, w) \<Longrightarrow>
     system_step dispatch calls g other (st, W, w) l (st', W, w)"
| sys_execute: "governed g env \<Longrightarrow> execute (system_invoke dispatch other) env a i n st (W, w) = Ok (st', W', w') \<Longrightarrow>
     system_step dispatch calls g other (st, W, w) (timestamp env, Some (a, n)) (st', W', w')"
| sys_call: "W r = Some s \<Longrightarrow> calls (s, w) (now, l) (s', w') \<Longrightarrow> (\<forall>n. l \<noteq> Some (g, n)) \<Longrightarrow>
     system_step dispatch calls g other (st, W, w) (now, None) (st, W(r \<mapsto> s'), w')"
| sys_other: "system_step dispatch calls g other (st, W, w) (now, None) (st, W, w')"

text \<open>A contract that calls no others: the rest of the world is left alone.\<close>

definition alone :: "(env \<Rightarrow> symbol \<Rightarrow> val list \<Rightarrow> 's \<Rightarrow> 's option) \<Rightarrow> ('s, 'w) dispatch" where
  "alone dispatch env m args = (\<lambda>(s, w). map_option (\<lambda>s'. (s', w)) (dispatch env m args s))"

definition steps_alone :: "('s \<Rightarrow> timed_label \<Rightarrow> 's \<Rightarrow> bool) \<Rightarrow> 's \<times> 'w \<Rightarrow> timed_label \<Rightarrow> 's \<times> 'w \<Rightarrow> bool" where
  "steps_alone step s l s' \<longleftrightarrow> step (fst s) l (fst s') \<and> snd s' = snd s"

text \<open>
  A proposal \<open>q\<close> to the contract at \<open>r\<close> that is due at time \<open>now\<close>: it is made in the name of the governance
  contract \<open>g\<close>, the threshold of distinct signers approved it, and its timelock has passed.
\<close>

definition sanctioned ::
    "address list \<Rightarrow> u32 \<Rightarrow> u64 \<Rightarrow> address \<Rightarrow> env \<Rightarrow> governance \<Rightarrow> u64 \<Rightarrow> address \<Rightarrow> Proposal \<Rightarrow> bool" where
  "sanctioned signers threshold timelock g env st now r q \<longleftrightarrow>
     pr_status q = ProposalStatus.Queued \<and> pr_target q = r \<and> pr_args q ! 0 = AddressVal g \<and>
     saturating_add_u64 (pr_queued_at q) timelock \<le> now \<and> now < pr_expires_at q \<and>
     (\<exists>k. fst (read_proposal env k st) = Some q \<and>
       unat threshold \<le> card {s \<in> set signers. fst (get_vote env k s st) = Some Approve})"

text \<open>
  The examples: a council that may call one entrypoint of one contract, and no other contracts.
\<close>

abbreviation council_for :: "address \<Rightarrow> symbol \<Rightarrow> (GovernanceError, governance) result" where
  "council_for t m \<equiv> governance_constructor (gov_env 10) [Address 1, Address 2, Address 3] 2 100
     [CallVal \<lparr>ac_contract = t, ac_function = m\<rparr>]"

definition no_other :: "'w invocation" where
  "no_other = (\<lambda>_ _ _ _ _. None)"

section \<open>Decoding\<close>

lemma ok_value_Some [simp]: "ok_value r = Some x \<longleftrightarrow> r = Ok x"
  by (cases r) auto

lemma arg_Some [simp]: "arg decode body args = Some y \<longleftrightarrow> (\<exists>v vs x. args = v # vs \<and> decode v = Some x \<and> body x vs = Some y)"
  by (cases args) (auto simp: bind_eq_Some_conv)

lemma no_more_Some [simp]: "no_more r args = Some y \<longleftrightarrow> args = [] \<and> r = Some y"
  by (cases args) auto

lemma decode_simps [simp]:
  "as_address v = Some a \<longleftrightarrow> v = AddressVal a" "as_u64 v = Some n \<longleftrightarrow> v = U64Val n" "as_u32 v = Some k \<longleftrightarrow> v = U32Val k"
  "as_symbol v = Some s \<longleftrightarrow> v = SymbolVal s" "as_string v = Some t \<longleftrightarrow> v = StringVal t" "as_bytes v = Some h \<longleftrightarrow> v = BytesVal h"
  by (cases v; auto)+

lemma alone_Some [simp]: "alone dispatch env m args (s, w) = Some (s', w') \<longleftrightarrow> dispatch env m args s = Some s' \<and> w' = w"
  by (auto simp: alone_def)

lemma sys_alone:
  "W r = Some s \<Longrightarrow> step s (now, l) s' \<Longrightarrow> (\<forall>n. l \<noteq> Some (g, n)) \<Longrightarrow>
     system_step dispatch (steps_alone step) g other (st, W, w) (now, None) (st, W(r \<mapsto> s'), w)"
  by (rule sys_call) (simp_all add: steps_alone_def)

section \<open>Runs of the system\<close>

lemma system_gov_step:
  "system_step dispatch calls g other s l s' \<Longrightarrow> gov_step (governed g) (system_invoke dispatch other) s l s'"
  by (erule system_step.cases) (auto intro: gov_step.intros)

lemma system_gov_run:
  "run (system_step dispatch calls g other) s ls s' \<Longrightarrow> run (gov_step (governed g) (system_invoke dispatch other)) s ls s'"
  by (induction rule: run.induct) (auto intro: run.intros system_gov_step)

text \<open>What an execution does to the contracts.\<close>

lemma execute_contracts:
  assumes "execute (system_invoke dispatch other) env a i n st (W, w) = Ok (st', W', w')" and "governed g env"
  shows "W' = W \<or> (\<exists>p s s'. co_proposals (council_of (st, W, w)) i = Some p \<and> due (timestamp env) p \<and>
    W (pr_target p) = Some s \<and> W' = W(pr_target p \<mapsto> s') \<and>
    dispatch (call_env env (pr_target p)) (pr_method p) (pr_args p) (s, w) = Some (s', w'))"
proof -
  have "current_contract env = g" using assms(2) by (simp add: governed_def)
  from execute_effect [OF assms(1) this] obtain p where p: "co_proposals (council_of (st, W, w)) i = Some p"
    "due (timestamp env) p" "(W', w') = (W, w) \<or>
      system_invoke dispatch other (call_env env (pr_target p)) (pr_target p) (pr_method p) (pr_args p) (W, w) = Some (W', w')"
    by (auto split: if_splits)
  then show ?thesis by (cases "W (pr_target p)") (auto simp: system_invoke_def)
qed

text \<open>A proposal that is executed has its quorum.\<close>

lemma due_sanctioned:
  assumes "governance_constructor env0 signers threshold timelock allowed = Ok st0"
    and "run (system_step dispatch calls g other) (st0, W0, w0) ls (st, W, w)" and "length ls < 2 ^ 64"
    and "co_proposals (council_of (st, W, w)) k = Some q" and "due now q" and "pr_args q ! 0 = AddressVal g"
  shows "sanctioned signers threshold timelock g env st now (pr_target q) q"
proof -
  note reach = council_reachable [OF assms(1) system_gov_run [OF assms(2)] assms(3)]
  have "pr_timelock_seconds q = timelock"
    using council_invD(4) [OF reach(1) assms(4)] reach(4) by (simp add: proposal_ok_def)
  with assms(5) have Q: "pr_status q = ProposalStatus.Queued" "saturating_add_u64 (pr_queued_at q) timelock \<le> now"
    "now < pr_expires_at q" by (simp_all add: due_def)
  have "unat threshold \<le> card {s \<in> set signers. co_votes (council_of (st, W, w)) (k, s) = Some Approve}"
    using quorum [OF reach(1) assms(4) Q(1)] unfolding reach(2,3) .
  with Q assms(4,6) show ?thesis
    unfolding sanctioned_def council_reads [where w = "(W, w)" and st = st] by blast
qed

section \<open>Contracts with an administrator\<close>

text \<open>
  A contract as its administrator sees it: \<open>change\<close> is what a call may do to its state, under the label of the
  caller; \<open>ok n\<close> is an invariant after at most \<open>n\<close> calls; and the changes called \<open>privileged\<close> are
  those only the administrator can make.
\<close>

locale administered =
  fixes dispatch :: "('s, 'w) dispatch" and calls :: "'s \<times> 'w \<Rightarrow> timed_label \<Rightarrow> 's \<times> 'w \<Rightarrow> bool"
    and change :: "'s \<Rightarrow> timed_label \<Rightarrow> 's \<Rightarrow> bool" and admin :: "'s \<Rightarrow> address option"
    and privileged :: "'s \<Rightarrow> 's \<Rightarrow> bool" and ok :: "nat \<Rightarrow> 's \<Rightarrow> bool"
  assumes calls_change: "calls (s, w) l (s', w') \<Longrightarrow> change s l s'"
    and dispatch_change: "dispatch env m args (s, w) = Some (s', w') \<Longrightarrow>
      \<exists>l. change s (timestamp env, l) s' \<and> (\<forall>a n. l = Some (a, n) \<longrightarrow> args ! 0 = AddressVal a)"
    and admin_only: "change s l s' \<Longrightarrow> privileged s s' \<Longrightarrow> ok n s \<Longrightarrow> Suc n < 2 ^ 64 \<Longrightarrow>
      \<exists>a k. admin s = Some a \<and> snd l = Some (a, k)"
    and ok_change: "change s l s' \<Longrightarrow> ok n s \<Longrightarrow> Suc n < 2 ^ 64 \<Longrightarrow> ok (Suc n) s'"
    and ok_mono: "ok n s \<Longrightarrow> ok (Suc n) s"
    and unprivileged: "\<not> privileged s s"
begin

lemma ok_upd:
  assumes "\<forall>r s. W r = Some s \<longrightarrow> ok n s" and "W r = Some s" and "change s l s'" and "Suc n < 2 ^ 64"
  shows "\<forall>r' x. (W(r \<mapsto> s')) r' = Some x \<longrightarrow> ok (Suc n) x"
proof -
  have "ok (Suc n) s'" using ok_change [OF assms(3) _ assms(4)] assms(1,2) by blast
  moreover have "ok (Suc n) x" if "W r' = Some x" for r' x using ok_mono assms(1) that by blast
  ultimately show ?thesis by (simp add: fun_upd_apply)
qed

lemma ok_step:
  assumes "system_step dispatch calls g other s l s'" and "\<forall>r x. fst (snd s) r = Some x \<longrightarrow> ok n x" and "Suc n < 2 ^ 64"
  shows "\<forall>r x. fst (snd s') r = Some x \<longrightarrow> ok (Suc n) x"
proof -
  have keep: "\<forall>r x. fst (snd s) r = Some x \<longrightarrow> ok (Suc n) x" using assms(2) ok_mono by blast
  from assms(1) show ?thesis
  proof (cases rule: system_step.cases)
    case (sys_execute env a i m st W w st' W' w')
    from execute_contracts [OF sys_execute(5,4)] dispatch_change
    have "W' = W \<or> (\<exists>r x x' k. W r = Some x \<and> W' = W(r \<mapsto> x') \<and> change x k x')" by blast
    moreover have W: "\<forall>r x. W r = Some x \<longrightarrow> ok n x" using assms(2) by (simp add: sys_execute(1))
    ultimately have "\<forall>r x. W' r = Some x \<longrightarrow> ok (Suc n) x" using keep ok_upd [OF W _ _ assms(3)] sys_execute(1) by auto
    then show ?thesis by (simp add: sys_execute(3))
  next
    case (sys_call W r x w now k x' w' st)
    have W: "\<forall>r x. W r = Some x \<longrightarrow> ok n x" using assms(2) by (simp add: sys_call(1))
    from ok_upd [OF W sys_call(4) calls_change [OF sys_call(5)] assms(3)] show ?thesis by (simp only: sys_call(3) fst_conv snd_conv)
  qed (use keep in auto)
qed

lemma ok_run:
  "run (system_step dispatch calls g other) s ls s' \<Longrightarrow> \<forall>r x. fst (snd s) r = Some x \<longrightarrow> ok 0 x \<Longrightarrow> length ls < 2 ^ 64 \<Longrightarrow>
     \<forall>r x. fst (snd s') r = Some x \<longrightarrow> ok (length ls) x"
proof (induction rule: run.induct)
  case (run_snoc s ls t l u)
  then have "\<forall>r x. fst (snd t) r = Some x \<longrightarrow> ok (length ls) x" by simp
  from ok_step [OF run_snoc.hyps(2) this] run_snoc.prems(2) show ?case by simp
qed simp

lemma privileged_execution:
  assumes "system_step dispatch calls g other (st, W, w) l (st', W', w')" and "ok n s" and "Suc n < 2 ^ 64"
    and "W r = Some s" and "W' r = Some s'" and "admin s = Some g" and "privileged s s'"
  shows "\<exists>env k q. co_proposals (council_of (st, W, w)) k = Some q \<and> due (fst l) q \<and> pr_target q = r \<and>
    pr_args q ! 0 = AddressVal g \<and> dispatch env (pr_method q) (pr_args q) (s, w) = Some (s', w')"
proof -
  note by_admin = admin_only [OF _ assms(7,2,3)]
  from assms(1) show ?thesis
  proof (cases rule: system_step.cases)
    case (sys_execute env a i m)
    have "W' \<noteq> W" using assms(4,5,7) unprivileged by auto
    with execute_contracts [OF sys_execute(3,2)] obtain q x x' where q: "co_proposals (council_of (st, W, w)) i = Some q"
      "due (timestamp env) q" "W (pr_target q) = Some x" "W' = W(pr_target q \<mapsto> x')"
      "dispatch (call_env env (pr_target q)) (pr_method q) (pr_args q) (x, w) = Some (x', w')" by blast
    have r: "pr_target q = r" using q(4) assms(4,5,7) unprivileged by (auto split: if_splits)
    then have x: "x = s" "x' = s'" using q(3,4) assms(4,5) by auto
    from dispatch_change [OF q(5)] by_admin assms(6) have "pr_args q ! 0 = AddressVal g" unfolding x by fastforce
    with q r x sys_execute(1) show ?thesis by auto
  next
    case (sys_call r' x now k x')
    then have "r' = r" using assms(4,5,7) unprivileged by (auto split: if_splits)
    with sys_call assms(4,5) have "change s (now, k) s'" "\<forall>n. k \<noteq> Some (g, n)" using calls_change by auto
    with by_admin assms(6) show ?thesis by fastforce
  qed (use assms(4,5,7) unprivileged in auto)
qed

text \<open>Nothing privileged happens to a contract under governance without a quorum.\<close>

lemma governed_change:
  assumes "governance_constructor env0 signers threshold timelock allowed = Ok st0"
    and "\<forall>r s. W0 r = Some s \<longrightarrow> ok 0 s"
    and "run (system_step dispatch calls g other) (st0, W0, w0) ls (st, W, w)" and "Suc (length ls) < 2 ^ 64"
    and "system_step dispatch calls g other (st, W, w) l (st', W', w')"
    and "W r = Some s" and "W' r = Some s'" and "admin s = Some g" and "privileged s s'"
  shows "\<exists>q e. sanctioned signers threshold timelock g env st (fst l) r q \<and>
    dispatch e (pr_method q) (pr_args q) (s, w) = Some (s', w')"
proof -
  have len: "length ls < 2 ^ 64" using assms(4) by simp
  have "ok (length ls) s" using ok_run [OF assms(3) _ len] assms(2,6) by simp
  from privileged_execution [OF assms(5) this assms(4,6-9)] obtain e k q
    where q: "co_proposals (council_of (st, W, w)) k = Some q" "due (fst l) q" "pr_target q = r" "pr_args q ! 0 = AddressVal g"
      and d: "dispatch e (pr_method q) (pr_args q) (s, w) = Some (s', w')" by blast
  from due_sanctioned [OF assms(1,3) len q(1,2,4)] q(3) d show ?thesis by blast
qed

end

section \<open>A sample execution\<close>

text \<open>
  A call that is proposed, approved by two of three signers and executed after the timelock, whatever the
  contract does.
\<close>

lemma sample_proposal:
  "t \<noteq> Address 99 \<Longrightarrow> \<exists>st0 st1 st2 st3 st4. council_for t m = Ok st0 \<and>
     propose (gov_env 20) (Address 1) t m args ''d'' 0 st0 = Ok (1, st1) \<and>
     vote_approve (gov_env 21) (Address 1) 1 1 st1 = Ok st2 \<and> vote_approve (gov_env 22) (Address 2) 1 0 st2 = Ok st3 \<and>
     (\<forall>w w'. invoke (call_env (gov_env 200) t) t m args w = Some w' \<longrightarrow>
        execute invoke (gov_env 200) (Address 5) 1 0 st3 w = Ok (st4, w'))"
  unfolding governance_constructor_def pairwise_distinct
  by (simp add: gov_exec word_le_nat_alt word_less_nat_alt)

lemma sample_execution:
  assumes "dispatch (call_env (gov_env 200) t) m args (s, w) = Some (s', w')" and "W t = Some s" and "t \<noteq> Address 99"
  shows "\<exists>st0 st3 st4. council_for t m = Ok st0 \<and>
    run (system_step dispatch calls (Address 99) other) (st0, W, w) gov_labels (st3, W, w) \<and>
    system_step dispatch calls (Address 99) other (st3, W, w) (200, Some (Address 5, 0)) (st4, W(t \<mapsto> s'), w')"
proof -
  let ?step = "system_step dispatch calls (Address 99) other" and ?E = "governed (Address 99)"
  let ?i = "system_invoke dispatch other"
  note env = gov_env_governed
  from sample_proposal [OF assms(3), of m args ?i] obtain st0 st1 st2 st3 st4 where 0: "council_for t m = Ok st0"
    and 1: "propose (gov_env 20) (Address 1) t m args ''d'' 0 st0 = Ok (1, st1)"
    and 2: "vote_approve (gov_env 21) (Address 1) 1 1 st1 = Ok st2" and 3: "vote_approve (gov_env 22) (Address 2) 1 0 st2 = Ok st3"
    and 4: "\<And>w w'. ?i (call_env (gov_env 200) t) t m args w = Some w' \<Longrightarrow>
      execute ?i (gov_env 200) (Address 5) 1 0 st3 w = Ok (st4, w')" by blast
  have s1: "?step (st0, W, w) (20, Some (Address 1, 0)) (st1, W, w)"
    by (rule sys_governance) (use step_propose [where E = ?E, OF env(1) 1] in \<open>simp add: env\<close>)
  have s2: "?step (st1, W, w) (21, Some (Address 1, 1)) (st2, W, w)"
    by (rule sys_governance) (use step_vote_approve [where E = ?E, OF env(1) 2] in \<open>simp add: env\<close>)
  have s3: "?step (st2, W, w) (22, Some (Address 2, 0)) (st3, W, w)"
    by (rule sys_governance) (use step_vote_approve [where E = ?E, OF env(1) 3] in \<open>simp add: env\<close>)
  have "execute ?i (gov_env 200) (Address 5) 1 0 st3 (W, w) = Ok (st4, W(t \<mapsto> s'), w')"
    by (rule 4) (use assms in \<open>simp add: system_invoke_def\<close>)
  from sys_execute [OF env(1) this] have "?step (st3, W, w) (200, Some (Address 5, 0)) (st4, W(t \<mapsto> s'), w')"
    by (simp add: env)
  moreover have "run ?step (st0, W, w) gov_labels (st3, W, w)"
    by (rule run_Cons [where step = ?step, OF s1], rule run_Cons [where step = ?step, OF s2],
        rule run_Cons [where step = ?step, OF s3], rule run_refl)
  ultimately show ?thesis using 0 by blast
qed

end
