(* ===== verification/System.thy ===== *)
theory System
  imports Governed
begin

text \<open>
  Governance as the administrator of project registries: the two contracts of
  \<^verbatim>\<open>contracts/governance\<close> and \<^verbatim>\<open>contracts/project-registry\<close> in one system, with the parameter of the first
  instantiated by the entrypoints of the second. The lemmas show that a registry whose administrator is
  the governance contract does nothing privileged without a quorum of signers.
\<close>

section \<open>The registry by name\<close>

text \<open>The entrypoints that change a registry.\<close>

definition registry_admin_call :: "env \<Rightarrow> symbol \<Rightarrow> val list \<Rightarrow> registry \<Rightarrow> registry option" where
  "registry_admin_call env m args reg =
     (if m = ''approve_project'' then arg as_address (\<lambda>a. arg as_u64 (\<lambda>i. arg as_u64 (\<lambda>n.
        no_more (ok_value (approve_project env a i n reg))))) args
      else if m = ''reject_project'' then arg as_address (\<lambda>a. arg as_u64 (\<lambda>i. arg as_u64 (\<lambda>n.
        no_more (ok_value (reject_project env a i n reg))))) args
      else if m = ''suspend_project'' then arg as_address (\<lambda>a. arg as_u64 (\<lambda>i. arg as_string (\<lambda>r. arg as_u64 (\<lambda>n.
        no_more (ok_value (suspend_project env a i r n reg)))))) args
      else if m = ''revoke_project'' then arg as_address (\<lambda>a. arg as_u64 (\<lambda>i. arg as_string (\<lambda>r. arg as_u64 (\<lambda>n.
        no_more (ok_value (revoke_project env a i r n reg)))))) args
      else if m = ''set_oracle_consumer'' then arg as_address (\<lambda>a. arg as_address (\<lambda>c. arg as_u64 (\<lambda>n.
        no_more (ok_value (set_oracle_consumer env a c n reg))))) args
      else if m = ''propose_admin_transfer'' then arg as_address (\<lambda>a. arg as_address (\<lambda>c. arg as_u64 (\<lambda>n.
        no_more (ok_value (registry_propose_admin_transfer env a c n reg))))) args
      else if m = ''cancel_admin_transfer'' then arg as_address (\<lambda>a. arg as_u64 (\<lambda>n.
        no_more (ok_value (registry_cancel_admin_transfer env a n reg)))) args
      else if m = ''accept_admin_transfer'' then arg as_address (\<lambda>a. arg as_u64 (\<lambda>n.
        no_more (ok_value (registry_accept_admin_transfer env a n reg)))) args
      else if m = ''register_project'' then arg as_address (\<lambda>a. arg as_bytes (\<lambda>h. arg as_symbol (\<lambda>nm. arg as_symbol (\<lambda>me.
        arg as_symbol (\<lambda>co. arg as_u64 (\<lambda>n.
        no_more (map_option snd (ok_value (register_project env a h nm me co n reg))))))))) args
      else None)"

text \<open>The entrypoints that read it.\<close>

definition registry_read_call :: "env \<Rightarrow> symbol \<Rightarrow> val list \<Rightarrow> registry \<Rightarrow> registry option" where
  "registry_read_call env m args reg =
     (if m = ''is_project_active'' then arg as_u64 (\<lambda>i. no_more (Some (snd (is_project_active env i reg)))) args
      else if m = ''get_project_status'' then
        arg as_u64 (\<lambda>i. no_more (map_option snd (ok_value (get_project_status env i reg)))) args
      else if m = ''get_project_linkage'' then
        arg as_u64 (\<lambda>i. no_more (map_option snd (ok_value (get_project_linkage env i reg)))) args
      else if m = ''get_project'' then
        arg as_u64 (\<lambda>i. no_more (map_option snd (ok_value (Registry.get_project env i reg)))) args
      else if m = ''get_project_by_hash'' then
        arg as_bytes (\<lambda>h. no_more (map_option snd (ok_value (get_project_by_hash env h reg)))) args
      else if m = ''get_project_status_by_hash'' then
        arg as_bytes (\<lambda>h. no_more (map_option snd (ok_value (get_project_status_by_hash env h reg)))) args
      else if m = ''list_projects'' then
        arg as_u32 (\<lambda>p. arg as_u32 (\<lambda>s. no_more (Some (snd (list_projects env p s reg))))) args
      else if m = ''project_count'' then no_more (Some (snd (project_count env reg))) args
      else if m = ''get_owner_projects'' then arg as_address (\<lambda>a. no_more (Some (snd (get_owner_projects env a reg)))) args
      else if m = ''get_pending_admin'' then no_more (Some (snd (registry_get_pending_admin env reg))) args
      else if m = ''get_admin'' then no_more (Some reg) args
      else None)"

definition registry_dispatch :: "env \<Rightarrow> symbol \<Rightarrow> val list \<Rightarrow> registry \<Rightarrow> registry option" where
  "registry_dispatch env m args reg =
     (case registry_admin_call env m args reg of
        Some reg' \<Rightarrow> Some reg'
      | None \<Rightarrow> registry_read_call env m args reg)"

text \<open>
  What only the administrator may do: change the oracle or the pending administrator other than by
  accepting it, or the status of a project, except for the oracle's revocation of an approved one.
\<close>

definition privileged :: "register \<Rightarrow> register \<Rightarrow> bool" where
  "privileged R R' \<longleftrightarrow> rg_oracle R' \<noteq> rg_oracle R \<or>
     (rg_pending R' \<noteq> rg_pending R \<and> rg_admin R' = rg_admin R) \<or>
     (\<exists>i p p'. rg_projects R i = Some p \<and> rg_projects R' i = Some p' \<and> pj_status p' \<noteq> pj_status p \<and>
        \<not> (pj_status p = ProjectStatus.Approved \<and> pj_status p' = ProjectStatus.Rejected))"

text \<open>A system of registries, and what is left of it for a registry.\<close>

abbreviation registry_system :: "address \<Rightarrow> 'w invocation \<Rightarrow> governance \<times> (address \<rightharpoonup> registry) \<times> 'w \<Rightarrow> timed_label \<Rightarrow>
    governance \<times> (address \<rightharpoonup> registry) \<times> 'w \<Rightarrow> bool" where
  "registry_system \<equiv> system_step (alone registry_dispatch) (steps_alone registry_step)"

text \<open>The system of the examples: one registry, administered by the contract at address 99, and nothing else.\<close>

definition lone_registry :: "address \<rightharpoonup> registry" where
  "lone_registry = [Address 42 \<mapsto> registry_constructor (sample_env 5) (Address 99)]"

abbreviation system_labels :: "timed_label list" where
  "system_labels \<equiv> (15, None) # gov_labels"

section \<open>Refinement\<close>

text \<open>A privileged change of a register is made by its administrator.\<close>

lemma privileged_admin:
  assumes "register_step R l R'" and "privileged R R'" and "reg_ids n R" and "Suc n < 2 ^ 64"
  shows "\<exists>m. \<exists>a. rg_admin R = Some a \<and> snd l = Some (a, m)"
  using assms(1)
proof (cases rule: register_step.cases)
  case (r_register m p now)
  with reg_fresh(2) [OF assms(3,4)] have "rg_projects R (pj_id p) = None" by simp
  with assms(2) r_register show ?thesis by (auto simp: privileged_def enter_project_def split: if_splits)
qed (use assms(2) in \<open>auto simp: privileged_def split: if_splits\<close>)

text \<open>A dispatched call is a step of the registry by the caller named in its first argument.\<close>

lemma admin_call_step:
  assumes "registry_admin_call env m args reg = Some reg'"
  shows "\<exists>a n. registry_step reg (timestamp env, Some (a, n)) reg' \<and> args ! 0 = AddressVal a"
  using assms unfolding registry_admin_call_def by (auto split: if_splits) (blast intro: registry_step.intros)+

lemma read_call_register:
  assumes "registry_read_call env m args reg = Some reg'"
  shows "register_of reg' = register_of reg"
proof -
  have "register_of (snd (is_project_active env i reg)) = register_of reg"
    "register_of (snd (project_count env reg)) = register_of reg"
    "register_of (snd (get_owner_projects env a reg)) = register_of reg"
    "register_of (snd (registry_get_pending_admin env reg)) = register_of reg"
    "register_of (snd (list_projects env pg sz reg)) = register_of reg" for i a pg sz
    by (rule registry_read(1,5,6,7) [OF prod.collapse [symmetric]] list_projects_register [OF prod.collapse [symmetric]])+
  with assms show ?thesis unfolding registry_read_call_def
    by (auto dest: registry_read registry_read_by_hash split: if_splits)
qed

lemma dispatch_register:
  assumes "registry_dispatch env m args reg = Some reg'"
  shows "\<exists>l. register_step (register_of reg) (timestamp env, l) (register_of reg') \<and>
    (\<forall>a n. l = Some (a, n) \<longrightarrow> args ! 0 = AddressVal a)"
proof (cases "registry_admin_call env m args reg")
  case None
  with assms have "register_of reg' = register_of reg"
    by (simp add: registry_dispatch_def read_call_register)
  then show ?thesis by (auto intro: r_read)
next
  case (Some reg1)
  with assms have "registry_admin_call env m args reg = Some reg'" by (simp add: registry_dispatch_def)
  from admin_call_step [OF this] registry_step_register show ?thesis by blast
qed

text \<open>Only \<^verbatim>\<open>approve_project\<close> approves.\<close>

lemma unapproving_calls:
  "suspend_project env a i r n reg = Ok reg' \<Longrightarrow> rg_projects (register_of reg') j = Some p' \<Longrightarrow>
     pj_status p' = ProjectStatus.Approved \<Longrightarrow> rg_projects (register_of reg) j = Some p'"
  "revoke_project env a i r n reg = Ok reg' \<Longrightarrow> rg_projects (register_of reg') j = Some p' \<Longrightarrow>
     pj_status p' = ProjectStatus.Approved \<Longrightarrow> rg_projects (register_of reg) j = Some p'"
  "reject_project env a i n reg = Ok reg' \<Longrightarrow> rg_projects (register_of reg') j = Some p' \<Longrightarrow>
     pj_status p' = ProjectStatus.Approved \<Longrightarrow> rg_projects (register_of reg) j = Some p'"
  "set_oracle_consumer env a c n reg = Ok reg' \<Longrightarrow> rg_projects (register_of reg') = rg_projects (register_of reg)"
  "registry_propose_admin_transfer env a c n reg = Ok reg' \<Longrightarrow> rg_projects (register_of reg') = rg_projects (register_of reg)"
  "registry_cancel_admin_transfer env a n reg = Ok reg' \<Longrightarrow> rg_projects (register_of reg') = rg_projects (register_of reg)"
  by (auto simp: suspend_project_def revoke_project_def reject_project_def set_oracle_consumer_def
      registry_propose_admin_transfer_def registry_cancel_admin_transfer_def result_simps Let_def storage_simps
      dest!: registry_dests add_word_OkD split: if_splits)

lemma approving_call:
  "approve_project env a i n reg = Ok reg' \<Longrightarrow> j \<noteq> i \<Longrightarrow> rg_projects (register_of reg') j = rg_projects (register_of reg) j"
  by (auto simp: approve_project_def result_simps Let_def storage_simps dest!: registry_dests split: if_splits)

lemma accept_projects:
  "registry_accept_admin_transfer env a n reg = Ok reg' \<Longrightarrow> rg_projects (register_of reg') = rg_projects (register_of reg)"
  by (auto dest!: registry_accept_Ok)

lemma register_unapproved:
  "register_project env a h nm me co n reg = Ok (k, reg') \<Longrightarrow> rg_projects (register_of reg') j = Some p' \<Longrightarrow>
     pj_status p' = ProjectStatus.Approved \<Longrightarrow> rg_projects (register_of reg) j = Some p'"
  by (auto dest!: register_project_Ok simp: enter_project_def split: if_splits)

lemma dispatch_approves:
  assumes "registry_dispatch env m args reg = Some reg'" and "rg_projects (register_of reg) i = Some p"
    and "rg_projects (register_of reg') i = Some p'" and "pj_status p \<noteq> ProjectStatus.Approved"
    and "pj_status p' = ProjectStatus.Approved"
  shows "m = ''approve_project'' \<and> (\<exists>a n. args = [AddressVal a, U64Val i, U64Val n])"
proof (cases "registry_admin_call env m args reg")
  case None
  with assms show ?thesis by (auto simp: registry_dispatch_def dest: read_call_register)
next
  case (Some reg1)
  with assms(1) have "registry_admin_call env m args reg = Some reg'" by (simp add: registry_dispatch_def)
  then consider a j n where "m = ''approve_project''" "args = [AddressVal a, U64Val j, U64Val n]"
      "approve_project env a j n reg = Ok reg'"
    | "rg_projects (register_of reg) i = Some p'"
    using assms(3,5) unfolding registry_admin_call_def
    by (auto split: if_splits dest: unapproving_calls accept_projects register_unapproved)
  then show ?thesis
  proof cases
    case 1
    have "j = i" using approving_call [OF 1(3)] assms(2-5) by force
    with 1 show ?thesis by blast
  qed (use assms(2,4,5) in simp)
qed

lemma register_inv_mono: "register_inv n R \<Longrightarrow> register_inv (Suc n) R"
  by (simp add: register_inv_def reg_ids_def)

lemma not_privileged_refl [simp]: "\<not> privileged R R"
  by (simp add: privileged_def)

interpretation registries: administered "alone registry_dispatch" "steps_alone registry_step"
  "\<lambda>s l s'. register_step (register_of s) l (register_of s')" reg_admin
  "\<lambda>s s'. privileged (register_of s) (register_of s')" "\<lambda>n s. register_inv n (register_of s)"
proof unfold_locales
  show "\<exists>a k. reg_admin s = Some a \<and> snd l = Some (a, k)"
    if "register_step (register_of s) l (register_of s')" "privileged (register_of s) (register_of s')"
      "register_inv n (register_of s)" "Suc n < 2 ^ 64" for s s' l n
    using privileged_admin [OF that(1,2) _ that(4)] that(3) by (auto simp: register_inv_def register_reads)
  show "\<exists>l. register_step (register_of s) (timestamp env, l) (register_of s') \<and> (\<forall>a n. l = Some (a, n) \<longrightarrow> args ! 0 = AddressVal a)"
    if "alone registry_dispatch env m args (s, w) = Some (s', w')" for env m args s s' and w w' :: 'w
    using dispatch_register [of env m args s s'] that by simp
qed (auto simp: steps_alone_def dest: registry_step_register intro: register_inv_step register_inv_mono)

section \<open>Properties\<close>

text \<open>
  C11. A registry under governance is governed. Take a registry whose administrator is the governance
  contract, in any history of calls to both contracts and anything else. Whenever a step approves, rejects
  or suspends a project, appoints an oracle, or proposes or cancels a change of administrator, it is the
  execution of a proposal to that registry, made in the name of the governance contract, that the threshold
  of distinct signers approved and whose timelock has passed; and a project is approved only if that is
  literally what was proposed.
\<close>

theorem registry_governed:
  assumes "governance_constructor env0 signers threshold timelock allowed = Ok st0"
    and "\<forall>r reg. W0 r = Some reg \<longrightarrow> (\<exists>env admin. reg = registry_constructor env admin)"
    and "run (registry_system g other) (st0, W0, w0) ls (st, W, w)" and "Suc (length ls) < 2 ^ 64"
    and "registry_system g other (st, W, w) l (st', W', w')"
    and "W r = Some reg" and "W' r = Some reg'" and "reg_admin reg = Some g"
    and "privileged (register_of reg) (register_of reg')"
  shows "\<exists>q. sanctioned signers threshold timelock g env st (fst l) r q \<and>
    (\<forall>i p p'. rg_projects (register_of reg) i = Some p \<and> rg_projects (register_of reg') i = Some p' \<and>
       pj_status p \<noteq> ProjectStatus.Approved \<and> pj_status p' = ProjectStatus.Approved \<longrightarrow>
       pr_method q = ''approve_project'' \<and> (\<exists>n. pr_args q = [AddressVal g, U64Val i, U64Val n]))"
proof -
  have "\<forall>r s. W0 r = Some s \<longrightarrow> register_inv 0 (register_of s)"
    using assms(2) registry_reachable_inv [OF run_refl] by fastforce
  from registries.governed_change [OF assms(1) this assms(3-9), of env] obtain q e where
    q: "sanctioned signers threshold timelock g env st (fst l) r q"
    and d: "registry_dispatch e (pr_method q) (pr_args q) reg = Some reg'" by auto
  with dispatch_approves [OF d] show ?thesis unfolding sanctioned_def by fastforce
qed

section \<open>Witnesses\<close>

lemmas system_exec = lone_registry_def registry_dispatch_def registry_admin_call_def gov_exec

lemma sample_approval:
  "\<exists>k reg1 reg2.
     register_project (sample_env 15) (Address 9) (replicate 32 1) ''n'' ''m'' ''c'' 0 (registry_constructor (sample_env 5) (Address 99)) =
       Ok (k, reg1) \<and>
     registry_dispatch (call_env (gov_env 200) (Address 42)) ''approve_project'' [AddressVal (Address 99), U64Val 1, U64Val 0] reg1 = Some reg2 \<and>
     reg_admin reg1 = Some (Address 99) \<and>
     map_option pj_status (pget (reg_projects reg1) (project_id_to_bytes 1)) = Some ProjectStatus.Pending \<and>
     map_option pj_status (pget (reg_projects reg2) (project_id_to_bytes 1)) = Some ProjectStatus.Approved"
  by (simp add: system_exec list_all_iff)

theorem registry_governed_witness:
  "\<exists>(st :: governance) (reg :: registry) (q :: Proposal). reg_admin reg = Some (Address 99) \<and>
     sanctioned [Address 1, Address 2, Address 3] 2 100 (Address 99) (gov_env 200) st 200 (Address 42) q"
proof -
  let ?step = "registry_system (Address 99) (no_other :: unit invocation)"
  from sample_approval obtain k reg1 reg2
    where r: "register_project (sample_env 15) (Address 9) (replicate 32 1) ''n'' ''m'' ''c'' 0
        (registry_constructor (sample_env 5) (Address 99)) = Ok (k, reg1)"
      and d: "registry_dispatch (call_env (gov_env 200) (Address 42)) ''approve_project''
        [AddressVal (Address 99), U64Val 1, U64Val 0] reg1 = Some reg2"
      and v: "reg_admin reg1 = Some (Address 99)"
        "map_option pj_status (pget (reg_projects reg1) (project_id_to_bytes 1)) = Some ProjectStatus.Pending"
        "map_option pj_status (pget (reg_projects reg2) (project_id_to_bytes 1)) = Some ProjectStatus.Approved" by blast
  let ?W = "[Address 42 \<mapsto> reg1]"
  from d have "alone registry_dispatch (call_env (gov_env 200) (Address 42)) ''approve_project''
    [AddressVal (Address 99), U64Val 1, U64Val 0] (reg1, ()) = Some (reg2, ())" by simp
  from sample_execution [where dispatch = "alone registry_dispatch", OF this, of ?W "steps_alone registry_step" no_other] obtain st0 st3 st4
    where 0: "council_for (Address 42) ''approve_project'' = Ok st0" and run: "run ?step (st0, ?W, ()) gov_labels (st3, ?W, ())"
      and s: "?step (st3, ?W, ()) (200, Some (Address 5, 0)) (st4, ?W(Address 42 \<mapsto> reg2), ())" by auto
  have "?step (st0, lone_registry, ()) (15, None) (st0, ?W, ())"
    using sys_alone [where step = registry_step, OF _ step_register_project [OF r], of lone_registry "Address 42" "Address 99"]
    by (simp add: lone_registry_def)
  note run = run_Cons [where step = ?step, OF this run]
  have fresh: "\<forall>r reg. lone_registry r = Some reg \<longrightarrow> (\<exists>env admin. reg = registry_constructor env admin)"
    by (auto simp: lone_registry_def split: if_splits)
  have priv: "privileged (register_of reg1) (register_of reg2)"
    using v(2,3) by (auto simp: privileged_def register_of_def intro!: exI [of _ "1 :: u64"])
  have len: "Suc (length system_labels) < 2 ^ 64" by simp
  from registry_governed [OF 0 fresh run len s _ _ v(1) priv, where env = "gov_env 200" and r = "Address 42"] v(1) show ?thesis by auto
qed

end
