(* ===== verification/Administration.thy ===== *)
theory Administration
  imports Governed Coupon_Book
begin

text \<open>
  Governance as the administrator of bond issuers, oracles and coupon engines: \<^verbatim>\<open>contracts/governance\<close> together
  with \<^verbatim>\<open>contracts/bond-issuer\<close>, \<^verbatim>\<open>contracts/oracle-consumer\<close> and \<^verbatim>\<open>contracts/coupon-engine\<close>, each with all its
  entrypoints. What only the administrator of such a contract can do happens under governance only by a
  proposal with a quorum, and is what was proposed: the terms of every bond, every provider, and every
  holder that is paid.
\<close>

section \<open>The bond issuer by name\<close>

text \<open>
  The arguments of types the governance contract does not look into are decoded by the host; how is a
  parameter.
\<close>

record codec =
  dec_i128 :: "val \<Rightarrow> int option"
  dec_bool :: "val \<Rightarrow> bool option"
  dec_config :: "val \<Rightarrow> BondConfig option"
  dec_holders :: "val \<Rightarrow> (address \<times> int) list option"
  dec_credit_type :: "val \<Rightarrow> CreditType option"
  dec_status :: "val \<Rightarrow> ReportStatus option"
  dec_biodiversity :: "val \<Rightarrow> BiodiversityMetrics option"

text \<open>The entrypoints of the issuer that change it, and those that read it.\<close>

definition issuer_call :: "codec \<Rightarrow> env \<Rightarrow> symbol \<Rightarrow> val list \<Rightarrow> issuer \<Rightarrow> issuer option" where
  "issuer_call c env m args st =
     (if m = ''issue_bond'' then arg as_address (\<lambda>a. arg (dec_config c) (\<lambda>cfg. arg as_u64 (\<lambda>n.
        no_more (map_option snd (ok_value (issue_bond env a cfg n st)))))) args
      else if m = ''mature_bond'' then arg as_address (\<lambda>a. arg as_u64 (\<lambda>b. arg as_u64 (\<lambda>n.
        no_more (ok_value (mature_bond env a b n st))))) args
      else if m = ''subscribe'' then arg as_address (\<lambda>a. arg as_u64 (\<lambda>b. arg (dec_i128 c) (\<lambda>x. arg as_u64 (\<lambda>n.
        no_more (ok_value (subscribe env a b x n st)))))) args
      else if m = ''transfer'' then arg as_address (\<lambda>a. arg as_address (\<lambda>a'. arg as_u64 (\<lambda>b. arg (dec_i128 c) (\<lambda>x.
        arg as_u64 (\<lambda>n. no_more (ok_value (transfer env a a' b x n st))))))) args
      else if m = ''redeem'' then arg as_address (\<lambda>a. arg as_u64 (\<lambda>b. arg (dec_i128 c) (\<lambda>x. arg as_u64 (\<lambda>n.
        no_more (ok_value (redeem env a b x n st)))))) args
      else None)"

definition issuer_read :: "env \<Rightarrow> symbol \<Rightarrow> val list \<Rightarrow> issuer \<Rightarrow> issuer option" where
  "issuer_read env m args st =
     (if m = ''get_bond'' then arg as_u64 (\<lambda>b. no_more (map_option snd (ok_value (get_bond env b st)))) args
      else if m = ''get_bond_state'' then arg as_u64 (\<lambda>b. no_more (map_option snd (ok_value (get_bond_state env b st)))) args
      else if m = ''total_supply'' then arg as_u64 (\<lambda>b. no_more (map_option snd (ok_value (total_supply env b st)))) args
      else if m = ''total_subscribed'' then
        arg as_u64 (\<lambda>b. no_more (map_option snd (ok_value (total_subscribed env b st)))) args
      else if m = ''get_all_bond_ids'' then no_more (Some (snd (get_all_bond_ids env st))) args
      else if m = ''get_bond_ids_range'' then
        arg as_u32 (\<lambda>i. arg as_u32 (\<lambda>k. no_more (Some (snd (get_bond_ids_range env i k st))))) args
      else if m = ''get_nonce'' then arg as_address (\<lambda>_. no_more (Some st)) args
      else if m = ''get_holder_balance'' then arg as_u64 (\<lambda>_. arg as_address (\<lambda>_. no_more (Some st))) args
      else if m \<in> {''get_holder_list'', ''get_holder_count''} then arg as_u64 (\<lambda>_. no_more (Some st)) args
      else if m = ''get_holder_list_range'' then arg as_u64 (\<lambda>_. arg as_u32 (\<lambda>_. arg as_u32 (\<lambda>_. no_more (Some st)))) args
      else if m = ''bond_count'' then no_more (Some st) args
      else None)"

definition issuer_dispatch :: "codec \<Rightarrow> env \<Rightarrow> symbol \<Rightarrow> val list \<Rightarrow> issuer \<Rightarrow> issuer option" where
  "issuer_dispatch c env m args st =
     (case issuer_call c env m args st of Some st' \<Rightarrow> Some st' | None \<Rightarrow> issuer_read env m args st)"

text \<open>A system of issuers; their steps carry no time.\<close>

abbreviation issuer_system :: "codec \<Rightarrow> address \<Rightarrow> 'w invocation \<Rightarrow> governance \<times> (address \<rightharpoonup> issuer) \<times> 'w \<Rightarrow> timed_label \<Rightarrow>
    governance \<times> (address \<rightharpoonup> issuer) \<times> 'w \<Rightarrow> bool" where
  "issuer_system c \<equiv> system_step (alone (issuer_dispatch c)) (steps_alone (\<lambda>s l. issuer_step s (snd l)))"

text \<open>What only the administrator may do: issue a bond, and change the status of one.\<close>

definition bonds_change :: "ledger \<Rightarrow> ledger \<Rightarrow> bool" where
  "bonds_change L L' \<longleftrightarrow> lg_configs L' \<noteq> lg_configs L \<or>
     (\<exists>b. map_option bs_status (lg_states L' b) \<noteq> map_option bs_status (lg_states L b))"

section \<open>The oracle by name\<close>

text \<open>The entrypoints of the oracle for its administrator, and those for others with a nonce.\<close>

definition oracle_admin_call :: "codec \<Rightarrow> (oracle_consumer, registries) dispatch" where
  "oracle_admin_call c env m args = (\<lambda>(st, R).
     if m = ''register_provider'' then arg as_address (\<lambda>a. arg as_address (\<lambda>q. arg as_symbol (\<lambda>me. arg as_u64 (\<lambda>n.
       no_more (map_option (\<lambda>st. (st, R)) (ok_value (register_provider env a q me n st))))))) args
     else if m = ''remove_provider'' then arg as_address (\<lambda>a. arg as_address (\<lambda>q. arg as_u64 (\<lambda>n.
       no_more (map_option (\<lambda>st. (st, R)) (ok_value (remove_provider env a q n st)))))) args
     else if m = ''set_signature_threshold'' then arg as_address (\<lambda>a. arg as_u32 (\<lambda>t. arg as_u64 (\<lambda>n.
       no_more (map_option (\<lambda>st. (st, R)) (ok_value (set_signature_threshold env a t n st)))))) args
     else if m = ''set_project_registry'' then arg as_address (\<lambda>a. arg as_address (\<lambda>r. arg as_u64 (\<lambda>n.
       no_more (map_option (\<lambda>st. (st, R)) (ok_value (set_project_registry env a r n st)))))) args
     else if m = ''admin_override_report'' then arg as_address (\<lambda>a. arg as_u64 (\<lambda>i. arg (dec_status c) (\<lambda>s. arg as_u64 (\<lambda>n.
       no_more (map_option (\<lambda>st. (st, R)) (ok_value (admin_override_report env a i s n st))))))) args
     else if m = ''resolve_challenge'' then arg as_address (\<lambda>a. arg as_u64 (\<lambda>i. arg (dec_status c) (\<lambda>s. arg as_u64 (\<lambda>n.
       no_more (ok_value (resolve_challenge env a i s n st R)))))) args
     else if m = ''propose_admin_transfer'' then arg as_address (\<lambda>a. arg as_address (\<lambda>q. arg as_u64 (\<lambda>n.
       no_more (map_option (\<lambda>st. (st, R)) (ok_value (oracle_propose_admin_transfer env a q n st)))))) args
     else if m = ''cancel_admin_transfer'' then arg as_address (\<lambda>a. arg as_u64 (\<lambda>n.
       no_more (map_option (\<lambda>st. (st, R)) (ok_value (oracle_cancel_admin_transfer env a n st))))) args
     else if m = ''accept_admin_transfer'' then arg as_address (\<lambda>a. arg as_u64 (\<lambda>n.
       no_more (map_option (\<lambda>st. (st, R)) (ok_value (oracle_accept_admin_transfer env a n st))))) args
     else None)"

definition oracle_user_call :: "codec \<Rightarrow> (oracle_consumer, registries) dispatch" where
  "oracle_user_call c env m args = (\<lambda>(st, R).
     if m = ''submit_report'' then arg as_address (\<lambda>a. arg as_u64 (\<lambda>p. arg as_u64 (\<lambda>s. arg as_u64 (\<lambda>e. arg (dec_i128 c) (\<lambda>x.
       arg (dec_biodiversity c) (\<lambda>y. arg as_symbol (\<lambda>me. arg as_bytes (\<lambda>h. arg as_u64 (\<lambda>n.
       no_more (map_option snd (ok_value (submit_report env a p s e x y me h n st R)))))))))))) args
     else if m = ''verify_report'' then arg as_address (\<lambda>a. arg as_u64 (\<lambda>i. arg as_u64 (\<lambda>n.
       no_more (map_option (\<lambda>st. (st, R)) (ok_value (verify_report env a i n st)))))) args
     else if m = ''challenge_report'' then arg as_address (\<lambda>a. arg as_u64 (\<lambda>i. arg as_bytes (\<lambda>h. arg as_u64 (\<lambda>n.
       no_more (map_option (\<lambda>st. (st, R)) (ok_value (challenge_report env a i h n st))))))) args
     else if m = ''resolve_challenge_by_verifier'' then arg as_address (\<lambda>a. arg as_u64 (\<lambda>i. arg (dec_bool c) (\<lambda>u. arg as_u64 (\<lambda>n.
       no_more (ok_value (resolve_challenge_by_verifier env a i u n st R)))))) args
     else if m = ''add_stake'' then arg as_address (\<lambda>a. arg (dec_i128 c) (\<lambda>x. arg as_u64 (\<lambda>n.
       no_more (map_option (\<lambda>st. (st, R)) (ok_value (add_stake env a x n st)))))) args
     else if m = ''withdraw_stake'' then arg as_address (\<lambda>a. arg (dec_i128 c) (\<lambda>x. arg as_u64 (\<lambda>n.
       no_more (map_option (\<lambda>st. (st, R)) (ok_value (withdraw_stake env a x n st)))))) args
     else if m = ''deposit_challenge_bond'' then arg as_address (\<lambda>a. arg (dec_i128 c) (\<lambda>x. arg as_u64 (\<lambda>n.
       no_more (map_option (\<lambda>st. (st, R)) (ok_value (deposit_challenge_bond env a x n st)))))) args
     else if m = ''withdraw_challenge_bond'' then arg as_address (\<lambda>a. arg (dec_i128 c) (\<lambda>x. arg as_u64 (\<lambda>n.
       no_more (map_option (\<lambda>st. (st, R)) (ok_value (withdraw_challenge_bond env a x n st)))))) args
     else None)"

text \<open>The entrypoints without a caller.\<close>

definition oracle_read :: "(oracle_consumer, registries) dispatch" where
  "oracle_read env m args = (\<lambda>(st, R). map_option (\<lambda>st. (st, R)) (
     if m = ''expire_stale_challenge'' then arg as_u64 (\<lambda>i. no_more (ok_value (expire_stale_challenge env i st))) args
     else if m = ''get_provider'' then arg as_address (\<lambda>a. no_more (map_option snd (ok_value (get_provider env a st)))) args
     else if m = ''get_report'' then arg as_u64 (\<lambda>i. no_more (map_option snd (ok_value (get_report env i st)))) args
     else if m = ''get_challenge'' then arg as_u64 (\<lambda>i. no_more (map_option snd (ok_value (get_challenge env i st)))) args
     else if m = ''get_provider_stats'' then
       arg as_address (\<lambda>a. no_more (map_option snd (ok_value (get_provider_stats env a st)))) args
     else if m = ''list_providers'' then no_more (Some (snd (list_providers env st))) args
     else if m = ''get_project_reports'' then arg as_u64 (\<lambda>i. no_more (Some (snd (get_project_reports env i st)))) args
     else if m = ''get_verification_count'' then arg as_u64 (\<lambda>i. no_more (Some (snd (get_verification_count env i st)))) args
     else if m = ''get_report_verifiers'' then arg as_u64 (\<lambda>i. no_more (Some (snd (get_report_verifiers env i st)))) args
     else if m = ''get_locked_stake'' then arg as_address (\<lambda>a. no_more (Some (snd (get_locked_stake env a st)))) args
     else if m = ''get_slash_history'' then arg as_address (\<lambda>a. no_more (Some (snd (get_slash_history env a st)))) args
     else if m = ''get_challenge_history'' then arg as_address (\<lambda>a. no_more (Some (snd (get_challenge_history env a st)))) args
     else if m = ''get_challenge_bond_balance'' then
       arg as_address (\<lambda>a. no_more (Some (snd (get_challenge_bond_balance env a st)))) args
     else if m = ''get_locked_challenge_bond'' then
       arg as_address (\<lambda>a. no_more (Some (snd (get_locked_challenge_bond env a st)))) args
     else if m = ''get_challenge_votes'' then arg as_u64 (\<lambda>i. no_more (Some (snd (get_challenge_votes env i st)))) args
     else if m \<in> {''get_signature_threshold'', ''get_admin'', ''get_pending_admin''} then no_more (Some st) args
     else None))"

definition oracle_dispatch :: "codec \<Rightarrow> (oracle_consumer, registries) dispatch" where
  "oracle_dispatch c env m args s =
     (case oracle_admin_call c env m args s of
        Some s' \<Rightarrow> Some s'
      | None \<Rightarrow> (case oracle_user_call c env m args s of Some s' \<Rightarrow> Some s' | None \<Rightarrow> oracle_read env m args s))"

text \<open>A system of oracles, which read and revoke in the registries beside them.\<close>

abbreviation oracle_system :: "codec \<Rightarrow> address \<Rightarrow> registries invocation \<Rightarrow>
    governance \<times> (address \<rightharpoonup> oracle_consumer) \<times> registries \<Rightarrow> timed_label \<Rightarrow>
    governance \<times> (address \<rightharpoonup> oracle_consumer) \<times> registries \<Rightarrow> bool" where
  "oracle_system c \<equiv> system_step (oracle_dispatch c) (oracle_step (\<lambda>_. True))"

text \<open>
  What only the administrator may do: appoint a provider, dismiss one that has stake left, raise the number
  of verifications a report needs, and propose or cancel another administrator.
\<close>

definition desk_privileged :: "desk \<Rightarrow> desk \<Rightarrow> bool" where
  "desk_privileged D D' \<longleftrightarrow> (\<exists>a. is_active D' a \<and> \<not> is_active D a) \<or>
     (\<exists>a p. is_active D a \<and> \<not> is_active D' a \<and> dk_providers D' a = Some p \<and> op_stake p \<noteq> 0) \<or>
     dk_threshold D < dk_threshold D' \<or> (dk_pending D' \<noteq> dk_pending D \<and> dk_admin D' = dk_admin D)"

section \<open>The coupon engine by name\<close>

text \<open>The entrypoints of the engine that take a nonce.\<close>

definition engine_call :: "codec \<Rightarrow> (coupon_engine, peers) dispatch" where
  "engine_call c env m args = (\<lambda>(st, P).
     if m = ''register_bond'' then arg as_address (\<lambda>a. arg as_u64 (\<lambda>b. arg as_bytes (\<lambda>h. arg as_u64 (\<lambda>n.
       no_more (ok_value (register_bond env a b h n st P)))))) args
     else if m = ''distribute_coupon'' then arg as_address (\<lambda>a. arg as_u64 (\<lambda>b. arg as_u32 (\<lambda>i. arg (dec_holders c) (\<lambda>hs.
       arg as_u64 (\<lambda>r. arg as_u64 (\<lambda>n. arg (dec_bool c) (\<lambda>f.
       no_more (map_option snd (ok_value (distribute_coupon env a b i hs r n f st P)))))))))) args
     else if m = ''sweep_undistributed'' then arg as_address (\<lambda>a. arg as_u64 (\<lambda>b. arg as_address (\<lambda>d. arg as_u64 (\<lambda>n.
       no_more (map_option (\<lambda>(_, st). (st, P)) (ok_value (sweep_undistributed env a b d n st))))))) args
     else if m = ''register_deduct_caller'' then arg as_address (\<lambda>a. arg as_address (\<lambda>d. arg as_u64 (\<lambda>n.
       no_more (map_option (\<lambda>st. (st, P)) (ok_value (register_deduct_caller env a d n st)))))) args
     else if m = ''claim_credits'' then arg as_address (\<lambda>a. arg as_u64 (\<lambda>b. arg as_u64 (\<lambda>n.
       no_more (map_option (\<lambda>(_, st). (st, P)) (ok_value (claim_credits env a b n st)))))) args
     else None)"

text \<open>The entrypoints without a caller.\<close>

definition engine_read :: "codec \<Rightarrow> (coupon_engine, peers) dispatch" where
  "engine_read c env m args = (\<lambda>(st, P). map_option (\<lambda>st. (st, P)) (
     if m = ''deduct_credits'' then arg as_u64 (\<lambda>b. arg as_address (\<lambda>h. arg (dec_i128 c) (\<lambda>x. arg (dec_credit_type c) (\<lambda>t.
       no_more (map_option snd (ok_value (deduct_credits env b h x t st))))))) args
     else if m = ''accrued_credits'' then arg as_u64 (\<lambda>b. arg as_address (\<lambda>h. no_more (Some (snd (accrued_credits env b h st))))) args
     else if m = ''accrued_credits_by_type'' then arg as_u64 (\<lambda>b. arg as_address (\<lambda>h. arg (dec_credit_type c) (\<lambda>t.
       no_more (Some (snd (accrued_credits_by_type env b h t st)))))) args
     else if m = ''get_period_info'' then
       arg as_u64 (\<lambda>b. arg as_u32 (\<lambda>i. no_more (map_option snd (ok_value (get_period_info env b i st))))) args
     else if m = ''get_period_count'' then arg as_u64 (\<lambda>b. no_more (Some (snd (get_period_count env b st)))) args
     else if m = ''get_undistributed_total'' then arg as_u64 (\<lambda>b. no_more (Some (snd (get_undistributed_total env b st)))) args
     else if m = ''get_undistributed_by_type'' then
       arg as_u64 (\<lambda>b. arg (dec_credit_type c) (\<lambda>t. no_more (Some (snd (get_undistributed_by_type env b t st))))) args
     else if m = ''get_bond_credit_type'' then
       arg as_u64 (\<lambda>b. no_more (map_option (\<lambda>_. st) (ok_value (get_bond_credit_type b st)))) args
     else if m = ''get_period_info_range'' then arg as_u64 (\<lambda>_. arg as_u32 (\<lambda>_. arg as_u32 (\<lambda>_. no_more (Some st)))) args
     else None))"

definition engine_dispatch :: "codec \<Rightarrow> (coupon_engine, peers) dispatch" where
  "engine_dispatch c env m args s =
     (case engine_call c env m args s of Some s' \<Rightarrow> Some s' | None \<Rightarrow> engine_read c env m args s)"

text \<open>A system of engines beside the contracts they read.\<close>

abbreviation engine_system :: "codec \<Rightarrow> address \<Rightarrow> peers invocation \<Rightarrow>
    governance \<times> (address \<rightharpoonup> coupon_engine) \<times> peers \<Rightarrow> timed_label \<Rightarrow>
    governance \<times> (address \<rightharpoonup> coupon_engine) \<times> peers \<Rightarrow> bool" where
  "engine_system c \<equiv> system_step (engine_dispatch c) (coupon_step (\<lambda>_. True))"

text \<open>
  What only the administrator may change: the bonds of the engine, the contract that may deduct, the periods
  and their batches, who is marked as paid, and what is left undistributed. Everything else is accounts.
\<close>

definition rulings :: "coupon_engine \<Rightarrow> (u64 \<rightharpoonup> bytes32) \<times> (u64 \<rightharpoonup> CreditType) \<times> address option \<times> (u64 \<times> u32 \<rightharpoonup> PeriodInfo) \<times>
    (u64 \<times> u32 \<rightharpoonup> BatchState) \<times> (u64 \<times> u32 \<times> address \<rightharpoonup> bool) \<times> (u64 \<rightharpoonup> int)" where
  "rulings st = (cpn_bond_project st, cpn_bond_credit_type st, cpn_deduct_caller st, pget (cpn_period_info st),
     pget (cpn_batch_state st), pget (cpn_holder_distributed st), pget (cpn_undistributed_total st))"

text \<open>A call leaves them as they are, or its caller is the administrator.\<close>

definition ruled :: "coupon_engine \<Rightarrow> timed_label \<Rightarrow> coupon_engine \<Rightarrow> bool" where
  "ruled st l st' \<longleftrightarrow> rulings st' = rulings st \<or> (\<exists>a n. cpn_admin st = Some a \<and> snd l = Some (a, n))"

text \<open>The decoding of the examples.\<close>

definition sample_codec :: codec where
  "sample_codec = \<lparr>dec_i128 = (\<lambda>_. None), dec_bool = (\<lambda>v. Some (v = OtherVal 1)),
     dec_config = (\<lambda>_. Some (sample_config\<lparr>bc_maturity_date := 1000\<rparr>)),
     dec_holders = (\<lambda>_. Some [(Address 1, 300), (Address 2, 200)]), dec_credit_type = (\<lambda>_. None),
     dec_status = (\<lambda>_. None), dec_biodiversity = (\<lambda>_. None)\<rparr>"

section \<open>Bond issuers under an administrator\<close>

text \<open>A dispatched call is a step of the ledger by the caller named in its first argument.\<close>

lemma issuer_call_step:
  assumes "issuer_call c env m args st = Some st'"
  shows "\<exists>a n. issuer_step st (Some (a, n)) st' \<and> args ! 0 = AddressVal a"
  using assms unfolding issuer_call_def by (auto split: if_splits) (blast intro: issuer_step.intros)+

lemma issuer_read_ledger: "issuer_read env m args st = Some st' \<Longrightarrow> ledger_of st' = ledger_of st"
  using read_ledger(5,6) [OF prod.collapse [symmetric]] unfolding issuer_read_def
  by (auto dest: read_ledger split: if_splits)

lemma issuer_dispatch_ledger:
  assumes "issuer_dispatch c env m args st = Some st'"
  shows "\<exists>l. ledger_step (ledger_of st) l (ledger_of st') \<and> (\<forall>a n. l = Some (a, n) \<longrightarrow> args ! 0 = AddressVal a)"
proof (cases "issuer_call c env m args st")
  case None
  with assms have "ledger_of st' = ledger_of st" by (simp add: issuer_dispatch_def issuer_read_ledger)
  then show ?thesis by (auto intro: l_read)
next
  case (Some st1)
  with assms have "issuer_call c env m args st = Some st'" by (simp add: issuer_dispatch_def)
  from issuer_call_step [OF this] issuer_step_ledger show ?thesis by blast
qed

lemma bonds_change_admin:
  assumes "ledger_step L l L'" and "bonds_change L L'"
  shows "\<exists>a n. lg_admin L = Some a \<and> l = Some (a, n)"
  using assms by (cases rule: ledger_step.cases)
    (auto simp: bonds_change_def set_state_def credit_def enlist_def spend_def Let_def split: if_splits)

interpretation issuers: administered "alone (issuer_dispatch c)" "steps_alone (\<lambda>s l. issuer_step s (snd l))"
  "\<lambda>s l s'. ledger_step (ledger_of s) (snd l) (ledger_of s')" "\<lambda>s. lg_admin (ledger_of s)"
  "\<lambda>s s'. bonds_change (ledger_of s) (ledger_of s')" "\<lambda>_ _. True" for c
proof unfold_locales
  show "\<exists>l. ledger_step (ledger_of s) (snd (timestamp env, l)) (ledger_of s') \<and> (\<forall>a n. l = Some (a, n) \<longrightarrow> args ! 0 = AddressVal a)"
    if "alone (issuer_dispatch c) env m args (s, w) = Some (s', w')" for env m args s s' and w w' :: 'w
    using issuer_dispatch_ledger [of c env m args s s'] that by simp
qed (auto simp: steps_alone_def bonds_change_def dest: bonds_change_admin [unfolded bonds_change_def] issuer_step_ledger)

text \<open>Only \<^verbatim>\<open>issue_bond\<close> writes terms, and only \<^verbatim>\<open>mature_bond\<close> matures.\<close>

lemma issuer_dispatch_terms:
  assumes "issuer_dispatch c env m args st = Some st'"
  shows "lg_configs (ledger_of st') b = Some cfg \<Longrightarrow> lg_configs (ledger_of st) b \<noteq> Some cfg \<Longrightarrow>
      m = ''issue_bond'' \<and> (\<exists>a v n. args = [AddressVal a, v, U64Val n] \<and> dec_config c v = Some cfg)"
    and "lg_states (ledger_of st) b = Some s \<Longrightarrow> lg_states (ledger_of st') b = Some s' \<Longrightarrow> bs_status s \<noteq> Matured \<Longrightarrow>
      bs_status s' = Matured \<Longrightarrow> m = ''mature_bond'' \<and> (\<exists>a n. args = [AddressVal a, U64Val b, U64Val n])"
proof -
  have "ledger_of st' = ledger_of st \<or> issuer_call c env m args st = Some st'"
    using assms by (cases "issuer_call c env m args st") (auto simp: issuer_dispatch_def dest: issuer_read_ledger)
  note d = this [unfolded issuer_call_def]
  show "m = ''issue_bond'' \<and> (\<exists>a v n. args = [AddressVal a, v, U64Val n] \<and> dec_config c v = Some cfg)"
    if "lg_configs (ledger_of st') b = Some cfg" "lg_configs (ledger_of st) b \<noteq> Some cfg"
    using d that by (auto simp: open_bond_def set_state_def split: if_splits
      dest!: issue_bond_Ok mature_bond_Ok subscribe_Ok transfer_Ok redeem_Ok)
  show "m = ''mature_bond'' \<and> (\<exists>a n. args = [AddressVal a, U64Val b, U64Val n])"
    if "lg_states (ledger_of st) b = Some s" "lg_states (ledger_of st') b = Some s'" "bs_status s \<noteq> Matured" "bs_status s' = Matured"
    using d that by (auto simp: open_bond_def set_state_def split: if_splits
      dest!: issue_bond_Ok mature_bond_Ok subscribe_Ok transfer_Ok redeem_Ok)
qed

section \<open>Oracles under an administrator\<close>

text \<open>Votes and expiries do nothing privileged.\<close>

lemma finalized_unprivileged:
  assumes "finalized now i res D D'"
  shows "\<not> desk_privileged D D'" "dk_pending D' = dk_pending D" "dk_admin D' = dk_admin D" 
  using assms by (cases rule: finalized.cases; auto simp: desk_privileged_def desk_parts is_active_def slashed_def dk_clamp_def desk_defs split: if_splits)+

lemma desk_privileged_admin:
  assumes "desk_step D l D'" and "desk_privileged D D'"
  shows "\<exists>a n. dk_admin D = Some a \<and> snd l = Some (a, n)"
  using assms(1)
proof (cases rule: desk_step.cases)
  case (k_vote n a i c r D1 up now)
  have same: "desk_privileged D X = desk_privileged D1 X" for X
    by (simp add: k_vote desk_privileged_def desk_parts is_active_def dk_vote_def dk_spend_def)
  with k_vote finalized_unprivileged(1) [of now i _ D1 D'] assms(2) show ?thesis
    by (auto simp: desk_privileged_def split: if_splits)
qed (use assms(2) in \<open>auto simp: desk_privileged_def is_active_def desk_parts dk_spend_def split: if_splits\<close>)

lemma oracle_admin_call_step:
  assumes "oracle_admin_call c env m args (st, R) = Some (st', R')"
  shows "\<exists>a n. oracle_step (\<lambda>_. True) (st, R) (timestamp env, Some (a, n)) (st', R') \<and> args ! 0 = AddressVal a"
  using assms unfolding oracle_admin_call_def by (auto split: if_splits) (blast intro: oracle_step.intros)+

lemma oracle_user_call_step:
  assumes "oracle_user_call c env m args (st, R) = Some (st', R')"
  shows "\<exists>a n. oracle_step (\<lambda>_. True) (st, R) (timestamp env, Some (a, n)) (st', R') \<and> args ! 0 = AddressVal a"
  using assms unfolding oracle_user_call_def by (auto split: if_splits) (blast intro: oracle_step.intros)+

text \<open>Only \<^verbatim>\<open>register_provider\<close> extends the list of providers.\<close>

lemma oracle_calls_list:
  "remove_provider env a q n st = Ok st' \<Longrightarrow> dk_plist (desk_of st') = dk_plist (desk_of st)"
  "set_signature_threshold env a t n st = Ok st' \<Longrightarrow> dk_plist (desk_of st') = dk_plist (desk_of st)"
  "set_project_registry env a q n st = Ok st' \<Longrightarrow> dk_plist (desk_of st') = dk_plist (desk_of st)"
  "admin_override_report env a i s n st = Ok st' \<Longrightarrow> dk_plist (desk_of st') = dk_plist (desk_of st)"
  "oracle_propose_admin_transfer env a q n st = Ok st' \<Longrightarrow> dk_plist (desk_of st') = dk_plist (desk_of st)"
  "oracle_cancel_admin_transfer env a n st = Ok st' \<Longrightarrow> dk_plist (desk_of st') = dk_plist (desk_of st)"
  "oracle_accept_admin_transfer env a n st = Ok st' \<Longrightarrow> dk_plist (desk_of st') = dk_plist (desk_of st)"
  "add_stake env a x n st = Ok st' \<Longrightarrow> dk_plist (desk_of st') = dk_plist (desk_of st)"
  "withdraw_stake env a x n st = Ok st' \<Longrightarrow> dk_plist (desk_of st') = dk_plist (desk_of st)"
  "deposit_challenge_bond env a x n st = Ok st' \<Longrightarrow> dk_plist (desk_of st') = dk_plist (desk_of st)"
  "withdraw_challenge_bond env a x n st = Ok st' \<Longrightarrow> dk_plist (desk_of st') = dk_plist (desk_of st)"
  by (auto simp: remove_provider_def set_signature_threshold_def set_project_registry_def admin_override_report_def
      oracle_propose_admin_transfer_def oracle_cancel_admin_transfer_def oracle_accept_admin_transfer_def add_stake_def
      withdraw_stake_def deposit_challenge_bond_def withdraw_challenge_bond_def result_simps Let_def desk_calc dk_clamp_def
      dest!: oracle_consume_nonce_Ok split: if_splits)

lemma challenge_list: "challenge_report env a i h n st = Ok st' \<Longrightarrow> dk_plist (desk_of st') = dk_plist (desk_of st)"
  by (auto simp: challenge_report_def charge_challenge_bond_def result_simps Let_def desk_calc
      dest!: oracle_dests split: if_splits)

lemma expire_list: "expire_stale_challenge env i st = Ok st' \<Longrightarrow> dk_plist (desk_of st') = dk_plist (desk_of st)"
  by (auto simp: expire_stale_challenge_def result_simps Let_def desk_calc
      dest!: oracle_dests split: if_splits)

lemma report_calls_list:
  "submit_report env a p s e x y me h n st R = Ok (i, st', R') \<Longrightarrow> dk_plist (desk_of st') = dk_plist (desk_of st)"
  "verify_report env a i n st = Ok st' \<Longrightarrow> dk_plist (desk_of st') = dk_plist (desk_of st)"
  "resolve_challenge_by_verifier env a i u n st R = Ok (st', R') \<Longrightarrow> dk_plist (desk_of st') = dk_plist (desk_of st)"
  "resolve_challenge env a i v n st R = Ok (st', R') \<Longrightarrow> dk_plist (desk_of st') = dk_plist (desk_of st)"
proof -
  show "dk_plist (desk_of st') = dk_plist (desk_of st)" if "submit_report env a p s e x y me h n st R = Ok (i, st', R')"
    using submit_report_raw [OF that] by (auto simp: desk_calc dest!: oracle_dests)
  show "dk_plist (desk_of st') = dk_plist (desk_of st)" if "verify_report env a i n st = Ok st'"
    using verify_report_Ok [OF that refl] by (auto simp: desk_parts dk_add_verifier_def)
  show "dk_plist (desk_of st') = dk_plist (desk_of st)" if "resolve_challenge_by_verifier env a i u n st R = Ok (st', R')"
    using vote_Ok [OF that refl] by (auto simp: dk_vote_def dest!: finalized_frame(2) split: if_splits)
  show "dk_plist (desk_of st') = dk_plist (desk_of st)" if "resolve_challenge env a i v n st R = Ok (st', R')"
    using that by (auto simp: resolve_challenge_def result_simps oracle_require_admin_Ok
      dest!: oracle_consume_nonce_Ok finalize_challenge_Ok dest: finalized_frame(2) split: if_splits)
qed

lemma register_provider_list:
  assumes "register_provider env a q me n st = Ok st'"
  shows "dk_plist (desk_of st') = dk_plist (desk_of st) @ [q]"
proof -
  from assms obtain st1 where 1: "oracle_consume_nonce env a n st = Ok st1" "dk_plist (desk_of st') = dk_plist (desk_of st1) @ [q]"
    by (auto simp: register_provider_def result_simps Let_def oracle_require_admin_Ok desk_reads storage_simps split: if_splits)
  with oracle_consume_nonce_Ok [OF 1(1)] show ?thesis by simp
qed

lemma oracle_read_desk:
  assumes "oracle_read env m args (st, R) = Some (st', R')"
  shows "desk_step (desk_of st) (timestamp env, None) (desk_of st') \<and> dk_plist (desk_of st') = dk_plist (desk_of st)"
proof -
  have "desk_of st' = desk_of st \<or> (\<exists>i. expire_stale_challenge env i st = Ok st')"
    using assms unfolding oracle_read_def by (auto simp: reads_desk(5-14) dest: reads_desk(1-4) split: if_splits)
  then show ?thesis
  proof
    assume "desk_of st' = desk_of st"
    with k_read show ?thesis by simp
  next
    assume "\<exists>i. expire_stale_challenge env i st = Ok st'"
    with k_expire_sim expire_list show ?thesis by blast
  qed
qed

text \<open>A provider becomes active by being entered in the list.\<close>

lemma appointed:
  assumes "desk_step D l D'" and "is_active D' a" and "\<not> is_active D a"
  shows "dk_plist D' = dk_plist D @ [a]"
  using assms(1)
proof (cases rule: desk_step.cases)
  case (k_vote n a' i c r D1 up now)
  then have "is_active D' a \<longrightarrow> is_active D1 a" "is_active D1 = is_active D"
    using finalized_unprivileged(1) [of now i _ D1 D'] by (auto simp: desk_privileged_def is_active_def dk_vote_def split: if_splits)
  with assms(2,3) show ?thesis by simp
next
  case (k_resolve n a' now i res)
  with finalized_unprivileged(1) [of now i res "dk_spend a' D" D'] assms(2,3) show ?thesis by (auto simp: desk_privileged_def)
qed (use assms(2,3) in \<open>auto simp: is_active_def desk_parts split: if_splits\<close>)

lemma oracle_dispatch_desk:
  assumes "oracle_dispatch c env m args (st, R) = Some (st', R')"
  shows "\<exists>l. desk_step (desk_of st) (timestamp env, l) (desk_of st') \<and> (\<forall>a n. l = Some (a, n) \<longrightarrow> args ! 0 = AddressVal a)"
    and "dk_plist (desk_of st') = dk_plist (desk_of st) @ [q] \<Longrightarrow>
      m = ''register_provider'' \<and> (\<exists>a me n. args = [AddressVal a, AddressVal q, SymbolVal me, U64Val n])"
proof -
  from assms consider "oracle_admin_call c env m args (st, R) = Some (st', R')"
    | "oracle_user_call c env m args (st, R) = Some (st', R')" | "oracle_read env m args (st, R) = Some (st', R')"
    by (auto simp: oracle_dispatch_def split: option.splits)
  note cases = this
  show "\<exists>l. desk_step (desk_of st) (timestamp env, l) (desk_of st') \<and> (\<forall>a n. l = Some (a, n) \<longrightarrow> args ! 0 = AddressVal a)"
  proof (cases rule: cases)
    case 1
    from oracle_admin_call_step [OF this] show ?thesis using oracle_step_desk by fastforce
  next
    case 2
    from oracle_user_call_step [OF this] show ?thesis using oracle_step_desk by fastforce
  next
    case 3
    with oracle_read_desk show ?thesis by blast
  qed
  show "m = ''register_provider'' \<and> (\<exists>a me n. args = [AddressVal a, AddressVal q, SymbolVal me, U64Val n])"
    if "dk_plist (desk_of st') = dk_plist (desk_of st) @ [q]"
  proof (cases rule: cases)
    case 1
    with that show ?thesis unfolding oracle_admin_call_def
      by (auto split: if_splits dest: oracle_calls_list report_calls_list register_provider_list)
  next
    case 2
    with that show ?thesis unfolding oracle_user_call_def
      by (auto split: if_splits dest: oracle_calls_list report_calls_list challenge_list)
  next
    case 3
    with that oracle_read_desk show ?thesis by force
  qed
qed

interpretation oracles: administered "oracle_dispatch c" "oracle_step (\<lambda>_. True)"
  "\<lambda>s l s'. desk_step (desk_of s) l (desk_of s')" orc_admin
  "\<lambda>s s'. desk_privileged (desk_of s) (desk_of s')" "\<lambda>_ _. True" for c
proof unfold_locales
  show "desk_step (desk_of s) l (desk_of s')" if "oracle_step (\<lambda>_. True) (s, w) l (s', w')" for s w l s' w'
    using oracle_step_desk [OF that] by simp
  show "\<exists>a k. orc_admin s = Some a \<and> snd l = Some (a, k)"
    if "desk_step (desk_of s) l (desk_of s')" "desk_privileged (desk_of s) (desk_of s')" for s l s'
    using desk_privileged_admin [OF that] by (simp add: desk_of_def)
qed (simp_all only: oracle_dispatch_desk(1), simp add: desk_privileged_def)

section \<open>Coupon engines under an administrator\<close>

text \<open>Four entrypoints require the administrator; the others leave the rulings alone.\<close>

lemma engine_admin:
  "register_bond env a b h n st P = Ok (st', P') \<Longrightarrow> cpn_admin st = Some a"
  "distribute_coupon env a b i hs r n f st P = Ok (res, st', P') \<Longrightarrow> cpn_admin st = Some a"
  "sweep_undistributed env a b d n st = Ok (rc, st') \<Longrightarrow> cpn_admin st = Some a"
  "register_deduct_caller env a d n st = Ok st' \<Longrightarrow> cpn_admin st = Some a"
  by (auto simp: register_bond_def distribute_coupon_def sweep_undistributed_def register_deduct_caller_def result_simps
      coupon_consume_nonce_def coupon_get_nonce_def coupon_set_nonce_def coupon_require_admin_def read_refresh_ttl_def Let_def split: if_splits)

lemma engine_reads_rulings [simp]:
  "rulings (snd (accrued_credits env b h st)) = rulings st" "rulings (snd (accrued_credits_by_type env b h t st)) = rulings st"
  "rulings (snd (get_period_count env b st)) = rulings st" "rulings (snd (get_undistributed_total env b st)) = rulings st"
  "rulings (snd (get_undistributed_by_type env b t st)) = rulings st"
  by (simp_all add: rulings_def accrued_credits_def accrued_credits_by_type_def get_period_count_def get_undistributed_total_def
      get_undistributed_by_type_def storage_simps split_def)

lemma engine_info_rulings: "get_period_info env b i st = Ok (info, st') \<Longrightarrow> rulings st' = rulings st"
  by (auto simp: get_period_info_def rulings_def storage_simps result_simps split_def)

lemma nonce_rulings: "coupon_consume_nonce env a n st = Ok st' \<Longrightarrow> rulings st' = rulings st"
  by (auto simp: coupon_consume_nonce_def coupon_get_nonce_def coupon_set_nonce_def rulings_def
      result_simps split_def Let_def split: if_splits)

lemma deduct_rulings: "deduct_credits env b h x t st = Ok (v, st') \<Longrightarrow> rulings st' = rulings st"
  by (auto simp: deduct_credits_def rulings_def coupon_publish_def result_simps storage_simps Let_def split: if_splits)

lemma by_type_rulings: "accrued_credits_by_type env b h t st = (v, st') \<Longrightarrow> rulings st' = rulings st"
  using engine_reads_rulings(2) [of env b h t st] by simp

lemma breakdown_rulings: "claim_breakdown env b a t x st = Ok (u, v, st') \<Longrightarrow> rulings st' = rulings st"
  unfolding claim_breakdown_def
  by (auto simp: result_simps Let_def dest!: by_type_rulings split: option.splits CreditType.splits if_splits prod.splits)

lemma clear_rulings: "clear_types env b a t st = Ok st' \<Longrightarrow> rulings st' = rulings st"
  by (auto simp: clear_types_def clear_accrued_def rulings_def split: option.splits CreditType.splits)

lemma claim_rulings:
  assumes "claim_credits env a b n st = Ok (v, st')"
  shows "rulings st' = rulings st"
proof -
  have [simp]: "rulings (coupon_publish e s) = rulings s" "rulings (s\<lparr>cpn_accrued := m\<rparr>) = rulings s" for e s m
    by (simp_all add: rulings_def coupon_publish_def)
  from assms show ?thesis
    by (auto simp: claim_credits_def result_simps Let_def dest!: nonce_rulings breakdown_rulings clear_rulings split: if_splits)
qed

lemma engine_ruled:
  assumes "coupon_step E s l s'"
  shows "ruled (fst s) l (fst s')"
  using assms by (cases rule: coupon_step.cases)
    (auto simp: ruled_def dest: engine_admin claim_rulings deduct_rulings engine_info_rulings)

lemma engine_read_rulings: "engine_read c env m args (st, P) = Some (st', P') \<Longrightarrow> rulings st' = rulings st"
  unfolding engine_read_def by (auto dest: deduct_rulings engine_info_rulings split: if_splits)

lemma engine_dispatch_ruled:
  assumes "engine_dispatch c env m args (st, P) = Some (st', P')"
  shows "\<exists>l. ruled st (timestamp env, l) st' \<and> (\<forall>a n. l = Some (a, n) \<longrightarrow> args ! 0 = AddressVal a)"
proof (cases "engine_call c env m args (st, P)")
  case None
  with assms have "rulings st' = rulings st" by (simp add: engine_dispatch_def engine_read_rulings)
  then show ?thesis by (auto simp: ruled_def)
next
  case (Some s1)
  with assms have "engine_call c env m args (st, P) = Some (st', P')" by (simp add: engine_dispatch_def)
  then have "\<exists>a n. coupon_step (\<lambda>_. True) (st, P) (timestamp env, Some (a, n)) (st', P') \<and> args ! 0 = AddressVal a"
    unfolding engine_call_def by (auto split: if_splits) (blast intro: coupon_step.intros)+
  then show ?thesis using engine_ruled by fastforce
qed

text \<open>Only a distribution marks holders, and only those in its list.\<close>

lemma pay_holder_marks: "pay_holder env b ct s h x t st = Ok (t', st') \<Longrightarrow> cpn_holder_distributed st' = cpn_holder_distributed st"
  by (auto simp: pay_holder_def pay_single_def pay_basket_def accrue_credits_def result_simps Let_def
      split: CreditType.splits if_splits)

lemma distribute_loop_marks:
  "distribute_loop env b i ct s subs hs t st = Ok (t', st') \<Longrightarrow> dom (pget (cpn_holder_distributed st')) \<subseteq>
     dom (pget (cpn_holder_distributed st)) \<union> (\<lambda>h. (b, i, h)) ` fst ` set hs"
proof (induction hs arbitrary: t st)
  case (Cons hx hs)
  obtain h x where hx: "hx = (h, x)" by (cases hx)
  let ?m = "cpn_holder_distributed st" and ?N = "(\<lambda>h. (b, i, h)) ` fst ` set hs"
  consider (paid) "phas ?m (b, i, h)" | (pay) "\<not> phas ?m (b, i, h)" "0 < x" | (none) "\<not> phas ?m (b, i, h)" "\<not> 0 < x" by blast
  then have "dom (pget (cpn_holder_distributed st')) \<subseteq> insert (b, i, h) (dom (pget ?m)) \<union> ?N"
  proof cases
    case paid
    with Cons.prems have "distribute_loop env b i ct s subs hs t
      (st\<lparr>cpn_holder_distributed := coupon_extend_ttl env ?m (b, i, h)\<rparr>) = Ok (t', st')" by (simp add: hx)
    from Cons.IH [OF this] show ?thesis by (simp add: storage_simps) blast
  next
    case pay
    with Cons.prems obtain t1 st1 where "pay_holder env b ct s h x (t\<lparr>ty_processed := ty_processed t + x\<rparr>) st = Ok (t1, st1)"
      and 1: "distribute_loop env b i ct s subs hs t1
          (st1\<lparr>cpn_holder_distributed := coupon_write env (cpn_holder_distributed st1) (b, i, h) True\<rparr>) = Ok (t', st')"
      by (auto simp: hx result_simps split: if_splits)
    then have m: "cpn_holder_distributed st1 = ?m" by (simp add: pay_holder_marks)
    from Cons.IH [OF 1] show ?thesis by (elim order_trans) (auto simp: storage_simps m split: if_splits)
  next
    case none
    with Cons.prems have "distribute_loop env b i ct s subs hs t st = Ok (t', st')" by (simp add: hx)
    from Cons.IH [OF this] show ?thesis by blast
  qed
  then show ?case unfolding hx by (simp only: list.set image_insert fst_conv) blast
qed simp

lemma batch_marks:
  "open_batch env b i r pid ct st P = Ok (s, subs, p, st', P') \<Longrightarrow> cpn_holder_distributed st' = cpn_holder_distributed st"
  "resume_batch env b i r s0 st = Ok (s, subs, p, st') \<Longrightarrow> cpn_holder_distributed st' = cpn_holder_distributed st"
  "close_period env b i r s pr subs st P = Ok (res, st', P') \<Longrightarrow> cpn_holder_distributed st' = cpn_holder_distributed st"
  by (auto simp: open_batch_def resume_batch_def close_period_def coupon_publish_def result_simps Let_def split: if_splits option.splits)

lemma distribute_marks:
  assumes "distribute_coupon env a b i hs r n f st P = Ok (res, st', P')"
  shows "dom (pget (cpn_holder_distributed st')) \<subseteq> dom (pget (cpn_holder_distributed st)) \<union> (\<lambda>h. (b, i, h)) ` fst ` set hs"
proof -
  have nonce: "coupon_consume_nonce env a n st = Ok st1 \<Longrightarrow> cpn_holder_distributed st1 = cpn_holder_distributed st" for st1
    by (auto simp: coupon_consume_nonce_def coupon_get_nonce_def coupon_set_nonce_def result_simps Let_def split: if_splits)
  from assms obtain ct s subs p st1 t st2 where
    1: "cpn_holder_distributed st1 = cpn_holder_distributed st"
    and 2: "distribute_loop env b i ct s subs hs
          \<lparr>ty_total = 0, ty_carbon = 0, ty_bio = 0, ty_count = 0, ty_processed = p\<rparr> st1 = Ok (t, st2)"
    and 3: "cpn_holder_distributed st' = cpn_holder_distributed st2"
    by (cases f) (auto simp: distribute_coupon_def result_simps Let_def split: if_splits option.splits
        dest!: nonce batch_marks)
  from distribute_loop_marks [OF 2] show ?thesis unfolding 1 3 .
qed

lemma other_marks:
  "register_bond env a b h n st P = Ok (st', P') \<Longrightarrow> pget (cpn_holder_distributed st') = pget (cpn_holder_distributed st)"
  "sweep_undistributed env a b d n st = Ok (rc, st') \<Longrightarrow> pget (cpn_holder_distributed st') = pget (cpn_holder_distributed st)"
  "register_deduct_caller env a d n st = Ok st' \<Longrightarrow> pget (cpn_holder_distributed st') = pget (cpn_holder_distributed st)"
  "rulings st' = rulings st \<Longrightarrow> pget (cpn_holder_distributed st') = pget (cpn_holder_distributed st)"
  by (auto simp: register_bond_def sweep_undistributed_def register_deduct_caller_def accrue_credits_def coupon_publish_def
      rulings_def coupon_consume_nonce_def coupon_get_nonce_def coupon_set_nonce_def result_simps Let_def split: if_splits)

lemma engine_dispatch_pays:
  assumes "engine_dispatch c env m args (st, P) = Some (st', P')"
    and "pget (cpn_holder_distributed st') (b, i, h) \<noteq> None" and "pget (cpn_holder_distributed st) (b, i, h) = None"
  shows "m = ''distribute_coupon'' \<and> (\<exists>a v hs r n f. args = [AddressVal a, U64Val b, U32Val i, v, U64Val r, U64Val n, f] \<and>
    dec_holders c v = Some hs \<and> h \<in> fst ` set hs)"
proof (cases "engine_call c env m args (st, P)")
  case None
  with assms(1) have "rulings st' = rulings st" by (simp add: engine_dispatch_def engine_read_rulings)
  from other_marks(4) [OF this] assms(2,3) show ?thesis by simp
next
  case (Some s1)
  with assms(1) have "engine_call c env m args (st, P) = Some (st', P')" by (simp add: engine_dispatch_def)
  then consider a b0 i0 v hs r n f res where "m = ''distribute_coupon''" "args = [AddressVal a, U64Val b0, U32Val i0, v, U64Val r, U64Val n, f]"
      "dec_holders c v = Some hs" "distribute_coupon env a b0 i0 hs r n (the (dec_bool c f)) st P = Ok (res, st', P')"
    | "pget (cpn_holder_distributed st') = pget (cpn_holder_distributed st)"
    unfolding engine_call_def by (auto split: if_splits dest: other_marks(1-3) claim_rulings [THEN other_marks(4)])
  then show ?thesis
  proof cases
    case 1
    from distribute_marks [OF 1(4)] assms(2,3) have "(b, i, h) \<in> (\<lambda>h. (b0, i0, h)) ` fst ` set hs" by blast
    with 1 show ?thesis by auto
  qed (use assms(2,3) in simp)
qed

interpretation engines: administered "engine_dispatch c" "coupon_step (\<lambda>_. True)" ruled cpn_admin
  "\<lambda>s s'. rulings s' \<noteq> rulings s" "\<lambda>_ _. True" for c
proof unfold_locales
  show "ruled s l s'" if "coupon_step (\<lambda>_. True) (s, w) l (s', w')" for s w l s' w' using engine_ruled [OF that] by simp
qed (use engine_dispatch_ruled in \<open>auto simp: ruled_def\<close>)

section \<open>Properties\<close>

text \<open>
  C16. A bond issuer under governance is governed. In any history of calls to the governance contract, to
  the issuers and to anything else, if the administrator of an issuer is the governance contract, then
  every step that issues a bond or changes the status of one is the execution of a proposal to that issuer
  that the threshold of distinct signers approved and whose timelock has passed. A bond is issued with
  exactly the terms that were proposed, and matures only if its maturing was proposed.
\<close>

theorem issuer_governed:
  assumes "governance_constructor env0 signers threshold timelock allowed = Ok st0"
    and "run (issuer_system c g other) (st0, W0, w0) ls (st, W, w)" and "Suc (length ls) < 2 ^ 64"
    and "issuer_system c g other (st, W, w) l (st', W', w')"
    and "W r = Some iss" and "W' r = Some iss'" and "iss_admin iss = Some g"
    and "bonds_change (ledger_of iss) (ledger_of iss')"
  shows "\<exists>q. sanctioned signers threshold timelock g env st (fst l) r q \<and>
    (\<forall>b cfg. pget (iss_configs iss') b = Some cfg \<and> pget (iss_configs iss) b \<noteq> Some cfg \<longrightarrow>
       pr_method q = ''issue_bond'' \<and> (\<exists>v n. pr_args q = [AddressVal g, v, U64Val n] \<and> dec_config c v = Some cfg)) \<and>
    (\<forall>b s s'. pget (iss_states iss) b = Some s \<and> pget (iss_states iss') b = Some s' \<and> bs_status s \<noteq> Matured \<and>
       bs_status s' = Matured \<longrightarrow>
       pr_method q = ''mature_bond'' \<and> (\<exists>n. pr_args q = [AddressVal g, U64Val b, U64Val n]))"
proof -
  have admin: "lg_admin (ledger_of iss) = Some g" using assms(7) by (simp add: ledger_of_def)
  from issuers.governed_change [OF assms(1) _ assms(2-6) admin assms(8), of env] obtain q e where
    q: "sanctioned signers threshold timelock g env st (fst l) r q"
    and d: "issuer_dispatch c e (pr_method q) (pr_args q) iss = Some iss'" by auto
  have [simp]: "lg_configs (ledger_of s) = pget (iss_configs s)" "lg_states (ledger_of s) = pget (iss_states s)" for s
    by (simp_all add: ledger_of_def)
  from q have g: "pr_args q ! 0 = AddressVal g" by (simp add: sanctioned_def)
  have "pr_method q = ''issue_bond'' \<and> (\<exists>v n. pr_args q = [AddressVal g, v, U64Val n] \<and> dec_config c v = Some cfg)"
    if "pget (iss_configs iss') b = Some cfg \<and> pget (iss_configs iss) b \<noteq> Some cfg" for b cfg
    using issuer_dispatch_terms(1) [OF d, of b cfg] that g by auto
  moreover have "pr_method q = ''mature_bond'' \<and> (\<exists>n. pr_args q = [AddressVal g, U64Val b, U64Val n])"
    if "pget (iss_states iss) b = Some s \<and> pget (iss_states iss') b = Some s' \<and> bs_status s \<noteq> Matured \<and> bs_status s' = Matured"
    for b s s' using issuer_dispatch_terms(2) [OF d, of b s s'] that g by auto
  ultimately show ?thesis using q by blast
qed

text \<open>
  C17. An oracle under governance is governed. In any history of calls to the governance contract, to the
  oracles, to the registries and to anything else, if the administrator of an oracle is the governance
  contract, then every step that appoints a provider, dismisses one that has stake left, raises the number
  of verifications or proposes or cancels another administrator is the execution of a proposal to that
  oracle that the threshold of distinct signers approved and whose timelock has passed, and does exactly
  what the proposed call does. A provider is appointed only if his appointment was proposed.
\<close>

theorem oracle_governed:
  assumes "governance_constructor env0 signers threshold timelock allowed = Ok st0"
    and "run (oracle_system c g other) (st0, W0, R0) ls (st, W, R)" and "Suc (length ls) < 2 ^ 64"
    and "oracle_system c g other (st, W, R) l (st', W', R')"
    and "W r = Some orc" and "W' r = Some orc'" and "orc_admin orc = Some g"
    and "desk_privileged (desk_of orc) (desk_of orc')"
  shows "\<exists>q. sanctioned signers threshold timelock g env st (fst l) r q \<and>
    (\<exists>e. oracle_dispatch c e (pr_method q) (pr_args q) (orc, R) = Some (orc', R')) \<and>
    (\<forall>a. is_active (desk_of orc') a \<and> \<not> is_active (desk_of orc) a \<longrightarrow> pr_method q = ''register_provider'' \<and>
       (\<exists>me n. pr_args q = [AddressVal g, AddressVal a, SymbolVal me, U64Val n]))"
proof -
  from oracles.governed_change [OF assms(1) _ assms(2-8), of env] obtain q e where
    q: "sanctioned signers threshold timelock g env st (fst l) r q"
    and d: "oracle_dispatch c e (pr_method q) (pr_args q) (orc, R) = Some (orc', R')" by blast
  from q have g: "pr_args q ! 0 = AddressVal g" by (simp add: sanctioned_def)
  have "pr_method q = ''register_provider'' \<and> (\<exists>me n. pr_args q = [AddressVal g, AddressVal a, SymbolVal me, U64Val n])"
    if "is_active (desk_of orc') a \<and> \<not> is_active (desk_of orc) a" for a
  proof -
    from oracle_dispatch_desk(1) [OF d] obtain k where "desk_step (desk_of orc) k (desk_of orc')" by blast
    from appointed [OF this] that have "dk_plist (desk_of orc') = dk_plist (desk_of orc) @ [a]" by blast
    from oracle_dispatch_desk(2) [OF d this] g show ?thesis by auto
  qed
  with q d show ?thesis by blast
qed

text \<open>
  C12. A coupon engine under governance is governed. In any history of calls to the governance contract, to
  the engines, to the contracts they read and to anything else, if the administrator of an engine is the
  governance contract, then every step that registers a bond, appoints the contract that may deduct, opens,
  continues or settles a period or sweeps leftovers is the execution of a proposal to that engine that the
  threshold of distinct signers approved and whose timelock has passed, and does exactly what the proposed
  call does. A holder is paid only if he is in the list of holders of a distribution that was proposed.
\<close>

theorem engine_governed:
  assumes "governance_constructor env0 signers threshold timelock allowed = Ok st0"
    and "run (engine_system c g other) (st0, W0, P0) ls (st, W, P)" and "Suc (length ls) < 2 ^ 64"
    and "engine_system c g other (st, W, P) l (st', W', P')"
    and "W r = Some eng" and "W' r = Some eng'" and "cpn_admin eng = Some g"
    and "rulings eng' \<noteq> rulings eng"
  shows "\<exists>q. sanctioned signers threshold timelock g env st (fst l) r q \<and>
    (\<exists>e. engine_dispatch c e (pr_method q) (pr_args q) (eng, P) = Some (eng', P')) \<and>
    (\<forall>b i h. phas (cpn_holder_distributed eng') (b, i, h) \<and> \<not> phas (cpn_holder_distributed eng) (b, i, h) \<longrightarrow>
       pr_method q = ''distribute_coupon'' \<and>
       (\<exists>v hs rid n f. pr_args q = [AddressVal g, U64Val b, U32Val i, v, U64Val rid, U64Val n, f] \<and>
          dec_holders c v = Some hs \<and> h \<in> fst ` set hs))"
proof -
  from engines.governed_change [OF assms(1) _ assms(2-8), of env] obtain q e where
    q: "sanctioned signers threshold timelock g env st (fst l) r q"
    and d: "engine_dispatch c e (pr_method q) (pr_args q) (eng, P) = Some (eng', P')" by blast
  from q have g: "pr_args q ! 0 = AddressVal g" by (simp add: sanctioned_def)
  have "pr_method q = ''distribute_coupon'' \<and>
       (\<exists>v hs rid n f. pr_args q = [AddressVal g, U64Val b, U32Val i, v, U64Val rid, U64Val n, f] \<and>
          dec_holders c v = Some hs \<and> h \<in> fst ` set hs)"
    if "phas (cpn_holder_distributed eng') (b, i, h) \<and> \<not> phas (cpn_holder_distributed eng) (b, i, h)" for b i h
  proof -
    from that have "pget (cpn_holder_distributed eng') (b, i, h) \<noteq> None" "pget (cpn_holder_distributed eng) (b, i, h) = None"
      by (auto simp: phas_pget)
    from engine_dispatch_pays [OF d this] obtain a v hs rid n f where m: "pr_method q = ''distribute_coupon''"
      and a: "pr_args q = [AddressVal a, U64Val b, U32Val i, v, U64Val rid, U64Val n, f]"
      and h: "dec_holders c v = Some hs" "h \<in> fst ` set hs" by blast
    from a g have "a = g" by simp
    with m a h show ?thesis by blast
  qed
  with q d show ?thesis by blast
qed

section \<open>Witnesses\<close>

lemmas admin_exec = issuer_dispatch_def issuer_call_def oracle_dispatch_def oracle_admin_call_def engine_dispatch_def
  engine_call_def sample_codec_def gov_env_def call_env_def

lemma sample_issue:
  "\<exists>iss'. issuer_dispatch sample_codec (call_env (gov_env 200) (Address 42)) ''issue_bond''
     [AddressVal (Address 99), OtherVal 0, U64Val 0] (issuer_constructor (Address 99)) = Some iss' \<and>
     pget (iss_configs iss') 1 = Some (sample_config\<lparr>bc_maturity_date := 1000\<rparr>)"
  by (simp add: admin_exec issuer_exec word_le_nat_alt word_less_nat_alt)

theorem issuer_governed_witness:
  "\<exists>(st :: governance) (q :: Proposal). pr_method q = ''issue_bond'' \<and>
     sanctioned [Address 1, Address 2, Address 3] 2 100 (Address 99) (gov_env 200) st 200 (Address 42) q"
proof -
  let ?iss = "issuer_constructor (Address 99)" and ?d = "alone (issuer_dispatch sample_codec)"
  let ?step = "issuer_system sample_codec (Address 99) (no_other :: unit invocation)" and ?W = "[Address 42 \<mapsto> issuer_constructor (Address 99)]"
  from sample_issue obtain iss' where d: "issuer_dispatch sample_codec (call_env (gov_env 200) (Address 42)) ''issue_bond''
      [AddressVal (Address 99), OtherVal 0, U64Val 0] ?iss = Some iss'"
    and v: "pget (iss_configs iss') 1 = Some (sample_config\<lparr>bc_maturity_date := 1000\<rparr>)" by blast
  from d have "?d (call_env (gov_env 200) (Address 42)) ''issue_bond''
    [AddressVal (Address 99), OtherVal 0, U64Val 0] (?iss, ()) = Some (iss', ())" by simp
  from sample_execution [where dispatch = ?d, OF this, of ?W "steps_alone (\<lambda>s l. issuer_step s (snd l))" no_other]
  obtain st0 st3 st4 where 0: "council_for (Address 42) ''issue_bond'' = Ok st0"
    and run: "run ?step (st0, ?W, ()) gov_labels (st3, ?W, ())"
    and s: "?step (st3, ?W, ()) (200, Some (Address 5, 0)) (st4, ?W(Address 42 \<mapsto> iss'), ())" by auto
  have old: "pget (iss_configs ?iss) 1 = None" "iss_admin ?iss = Some (Address 99)"
    by (simp_all add: issuer_constructor_def pget_def)
  have change: "bonds_change (ledger_of ?iss) (ledger_of iss')"
    using v old(1) by (auto simp: bonds_change_def ledger_of_def)
  have len: "Suc (length gov_labels) < 2 ^ 64" by simp
  from issuer_governed [OF 0 run len s _ _ old(2) change, where env = "gov_env 200" and r = "Address 42"] v old(1)
  show ?thesis by fastforce
qed

lemma sample_appointment:
  "\<exists>orc'. oracle_dispatch sample_codec (call_env (gov_env 200) (Address 42)) ''register_provider''
     [AddressVal (Address 99), AddressVal (Address 7), SymbolVal ''m'', U64Val 0] (oracle_constructor (Address 99), Map.empty) =
       Some (orc', Map.empty) \<and> is_active (desk_of orc') (Address 7)"
  by (simp add: admin_exec oracle_exec is_active_def desk_of_def word_le_nat_alt word_less_nat_alt)

theorem oracle_governed_witness:
  "\<exists>(st :: governance) (q :: Proposal). pr_method q = ''register_provider'' \<and>
     sanctioned [Address 1, Address 2, Address 3] 2 100 (Address 99) (gov_env 200) st 200 (Address 42) q"
proof -
  let ?orc = "oracle_constructor (Address 99)" and ?d = "oracle_dispatch sample_codec"
  let ?step = "oracle_system sample_codec (Address 99) no_other" and ?W = "[Address 42 \<mapsto> oracle_constructor (Address 99)]"
  from sample_appointment obtain orc' where d: "?d (call_env (gov_env 200) (Address 42)) ''register_provider''
      [AddressVal (Address 99), AddressVal (Address 7), SymbolVal ''m'', U64Val 0] (?orc, Map.empty) = Some (orc', Map.empty)"
    and v: "is_active (desk_of orc') (Address 7)" by blast
  from sample_execution [where dispatch = ?d, OF d, of ?W "oracle_step (\<lambda>_. True)" no_other]
  obtain st0 st3 st4 where 0: "council_for (Address 42) ''register_provider'' = Ok st0"
    and run: "run ?step (st0, ?W, Map.empty) gov_labels (st3, ?W, Map.empty)"
    and s: "?step (st3, ?W, Map.empty) (200, Some (Address 5, 0)) (st4, ?W(Address 42 \<mapsto> orc'), Map.empty)" by auto
  have old: "\<not> is_active (desk_of ?orc) (Address 7)" "orc_admin ?orc = Some (Address 99)"
    by (simp_all add: oracle_constructor_def desk_of_def is_active_def pget_def)
  have change: "desk_privileged (desk_of ?orc) (desk_of orc')" using v old(1) by (auto simp: desk_privileged_def)
  have len: "Suc (length gov_labels) < 2 ^ 64" by simp
  from oracle_governed [OF 0 run len s _ _ old(2) change, where env = "gov_env 200" and r = "Address 42"] v old(1)
  show ?thesis by auto
qed

lemma sample_payment:
  "\<exists>eng P eng' P'. register_bond (call_env (gov_env 150) (Address 90)) (Address 99) 1 (replicate 32 1) 0
       (coupon_constructor (Address 99) (Address 40) (Address 41) (Address 42)) sample_peers = Ok (eng, P) \<and>
     engine_dispatch sample_codec (call_env (gov_env 200) (Address 90)) ''distribute_coupon''
       [AddressVal (Address 99), U64Val 1, U32Val 0, OtherVal 0, U64Val 7, U64Val 1, OtherVal 1] (eng, P) = Some (eng', P') \<and>
     phas (cpn_holder_distributed eng') (1, 0, Address 1) \<and> \<not> phas (cpn_holder_distributed eng) (1, 0, Address 1) \<and>
     cpn_admin eng = Some (Address 99)"
  by (simp add: admin_exec coupon_exec word_le_nat_alt word_less_nat_alt) blast

theorem engine_governed_witness:
  "\<exists>(st :: governance) (q :: Proposal). pr_method q = ''distribute_coupon'' \<and>
     sanctioned [Address 1, Address 2, Address 3] 2 100 (Address 99) (gov_env 200) st 200 (Address 90) q"
proof -
  let ?d = "engine_dispatch sample_codec" and ?step = "engine_system sample_codec (Address 99) no_other"
  from sample_payment obtain eng P eng' P' where d: "?d (call_env (gov_env 200) (Address 90)) ''distribute_coupon''
       [AddressVal (Address 99), U64Val 1, U32Val 0, OtherVal 0, U64Val 7, U64Val 1, OtherVal 1] (eng, P) = Some (eng', P')"
    and v: "phas (cpn_holder_distributed eng') (1, 0, Address 1)" "\<not> phas (cpn_holder_distributed eng) (1, 0, Address 1)"
      "cpn_admin eng = Some (Address 99)" by blast
  let ?W = "[Address 90 \<mapsto> eng]"
  from sample_execution [where dispatch = ?d, OF d, of ?W "coupon_step (\<lambda>_. True)" no_other]
  obtain st0 st3 st4 where 0: "council_for (Address 90) ''distribute_coupon'' = Ok st0"
    and run: "run ?step (st0, ?W, P) gov_labels (st3, ?W, P)"
    and s: "?step (st3, ?W, P) (200, Some (Address 5, 0)) (st4, ?W(Address 90 \<mapsto> eng'), P')" by auto
  have change: "rulings eng' \<noteq> rulings eng" using v(1,2) by (auto simp: phas_pget dest: other_marks(4))
  have len: "Suc (length gov_labels) < 2 ^ 64" by simp
  from engine_governed [OF 0 run len s _ _ v(3) change, where env = "gov_env 200" and r = "Address 90"] v(1,2)
  show ?thesis by fastforce
qed

end
