(* ===== verification/Spec2Isabelle.thy ===== *)
theory Spec2Isabelle
  imports Dex Retirement Batches Settlement System Administration
begin

text \<open>
  A verification of the smart contracts of the nature-based bond protocol, the Rust workspace under
  \<^verbatim>\<open>src/contracts\<close>, which run on the Soroban host.

  \<^bold>\<open>The program.\<close> Seven contracts share the types of \<^verbatim>\<open>shared/src\<close>. A project is entered in the
  project registry and approved by its administrator. The bond issuer issues bonds on projects, which
  investors subscribe, transfer and, at maturity, redeem. Oracle providers stake, report the carbon and
  biodiversity results of a project for a period, and verify each other's reports; anybody who posts a
  bond may challenge one, and a rejected report costs its provider a part of the stake and the project its
  approval. The coupon engine turns a verified report into credits for the holders of a bond, in batches,
  which they claim. The retirement contract deducts accrued credits for good and keeps certificates. The
  DEX router keeps an order book of bond tokens and settles purchases through the bond issuer. The
  governance contract, meant as the administrator of the others, executes calls that a quorum of signers
  approved.

  \<^bold>\<open>The theories.\<close>
  \<^item> \<open>Prelude\<close>: results (\<open>Ok\<close>, \<open>Err\<close>, \<open>Trap\<close>), fixed-width arithmetic, sums over maps, runs of a step
    relation, and the locales \<open>machine\<close> (an invariant kept by every step), \<open>simulation\<close> (a refinement) and
    \<open>simulated_machine\<close> (an invariant of the abstract machine carried to the concrete one).
  \<^item> \<open>Host\<close>: what the contracts use of the host: clock, authorisation, persistent entries with a lifetime,
    the plain operators (which wrap or panic, as the build decides), calls between contracts; and the locale
    \<open>nonce_machine\<close> with the lemma that no signed request is accepted twice.
  \<^item> \<open>Shared\<close>: the error enumerations and structs of \<^verbatim>\<open>shared/src/errors.rs\<close> and \<^verbatim>\<open>shared/src/types.rs\<close>; the
    locale \<open>admin_rotation\<close> with the lemma that the administrator changes only by an acceptance 48 hours after
    a proposal, interpreted on the registry and the oracle; and \<open>token_ledger\<close>, the issuer as others see it.
  \<^item> \<open>Issuer\<close>: \<^verbatim>\<open>bond-issuer\<close>; refines a ledger of bonds and balances.
  \<^item> \<open>Registry\<close>: \<^verbatim>\<open>project-registry\<close>; refines a register of projects with one live project per hash.
  \<^item> \<open>Dex\<close>: \<^verbatim>\<open>dex-router\<close>, composed with the issuers it settles in; refines a market of orders and
    quote balances.
  \<^item> \<open>Oracle\<close>, \<open>Report_Desk\<close> and \<open>Challenges\<close>: \<^verbatim>\<open>oracle-consumer\<close>, composed with the registries it reads and
    revokes in, its refinement of a desk of reports, and the bonds of challengers with the properties of reports
    and challenges.
  \<^item> \<open>Coupon\<close> and \<open>Coupon_Book\<close>: \<^verbatim>\<open>coupon-engine\<close>, composed with issuers, oracles and registries, and its
    refinement of a book of credits.
  \<^item> \<open>Calendar\<close> and \<open>Retirement\<close>: \<^verbatim>\<open>credit-retirement\<close>, composed with an issuer and a coupon engine; refines a
    history that is only appended to.
  \<^item> \<open>Batches\<close>: a period of the coupon engine distributed in several calls, compared with one call, and why
    the calls that pay for a period come to an end.
  \<^item> \<open>Settlement\<close>: a period of the coupon engine settled in one call from the issuer's holder list.
  \<^item> \<open>Governance\<close>: \<^verbatim>\<open>governance\<close>; refines a council. The contract that a proposal calls is a parameter.
  \<^item> \<open>Governed\<close>: the governance contract in one system with the contracts it calls: the parameter is
    instantiated by a contract's entrypoints, found by name with decoded arguments. The locale \<open>administered\<close>
    says what a contract promises to its administrator and shows that, under governance, what only the
    administrator may do needs a quorum.
  \<^item> \<open>System\<close> and \<open>Administration\<close>: its interpretations for the project registry, and for the bond issuer, the
    oracle and the coupon engine.

  \<^bold>\<open>How the code is represented.\<close> The storage of a contract is a record with one field for each variant of
  its \<^verbatim>\<open>DataKey\<close>: instance entries are options, each persistent family is a map to the entry and its
  lifetime, and published events are a list. Each function is one definition under its Rust name (with a
  prefix where several contracts use the name), from the arguments, the environment \<open>env\<close> and the state to a
  result and the new state; loops are recursive functions. \<open>Err\<close> is an error the contract returns, \<open>Trap\<close> a
  panic or a failure of the host; in both cases the host undoes all changes, so a step of a contract is a
  call that returned \<open>Ok\<close>. Words keep their width; \<^verbatim>\<open>i128\<close> amounts are integers, and each operation says
  whether it is checked, saturates, or is a plain operator. A call to another contract runs that
  contract's definition on its state, in the environment the callee sees.

  \<^bold>\<open>What is shown.\<close> For each contract, by rule induction over its step relation through the locales above:
  conservation laws (supply, quote balances, challenge bonds, credits), exactness of indexes and totals,
  life cycles (bonds, projects, orders, reports, challenges, periods, certificates, proposals), guards
  (quorum, timelock, allowlist, supermajority), replay protection, and that calls which must succeed do.
  Optimised routines are proved equal to plain definitions: the best price to greedy filling of the sorted
  orders, paged getters to slices, a distribution in batches to one in a single call, the vintage year to counting calendar years, the migrated storage to
  the old one. \<open>System\<close>, \<open>Administration\<close> and \<open>Settlement\<close> show what contracts do together: a governed registry,
  issuer, oracle or coupon engine does nothing privileged without a quorum, and the issuer's holder list, for
  all its repetitions, settles a period of the coupon engine. This theory adds what spans all contracts: no
  credit is both retired and claimed, and no signed request is accepted twice.

  \<^bold>\<open>Bounds.\<close> Runs are arbitrary finite sequences of calls in any order. Where identifiers or nonces are
  counted in 64 bits, a run is shorter than \<open>2 ^ 64\<close> calls. Invariants that rest on plain operators not
  wrapping assume a build that checks overflow (\<open>overflow_checks\<close>), which the workspace's \<^verbatim>\<open>Cargo.toml\<close> does
  not ask for in release builds; checked operations need no such assumption. No fuel is used: every
  loop of the code is bounded and its model is total. What the code leaves to its callers, how often to call
  for a period, ends as well: calls that pay for a period are well-founded.

  \<^bold>\<open>Not modelled.\<close> The host's archival of entries (an archived entry cannot be read as absent; the host
  fails the call), its resource limits, and token transfers outside the contracts. The tests in each
  \<^verbatim>\<open>lib.rs\<close> and \<^verbatim>\<open>contracts/tests\<close> are test code. The API server, the user interface, the oracle
  service and the deployment scripts are TypeScript around the contracts: networks, databases and forms.

  \<^bold>\<open>Coverage.\<close> All contracts are modelled with every entrypoint, and the map covers their code without the
  tests. The values of a proposal that the governance contract does not look into are decoded by the host's
  SDK, which is a parameter (\<open>codec\<close>). The administrator of the
  router only removes expired orders and that of the retirement contract has no duties, so these two are not
  put under governance.
\<close>

section \<open>Properties across contracts\<close>

text \<open>
  C1. No credit is counted twice. Whatever calls are made to the retirement contract, to the coupon engine
  it deducts from and to the contracts the engine reads, for every bond the credits retired for good and
  the credits claimed together are at most the credits the engine granted: those its distribution and sweep
  events announce and those handed out by batches that are still open.
\<close>

theorem no_double_counting:
  assumes "coupon_start n (eng0, P0)" and "C0 coupon = Some eng0"
    and "run (retire_step overflow_checks) (retirement_constructor env admin iss coupon, C0, P0) ls (st, C, P)"
    and "n + 4 * length ls < 2 ^ 64"
  shows "\<exists>eng. C coupon = Some eng \<and>
    retired_on b (history_of st) + (\<Sum>e\<leftarrow>cpn_events eng. claimed_flow b e) \<le>
      (\<Sum>e\<leftarrow>cpn_events eng. granted_flow b e) + in_flight (pget (cpn_batch_state eng)) b"
proof -
  let ?s0 = "(retirement_constructor env admin iss coupon, C0, P0)"
  have "cpn_events eng0 = []" using assms(1) by (auto simp: coupon_start_def coupon_constructor_def)
  then have "backed coupon (eng0, P0) 0 ?s0"
    using assms(2) retirement_start run_refl
    by (auto simp: backed_def retired_on_def retirement_constructor_def)
  from backed_run [OF assms(3) this coupon_start_typed [OF assms(1)]] obtain eng ls'
    where eng: "C coupon = Some eng" and run: "run (coupon_step overflow_checks) (eng0, P0) ls' (eng, P)"
      and len: "length ls' \<le> 4 * length ls"
      and ret: "retired_on b (history_of st) \<le> (\<Sum>e\<leftarrow>cpn_events eng. deducted_flow b e)"
    by (auto simp: backed_def)
  from len assms(4) have "n + length ls' < 2 ^ 64" by simp
  from accrued_covers [OF assms(1) run this, of b] ret eng show ?thesis
    by auto
qed

theorem no_double_counting_witness:
  "\<exists>(st :: retirement) (C :: engines) (P :: peers) (eng :: coupon_engine).
     run (retire_step overflow_checks) (sample_archive, sample_engines, sample_peers) retire_labels (st, C, P) \<and>
     C (Address 90) = Some eng \<and>
     retired_on 1 (history_of st) + (\<Sum>e\<leftarrow>cpn_events eng. claimed_flow 1 e) \<le>
       (\<Sum>e\<leftarrow>cpn_events eng. granted_flow 1 e) + in_flight (pget (cpn_batch_state eng)) 1"
proof -
  from sample_retirement_run obtain st C P
    where r: "run (retire_step overflow_checks) (sample_archive, sample_engines, sample_peers) retire_labels (st, C, P)" by blast
  have C0: "sample_engines (Address 90) = Some sample_engine" by (simp add: sample_engines_def)
  have "1 + 4 * length retire_labels < 2 ^ 64" by simp
  from no_double_counting [OF sample_coupon_start C0 r [unfolded sample_archive_def] this, of 1] r show ?thesis by blast
qed

text \<open>
  C18. No signed request is accepted twice by any contract. In every history of fewer than \<open>2 ^ 64\<close>
  calls to the issuer, the registry, the order book, the oracle, the coupon engine, the retirement contract
  or the governance contract, with any calls to the other contracts in between, the accepted pairs of
  caller and nonce are distinct. (The governance contract spends its own nonce when it changes its
  configuration, so there the statement is about the other callers.)
\<close>

theorem no_request_replayed:
  "(run issuer_step i li i' \<longrightarrow> length li < 2 ^ 64 \<longrightarrow> unrepeated li) \<and>
   (run registry_step r lr r' \<longrightarrow> length lr < 2 ^ 64 \<longrightarrow> unrepeated (map snd lr)) \<and>
   (run dex_step (dex_constructor admin bi ce, W) ld d' \<longrightarrow> length ld < 2 ^ 64 \<longrightarrow> unrepeated ld) \<and>
   (run (oracle_step E) q lo q' \<longrightarrow> length lo < 2 ^ 64 \<longrightarrow> unrepeated (map snd lo)) \<and>
   (coupon_start n c \<longrightarrow> run (coupon_step overflow_checks) c lc c' \<longrightarrow> length lc < 2 ^ 64 \<longrightarrow> unrepeated (map snd lc)) \<and>
   (run (retire_step overflow_checks) (retirement_constructor env admin iss eng, C, P) lv v' \<longrightarrow> length lv < 2 ^ 64 \<longrightarrow>
      unrepeated (map snd lv)) \<and>
   (run (gov_step (governed self) invoke) g lg g' \<longrightarrow> length lg < 2 ^ 64 \<longrightarrow> unrepeated (map (outside self) lg))"
proof (intro conjI impI)
  show "unrepeated li" if "run issuer_step i li i'" "length li < 2 ^ 64"
    using issuer_nonces.no_replay [OF that] by (simp add: unrepeated_def)
  show "unrepeated (map snd lr)" if "run registry_step r lr r'" "length lr < 2 ^ 64"
    using registry_nonces.no_replay [OF that] by (simp add: unrepeated_def)
  show "unrepeated ld" if "run dex_step (dex_constructor admin bi ce, W) ld d'" "length ld < 2 ^ 64"
  proof -
    have "dex_typed (fst (dex_constructor admin bi ce, W))" by (simp add: dex_typed_def dex_constructor_def storage_simps)
    from dex_nonces.no_replay [OF dex.run_guarded [OF that(1) this] that(2)] show ?thesis by (simp add: unrepeated_def)
  qed
  show "unrepeated (map snd lo)" if "run (oracle_step E) q lo q'" "length lo < 2 ^ 64"
    using oracle_nonces.no_replay [OF that] by (simp add: unrepeated_def)
  show "unrepeated (map snd lc)" if "coupon_start n c" "run (coupon_step overflow_checks) c lc c'" "length lc < 2 ^ 64"
    using book_nonces.no_replay [OF coupon_book.run_refines [OF that(2) coupon_start_typed [OF that(1)]] that(3)]
    by (simp add: unrepeated_def)
  show "unrepeated (map snd lv)"
    if "run (retire_step overflow_checks) (retirement_constructor env admin iss eng, C, P) lv v'" "length lv < 2 ^ 64"
    using vault_nonces.no_replay [OF retirement_vault.run_refines [OF that(1) retirement_start(2)] that(2)]
    by (simp add: unrepeated_def)
  show "unrepeated (map (outside self) lg)" if "run (gov_step (governed self) invoke) g lg g'" "length lg < 2 ^ 64"
    using council_nonces.no_replay [OF chamber.run_refines [OF that(1) TrueI] that(2)] by (simp add: unrepeated_def)
qed

theorem no_request_replayed_witness:
  "\<exists>(i' :: issuer) (r' :: registry) (W :: address \<rightharpoonup> issuer) d' q' c' v' (g :: governance) g'.
     run issuer_step (issuer_constructor (Address 0)) [Some (Address 0, 0), Some (Address 1, 0)] i' \<and>
     run registry_step (registry_constructor (sample_env 5) (Address 0)) [(10, Some (Address 1, 0)), (20, Some (Address 0, 0))] r' \<and>
     run dex_step (dex_constructor (Address 0) (Address 7) (Address 8), W) [Some (Address 1, 0), Some (Address 2, 0)] d' \<and>
     run (oracle_step overflow_checks) (oracle_constructor (Address 0), sample_registries) sample_labels q' \<and>
     run (coupon_step overflow_checks) (sample_engine, sample_peers) coupon_labels c' \<and>
     run (retire_step overflow_checks) (sample_archive, sample_engines, sample_peers) retire_labels v' \<and>
     run (gov_step (governed (Address 99)) registry_calls) (g, sample_world) gov_labels g' \<and>
     unrepeated [Some (Address 0, 0), Some (Address 1, 0)] \<and>
     unrepeated (map snd [(10 :: u64, Some (Address 1, 0)), (20, Some (Address 0, 0))]) \<and>
     unrepeated [Some (Address 1, 0), Some (Address 2, 0)] \<and> unrepeated (map snd sample_labels) \<and>
     unrepeated (map snd coupon_labels) \<and> unrepeated (map snd retire_labels) \<and>
     unrepeated (map (outside (Address 99)) gov_labels)"
proof -
  from sample_subscribed obtain i' where
    i: "run issuer_step (issuer_constructor (Address 0)) [Some (Address 0, 0), Some (Address 1, 0)] i'" by blast
  from sample_registered obtain r' where
    r: "run registry_step (registry_constructor (sample_env 5) (Address 0)) [(10, Some (Address 1, 0)), (20, Some (Address 0, 0))] r'"
    by blast
  from sample_trade obtain W d' where
    d: "run dex_step (dex_constructor (Address 0) (Address 7) (Address 8), W) [Some (Address 1, 0), Some (Address 2, 0)] d'" by blast
  from sample_runs obtain q' where
    q: "run (oracle_step overflow_checks) (oracle_constructor (Address 0), sample_registries) sample_labels q'" by blast
  from sample_coupon_run obtain c' where
    c: "run (coupon_step overflow_checks) (sample_engine, sample_peers) coupon_labels c'" by blast
  from sample_retirement_run obtain v' where
    v: "run (retire_step overflow_checks) (sample_archive, sample_engines, sample_peers) retire_labels v'" by blast
  from sample_gov_run obtain g g' where
    g: "run (gov_step (governed (Address 99)) registry_calls) (g, sample_world) gov_labels g'" by blast
  have len: "length [Some (Address 0, 0 :: u64), Some (Address 1, 0)] < 2 ^ 64"
    "length [(10 :: u64, Some (Address 1, 0 :: u64)), (20, Some (Address 0, 0))] < 2 ^ 64"
    "length [Some (Address 1, 0 :: u64), Some (Address 2, 0)] < 2 ^ 64" "length sample_labels < 2 ^ 64"
    "length coupon_labels < 2 ^ 64" "length retire_labels < 2 ^ 64" "length gov_labels < 2 ^ 64"
    by simp_all
  note * = no_request_replayed
  note u = *[THEN conjunct1, rule_format, OF i len(1)]
    *[THEN conjunct2, THEN conjunct1, rule_format, OF r len(2)]
    *[THEN conjunct2, THEN conjunct2, THEN conjunct1, rule_format, OF d len(3)]
    *[THEN conjunct2, THEN conjunct2, THEN conjunct2, THEN conjunct1, rule_format, OF q len(4)]
    *[THEN conjunct2, THEN conjunct2, THEN conjunct2, THEN conjunct2, THEN conjunct1, rule_format, OF sample_coupon_start c len(5)]
    *[THEN conjunct2, THEN conjunct2, THEN conjunct2, THEN conjunct2, THEN conjunct2, THEN conjunct1, rule_format,
        OF v [unfolded sample_archive_def] len(6)]
    *[THEN conjunct2, THEN conjunct2, THEN conjunct2, THEN conjunct2, THEN conjunct2, THEN conjunct2, rule_format, OF g len(7)]
  show ?thesis using i r d q c v g u by blast
qed

end
